(* ===== verification/Json.thy ===== *)
theory Json
  imports Complex_Main Hub_Prelude
begin

text \<open>
  \<open>serde_json::Value\<close> and the accessors the program uses on it. A \<open>Number\<close> keeps
  serde's three representations (\<open>u64\<close>, negative \<open>i64\<close>, finite \<open>f64\<close>): \<open>as_u64\<close>
  answers only for the first, which the validity checks depend on. A finite double is the
  rational it denotes. An object is the key-ordered association list of a \<open>BTreeMap\<close>.
\<close>

section \<open>Values\<close>

datatype number = PosInt nat | NegInt int | Float rat

datatype json =
    JNull
  | JBool bool
  | JNum number
  | JStr string
  | JArr "json list"
  | JObj "(string \<times> json) list"

text \<open>Keys are ordered bytewise, as \<open>BTreeMap<String, _>\<close> orders them.\<close>

fun str_less :: "string \<Rightarrow> string \<Rightarrow> bool" where
  "str_less [] [] = False"
| "str_less [] (y # ys) = True"
| "str_less (x # xs) [] = False"
| "str_less (x # xs) (y # ys) = (byte x < byte y \<or> (x = y \<and> str_less xs ys))"

fun bt_insert :: "string \<Rightarrow> 'v \<Rightarrow> (string \<times> 'v) list \<Rightarrow> (string \<times> 'v) list" where
  "bt_insert k v [] = [(k, v)]"
| "bt_insert k v ((k', v') # m) =
     (if k = k' then (k, v) # m
      else if str_less k k' then (k, v) # (k', v') # m
      else (k', v') # bt_insert k v m)"

text \<open>\<open>json!({k1: v1, ...})\<close> inserts the fields in the order they are written.\<close>

definition json_obj :: "(string \<times> json) list \<Rightarrow> json" where
  "json_obj kvs = JObj (fold (\<lambda>(k, v) m. bt_insert k v m) kvs [])"

section \<open>Accessors\<close>

fun json_get :: "json \<Rightarrow> string \<Rightarrow> json option" where
  "json_get (JObj m) k = map_of m k"
| "json_get _ k = None"

fun as_str :: "json \<Rightarrow> string option" where
  "as_str (JStr s) = Some s"
| "as_str _ = None"

fun as_u64 :: "json \<Rightarrow> u64 option" where
  "as_u64 (JNum (PosInt n)) = Some n"
| "as_u64 _ = None"

fun as_array :: "json \<Rightarrow> json list option" where
  "as_array (JArr xs) = Some xs"
| "as_array _ = None"

definition get_str :: "json \<Rightarrow> string \<Rightarrow> string option" where
  "get_str v k = Option.bind (json_get v k) as_str"

definition get_u64 :: "json \<Rightarrow> string \<Rightarrow> u64 option" where
  "get_u64 v k = Option.bind (json_get v k) as_u64"

text \<open>\<open>.and_then(Value::as_str).unwrap_or("")\<close> and \<open>.and_then(Value::as_u64).unwrap_or(0)\<close> on a field.\<close>

definition str_claim :: "json \<Rightarrow> string \<Rightarrow> string" where
  "str_claim v k = (case get_str v k of None \<Rightarrow> [] | Some s \<Rightarrow> s)"

definition u64_claim :: "json \<Rightarrow> string \<Rightarrow> u64" where
  "u64_claim v k = (case get_u64 v k of None \<Rightarrow> 0 | Some n \<Rightarrow> n)"

text \<open>A field that is a \<open>u64\<close> beyond a bound; anything else in its place is not.\<close>

definition u64_after :: "json \<Rightarrow> string \<Rightarrow> u64 \<Rightarrow> bool" where
  "u64_after v k bound = (case get_u64 v k of None \<Rightarrow> False | Some n \<Rightarrow> n > bound)"

text \<open>
  \<open>v.pointer("/a/b")\<close> on reference tokens that are not array indices, the only ones the
  program uses: such a token selects nothing in an array.
\<close>

fun json_pointer :: "json \<Rightarrow> string list \<Rightarrow> json option" where
  "json_pointer v [] = Some v"
| "json_pointer v (k # ks) =
     (case json_get v k of None \<Rightarrow> None | Some v' \<Rightarrow> json_pointer v' ks)"

text \<open>\<open>v[k] = x\<close> on an object; \<open>Null\<close> becomes an object first.\<close>

fun json_set :: "string \<Rightarrow> json \<Rightarrow> json \<Rightarrow> json" where
  "json_set k x (JObj m) = JObj (bt_insert k x m)"
| "json_set k x JNull = JObj [(k, x)]"
| "json_set k x v = v"

abbreviation opt_json :: "('a \<Rightarrow> json) \<Rightarrow> 'a option \<Rightarrow> json" where
  "opt_json f x \<equiv> (case x of None \<Rightarrow> JNull | Some a \<Rightarrow> f a)"

section \<open>Laws\<close>

lemma map_of_bt_insert [simp]: "map_of (bt_insert k v m) k' = (if k' = k then Some v else map_of m k')"
  by (induction m) auto

lemma map_of_fold_bt_insert:
  "map_of (fold (\<lambda>(k, v) m. bt_insert k v m) kvs m) k =
     (case map_of (rev kvs) k of None \<Rightarrow> map_of m k | Some v \<Rightarrow> Some v)"
  by (induction kvs arbitrary: m) (auto simp: map_add_def split: option.splits)

text \<open>Reading a field of a literal object finds the last value written under its key.\<close>

lemma json_get_obj [simp]: "json_get (json_obj kvs) k = map_of (rev kvs) k"
  by (simp add: json_obj_def map_of_fold_bt_insert split: option.splits)

lemma json_get_set_obj [simp]:
  "json_get (json_set k x (JObj m)) k' = (if k' = k then Some x else map_of m k')"
  by simp

lemma json_get_set_json_obj [simp]:
  "json_get (json_set k x (json_obj kvs)) k' = (if k' = k then Some x else map_of (rev kvs) k')"
  using json_get_obj [of kvs k'] by (auto simp: json_obj_def simp del: json_get_obj)

lemma json_set_obj_is_obj: "\<exists>m. json_set k x (json_obj kvs) = JObj m"
  by (simp add: json_obj_def)

lemma as_str_Some [simp]: "as_str v = Some s \<longleftrightarrow> v = JStr s"
  by (cases v) auto

lemma as_u64_Some [simp]: "as_u64 v = Some n \<longleftrightarrow> v = JNum (PosInt n)"
  by (cases v rule: as_u64.cases) auto

lemma get_str_Some: "get_str v k = Some s \<longleftrightarrow> json_get v k = Some (JStr s)"
  by (auto simp: get_str_def bind_eq_Some_conv)

lemma get_u64_Some: "get_u64 v k = Some n \<longleftrightarrow> json_get v k = Some (JNum (PosInt n))"
  by (auto simp: get_u64_def bind_eq_Some_conv)

lemma get_str_obj [simp]:
  "get_str (json_obj kvs) k = Option.bind (map_of (rev kvs) k) as_str"
  by (simp add: get_str_def)

lemma get_u64_obj [simp]:
  "get_u64 (json_obj kvs) k = Option.bind (map_of (rev kvs) k) as_u64"
  by (simp add: get_u64_def)

section \<open>The order of keys\<close>

lemma str_less_irrefl [simp]: "\<not> str_less x x"
  by (induction x) auto

lemma str_less_asym: "str_less x y \<Longrightarrow> \<not> str_less y x"
  by (induction x y rule: str_less.induct) auto

lemma byte_inject: "byte a = byte b \<Longrightarrow> a = b"
  by (simp add: byte_def of_char_eq_iff)

lemma str_less_cases: "\<not> str_less x y \<Longrightarrow> \<not> str_less y x \<Longrightarrow> x = y"
  by (induction x y rule: str_less.induct) (auto intro: byte_inject simp: not_less)

lemma str_less_trans: "str_less x y \<Longrightarrow> str_less y z \<Longrightarrow> str_less x z"
proof (induction x y arbitrary: z rule: str_less.induct)
  case (2 y ys)
  then show ?case by (cases z) auto
next
  case (4 x xs y ys)
  then show ?case by (cases z) auto
qed auto

section \<open>What survives being written and read back\<close>

text \<open>
  A value without doubles, whose objects are in key order, as every \<open>json!\<close> without a double builds it:
  serde reads its text back as the same value.
\<close>

fun canonical_json :: "json \<Rightarrow> bool" where
  "canonical_json (JNum (PosInt n)) \<longleftrightarrow> True"
| "canonical_json (JNum (NegInt i)) \<longleftrightarrow> i < 0"
| "canonical_json (JNum (Float r)) \<longleftrightarrow> False"
| "canonical_json (JArr xs) \<longleftrightarrow> (\<forall>x \<in> set xs. canonical_json x)"
| "canonical_json (JObj m) \<longleftrightarrow> sorted_wrt (\<lambda>x y. str_less (fst x) (fst y)) m \<and> (\<forall>x \<in> set m. canonical_json (snd x))"
| "canonical_json v \<longleftrightarrow> True"

lemma set_bt_insert: "set (bt_insert k v m) \<subseteq> insert (k, v) (set m)"
  by (induction m) (auto split: if_splits)

lemma sorted_bt_insert:
  "sorted_wrt (\<lambda>x y. str_less (fst x) (fst y)) m \<Longrightarrow> sorted_wrt (\<lambda>x y. str_less (fst x) (fst y)) (bt_insert k v m)"
proof (induction m)
  case (Cons x m)
  obtain k' v' where x: "x = (k', v')" by fastforce
  from Cons.prems x have m: "sorted_wrt (\<lambda>x y. str_less (fst x) (fst y)) m" "\<forall>y \<in> set m. str_less k' (fst y)" by auto
  consider "k = k'" | "k \<noteq> k'" "str_less k k'" | "k \<noteq> k'" "\<not> str_less k k'" by blast
  then show ?case
  proof cases
    case 1
    with m show ?thesis by (simp add: x)
  next
    case 2
    with m str_less_trans [OF 2(2)] show ?thesis by (auto simp: x)
  next
    case 3
    then have "str_less k' k" using str_less_cases by blast
    with m(2) set_bt_insert [of k v m] have "\<forall>y \<in> set (bt_insert k v m). str_less k' (fst y)" by fastforce
    with 3 Cons.IH [OF m(1)] show ?thesis by (simp add: x)
  qed
qed simp

lemma canonical_insert:
  "canonical_json (JObj m) \<Longrightarrow> canonical_json v \<Longrightarrow> canonical_json (JObj (bt_insert k v m))"
  using sorted_bt_insert [of m k v] set_bt_insert [of k v m] by fastforce

lemma canonical_fold:
  "canonical_json (JObj m) \<Longrightarrow> \<forall>x \<in> set kvs. canonical_json (snd x)
   \<Longrightarrow> canonical_json (JObj (fold (\<lambda>(k, v) m. bt_insert k v m) kvs m))"
proof (induction kvs arbitrary: m)
  case (Cons x kvs)
  from Cons.IH [OF canonical_insert] Cons.prems show ?case by (simp add: split_beta del: canonical_json.simps(5))
qed simp

lemma canonical_obj [simp]: "\<forall>x \<in> set kvs. canonical_json (snd x) \<Longrightarrow> canonical_json (json_obj kvs)"
  unfolding json_obj_def by (rule canonical_fold) simp_all

lemma canonical_set [simp]: "canonical_json v \<Longrightarrow> canonical_json x \<Longrightarrow> canonical_json (json_set k x v)"
  by (cases v) (simp_all add: canonical_insert del: canonical_json.simps(5), simp)

end
