(* ===== verification/Query_Spec.thy ===== *)
theory Query_Spec
  imports Json "HOL-Library.Multiset"
begin

text \<open>
  The query language of the admin API (\<open>QuerySpec\<close>, issuer.rs): equality filters on top-level fields,
  a stable sort on one field, and paging. How serde prints a number and converts it to \<open>f64\<close> are
  parameters. \<open>slice::sort_by\<close> is specified only for a total order, so the comparison of two fields is
  a locale of its own, interpreted on the values that occur together under one key: absent, null, or
  of one JSON type.
\<close>

definition MAX_QUERY_LIMIT :: nat where
  "MAX_QUERY_LIMIT = 500"

definition DEFAULT_QUERY_LIMIT :: nat where
  "DEFAULT_QUERY_LIMIT = 50"

definition MAX_FILTER_CRITERIA :: nat where
  "MAX_FILTER_CRITERIA = 16"

record criterion =
  operand_left :: string
  operator :: string
  operand_right :: json

record query_spec =
  q_offset :: "int option"
  q_limit :: "int option"
  q_filter_expression :: "criterion list option"
  q_sort_field :: "string option"
  q_sort_order :: "string option"

definition query_default :: query_spec where
  "query_default = \<lparr>q_offset = None, q_limit = None, q_filter_expression = None,
     q_sort_field = None, q_sort_order = None\<rparr>"

record numbers =
  as_f64 :: "number \<Rightarrow> rat"
  num_display :: "number \<Rightarrow> string"

section \<open>Comparing fields\<close>

definition bool_display :: "bool \<Rightarrow> string" where
  "bool_display b = (if b then ''true'' else ''false'')"

definition operand_matches :: "numbers \<Rightarrow> json option \<Rightarrow> json \<Rightarrow> bool" where
  "operand_matches K fld operand =
     (let v = (case fld of None \<Rightarrow> JNull | Some w \<Rightarrow> w) in
      v = operand \<or>
      (case (v, operand) of
         (JNum n, JStr s) \<Rightarrow> num_display K n = s
       | (JBool b, JStr s) \<Rightarrow> bool_display b = s
       | _ \<Rightarrow> False))"

datatype ordering = Less | Equal | Greater

fun reverse_ordering :: "ordering \<Rightarrow> ordering" where
  "reverse_ordering Less = Greater"
| "reverse_ordering Equal = Equal"
| "reverse_ordering Greater = Less"

definition cmp_by :: "('a \<Rightarrow> 'a \<Rightarrow> bool) \<Rightarrow> 'a \<Rightarrow> 'a \<Rightarrow> ordering" where
  "cmp_by lt x y = (if lt x y then Less else if lt y x then Greater else Equal)"

definition is_null :: "json option \<Rightarrow> bool" where
  "is_null v \<longleftrightarrow> v = None \<or> v = Some JNull"

definition compare_values :: "numbers \<Rightarrow> json option \<Rightarrow> json option \<Rightarrow> ordering" where
  "compare_values K a b =
     (case (a, b) of
        (Some (JNum x), Some (JNum y)) \<Rightarrow> cmp_by (<) (as_f64 K x) (as_f64 K y)
      | (Some (JStr x), Some (JStr y)) \<Rightarrow> cmp_by str_less x y
      | (Some (JBool x), Some (JBool y)) \<Rightarrow> cmp_by (<) x y
      | _ \<Rightarrow> if is_null a \<and> is_null b then Equal
             else if is_null a then Less
             else if is_null b then Greater
             else Equal)"

section \<open>Stable sorting\<close>

text \<open>An element goes behind those it is strictly greater than, and before its equals.\<close>

fun insert_by :: "('a \<Rightarrow> 'a \<Rightarrow> ordering) \<Rightarrow> 'a \<Rightarrow> 'a list \<Rightarrow> 'a list" where
  "insert_by cmp x [] = [x]"
| "insert_by cmp x (y # ys) = (if cmp x y = Greater then y # insert_by cmp x ys else x # y # ys)"

definition sort_by :: "('a \<Rightarrow> 'a \<Rightarrow> ordering) \<Rightarrow> 'a list \<Rightarrow> 'a list" where
  "sort_by cmp xs = foldr (insert_by cmp) xs []"

section \<open>Applying a query\<close>

definition query_offset :: "query_spec \<Rightarrow> (nat, string) result" where
  "query_offset q = (case q_offset q of
     None \<Rightarrow> Ok 0
   | Some off \<Rightarrow> if off \<ge> 0 then Ok (nat off) else Err ''offset must be >= 0'')"

definition query_limit :: "query_spec \<Rightarrow> (nat, string) result" where
  "query_limit q = (case q_limit q of
     None \<Rightarrow> Ok DEFAULT_QUERY_LIMIT
   | Some l \<Rightarrow> if l \<ge> 0 then Ok (min (nat l) MAX_QUERY_LIMIT) else Err ''limit must be >= 0'')"

definition query_descending :: "query_spec \<Rightarrow> (bool, string) result" where
  "query_descending q = (case map_option to_ascii_uppercase (q_sort_order q) of
     None \<Rightarrow> Ok False
   | Some ord \<Rightarrow>
       if ord = ''ASC'' then Ok False
       else if ord = ''DESC'' then Ok True
       else Err (''sortOrder must be ASC or DESC, not '' @ quoted ord))"

definition query_criteria :: "query_spec \<Rightarrow> criterion list" where
  "query_criteria q = (case q_filter_expression q of None \<Rightarrow> [] | Some cs \<Rightarrow> cs)"

definition matches_all :: "numbers \<Rightarrow> criterion list \<Rightarrow> json \<Rightarrow> bool" where
  "matches_all K cs item =
     list_all (\<lambda>c. operand_matches K (json_get item (operand_left c)) (operand_right c)) cs"

definition item_order :: "numbers \<Rightarrow> bool \<Rightarrow> string \<Rightarrow> json \<Rightarrow> json \<Rightarrow> ordering" where
  "item_order K descending fld a b =
     (let ord = compare_values K (json_get a fld) (json_get b fld)
      in if descending then reverse_ordering ord else ord)"

definition ordered :: "numbers \<Rightarrow> query_spec \<Rightarrow> bool \<Rightarrow> json list \<Rightarrow> json list" where
  "ordered K q descending matched =
     (case q_sort_field q of
        Some fld \<Rightarrow> sort_by (item_order K descending fld) matched
      | None \<Rightarrow> if descending then rev matched else matched)"

definition query_apply :: "numbers \<Rightarrow> query_spec \<Rightarrow> json list \<Rightarrow> (json list, string) result" where
  "query_apply K q items =
     (case query_offset q of Inl e \<Rightarrow> Err e | Inr off \<Rightarrow>
      case query_limit q of Inl e \<Rightarrow> Err e | Inr limit \<Rightarrow>
      case query_descending q of Inl e \<Rightarrow> Err e | Inr descending \<Rightarrow>
      let criteria = query_criteria q in
      if length criteria > MAX_FILTER_CRITERIA
      then Err (''at most '' @ nat_to_string MAX_FILTER_CRITERIA @ '' filterExpression criteria'')
      else case List.find (\<lambda>c. operator c \<noteq> ''='') criteria of
        Some c \<Rightarrow> Err (''operator '' @ quoted (operator c) @ '' is not supported; only '' @ quoted ''='')
      | None \<Rightarrow>
          Ok (take limit (drop off (ordered K q descending (filter (matches_all K criteria) items)))))"

section \<open>Sorting under a total preorder\<close>

locale total_preorder_on =
  fixes cmp :: "'a \<Rightarrow> 'a \<Rightarrow> ordering" and A :: "'a set"
  assumes cmp_refl: "a \<in> A \<Longrightarrow> cmp a a = Equal"
    and cmp_flip: "a \<in> A \<Longrightarrow> b \<in> A \<Longrightarrow> cmp b a = reverse_ordering (cmp a b)"
    and cmp_trans: "a \<in> A \<Longrightarrow> b \<in> A \<Longrightarrow> c \<in> A \<Longrightarrow> cmp a b \<noteq> Greater \<Longrightarrow> cmp b c \<noteq> Greater
      \<Longrightarrow> cmp a c \<noteq> Greater"
begin

lemma mset_insert_by [simp]: "mset (insert_by cmp x ys) = add_mset x (mset ys)"
  by (induction ys) auto

lemma mset_sort_by: "mset (sort_by cmp xs) = mset xs"
  by (induction xs) (simp_all add: sort_by_def)

lemma set_insert_by [simp]: "set (insert_by cmp x ys) = insert x (set ys)"
  by (metis mset_insert_by set_mset_add_mset_insert set_mset_mset)

lemma greater_less: "a \<in> A \<Longrightarrow> b \<in> A \<Longrightarrow> cmp a b = Greater \<Longrightarrow> cmp b a = Less"
  using cmp_flip [of a b] by simp

lemma sorted_insert_by:
  "insert x (set ys) \<subseteq> A \<Longrightarrow> sorted_wrt (\<lambda>a b. cmp a b \<noteq> Greater) ys
   \<Longrightarrow> sorted_wrt (\<lambda>a b. cmp a b \<noteq> Greater) (insert_by cmp x ys)"
proof (induction ys)
  case (Cons y ys)
  then have xy: "x \<in> A" "y \<in> A" "set ys \<subseteq> A" by auto
  show ?case
  proof (cases "cmp x y = Greater")
    case True
    then have "cmp y x \<noteq> Greater" using greater_less xy by fastforce
    with True Cons show ?thesis by simp
  next
    case False
    have "cmp x z \<noteq> Greater" if "z \<in> set ys" for z
      using cmp_trans [of x y z] False that xy Cons.prems by auto
    with False Cons.prems show ?thesis by simp
  qed
qed simp

lemma sorted_sort_by: "set xs \<subseteq> A \<Longrightarrow> sorted_wrt (\<lambda>a b. cmp a b \<noteq> Greater) (sort_by cmp xs)"
proof (induction xs)
  case (Cons x xs)
  moreover have "set (sort_by cmp xs) = set xs" by (metis mset_sort_by set_mset_mset)
  ultimately show ?case using sorted_insert_by [of x "sort_by cmp xs"] by (simp add: sort_by_def)
qed (simp add: sort_by_def)

text \<open>Elements that compare equal keep their order.\<close>

lemma equal_class:
  assumes "a \<in> A" "x \<in> A" "y \<in> A" "cmp x a = Equal" "cmp y a = Equal"
  shows "cmp x y \<noteq> Greater"
  using cmp_trans [of x a y] assms cmp_flip [of y a] by simp

lemma stable_insert_by:
  assumes "a \<in> A" "insert x (set ys) \<subseteq> A"
  shows "filter (\<lambda>z. cmp z a = Equal) (insert_by cmp x ys) = filter (\<lambda>z. cmp z a = Equal) (x # ys)"
  using assms(2)
proof (induction ys)
  case (Cons y ys)
  show ?case
  proof (cases "cmp x y = Greater")
    case True
    then have "\<not> (cmp x a = Equal \<and> cmp y a = Equal)"
      using equal_class [of a x y] assms(1) Cons.prems by auto
    with True Cons show ?thesis by auto
  qed simp
qed simp

lemma stable_sort_by:
  "a \<in> A \<Longrightarrow> set xs \<subseteq> A
   \<Longrightarrow> filter (\<lambda>z. cmp z a = Equal) (sort_by cmp xs) = filter (\<lambda>z. cmp z a = Equal) xs"
proof (induction xs)
  case (Cons x xs)
  moreover have "set (sort_by cmp xs) = set xs" by (metis mset_sort_by set_mset_mset)
  ultimately show ?case using stable_insert_by [of a x "sort_by cmp xs"] by (simp add: sort_by_def)
qed (simp add: sort_by_def)

end


section \<open>Fields of one kind\<close>

text \<open>A strict order in which incomparable elements are interchangeable compares as a total preorder.\<close>

lemma cmp_by_flip: "(\<And>x y. lt x y \<Longrightarrow> \<not> lt y x) \<Longrightarrow> cmp_by lt y x = reverse_ordering (cmp_by lt x y)"
  by (auto simp: cmp_by_def)

lemma cmp_by_not_Greater:
  "(\<And>x y. lt x y \<Longrightarrow> \<not> lt y x) \<Longrightarrow> cmp_by lt x y \<noteq> Greater \<longleftrightarrow> \<not> lt y x"
  by (auto simp: cmp_by_def)

lemma cmp_by_Greater [simp]: "cmp_by (<) (x :: 'a :: order) y = Greater \<longleftrightarrow> y < x"
  by (auto simp: cmp_by_def)

lemma str_cmp_flip: "cmp_by str_less y x = reverse_ordering (cmp_by str_less x y)"
  by (rule cmp_by_flip) (rule str_less_asym)

lemma str_cmp_trans: "\<not> str_less y x \<Longrightarrow> \<not> str_less z y \<Longrightarrow> \<not> str_less z x"
  using str_less_trans str_less_cases by blast

datatype field_kind = NumberField | StringField | BoolField | CompositeField

fun of_kind :: "field_kind \<Rightarrow> json option \<Rightarrow> bool" where
  "of_kind k None = True"
| "of_kind k (Some JNull) = True"
| "of_kind k (Some (JNum n)) = (k = NumberField)"
| "of_kind k (Some (JStr s)) = (k = StringField)"
| "of_kind k (Some (JBool b)) = (k = BoolField)"
| "of_kind k (Some (JArr xs)) = (k = CompositeField)"
| "of_kind k (Some (JObj m)) = (k = CompositeField)"

lemma compare_values_preorder: "total_preorder_on (compare_values K) {v. of_kind k v}"
proof
  fix a b c
  show "a \<in> {v. of_kind k v} \<Longrightarrow> compare_values K a a = Equal"
    by (cases "(k, a)" rule: of_kind.cases) (auto simp: compare_values_def cmp_by_def is_null_def)
  show "a \<in> {v. of_kind k v} \<Longrightarrow> b \<in> {v. of_kind k v}
      \<Longrightarrow> compare_values K b a = reverse_ordering (compare_values K a b)"
    by (cases "(k, a)" rule: of_kind.cases; cases "(k, b)" rule: of_kind.cases)
      (auto simp: compare_values_def is_null_def intro: cmp_by_flip str_cmp_flip)
  show "a \<in> {v. of_kind k v} \<Longrightarrow> b \<in> {v. of_kind k v} \<Longrightarrow> c \<in> {v. of_kind k v}
      \<Longrightarrow> compare_values K a b \<noteq> Greater \<Longrightarrow> compare_values K b c \<noteq> Greater
      \<Longrightarrow> compare_values K a c \<noteq> Greater"
    by (cases "(k, a)" rule: of_kind.cases; cases "(k, b)" rule: of_kind.cases;
        cases "(k, c)" rule: of_kind.cases)
      (auto simp: compare_values_def is_null_def cmp_by_not_Greater str_less_asym dest: str_cmp_trans)
qed

definition field_of_kind :: "string \<Rightarrow> field_kind \<Rightarrow> json set" where
  "field_of_kind fld k = {item. of_kind k (json_get item fld)}"

lemma reverse_ordering_simps [simp]:
  "reverse_ordering (reverse_ordering r) = r"
  "reverse_ordering r = Equal \<longleftrightarrow> r = Equal" "reverse_ordering r = Greater \<longleftrightarrow> r = Less"
  by (cases r; simp)+

interpretation values_order: total_preorder_on "compare_values K" "{v. of_kind k v}" for K k
  by (rule compare_values_preorder)

interpretation by_field: total_preorder_on "item_order K descending fld" "field_of_kind fld k"
  for K descending fld k
proof
  fix a b c
  let ?A = "field_of_kind fld k"
  show "a \<in> ?A \<Longrightarrow> item_order K descending fld a a = Equal"
    by (simp add: item_order_def field_of_kind_def values_order.cmp_refl [of _ k])
  show "item_order K descending fld b a = reverse_ordering (item_order K descending fld a b)"
    if "a \<in> ?A" "b \<in> ?A"
    using that values_order.cmp_flip [of "json_get a fld" k "json_get b fld" K]
    by (simp add: item_order_def field_of_kind_def Let_def)
  assume m: "a \<in> ?A" "b \<in> ?A" "c \<in> ?A"
    and le: "item_order K descending fld a b \<noteq> Greater" "item_order K descending fld b c \<noteq> Greater"
  note kinds = m [unfolded field_of_kind_def, simplified]
  note flips = values_order.cmp_flip [OF CollectI CollectI, OF kinds(1,2), of K]
    values_order.cmp_flip [OF CollectI CollectI, OF kinds(2,3), of K]
    values_order.cmp_flip [OF CollectI CollectI, OF kinds(1,3), of K]
  show "item_order K descending fld a c \<noteq> Greater"
    using le flips
      values_order.cmp_trans [OF CollectI CollectI CollectI, OF kinds, of K]
      values_order.cmp_trans [OF CollectI CollectI CollectI, OF kinds(3,2,1), of K]
    by (auto simp: item_order_def Let_def split: if_splits)
qed


section \<open>What a query answers\<close>

definition query_valid :: "query_spec \<Rightarrow> bool" where
  "query_valid q \<longleftrightarrow> (\<forall>off. q_offset q = Some off \<longrightarrow> 0 \<le> off) \<and> (\<forall>l. q_limit q = Some l \<longrightarrow> 0 \<le> l)
     \<and> (\<forall>ord. q_sort_order q = Some ord \<longrightarrow> to_ascii_uppercase ord \<in> {''ASC'', ''DESC''})
     \<and> length (query_criteria q) \<le> MAX_FILTER_CRITERIA
     \<and> (\<forall>c \<in> set (query_criteria q). operator c = ''='')"

definition is_descending :: "query_spec \<Rightarrow> bool" where
  "is_descending q \<longleftrightarrow> map_option to_ascii_uppercase (q_sort_order q) = Some ''DESC''"

definition page_start :: "query_spec \<Rightarrow> nat" where
  "page_start q = (case q_offset q of None \<Rightarrow> 0 | Some off \<Rightarrow> nat off)"

definition page_size :: "query_spec \<Rightarrow> nat" where
  "page_size q = (case q_limit q of None \<Rightarrow> DEFAULT_QUERY_LIMIT | Some l \<Rightarrow> min (nat l) MAX_QUERY_LIMIT)"

definition selected :: "numbers \<Rightarrow> query_spec \<Rightarrow> json list \<Rightarrow> json list" where
  "selected K q items = filter (matches_all K (query_criteria q)) items"


lemma find_operator_None:
  "List.find (\<lambda>c. operator c \<noteq> ''='') cs = None \<longleftrightarrow> (\<forall>c \<in> set cs. operator c = ''='')"
  by (auto simp: find_None_iff)

lemma query_apply_valid:
  assumes "query_valid q"
  shows "query_apply K q items
    = Ok (take (page_size q) (drop (page_start q) (ordered K q (is_descending q) (selected K q items))))"
proof -
  have "query_offset q = Ok (page_start q)"
    using assms by (simp add: query_valid_def query_offset_def page_start_def split: option.splits)
  moreover have "query_limit q = Ok (page_size q)"
    using assms by (simp add: query_valid_def query_limit_def page_size_def split: option.splits)
  moreover have "query_descending q = Ok (is_descending q)"
    using assms by (auto simp: query_valid_def query_descending_def is_descending_def split: option.splits)
  moreover have "List.find (\<lambda>c. operator c \<noteq> ''='') (query_criteria q) = None"
    "length (query_criteria q) \<le> MAX_FILTER_CRITERIA"
    using assms by (auto simp: query_valid_def find_operator_None)
  ultimately show ?thesis by (simp add: query_apply_def Let_def selected_def)
qed


lemma mset_ordered: "mset (ordered K q d xs) = mset xs"
  by (simp add: ordered_def by_field.mset_sort_by split: option.splits)


text \<open>
  C35. Paging is lossless: reading a valid query page after page, with any limit between 1 and
  \<open>MAX_QUERY_LIMIT\<close>, returns every item that satisfies the criteria, each exactly once, and nothing else.
\<close>

theorem query_pages_complete:
  assumes "query_valid q" "0 < l" "l \<le> MAX_QUERY_LIMIT" "length (selected K q items) \<le> n * l"
  shows "\<exists>page. (\<forall>i. query_apply K (q\<lparr>q_offset := Some (int (i * l)), q_limit := Some (int l)\<rparr>) items = Ok (page i))
    \<and> mset (concat (map page [0..<n])) = mset (selected K q items)"
proof -
  let ?full = "ordered K q (is_descending q) (selected K q items)"
  let ?page = "\<lambda>i. take l (drop (i * l) ?full)"
  have "query_apply K (q\<lparr>q_offset := Some (int (i * l)), q_limit := Some (int l)\<rparr>) items = Ok (?page i)" for i
  proof -
    let ?q = "q\<lparr>q_offset := Some (int (i * l)), q_limit := Some (int l)\<rparr>"
    have "query_criteria ?q = query_criteria q" by (simp add: query_criteria_def)
    then have "query_valid ?q" "selected K ?q items = selected K q items"
      using assms(1) by (simp_all add: query_valid_def selected_def)
    moreover have "page_size ?q = l" "page_start ?q = i * l" "is_descending ?q = is_descending q"
      using assms(3) by (simp_all add: page_size_def page_start_def is_descending_def nat_mult_distrib)
    moreover have "ordered K ?q d xs = ordered K q d xs" for d xs by (simp add: ordered_def)
    ultimately show ?thesis using query_apply_valid [of ?q K items] by simp
  qed
  moreover have "concat (map ?page [0..<m]) = take (m * l) ?full" for m
    by (induction m) (simp_all add: take_add [symmetric] add.commute [of l])
  moreover have "take (n * l) ?full = ?full"
    using assms(4) mset_ordered [of K q "is_descending q" "selected K q items", THEN arg_cong [of _ _ size]]
    by simp
  ultimately show ?thesis using mset_ordered [of K q "is_descending q" "selected K q items"]
    by (intro exI [of _ ?page]) simp
qed

definition sample_numbers :: numbers where
  "sample_numbers = \<lparr>as_f64 = (\<lambda>n. case n of PosInt k \<Rightarrow> of_nat k | NegInt i \<Rightarrow> of_int i | Float r \<Rightarrow> r),
     num_display = (\<lambda>n. case n of PosInt k \<Rightarrow> nat_to_string k | _ \<Rightarrow> [])\<rparr>"

definition sample_items :: "json list" where
  "sample_items = [json_obj [(''n'', JNum (PosInt 7))], json_obj [(''n'', JNum (PosInt 3))], json_obj []]"

definition sample_query :: query_spec where
  "sample_query = query_default\<lparr>q_sort_field := Some ''n'', q_sort_order := Some ''desc''\<rparr>"

lemma sample_query_valid: "query_valid sample_query" "selected K sample_query xs = xs"
  by (simp_all add: query_valid_def sample_query_def query_default_def query_criteria_def selected_def
      matches_all_def, code_simp)


theorem query_pages_complete_witness:
  "query_valid sample_query \<and> length (selected sample_numbers sample_query sample_items) \<le> 2 * 2
   \<and> (\<exists>page. query_apply sample_numbers (sample_query\<lparr>q_offset := Some 2, q_limit := Some 2\<rparr>) sample_items = Ok (page (1::nat))
        \<and> mset (page 0 @ page 1) = mset sample_items)"
proof -
  have len: "length (selected sample_numbers sample_query sample_items) \<le> 2 * 2"
    by (simp add: sample_query_valid sample_items_def)
  have "2 \<le> MAX_QUERY_LIMIT" by (simp add: MAX_QUERY_LIMIT_def)
  from query_pages_complete [OF sample_query_valid(1) _ this len] obtain page where
    p: "\<And>i. query_apply sample_numbers (sample_query\<lparr>q_offset := Some (int (i * 2)), q_limit := Some (int 2)\<rparr>) sample_items
          = Ok (page i)"
      "mset (concat (map page [0..<2])) = mset (selected sample_numbers sample_query sample_items)"
    by auto
  have "mset (page 0 @ page 1) = mset sample_items"
    using p(2) by (simp add: upt_rec sample_query_valid)
  then show ?thesis using p(1) [of 1] len sample_query_valid(1) by auto
qed

end
