(* ===== verification/Catalog.thy ===== *)
theory Catalog
  imports Json
begin

text \<open>
  The credential-definition catalog of the Issuer Service (issuer.rs): what a client may send,
  how it is validated into a stored definition, and the bounded, insertion-ordered catalog that
  issuer metadata, Credential Requests and OID4VCI read.
\<close>

section \<open>Limits and errors\<close>

definition MAX_CREDENTIAL_DEFINITIONS :: nat where
  "MAX_CREDENTIAL_DEFINITIONS = 256"

definition FORMAT_VC1_0_JWT :: string where
  "FORMAT_VC1_0_JWT = ''VC1_0_JWT''"

definition DEFAULT_VALIDITY_SECS :: u64 where
  "DEFAULT_VALIDITY_SECS = 3600"

datatype issuer_error = Invalid string | NotFound string | Conflict string | Full string

section \<open>Definitions\<close>

record credential_definition =
  cd_id :: string
  cd_credential_type :: string
  cd_format :: string
  cd_validity :: u64
  cd_json_schema_url :: "string option"
  cd_json_schema :: "json option"
  cd_mappings :: "json list"
  cd_rules :: "json list"
  cd_attestations :: "json list"
  cd_created_at :: u64

record credential_definition_input =
  in_id :: string
  in_credential_type :: string
  in_format :: "string option"
  in_validity :: "int option"
  in_json_schema_url :: "string option"
  in_json_schema :: "json option"
  in_mappings :: "json list option"
  in_rules :: "json list option"
  in_attestations :: "json list option"

definition type_tail_char :: "char \<Rightarrow> bool" where
  "type_tail_char c \<longleftrightarrow> is_ascii_alphanumeric c \<or> c \<in> {CHR ''_'', CHR ''.'', CHR ''-''}"

fun valid_credential_type :: "string \<Rightarrow> bool" where
  "valid_credential_type [] = False"
| "valid_credential_type (c # cs) = (is_ascii_alphabetic c \<and> list_all type_tail_char cs)"

definition unwrap_or :: "'a option \<Rightarrow> 'a \<Rightarrow> 'a" where
  "unwrap_or x d = (case x of None \<Rightarrow> d | Some v \<Rightarrow> v)"

definition into_definition ::
    "credential_definition_input \<Rightarrow> u64 \<Rightarrow> (credential_definition, issuer_error) result" where
  "into_definition inp created_at =
     (if trim (in_id inp) = [] then Err (Invalid ''id must not be empty'')
      else if \<not> valid_credential_type (in_credential_type inp)
      then Err (Invalid ''credentialType must match ^[A-Za-z][A-Za-z0-9_.-]*$'')
      else let format = unwrap_or (in_format inp) FORMAT_VC1_0_JWT in
        if format \<noteq> FORMAT_VC1_0_JWT
        then Err (Invalid (''format '' @ [CHR 39] @ format @ [CHR 39]
               @ '' is not supported; only '' @ FORMAT_VC1_0_JWT))
        else (case (case in_validity inp of
                      None \<Rightarrow> Ok DEFAULT_VALIDITY_SECS
                    | Some v \<Rightarrow> if v > 0 then Ok (nat v)
                                else Err (Invalid ''validity must be > 0'')) of
                Inl e \<Rightarrow> Err e
              | Inr validity \<Rightarrow> Ok
                  \<lparr>cd_id = in_id inp,
                   cd_credential_type = in_credential_type inp,
                   cd_format = format,
                   cd_validity = validity,
                   cd_json_schema_url = in_json_schema_url inp,
                   cd_json_schema = in_json_schema inp,
                   cd_mappings = unwrap_or (in_mappings inp) [],
                   cd_rules = unwrap_or (in_rules inp) [],
                   cd_attestations = unwrap_or (in_attestations inp) [],
                   cd_created_at = created_at\<rparr>))"

section \<open>The catalog\<close>

record definition_catalog =
  definitions :: "credential_definition list"

definition seed_input :: credential_definition_input where
  "seed_input = \<lparr>in_id = ''membership-credential'', in_credential_type = ''MembershipCredential'',
     in_format = None, in_validity = None, in_json_schema_url = None, in_json_schema = None,
     in_mappings = None, in_rules = None, in_attestations = None\<rparr>"

text \<open>The constructor's \<open>expect\<close> is an explicit failure: \<open>None\<close> is the panic.\<close>

definition catalog_seeded :: "u64 \<Rightarrow> definition_catalog option" where
  "catalog_seeded now = (case into_definition seed_input now of
     Inl e \<Rightarrow> None | Inr seed \<Rightarrow> Some \<lparr>definitions = [seed]\<rparr>)"

definition catalog_get :: "definition_catalog \<Rightarrow> string \<Rightarrow> credential_definition option" where
  "catalog_get c i = List.find (\<lambda>d. cd_id d = i) (definitions c)"

definition catalog_create ::
    "credential_definition \<Rightarrow> definition_catalog \<Rightarrow> (definition_catalog, issuer_error) result" where
  "catalog_create d c =
     (if catalog_get c (cd_id d) \<noteq> None
      then Err (Conflict (''credential definition '' @ [CHR 39] @ cd_id d @ [CHR 39] @ '' already exists''))
      else if length (definitions c) \<ge> MAX_CREDENTIAL_DEFINITIONS
      then Err (Full (''at most '' @ nat_to_string MAX_CREDENTIAL_DEFINITIONS @ '' credential definitions''))
      else Ok (c\<lparr>definitions := definitions c @ [d]\<rparr>))"

fun replace_first :: "('a \<Rightarrow> bool) \<Rightarrow> 'a \<Rightarrow> 'a list \<Rightarrow> 'a list" where
  "replace_first P y [] = []"
| "replace_first P y (x # xs) = (if P x then y # xs else x # replace_first P y xs)"

definition catalog_update ::
    "credential_definition \<Rightarrow> definition_catalog
     \<Rightarrow> (credential_definition \<times> definition_catalog, issuer_error) result" where
  "catalog_update d c =
     (case catalog_get c (cd_id d) of
        None \<Rightarrow> Err (NotFound (''no credential definition '' @ [CHR 39] @ cd_id d @ [CHR 39]))
      | Some existing \<Rightarrow>
          let d' = d\<lparr>cd_created_at := cd_created_at existing\<rparr>
          in Ok (d', c\<lparr>definitions := replace_first (\<lambda>e. cd_id e = cd_id d) d' (definitions c)\<rparr>))"

definition catalog_remove :: "string \<Rightarrow> definition_catalog \<Rightarrow> bool \<times> definition_catalog" where
  "catalog_remove i c =
     (let ds = filter (\<lambda>d. cd_id d \<noteq> i) (definitions c)
      in (length (definitions c) \<noteq> length ds, c\<lparr>definitions := ds\<rparr>))"

definition catalog_ids :: "definition_catalog \<Rightarrow> string set" where
  "catalog_ids c = cd_id ` set (definitions c)"

section \<open>Validation and the catalog invariant\<close>

definition definition_valid :: "credential_definition \<Rightarrow> bool" where
  "definition_valid d \<longleftrightarrow> trim (cd_id d) \<noteq> [] \<and> valid_credential_type (cd_credential_type d)
     \<and> cd_format d = FORMAT_VC1_0_JWT \<and> 0 < cd_validity d \<and> cd_validity d < 2 ^ 63"

definition catalog_ok :: "definition_catalog \<Rightarrow> bool" where
  "catalog_ok c \<longleftrightarrow> distinct (map cd_id (definitions c))
     \<and> length (definitions c) \<le> MAX_CREDENTIAL_DEFINITIONS
     \<and> (\<forall>d \<in> set (definitions c). definition_valid d)"

text \<open>\<open>validity\<close> arrives as an \<open>i64\<close>.\<close>

definition input_in_range :: "credential_definition_input \<Rightarrow> bool" where
  "input_in_range inp \<longleftrightarrow>
     (case in_validity inp of None \<Rightarrow> True | Some v \<Rightarrow> - (2 ^ 63) \<le> v \<and> v < 2 ^ 63)"

lemma find_Some_iff_ex: "List.find P xs = None \<longleftrightarrow> (\<forall>x \<in> set xs. \<not> P x)"
  by (induction xs) auto

lemma find_SomeD: "List.find P xs = Some x \<Longrightarrow> x \<in> set xs \<and> P x"
  by (induction xs) (auto split: if_splits)

lemma catalog_get_None: "catalog_get c i = None \<longleftrightarrow> i \<notin> catalog_ids c"
  by (auto simp: catalog_get_def catalog_ids_def find_Some_iff_ex)

lemma catalog_get_SomeD: "catalog_get c i = Some d \<Longrightarrow> d \<in> set (definitions c) \<and> cd_id d = i"
  by (auto simp: catalog_get_def dest: find_SomeD)

lemma map_replace_first:
  "(\<And>x. P x \<Longrightarrow> f x = f y) \<Longrightarrow> map f (replace_first P y xs) = map f xs"
  by (induction xs) auto

lemma set_replace_first: "set (replace_first P y xs) \<subseteq> insert y (set xs)"
  by (induction xs) auto

lemma length_replace_first [simp]: "length (replace_first P y xs) = length xs"
  by (induction xs) auto

text \<open>The characters of \<open>^[A-Za-z][A-Za-z0-9_.-]*$\<close>, written out.\<close>

definition type_letters :: "char set" where
  "type_letters = set ''ABCDEFGHIJKLMNOPQRSTUVWXYZabcdefghijklmnopqrstuvwxyz''"

definition type_token_chars :: "char set" where
  "type_token_chars = type_letters \<union> set ''0123456789_.-''"

lemma type_chars:
  "is_ascii_alphabetic c \<longleftrightarrow> c \<in> type_letters" "type_tail_char c \<longleftrightarrow> c \<in> type_token_chars"
proof -
  have "''ABCDEFGHIJKLMNOPQRSTUVWXYZabcdefghijklmnopqrstuvwxyz'' = map char_of ([65..<91] @ [97..<123::nat])"
    "''0123456789_.-'' = map char_of ([48..<58] @ [95, 46, 45::nat])" by code_simp+
  then have sets: "type_letters = char_of ` ({65..<91} \<union> {97..<123::nat})"
    "type_token_chars = char_of ` ({65..<91} \<union> {97..<123} \<union> {48..<58} \<union> {95, 46, 45::nat})"
    unfolding type_token_chars_def type_letters_def by (simp_all only: set_map set_append set_upt image_Un list.set Un_assoc)
  have mem: "c \<in> char_of ` N \<longleftrightarrow> byte c \<in> N" if N: "N \<subseteq> {..<256}" for N :: "nat set"
  proof
    assume "c \<in> char_of ` N"
    then obtain n where "n \<in> N" "c = char_of n" by blast
    with N show "byte c \<in> N" by (auto simp: subset_iff)
  next
    assume "byte c \<in> N"
    from imageI [OF this, of char_of] show "c \<in> char_of ` N" by (simp add: byte_def)
  qed
  have tail: "c \<in> {CHR ''_'', CHR ''.'', CHR ''-''} \<longleftrightarrow> byte c \<in> {95, 46, 45}"
    using byte_inject [of c "CHR ''_''"] byte_inject [of c "CHR ''.''"] byte_inject [of c "CHR ''-''"] by (auto simp: byte_def)
  have "c \<in> type_letters \<longleftrightarrow> byte c \<in> {65..<91} \<union> {97..<123}" unfolding sets by (rule mem) auto
  then show "is_ascii_alphabetic c \<longleftrightarrow> c \<in> type_letters"
    by (auto simp: is_ascii_alphabetic_def is_ascii_uppercase_def is_ascii_lowercase_def)
  have "c \<in> type_token_chars \<longleftrightarrow> byte c \<in> {65..<91} \<union> {97..<123} \<union> {48..<58} \<union> {95, 46, 45}"
    unfolding sets by (rule mem) auto
  then show "type_tail_char c \<longleftrightarrow> c \<in> type_token_chars"
    unfolding type_tail_char_def tail is_ascii_alphanumeric_def is_ascii_alphabetic_def is_ascii_uppercase_def
      is_ascii_lowercase_def is_ascii_digit_def by auto
qed

lemma valid_credential_type_iff:
  "valid_credential_type t \<longleftrightarrow> (\<exists>c cs. t = c # cs \<and> c \<in> type_letters \<and> set cs \<subseteq> type_token_chars)"
  by (cases t) (auto simp: type_chars list_all_iff)

lemma is_ok_iff: "is_ok r \<longleftrightarrow> (\<exists>x. r = Ok x)"
  by (cases r) auto

lemma into_definition_Ok:
  "into_definition inp now = Ok d \<longleftrightarrow>
     trim (in_id inp) \<noteq> [] \<and> valid_credential_type (in_credential_type inp)
     \<and> (in_format inp = None \<or> in_format inp = Some FORMAT_VC1_0_JWT) \<and> (\<forall>v. in_validity inp = Some v \<longrightarrow> 0 < v)
     \<and> d = \<lparr>cd_id = in_id inp, cd_credential_type = in_credential_type inp, cd_format = FORMAT_VC1_0_JWT,
          cd_validity = (case in_validity inp of None \<Rightarrow> DEFAULT_VALIDITY_SECS | Some v \<Rightarrow> nat v),
          cd_json_schema_url = in_json_schema_url inp, cd_json_schema = in_json_schema inp,
          cd_mappings = unwrap_or (in_mappings inp) [], cd_rules = unwrap_or (in_rules inp) [],
          cd_attestations = unwrap_or (in_attestations inp) [], cd_created_at = now\<rparr>"
  by (auto simp: into_definition_def unwrap_or_def Let_def split: option.splits if_splits)

lemma into_definition_Err: "into_definition inp now = Err e \<Longrightarrow> \<exists>msg. e = Invalid msg"
  by (auto simp: into_definition_def Let_def split: option.splits if_splits)

lemma catalog_get_create:
  "catalog_create d c = Ok c' \<Longrightarrow> catalog_get c' i = (if i = cd_id d then Some d else catalog_get c i)"
proof -
  assume "catalog_create d c = Ok c'"
  then have new: "catalog_get c (cd_id d) = None" and c': "definitions c' = definitions c @ [d]"
    by (auto simp: catalog_create_def split: if_splits)
  have "List.find P (xs @ [d]) = (case List.find P xs of None \<Rightarrow> if P d then Some d else None | Some x \<Rightarrow> Some x)" for P xs
    by (induction xs) auto
  with new c' show ?thesis by (auto simp: catalog_get_def split: option.splits)
qed

text \<open>
  C19. A definition is accepted exactly when its id is not blank, its credential type is a letter
  followed by letters, digits, underscores, dots and hyphens, its format is absent or the supported
  one and its validity is absent or positive; otherwise the answer is an \<open>Invalid\<close> error. An accepted
  definition carries every field it was sent with - id, type, validity, schema and its URL, mappings,
  rules, attestations - and the documented default for each that was left out; and once the catalog
  takes it, the catalog answers its id with it, and every other id as before.
\<close>

theorem into_definition_correct:
  assumes "input_in_range inp"
  shows "(is_ok (into_definition inp now) \<longleftrightarrow>
      trim (in_id inp) \<noteq> []
      \<and> (\<exists>c cs. in_credential_type inp = c # cs \<and> c \<in> type_letters \<and> set cs \<subseteq> type_token_chars)
      \<and> in_format inp \<in> {None, Some ''VC1_0_JWT''}
      \<and> (\<forall>v. in_validity inp = Some v \<longrightarrow> 0 < v))
    \<and> (\<forall>e. into_definition inp now = Err e \<longrightarrow> (\<exists>msg. e = Invalid msg))
    \<and> (\<forall>d. into_definition inp now = Ok d \<longrightarrow> definition_valid d
        \<and> cd_id d = in_id inp \<and> cd_credential_type d = in_credential_type inp \<and> cd_format d = ''VC1_0_JWT''
        \<and> int (cd_validity d) = unwrap_or (in_validity inp) 3600
        \<and> cd_json_schema_url d = in_json_schema_url inp \<and> cd_json_schema d = in_json_schema inp
        \<and> (\<forall>xs. in_mappings inp = Some xs \<longrightarrow> cd_mappings d = xs) \<and> (in_mappings inp = None \<longrightarrow> cd_mappings d = [])
        \<and> (\<forall>xs. in_rules inp = Some xs \<longrightarrow> cd_rules d = xs) \<and> (in_rules inp = None \<longrightarrow> cd_rules d = [])
        \<and> (\<forall>xs. in_attestations inp = Some xs \<longrightarrow> cd_attestations d = xs) \<and> (in_attestations inp = None \<longrightarrow> cd_attestations d = [])
        \<and> cd_created_at d = now
        \<and> (\<forall>c c'. catalog_create d c = Ok c' \<longrightarrow> catalog_get c' (in_id inp) = Some d
             \<and> (\<forall>i. i \<noteq> in_id inp \<longrightarrow> catalog_get c' i = catalog_get c i)))"
proof (intro conjI allI impI)
  show "is_ok (into_definition inp now) \<longleftrightarrow> trim (in_id inp) \<noteq> []
      \<and> (\<exists>c cs. in_credential_type inp = c # cs \<and> c \<in> type_letters \<and> set cs \<subseteq> type_token_chars)
      \<and> in_format inp \<in> {None, Some ''VC1_0_JWT''} \<and> (\<forall>v. in_validity inp = Some v \<longrightarrow> 0 < v)"
    unfolding is_ok_iff into_definition_Ok valid_credential_type_iff FORMAT_VC1_0_JWT_def by simp
  show "into_definition inp now = Err e \<Longrightarrow> \<exists>msg. e = Invalid msg" for e by (rule into_definition_Err)
next
  fix d assume d: "into_definition inp now = Ok d"
  from d have valid: "valid_credential_type (cd_credential_type d)" "trim (cd_id d) \<noteq> []" by (simp_all add: into_definition_Ok)
  show "int (cd_validity d) = unwrap_or (in_validity inp) 3600"
    using d by (auto simp: into_definition_Ok unwrap_or_def DEFAULT_VALIDITY_SECS_def split: option.splits)
  then show "definition_valid d"
    using d valid assms by (auto simp: definition_valid_def into_definition_Ok input_in_range_def unwrap_or_def
        DEFAULT_VALIDITY_SECS_def nat_less_iff split: option.splits)
  fix c c' assume "catalog_create d c = Ok c'"
  from catalog_get_create [OF this] d show "catalog_get c' (in_id inp) = Some d"
    and "i \<noteq> in_id inp \<Longrightarrow> catalog_get c' i = catalog_get c i" for i by (simp_all add: into_definition_Ok)
qed (simp_all add: into_definition_Ok unwrap_or_def FORMAT_VC1_0_JWT_def)

theorem into_definition_correct_witness:
  "input_in_range seed_input \<and> is_ok (into_definition seed_input 7)
   \<and> \<not> is_ok (into_definition (seed_input\<lparr>in_validity := Some 0\<rparr>) 7)
   \<and> \<not> is_ok (into_definition (seed_input\<lparr>in_credential_type := ''Membership:Credential''\<rparr>) 7)"
proof -
  have r: "input_in_range seed_input" "input_in_range (seed_input\<lparr>in_validity := Some 0\<rparr>)"
    "input_in_range (seed_input\<lparr>in_credential_type := ''Membership:Credential''\<rparr>)"
    by (simp_all add: input_in_range_def seed_input_def)
  have v: "trim (in_id seed_input) \<noteq> []" by code_simp
  have t: "\<exists>c cs. in_credential_type seed_input = c # cs \<and> c \<in> type_letters \<and> set cs \<subseteq> type_token_chars"
    unfolding valid_credential_type_iff [symmetric] by code_simp
  have n: "\<not> (\<exists>c cs. ''Membership:Credential'' = c # cs \<and> c \<in> type_letters \<and> set cs \<subseteq> type_token_chars)"
    unfolding valid_credential_type_iff [symmetric] by code_simp
  have f: "in_format seed_input = None" "in_validity seed_input = None" by (simp_all add: seed_input_def)
  show ?thesis
    using into_definition_correct [OF r(1), of 7, THEN conjunct1] into_definition_correct [OF r(2), of 7, THEN conjunct1]
      into_definition_correct [OF r(3), of 7, THEN conjunct1] r(1) v t n f
    by simp
qed

lemma into_definition_valid:
  "into_definition inp now = Ok d \<Longrightarrow> input_in_range inp \<Longrightarrow> definition_valid d"
  by (auto simp: into_definition_def definition_valid_def input_in_range_def unwrap_or_def
      DEFAULT_VALIDITY_SECS_def nat_less_iff Let_def split: option.splits if_splits)

lemma catalog_seeded_Some:
  "\<exists>c. catalog_seeded now = Some c \<and> catalog_ok c \<and> catalog_ids c = {''membership-credential''}"
proof -
  have "trim (in_id seed_input) \<noteq> []" "valid_credential_type (in_credential_type seed_input)"
    by code_simp+
  then obtain d where d: "into_definition seed_input now = Ok d" "cd_id d = ''membership-credential''"
    by (auto simp: into_definition_def seed_input_def unwrap_or_def Let_def)
  have "input_in_range seed_input" by (simp add: input_in_range_def seed_input_def)
  from into_definition_valid [OF d(1) this] d show ?thesis
    by (auto simp: catalog_seeded_def catalog_ok_def catalog_ids_def MAX_CREDENTIAL_DEFINITIONS_def)
qed

lemma catalog_create_ok [hub_inv]:
  "catalog_ok c \<Longrightarrow> definition_valid d \<Longrightarrow> catalog_create d c = Ok c' \<Longrightarrow> catalog_ok c'"
  using catalog_get_None [of c "cd_id d"]
  by (auto simp: catalog_create_def catalog_ok_def catalog_ids_def split: if_splits)

lemma catalog_update_ok [hub_inv]:
  assumes "catalog_ok c" and "definition_valid d" and "catalog_update d c = Ok (d', c')"
  shows "catalog_ok c'"
proof -
  from assms(3) obtain e where e: "catalog_get c (cd_id d) = Some e"
    "d' = d\<lparr>cd_created_at := cd_created_at e\<rparr>"
    "c' = c\<lparr>definitions := replace_first (\<lambda>x. cd_id x = cd_id d) d' (definitions c)\<rparr>"
    by (auto simp: catalog_update_def Let_def split: option.splits)
  have ids: "map cd_id (definitions c') = map cd_id (definitions c)"
    unfolding e(3) by (simp add: map_replace_first e(2))
  have v: "definition_valid d'" using assms(2) e(2) by (simp add: definition_valid_def)
  with assms(1) ids set_replace_first [of "\<lambda>x. cd_id x = cd_id d" d' "definitions c"] show ?thesis
    by (auto simp: catalog_ok_def e(3))
qed

lemma catalog_update_ids:
  "catalog_update d c = Ok (d', c') \<Longrightarrow> map cd_id (definitions c') = map cd_id (definitions c)"
  by (auto simp: catalog_update_def Let_def map_replace_first split: option.splits)

lemma catalog_remove_ok [hub_inv]: "catalog_ok c \<Longrightarrow> catalog_ok (snd (catalog_remove i c))"
  by (auto simp: catalog_remove_def catalog_ok_def Let_def distinct_map_filter
      intro: le_trans [OF length_filter_le])

lemma catalog_remove_ids: "catalog_ids (snd (catalog_remove i c)) = catalog_ids c - {i}"
  by (auto simp: catalog_remove_def catalog_ids_def Let_def)

lemma catalog_create_ids: "catalog_create d c = Ok c' \<Longrightarrow> catalog_ids c' = insert (cd_id d) (catalog_ids c)"
  by (auto simp: catalog_create_def catalog_ids_def split: if_splits)

lemma catalog_update_ids_set: "catalog_update d c = Ok (d', c') \<Longrightarrow> catalog_ids c' = catalog_ids c"
  unfolding catalog_ids_def by (metis catalog_update_ids set_map)

end
