(* ===== verification/Holders.thy ===== *)
theory Holders
  imports Catalog
begin

text \<open>
  The holder registry of the Issuer Service (issuer.rs): the canonical spelling a holder's DID
  is indexed by, and the registry that maps holder ids and canonical DIDs to records, bounded by
  refusal rather than eviction.
\<close>

definition MAX_HOLDERS :: nat where
  "MAX_HOLDERS = 4096"

section \<open>The canonical spelling of a DID\<close>

fun uppercase_escapes :: "string \<Rightarrow> string" where
  "uppercase_escapes [] = []"
| "uppercase_escapes (c # s) =
     (if c = CHR ''%'' then
        (case s of
           a # b # r \<Rightarrow>
             if is_ascii_hexdigit a \<and> is_ascii_hexdigit b
             then CHR ''%'' # upper_char a # upper_char b # uppercase_escapes r
             else CHR ''%'' # uppercase_escapes s
         | _ \<Rightarrow> CHR ''%'' # uppercase_escapes s)
      else c # uppercase_escapes s)"

definition host_byte :: "char \<Rightarrow> bool" where
  "host_byte c \<longleftrightarrow> is_ascii_alphanumeric c \<or> c \<in> {CHR ''.'', CHR ''-''}"

definition fold_segment :: "nat \<Rightarrow> string \<Rightarrow> string" where
  "fold_segment i segment =
     (let host = takeWhile (\<lambda>c. c \<noteq> CHR ''%'') segment;
          tail = dropWhile (\<lambda>c. c \<noteq> CHR ''%'') segment
      in if i = 0 \<and> list_all host_byte host
         then uppercase_escapes (to_ascii_lowercase host @ tail)
         else uppercase_escapes segment)"

definition holder_key :: "string \<Rightarrow> string" where
  "holder_key did =
     (case strip_prefix did ''did:web:'' of
        None \<Rightarrow> did
      | Some rest \<Rightarrow> ''did:web:'' @ join_str '':''
          (map (\<lambda>(i, segment). fold_segment i segment)
             (List.enumerate 0 (split_char (CHR '':'') rest))))"

lemma byte_eq_iff: "byte a = byte b \<longleftrightarrow> a = b"
  unfolding byte_def by (simp add: of_char_eq_iff)

lemma byte_chars:
  "byte (CHR ''%'') = 37" "byte (CHR '':'') = 58" "byte (CHR ''.'') = 46" "byte (CHR ''-'') = 45"
  by (simp_all add: byte_def)

lemmas ascii_defs = is_ascii_hexdigit_def is_ascii_digit_def is_ascii_alphanumeric_def
  is_ascii_alphabetic_def is_ascii_uppercase_def is_ascii_lowercase_def lower_char_def
  upper_char_def host_byte_def

lemma byte_lower_char: "byte (lower_char c) = (if 65 \<le> byte c \<and> byte c \<le> 90 then byte c + 32 else byte c)"
  using byte_less_256 [of c] by (auto simp: lower_char_def is_ascii_uppercase_def)

lemma byte_upper_char: "byte (upper_char c) = (if 97 \<le> byte c \<and> byte c \<le> 122 then byte c - 32 else byte c)"
  using byte_less_256 [of c] by (auto simp: upper_char_def is_ascii_lowercase_def)

lemma hexdigit_upper [simp]: "is_ascii_hexdigit c \<Longrightarrow> is_ascii_hexdigit (upper_char c)"
  by (auto simp: is_ascii_hexdigit_def is_ascii_digit_def byte_upper_char)

lemma hexdigit_not_special:
  "is_ascii_hexdigit c \<Longrightarrow> c \<noteq> CHR ''%''" "is_ascii_hexdigit c \<Longrightarrow> c \<noteq> CHR '':''"
  by (auto simp: is_ascii_hexdigit_def is_ascii_digit_def byte_chars)

lemmas byte_norm = byte_eq_iff [symmetric] byte_lower_char byte_upper_char byte_chars

lemma lower_char_special [simp]:
  "lower_char c = CHR ''%'' \<longleftrightarrow> c = CHR ''%''" "lower_char c = CHR '':'' \<longleftrightarrow> c = CHR '':''"
  by (simp_all only: byte_norm) auto

lemma upper_char_colon [simp]: "upper_char c = CHR '':'' \<longleftrightarrow> c = CHR '':''"
  by (simp only: byte_norm) auto

lemma host_byte_iff: "host_byte c \<longleftrightarrow> (65 \<le> byte c \<and> byte c \<le> 90) \<or> (97 \<le> byte c \<and> byte c \<le> 122)
   \<or> (48 \<le> byte c \<and> byte c \<le> 57) \<or> byte c = 46 \<or> byte c = 45"
  by (simp only: host_byte_def is_ascii_alphanumeric_def is_ascii_alphabetic_def
      is_ascii_uppercase_def is_ascii_lowercase_def is_ascii_digit_def insert_iff empty_iff byte_norm) auto

lemma host_byte_lower [simp]: "host_byte c \<Longrightarrow> host_byte (lower_char c)"
  unfolding host_byte_iff byte_lower_char by auto

lemma lower_upper_char: "lower_char (upper_char c) = lower_char c"
  by (simp only: byte_norm) auto

text \<open>The three kinds of step of the escape loop, and the induction they give.\<close>

definition hex_escape :: "string \<Rightarrow> bool" where
  "hex_escape s \<longleftrightarrow> (case s of a # b # r \<Rightarrow> is_ascii_hexdigit a \<and> is_ascii_hexdigit b | _ \<Rightarrow> False)"

declare uppercase_escapes.simps(2) [simp del]

lemma uppercase_escapes_steps:
  "is_ascii_hexdigit a \<Longrightarrow> is_ascii_hexdigit b \<Longrightarrow> uppercase_escapes (CHR ''%'' # a # b # r)
     = CHR ''%'' # upper_char a # upper_char b # uppercase_escapes r"
  "\<not> hex_escape s \<Longrightarrow> uppercase_escapes (CHR ''%'' # s) = CHR ''%'' # uppercase_escapes s"
  "c \<noteq> CHR ''%'' \<Longrightarrow> uppercase_escapes (c # s) = c # uppercase_escapes s"
proof -
  show "is_ascii_hexdigit a \<Longrightarrow> is_ascii_hexdigit b \<Longrightarrow> uppercase_escapes (CHR ''%'' # a # b # r)
     = CHR ''%'' # upper_char a # upper_char b # uppercase_escapes r"
    by (simp add: uppercase_escapes.simps(2) [of _ "a # b # r"])
  show "uppercase_escapes (CHR ''%'' # s) = CHR ''%'' # uppercase_escapes s" if "\<not> hex_escape s"
  proof (cases s)
    case (Cons x t)
    with that show ?thesis
      by (cases t) (auto simp: uppercase_escapes.simps(2) [of "CHR ''%''"] hex_escape_def)
  qed (simp add: uppercase_escapes.simps(2))
  show "c \<noteq> CHR ''%'' \<Longrightarrow> uppercase_escapes (c # s) = c # uppercase_escapes s"
    by (simp add: uppercase_escapes.simps(2) [of c s])
qed

lemma hex_escapeE:
  assumes "hex_escape s"
  obtains a b r where "s = a # b # r" "is_ascii_hexdigit a" "is_ascii_hexdigit b"
  using assms by (auto simp: hex_escape_def split: list.splits)

lemma escape_induct [case_names Nil hex lone other]:
  assumes "P []"
    and "\<And>a b r. is_ascii_hexdigit a \<Longrightarrow> is_ascii_hexdigit b \<Longrightarrow> P r \<Longrightarrow> P (CHR ''%'' # a # b # r)"
    and "\<And>s. \<not> hex_escape s \<Longrightarrow> P s \<Longrightarrow> P (CHR ''%'' # s)"
    and "\<And>c s. c \<noteq> CHR ''%'' \<Longrightarrow> P s \<Longrightarrow> P (c # s)"
  shows "P s"
proof (induction s rule: length_induct)
  case (1 s)
  show ?case
  proof (cases s)
    case Nil
    with assms(1) show ?thesis by simp
  next
    case (Cons c t)
    with 1 have t: "P t" by simp
    show ?thesis
    proof (cases "c = CHR ''%'' \<and> hex_escape t")
      case True
      then obtain a b r where abr: "t = a # b # r" "is_ascii_hexdigit a" "is_ascii_hexdigit b"
        by (auto elim: hex_escapeE)
      with 1 Cons have "P r" by simp
      with abr True Cons assms(2) show ?thesis by simp
    next
      case False
      with t Cons assms(3,4) show ?thesis by (cases "c = CHR ''%''") auto
    qed
  qed
qed

lemma hex_escape_uppercase: "hex_escape (uppercase_escapes s) \<Longrightarrow> hex_escape s"
proof (induction s rule: escape_induct)
  case (other c s)
  then obtain b r where b: "uppercase_escapes s = b # r" "is_ascii_hexdigit c" "is_ascii_hexdigit b"
    by (auto simp: uppercase_escapes_steps elim: hex_escapeE)
  then obtain y s' where s: "s = y # s'" by (cases s) auto
  have "y = b"
  proof (cases "y = CHR ''%''")
    case True
    with b(1) s have "b = CHR ''%''"
      by (cases "hex_escape s'") (auto simp: uppercase_escapes_steps elim!: hex_escapeE)
    with b(3) show ?thesis using hexdigit_not_special(1) by blast
  next
    case False
    with b(1) s show ?thesis by (simp add: uppercase_escapes_steps)
  qed
  with b s show ?case by (simp add: hex_escape_def)
qed (auto simp: uppercase_escapes_steps hex_escape_def dest: hexdigit_not_special(1) split: list.splits)

lemma uppercase_escapes_idem: "uppercase_escapes (uppercase_escapes s) = uppercase_escapes s"
proof (induction s rule: escape_induct)
  case (lone s)
  then have "\<not> hex_escape (uppercase_escapes s)" using hex_escape_uppercase by blast
  with lone show ?case by (simp add: uppercase_escapes_steps)
qed (simp_all add: uppercase_escapes_steps)

lemma uppercase_escapes_prefix:
  "CHR ''%'' \<notin> set h \<Longrightarrow> uppercase_escapes (h @ t) = h @ uppercase_escapes t"
  by (induction h) (auto simp: uppercase_escapes_steps)

lemma uppercase_escapes_hd:
  "t = [] \<or> hd t = CHR ''%'' \<Longrightarrow> uppercase_escapes t = [] \<or> hd (uppercase_escapes t) = CHR ''%''"
  by (induction t rule: escape_induct) (simp_all add: uppercase_escapes_steps)

lemma uppercase_escapes_no_colon:
  "CHR '':'' \<notin> set s \<Longrightarrow> CHR '':'' \<notin> set (uppercase_escapes s)"
proof (induction s rule: escape_induct)
  case (hex a b r)
  then have "a \<noteq> CHR '':''" "b \<noteq> CHR '':''" by (auto dest: hexdigit_not_special(2))
  then have "upper_char a \<noteq> CHR '':''" "upper_char b \<noteq> CHR '':''" by simp_all
  then have "CHR '':'' \<noteq> upper_char a" "CHR '':'' \<noteq> upper_char b" by metis+
  with hex show ?case by (simp add: uppercase_escapes_steps)
qed (simp_all add: uppercase_escapes_steps)

lemma to_lower_uppercase_escapes:
  "to_ascii_lowercase (uppercase_escapes s) = to_ascii_lowercase s"
  by (induction s rule: escape_induct)
    (simp_all add: uppercase_escapes_steps to_ascii_lowercase_def lower_upper_char)

lemma takeWhile_append_hd: "\<forall>x \<in> set h. P x \<Longrightarrow> t = [] \<or> \<not> P (hd t) \<Longrightarrow> takeWhile P (h @ t) = h"
  by (cases t) (auto simp: takeWhile_append)

lemma dropWhile_append_hd: "\<forall>x \<in> set h. P x \<Longrightarrow> t = [] \<or> \<not> P (hd t) \<Longrightarrow> dropWhile P (h @ t) = t"
  by (cases t) (auto simp: dropWhile_append)

lemma fold_segment_idem: "fold_segment i (fold_segment i s) = fold_segment i s"
proof -
  let ?P = "\<lambda>c. c \<noteq> CHR ''%''"
  let ?h = "takeWhile ?P s" and ?t = "dropWhile ?P s"
  have tail: "uppercase_escapes ?t = [] \<or> hd (uppercase_escapes ?t) = CHR ''%''"
    using uppercase_escapes_hd [of ?t] hd_dropWhile [of ?P s] by auto
  have noP: "\<forall>c \<in> set ?h. ?P c" by (auto dest: set_takeWhileD)
  show ?thesis
  proof (cases "i = 0 \<and> list_all host_byte ?h")
    case True
    let ?l = "to_ascii_lowercase ?h"
    have l: "\<forall>c \<in> set ?l. ?P c" using noP by (auto simp: to_ascii_lowercase_def)
    then have pre: "uppercase_escapes (?l @ t) = ?l @ uppercase_escapes t" for t
      by (intro uppercase_escapes_prefix) blast
    have eq: "fold_segment i s = ?l @ uppercase_escapes ?t"
      using True by (simp add: fold_segment_def Let_def pre)
    have hb: "list_all host_byte ?l"
      using True by (auto simp: to_ascii_lowercase_def list_all_iff)
    have ll: "to_ascii_lowercase ?l = ?l" by (simp add: to_ascii_lowercase_def)
    have "takeWhile ?P (?l @ uppercase_escapes ?t) = ?l"
      "dropWhile ?P (?l @ uppercase_escapes ?t) = uppercase_escapes ?t"
      using takeWhile_append_hd [OF l] dropWhile_append_hd [OF l] tail by auto
    then show ?thesis
      unfolding eq using True hb ll
      by (simp add: fold_segment_def Let_def pre uppercase_escapes_idem)
  next
    case False
    have split: "uppercase_escapes s = ?h @ uppercase_escapes ?t"
      using uppercase_escapes_prefix [of ?h ?t] noP by auto
    have "takeWhile ?P (uppercase_escapes s) = ?h"
      unfolding split using takeWhile_append_hd [OF noP] tail by auto
    with False show ?thesis
      by (auto simp: fold_segment_def Let_def uppercase_escapes_idem)
  qed
qed

lemma fold_segment_no_colon:
  assumes "CHR '':'' \<notin> set s"
  shows "CHR '':'' \<notin> set (fold_segment i s)"
proof -
  let ?P = "\<lambda>c. c \<noteq> CHR ''%''"
  have "CHR '':'' \<notin> set (takeWhile ?P s)" "CHR '':'' \<notin> set (dropWhile ?P s)"
    using assms by (auto dest: set_takeWhileD set_dropWhileD)
  moreover have "CHR '':'' \<notin> set (to_ascii_lowercase h)" if "CHR '':'' \<notin> set h" for h
  proof
    assume "CHR '':'' \<in> set (to_ascii_lowercase h)"
    then obtain c where c: "c \<in> set h" "lower_char c = CHR '':''"
      unfolding to_ascii_lowercase_def set_map by (metis imageE)
    from c(2) have "c = CHR '':''" by (simp only: lower_char_special)
    with c(1) that show False by simp
  qed
  ultimately have "CHR '':'' \<notin> set (to_ascii_lowercase (takeWhile ?P s) @ dropWhile ?P s)"
    by simp
  from uppercase_escapes_no_colon [OF this] uppercase_escapes_no_colon [OF assms] show ?thesis
    unfolding fold_segment_def Let_def by presburger
qed

lemma to_lower_append [simp]: "to_ascii_lowercase (a @ b) = to_ascii_lowercase a @ to_ascii_lowercase b"
  by (simp add: to_ascii_lowercase_def)

lemma to_lower_idem [simp]: "to_ascii_lowercase (to_ascii_lowercase s) = to_ascii_lowercase s"
  by (simp add: to_ascii_lowercase_def)

lemma to_lower_fold_segment: "to_ascii_lowercase (fold_segment i s) = to_ascii_lowercase s"
proof -
  have "to_ascii_lowercase (takeWhile P s) @ to_ascii_lowercase (dropWhile P s) = to_ascii_lowercase s" for P
    by (metis takeWhile_dropWhile_id to_lower_append)
  then show ?thesis by (simp add: fold_segment_def Let_def to_lower_uppercase_escapes)
qed

lemma to_lower_join_str:
  "to_ascii_lowercase (join_str sep xs) = join_str (to_ascii_lowercase sep) (map to_ascii_lowercase xs)"
  by (induction sep xs rule: join_str.induct) (simp_all add: to_ascii_lowercase_def)

abbreviation fold_all :: "string list \<Rightarrow> string list" where
  "fold_all ss \<equiv> map (\<lambda>(i, s). fold_segment i s) (List.enumerate 0 ss)"

lemma fold_all_idem: "fold_all (fold_all ss) = fold_all ss"
  by (rule nth_equalityI) (auto simp: nth_enumerate_eq fold_segment_idem)

lemma fold_all_no_colon:
  "\<forall>s \<in> set ss. CHR '':'' \<notin> set s \<Longrightarrow> \<forall>s \<in> set (fold_all ss). CHR '':'' \<notin> set s"
  by (auto simp: in_set_enumerate_eq fold_segment_no_colon)

text \<open>
  The key a holder is indexed by is canonical: computing it again changes nothing, and it
  differs from the DID only in the case of ASCII letters, so two DIDs are one holder only if
  they agree up to case.
\<close>

theorem holder_key_canonical:
  "holder_key (holder_key did) = holder_key did
   \<and> to_ascii_lowercase (holder_key did) = to_ascii_lowercase did"
proof (cases "strip_prefix did ''did:web:''")
  case None
  then show ?thesis by (simp add: holder_key_def)
next
  case (Some rest)
  let ?ss = "split_char (CHR '':'') rest"
  have did: "did = ''did:web:'' @ rest" using Some by (simp add: strip_prefix_Some)
  have key: "holder_key did = ''did:web:'' @ join_str '':'' (fold_all ?ss)"
    using Some by (simp add: holder_key_def)
  have "fold_all ?ss \<noteq> []" by (simp add: enumerate_eq_zip)
  moreover have "\<forall>s \<in> set (fold_all ?ss). CHR '':'' \<notin> set s"
    by (rule fold_all_no_colon) (auto dest: split_char_free)
  ultimately have "split_char (CHR '':'') (join_str '':'' (fold_all ?ss)) = fold_all ?ss"
    by (rule split_join_str)
  then have idem: "holder_key (holder_key did) = holder_key did"
    unfolding key by (simp add: holder_key_def fold_all_idem del: append_Cons)
  have "map to_ascii_lowercase (fold_all ?ss) = map to_ascii_lowercase ?ss"
    by (rule nth_equalityI) (auto simp: nth_enumerate_eq to_lower_fold_segment)
  then have "to_ascii_lowercase (join_str '':'' (fold_all ?ss)) = to_ascii_lowercase rest"
    unfolding to_lower_join_str by (simp only: to_lower_join_str [symmetric] join_split_char)
  then have "to_ascii_lowercase (holder_key did) = to_ascii_lowercase did"
    using key by (metis did to_lower_append)
  with idem show ?thesis by simp
qed

section \<open>The registry\<close>

datatype holder_status = Pending | Approved | Rejected

record holder =
  holder_id :: string
  did :: string
  name :: "string option"
  properties :: "(string \<times> json) list"
  status :: holder_status
  created_at :: u64

record holder_registry =
  holders :: "(string, holder) fmap"
  by_did_index :: "(string, string) fmap"
  holder_order :: "string list"

definition registry_default :: holder_registry where
  "registry_default = \<lparr>holders = fmempty, by_did_index = fmempty, holder_order = []\<rparr>"

definition registry_len :: "holder_registry \<Rightarrow> nat" where
  "registry_len r = fcard (fmdom (holders r))"

definition registry_get :: "holder_registry \<Rightarrow> string \<Rightarrow> holder option" where
  "registry_get r i = fmlookup (holders r) i"

definition by_did :: "holder_registry \<Rightarrow> string \<Rightarrow> holder option" where
  "by_did r d = Option.bind (fmlookup (by_did_index r) (holder_key d)) (fmlookup (holders r))"

definition registry_all :: "holder_registry \<Rightarrow> holder list" where
  "registry_all r = List.map_filter (fmlookup (holders r)) (holder_order r)"

definition registry_insert ::
    "holder \<Rightarrow> holder_registry \<Rightarrow> (holder \<times> holder_registry, issuer_error) result" where
  "registry_insert h r =
     (if holder_id h |\<in>| fmdom (holders r)
      then Err (Conflict (''holder '' @ [CHR 39] @ holder_id h @ [CHR 39] @ '' already exists''))
      else let key = holder_key (did h) in
        case Option.bind (fmlookup (by_did_index r) key) (fmlookup (holders r)) of
          Some existing \<Rightarrow> Err (Conflict (''a holder with did '' @ [CHR 39] @ did existing @ [CHR 39]
                                @ '' already exists''))
        | None \<Rightarrow>
            if registry_len r \<ge> MAX_HOLDERS
            then Err (Full (''holder registry is full ('' @ nat_to_string MAX_HOLDERS @ '')''))
            else Ok (h, \<lparr>holders = fmupd (holder_id h) h (holders r),
                         by_did_index = fmupd key (holder_id h) (by_did_index r),
                         holder_order = holder_order r @ [holder_id h]\<rparr>))"

text \<open>A write through \<open>get_mut(id)\<close>.\<close>

definition registry_modify :: "string \<Rightarrow> (holder \<Rightarrow> holder) \<Rightarrow> holder_registry \<Rightarrow> holder_registry" where
  "registry_modify i f r =
     (case fmlookup (holders r) i of
        None \<Rightarrow> r
      | Some h \<Rightarrow> r\<lparr>holders := fmupd i (f h) (holders r)\<rparr>)"

text \<open>
  Well-formedness: records are filed under their own id, the DID index and the records determine
  each other, and the insertion order lists every id once.
\<close>

definition registry_ok :: "holder_registry \<Rightarrow> bool" where
  "registry_ok r \<longleftrightarrow>
     (\<forall>i h. fmlookup (holders r) i = Some h \<longrightarrow>
        holder_id h = i \<and> fmlookup (by_did_index r) (holder_key (did h)) = Some i)
     \<and> (\<forall>k i. fmlookup (by_did_index r) k = Some i \<longrightarrow>
        (\<exists>h. fmlookup (holders r) i = Some h \<and> holder_key (did h) = k))
     \<and> distinct (holder_order r) \<and> set (holder_order r) = fset (fmdom (holders r))
     \<and> registry_len r \<le> MAX_HOLDERS"

lemma registry_ok_default [hub_inv]: "registry_ok registry_default"
  by (simp add: registry_ok_def registry_default_def registry_len_def)

lemma registry_okD:
  assumes "registry_ok r" and "fmlookup (holders r) i = Some h"
  shows "holder_id h = i" "fmlookup (by_did_index r) (holder_key (did h)) = Some i"
  using assms by (auto simp: registry_ok_def)

lemma by_did_Some:
  assumes "registry_ok r"
  shows "by_did r d = Some h \<longleftrightarrow>
    fmlookup (holders r) (holder_id h) = Some h \<and> holder_key (did h) = holder_key d"
proof
  assume "by_did r d = Some h"
  then obtain i where i: "fmlookup (by_did_index r) (holder_key d) = Some i" "fmlookup (holders r) i = Some h"
    by (auto simp: by_did_def bind_eq_Some_conv)
  with assms show "fmlookup (holders r) (holder_id h) = Some h \<and> holder_key (did h) = holder_key d"
    by (fastforce simp: registry_ok_def)
next
  assume "fmlookup (holders r) (holder_id h) = Some h \<and> holder_key (did h) = holder_key d"
  with assms registry_okD [of r "holder_id h" h] show "by_did r d = Some h"
    by (simp add: by_did_def)
qed

lemma by_did_None:
  assumes "registry_ok r"
  shows "by_did r d = None \<longleftrightarrow> fmlookup (by_did_index r) (holder_key d) = None"
proof (cases "fmlookup (by_did_index r) (holder_key d)")
  case None
  then show ?thesis by (simp add: by_did_def)
next
  case (Some i)
  with assms obtain h where "fmlookup (holders r) i = Some h" unfolding registry_ok_def by blast
  with Some show ?thesis by (simp add: by_did_def)
qed

lemma registry_insert_Ok:
  "registry_insert h r = Ok (h', r') \<longleftrightarrow>
     fmlookup (holders r) (holder_id h) = None \<and> by_did r (did h) = None \<and> registry_len r < MAX_HOLDERS
     \<and> h' = h \<and> r' = \<lparr>holders = fmupd (holder_id h) h (holders r),
         by_did_index = fmupd (holder_key (did h)) (holder_id h) (by_did_index r),
         holder_order = holder_order r @ [holder_id h]\<rparr>"
  by (auto simp: registry_insert_def by_did_def Let_def fmdom_notD not_le
      split: option.splits if_splits dest: fmdomI)

lemma registry_insert_ok [hub_inv]:
  assumes "registry_ok r" and "registry_insert h r = Ok (h', r')"
  shows "registry_ok r'"
proof -
  note i = assms(2) [unfolded registry_insert_Ok]
  from i by_did_None [OF assms(1)] have key: "fmlookup (by_did_index r) (holder_key (did h)) = None"
    by simp
  from i have notin: "holder_id h |\<notin>| fmdom (holders r)" by (auto intro: fmdom_notI)
  have "registry_len r' \<le> MAX_HOLDERS"
    using i notin by (auto simp: registry_len_def fcard_finsert_disjoint)
  with assms(1) i key notin show ?thesis
    unfolding registry_ok_def by (auto split: if_splits; force)
qed

lemma registry_modify_ok [hub_inv]:
  assumes "registry_ok r" and "\<And>h. holder_id (f h) = holder_id h \<and> did (f h) = did h"
  shows "registry_ok (registry_modify i f r)"
proof (cases "fmlookup (holders r) i")
  case None
  with assms show ?thesis by (simp add: registry_modify_def)
next
  case (Some h)
  then have dom: "fmdom (fmupd i (f h) (holders r)) = fmdom (holders r)" by simp
  with assms Some show ?thesis
    unfolding registry_ok_def registry_len_def registry_modify_def
    by (auto split: if_splits) (metis option.inject)
qed

text \<open>
  In a well-formed registry the DID lookup and insertion agree: \<open>by_did\<close> finds a record
  exactly when one is stored whose DID has the same canonical spelling; \<open>insert\<close> succeeds exactly
  when the id is unused, no stored holder has that canonical DID and the cap is not reached; it
  then keeps the registry well-formed, files the new holder, and forgets or changes nobody.
\<close>

theorem registry_insert_correct:
  assumes "registry_ok r"
  shows "(by_did r d = Some x \<longleftrightarrow>
      fmlookup (holders r) (holder_id x) = Some x \<and> holder_key (did x) = holder_key d)
    \<and> (is_ok (registry_insert h r) \<longleftrightarrow> fmlookup (holders r) (holder_id h) = None
        \<and> (\<forall>i g. fmlookup (holders r) i = Some g \<longrightarrow> holder_key (did g) \<noteq> holder_key (did h))
        \<and> registry_len r < MAX_HOLDERS)
    \<and> (\<forall>h' r'. registry_insert h r = Ok (h', r') \<longrightarrow> registry_ok r' \<and> by_did r' (did h) = Some h
        \<and> registry_all r' = registry_all r @ [h]
        \<and> (\<forall>i g. fmlookup (holders r) i = Some g \<longrightarrow> fmlookup (holders r') i = Some g))"
proof (intro conjI allI impI)
  show "by_did r d = Some x \<longleftrightarrow>
      fmlookup (holders r) (holder_id x) = Some x \<and> holder_key (did x) = holder_key d"
    by (rule by_did_Some [OF assms])
  have "by_did r (did h) = None \<longleftrightarrow>
      (\<forall>i g. fmlookup (holders r) i = Some g \<longrightarrow> holder_key (did g) \<noteq> holder_key (did h))"
    using by_did_Some [OF assms, of "did h"] registry_okD(1) [OF assms]
    by (metis not_None_eq)
  moreover have "is_ok (registry_insert h r) \<longleftrightarrow> (\<exists>h' r'. registry_insert h r = Ok (h', r'))"
    by (cases "registry_insert h r") auto
  ultimately show "is_ok (registry_insert h r) \<longleftrightarrow> fmlookup (holders r) (holder_id h) = None
        \<and> (\<forall>i g. fmlookup (holders r) i = Some g \<longrightarrow> holder_key (did g) \<noteq> holder_key (did h))
        \<and> registry_len r < MAX_HOLDERS"
    by (simp add: registry_insert_Ok)
next
  fix h' r' assume ins: "registry_insert h r = Ok (h', r')"
  note i = ins [unfolded registry_insert_Ok]
  show ok: "registry_ok r'" by (rule registry_insert_ok [OF assms ins])
  show "by_did r' (did h) = Some h" unfolding by_did_Some [OF ok] using i by simp
  show "fmlookup (holders r') j = Some g" if "fmlookup (holders r) j = Some g" for j g
    using i that by auto
  from i have "holder_id h \<notin> set (holder_order r)"
    using assms by (auto simp: registry_ok_def fmdom_notI)
  then show "registry_all r' = registry_all r @ [h]"
    using i by (auto simp: registry_all_def List.map_filter_def intro!: map_cong filter_cong)
qed

theorem registry_insert_correct_witness:
  "let h = \<lparr>holder_id = ''h1'', did = ''did:web:Acme.example'', name = None, properties = [],
            status = Pending, created_at = 5\<rparr>;
       r = registry_default
   in is_ok (registry_insert h r)
      \<and> (\<forall>h' r'. registry_insert h r = Ok (h', r') \<longrightarrow> by_did r' ''did:web:acme.EXAMPLE'' = Some h)"
proof -
  let ?h = "\<lparr>holder_id = ''h1'', did = ''did:web:Acme.example'', name = None, properties = [],
            status = Pending, created_at = 5\<rparr>"
  have ok: "registry_ok registry_default" by (rule registry_ok_default)
  have ins: "is_ok (registry_insert ?h registry_default)"
    using registry_insert_correct [OF ok, of d x ?h for d x]
    by (simp add: registry_default_def registry_len_def MAX_HOLDERS_def)
  have key: "holder_key ''did:web:Acme.example'' = holder_key ''did:web:acme.EXAMPLE''"
    by code_simp
  have "by_did r' ''did:web:acme.EXAMPLE'' = Some ?h" if "registry_insert ?h registry_default = Ok (h', r')" for h' r'
    using registry_insert_correct [OF ok, of "[]" ?h ?h] that key by (simp add: by_did_def)
  with ins show ?thesis by (simp add: Let_def)
qed

end
