(* ===== verification/Processes.thy ===== *)
theory Processes
  imports Holders
begin

text \<open>
  Issuance processes (issuer.rs) and the bounded table that tracks them (\<open>RequestTable\<close>,
  state.rs). The table evicts terminal processes only: one that waits for an operator or is being
  delivered is never pushed out by other traffic.
\<close>

definition MAX_TRACKED_REQUESTS :: nat where
  "MAX_TRACKED_REQUESTS = 2048"

definition MAX_PENDING_PROCESSES_PER_HOLDER :: nat where
  "MAX_PENDING_PROCESSES_PER_HOLDER = 8"

definition MAX_PENDING_PROCESSES :: nat where
  "MAX_PENDING_PROCESSES = 1024"

definition MAX_REQUEST_CREDENTIALS :: nat where
  "MAX_REQUEST_CREDENTIALS = 16"

section \<open>Process states\<close>

datatype process_state = PSubmitted | PApproved | PDelivered | PErrored | PRejected

fun dcp_status :: "process_state \<Rightarrow> string" where
  "dcp_status PSubmitted = ''RECEIVED''"
| "dcp_status PApproved = ''RECEIVED''"
| "dcp_status PDelivered = ''ISSUED''"
| "dcp_status PErrored = ''REJECTED''"
| "dcp_status PRejected = ''REJECTED''"

fun is_active :: "process_state \<Rightarrow> bool" where
  "is_active PSubmitted = True"
| "is_active PApproved = True"
| "is_active _ = False"

definition is_terminal :: "process_state \<Rightarrow> bool" where
  "is_terminal s \<longleftrightarrow> \<not> is_active s"

record issuance_process =
  p_id :: string
  p_state :: process_state
  p_holder_id :: string
  p_holder_did :: string
  p_holder_pid :: string
  p_credential_definitions :: "string list"
  p_error_detail :: "string option"
  p_created_at :: u64
  p_state_timestamp :: u64
  p_delivery_bearer :: "string option"
  p_delivery_started :: bool

definition transition :: "process_state \<Rightarrow> u64 \<Rightarrow> issuance_process \<Rightarrow> issuance_process" where
  "transition s now p = p\<lparr>p_state := s, p_state_timestamp := now\<rparr>"

section \<open>The request table\<close>

record request_table =
  records :: "(string, issuance_process) fmap"
  rt_order :: "string list"
  rt_capacity :: nat

definition rt_new :: "nat \<Rightarrow> request_table" where
  "rt_new c = \<lparr>records = fmempty, rt_order = [], rt_capacity = c\<rparr>"

definition rt_len :: "request_table \<Rightarrow> nat" where
  "rt_len t = fcard (fmdom (records t))"

definition evictable :: "(string, issuance_process) fmap \<Rightarrow> string \<Rightarrow> bool" where
  "evictable m i = (case fmlookup m i of None \<Rightarrow> True | Some p \<Rightarrow> is_terminal (p_state p))"

text \<open>\<open>order.iter().position(..)\<close> and \<open>order.remove(position)\<close>: the oldest evictable id.\<close>

fun remove_first :: "('a \<Rightarrow> bool) \<Rightarrow> 'a list \<Rightarrow> ('a \<times> 'a list) option" where
  "remove_first P [] = None"
| "remove_first P (x # xs) =
     (if P x then Some (x, xs) else map_option (\<lambda>(y, ys). (y, x # ys)) (remove_first P xs))"

lemma remove_first_length: "remove_first P xs = Some (y, ys) \<Longrightarrow> length ys < length xs"
  by (induction xs arbitrary: ys) (auto split: if_splits)

text \<open>The eviction loop; every round shortens the queue. \<open>None\<close> is \<open>TableFull\<close>.\<close>

function rt_make_room ::
    "nat \<Rightarrow> (string, issuance_process) fmap \<Rightarrow> string list
     \<Rightarrow> ((string, issuance_process) fmap \<times> string list) option" where
  "rt_make_room cap m ks =
     (if fcard (fmdom m) \<ge> cap then
        (case remove_first (evictable m) ks of
           None \<Rightarrow> None
         | Some (oldest, ks') \<Rightarrow> rt_make_room cap (fmdrop oldest m) ks')
      else Some (m, ks))"
  by pat_completeness auto
termination
  by (relation "measure (\<lambda>(cap, m, ks). length ks)") (auto simp: remove_first_length)

declare rt_make_room.simps [simp del]

definition rt_insert :: "string \<Rightarrow> issuance_process \<Rightarrow> request_table \<Rightarrow> request_table option" where
  "rt_insert i p t =
     (case rt_make_room (rt_capacity t) (records t) (rt_order t) of
        None \<Rightarrow> None
      | Some (m, ks) \<Rightarrow> Some (t\<lparr>records := fmupd i p m, rt_order := ks @ [i]\<rparr>))"

definition pending_ids :: "request_table \<Rightarrow> string fset" where
  "pending_ids t = ffilter (\<lambda>i. case fmlookup (records t) i of
     None \<Rightarrow> False | Some p \<Rightarrow> p_state p = PSubmitted) (fmdom (records t))"

definition pending_of :: "request_table \<Rightarrow> string \<Rightarrow> string fset" where
  "pending_of t h = ffilter (\<lambda>i. case fmlookup (records t) i of
     None \<Rightarrow> False | Some p \<Rightarrow> p_state p = PSubmitted \<and> p_holder_id p = h) (fmdom (records t))"

definition pending_counts :: "request_table \<Rightarrow> string \<Rightarrow> nat \<times> nat" where
  "pending_counts t h = (fcard (pending_of t h), fcard (pending_ids t))"

definition rt_get :: "request_table \<Rightarrow> string \<Rightarrow> issuance_process option" where
  "rt_get t i = fmlookup (records t) i"

text \<open>A write through \<open>get_mut(id)\<close>, and one through \<open>iter_mut()\<close> on the records a filter keeps.\<close>

definition rt_modify :: "string \<Rightarrow> (issuance_process \<Rightarrow> issuance_process) \<Rightarrow> request_table \<Rightarrow> request_table" where
  "rt_modify i f t =
     (case fmlookup (records t) i of
        None \<Rightarrow> t
      | Some p \<Rightarrow> t\<lparr>records := fmupd i (f p) (records t)\<rparr>)"

definition rt_modify_all ::
    "(issuance_process \<Rightarrow> bool) \<Rightarrow> (issuance_process \<Rightarrow> issuance_process) \<Rightarrow> request_table \<Rightarrow> request_table" where
  "rt_modify_all P f t = t\<lparr>records := fmmap (\<lambda>p. if P p then f p else p) (records t)\<rparr>"

definition rt_iter :: "request_table \<Rightarrow> issuance_process list" where
  "rt_iter t = List.map_filter (fmlookup (records t)) (rt_order t)"

section \<open>Well-formedness\<close>

definition rt_ok :: "request_table \<Rightarrow> bool" where
  "rt_ok t \<longleftrightarrow> distinct (rt_order t) \<and> set (rt_order t) = fset (fmdom (records t))
     \<and> rt_len t \<le> rt_capacity t
     \<and> (\<forall>i p. fmlookup (records t) i = Some p \<longrightarrow> p_id p = i)"

lemma remove_first_Some:
  "remove_first P xs = Some (y, ys) \<Longrightarrow>
   \<exists>as bs. xs = as @ y # bs \<and> ys = as @ bs \<and> P y \<and> (\<forall>a \<in> set as. \<not> P a)"
proof (induction xs arbitrary: ys)
  case Nil
  then show ?case by simp
next
  case (Cons x xs)
  show ?case
  proof (cases "P x")
    case True
    with Cons.prems have "x # xs = [] @ y # xs \<and> ys = [] @ xs \<and> P y" by simp
    then show ?thesis by fastforce
  next
    case False
    with Cons.prems obtain zs where zs: "remove_first P xs = Some (y, zs)" "ys = x # zs" by auto
    from Cons.IH [OF zs(1)] obtain as bs where
      "xs = as @ y # bs" "zs = as @ bs" "P y" "\<forall>a \<in> set as. \<not> P a" by blast
    with zs(2) False have "x # xs = (x # as) @ y # bs \<and> ys = (x # as) @ bs \<and> P y
      \<and> (\<forall>a \<in> set (x # as). \<not> P a)" by simp
    then show ?thesis by blast
  qed
qed

lemma remove_first_None: "remove_first P xs = None \<longleftrightarrow> (\<forall>x \<in> set xs. \<not> P x)"
  by (induction xs) auto

lemma rt_modify_dom [simp]: "fmdom (records (rt_modify i f t)) = fmdom (records t)"
  by (auto simp: rt_modify_def split: option.splits)

lemma rt_modify_ok [hub_inv]:
  "rt_ok t \<Longrightarrow> (\<And>p. p_id (f p) = p_id p) \<Longrightarrow> rt_ok (rt_modify i f t)"
  by (auto simp: rt_ok_def rt_len_def rt_modify_def fmdomI split: option.splits)

lemma rt_modify_all_ok [hub_inv]:
  "rt_ok t \<Longrightarrow> (\<And>p. p_id (f p) = p_id p) \<Longrightarrow> rt_ok (rt_modify_all P f t)"
  by (auto simp: rt_ok_def rt_len_def rt_modify_all_def)

lemma rt_modify_lookup:
  "fmlookup (records (rt_modify i f t)) j =
     (if j = i then map_option f (fmlookup (records t) i) else fmlookup (records t) j)"
  by (auto simp: rt_modify_def split: option.splits)

lemma rt_modify_all_lookup:
  "fmlookup (records (rt_modify_all P f t)) j =
     map_option (\<lambda>p. if P p then f p else p) (fmlookup (records t) j)"
  by (simp add: rt_modify_all_def)

text \<open>What making room does: it drops evictable processes, each older than any it keeps.\<close>

lemma rt_make_room_Some:
  assumes "rt_make_room cap m ks = Some (m', ks')" and "distinct ks" and "set ks = fset (fmdom m)"
  shows "distinct ks' \<and> set ks' = fset (fmdom m') \<and> fcard (fmdom m') < cap
    \<and> (\<forall>i. i |\<in>| fmdom m' \<longrightarrow> fmlookup m' i = fmlookup m i)
    \<and> (\<forall>i p. fmlookup m i = Some p \<and> is_active (p_state p) \<longrightarrow> fmlookup m' i = Some p)
    \<and> fset (fmdom m') \<subseteq> fset (fmdom m)"
  using assms
proof (induction cap m ks rule: rt_make_room.induct)
  case (1 cap m ks)
  show ?case
  proof (cases "fcard (fmdom m) \<ge> cap")
    case False
    with "1.prems" show ?thesis by (simp add: rt_make_room.simps [of cap m ks])
  next
    case True
    with "1.prems"(1) obtain old ks1 where rm: "remove_first (evictable m) ks = Some (old, ks1)"
      and rec: "rt_make_room cap (fmdrop old m) ks1 = Some (m', ks')"
      by (auto simp: rt_make_room.simps [of cap m ks] split: option.splits)
    from remove_first_Some [OF rm] obtain as bs where
      ab: "ks = as @ old # bs" "ks1 = as @ bs" "evictable m old" by blast
    with "1.prems" have d: "distinct ks1" "set ks1 = fset (fmdom (fmdrop old m))" by auto
    have act: "fmlookup (fmdrop old m) i = Some p" if "fmlookup m i = Some p" "is_active (p_state p)" for i p
      using ab(3) that by (auto simp: evictable_def is_terminal_def)
    note IH = "1.IH" [OF True rm refl rec d]
    have keep: "fmlookup m' i = fmlookup m i" if "i |\<in>| fmdom m'" for i
    proof -
      from IH that have "i |\<in>| fmdom (fmdrop old m)" by auto
      then have "i \<noteq> old" by auto
      with IH that show ?thesis by auto
    qed
    show ?thesis using IH act keep by auto
  qed
qed

lemma rt_make_room_None:
  assumes "rt_make_room cap m ks = None" and "distinct ks" and "set ks = fset (fmdom m)"
  shows "cap \<le> fcard (ffilter (\<lambda>i. case fmlookup m i of None \<Rightarrow> False | Some p \<Rightarrow> is_active (p_state p)) (fmdom m))"
  using assms
proof (induction cap m ks rule: rt_make_room.induct)
  case (1 cap m ks)
  let ?act = "\<lambda>m. ffilter (\<lambda>i. case fmlookup m i of None \<Rightarrow> False | Some p \<Rightarrow> is_active (p_state p)) (fmdom m)"
  from "1.prems"(1) have full: "fcard (fmdom m) \<ge> cap"
    by (auto simp: rt_make_room.simps [of cap m ks] split: if_splits)
  show ?case
  proof (cases "remove_first (evictable m) ks")
    case None
    with "1.prems"(3) have "\<forall>i. i |\<in>| fmdom m \<longrightarrow> \<not> evictable m i" by (auto simp: remove_first_None)
    then have "?act m = fmdom m"
      by (auto simp: evictable_def is_terminal_def split: option.splits)
    with full show ?thesis by simp
  next
    case (Some r)
    then obtain old ks1 where rm: "remove_first (evictable m) ks = Some (old, ks1)" by (cases r) auto
    with full "1.prems"(1) have rec: "rt_make_room cap (fmdrop old m) ks1 = None"
      by (simp add: rt_make_room.simps [of cap m ks])
    from remove_first_Some [OF rm] "1.prems" have d: "distinct ks1" "set ks1 = fset (fmdom (fmdrop old m))"
      by auto
    have "?act (fmdrop old m) |\<subseteq>| ?act m" by (auto split: option.splits if_splits)
    with "1.IH" [OF full rm refl rec d] show ?thesis by (meson fcard_mono le_trans)
  qed
qed

lemma rt_insert_SomeD:
  assumes "rt_insert i p t = Some t'" and "rt_ok t"
  shows "fmlookup (records t') i = Some p"
    and "\<And>j q. fmlookup (records t') j = Some q \<Longrightarrow> j \<noteq> i \<Longrightarrow> fmlookup (records t) j = Some q"
    and "\<And>j q. fmlookup (records t) j = Some q \<Longrightarrow> is_active (p_state q) \<Longrightarrow> j \<noteq> i \<Longrightarrow> fmlookup (records t') j = Some q"
    and "rt_capacity t' = rt_capacity t"
    and "fmlookup (records t) i = None \<Longrightarrow> p_id p = i \<Longrightarrow> rt_ok t'"
proof -
  from assms(1) obtain m ks where room: "rt_make_room (rt_capacity t) (records t) (rt_order t) = Some (m, ks)"
    and t': "t' = t\<lparr>records := fmupd i p m, rt_order := ks @ [i]\<rparr>"
    by (auto simp: rt_insert_def split: option.splits)
  have r: "distinct ks \<and> set ks = fset (fmdom m) \<and> fcard (fmdom m) < rt_capacity t
    \<and> (\<forall>i. i |\<in>| fmdom m \<longrightarrow> fmlookup m i = fmlookup (records t) i)
    \<and> (\<forall>i p. fmlookup (records t) i = Some p \<and> is_active (p_state p) \<longrightarrow> fmlookup m i = Some p)
    \<and> fset (fmdom m) \<subseteq> fset (fmdom (records t))"
    using rt_make_room_Some [OF room] assms(2) unfolding rt_ok_def by blast
  show "fmlookup (records t') i = Some p" "rt_capacity t' = rt_capacity t" by (simp_all add: t')
  show "fmlookup (records t') j = Some q \<Longrightarrow> j \<noteq> i \<Longrightarrow> fmlookup (records t) j = Some q" for j q
    using r by (auto simp: t' dest: fmdomI)
  show "fmlookup (records t) j = Some q \<Longrightarrow> is_active (p_state q) \<Longrightarrow> j \<noteq> i \<Longrightarrow> fmlookup (records t') j = Some q" for j q
    using r by (auto simp: t')
  show "rt_ok t'" if "fmlookup (records t) i = None" "p_id p = i"
  proof -
    have "i |\<notin>| fmdom (records t)" using that(1) by (rule fmdom_notI)
    then have notin: "i |\<notin>| fmdom m" using r by auto
    have "\<forall>j q. fmlookup m j = Some q \<longrightarrow> p_id q = j"
      using r assms(2) unfolding rt_ok_def by (metis fmdomI)
    then show ?thesis
      using r notin that(2) by (auto simp: t' rt_ok_def rt_len_def fcard_finsert_disjoint)
  qed
qed

text \<open>
  Inserting into a well-formed request table never loses a process that waits for approval or
  is being delivered, keeps the table within its capacity and in order, adds exactly the new
  process, and is refused exactly when active processes alone fill the table.
\<close>

theorem request_table_insert_correct:
  assumes "rt_ok t" and "fmlookup (records t) i = None" and "p_id p = i"
  shows "(rt_insert i p t = None \<longleftrightarrow> rt_capacity t \<le>
      fcard (ffilter (\<lambda>j. case fmlookup (records t) j of None \<Rightarrow> False
        | Some q \<Rightarrow> is_active (p_state q)) (fmdom (records t))))
    \<and> (\<forall>t'. rt_insert i p t = Some t' \<longrightarrow> rt_ok t' \<and> fmlookup (records t') i = Some p
        \<and> (\<forall>j q. fmlookup (records t) j = Some q \<and> is_active (p_state q) \<longrightarrow> fmlookup (records t') j = Some q)
        \<and> (\<forall>j q. fmlookup (records t') j = Some q \<and> j \<noteq> i \<longrightarrow> fmlookup (records t) j = Some q))"
proof (intro conjI allI impI)
  let ?act = "\<lambda>m. ffilter (\<lambda>i. case fmlookup m i of None \<Rightarrow> False | Some p \<Rightarrow> is_active (p_state p)) (fmdom m)"
  let ?room = "rt_make_room (rt_capacity t) (records t) (rt_order t)"
  have "?room = None \<longleftrightarrow> rt_capacity t \<le> fcard (?act (records t))"
  proof
    show "?room = None \<Longrightarrow> rt_capacity t \<le> fcard (?act (records t))"
      using rt_make_room_None assms(1) unfolding rt_ok_def by blast
    show "?room = None" if le: "rt_capacity t \<le> fcard (?act (records t))"
    proof (rule ccontr)
      assume "?room \<noteq> None"
      then obtain m ks where "?room = Some (m, ks)" by auto
      from rt_make_room_Some [OF this] assms(1)
      have r: "fcard (fmdom m) < rt_capacity t"
        "\<forall>i p. fmlookup (records t) i = Some p \<and> is_active (p_state p) \<longrightarrow> fmlookup m i = Some p"
        unfolding rt_ok_def by blast+
      have "?act (records t) |\<subseteq>| fmdom m"
      proof
        fix j assume "j |\<in>| ?act (records t)"
        then obtain q where "fmlookup (records t) j = Some q" "is_active (p_state q)"
          by (auto split: option.splits)
        with r(2) show "j |\<in>| fmdom m" by (blast intro: fmdomI)
      qed
      from fcard_mono [OF this] le r(1) show False by simp
    qed
  qed
  then show "rt_insert i p t = None \<longleftrightarrow> rt_capacity t \<le> fcard (?act (records t))"
    by (auto simp: rt_insert_def split: option.splits)
next
  fix t' assume ins: "rt_insert i p t = Some t'"
  note r = rt_insert_SomeD [OF ins assms(1)]
  show "rt_ok t'" using r(5) assms(2,3) .
  show "fmlookup (records t') i = Some p" by (rule r(1))
  show "fmlookup (records t') j = Some q"
    if "fmlookup (records t) j = Some q \<and> is_active (p_state q)" for j q
    using r(3) [of j q] that assms(2) by (cases "j = i") auto
  show "fmlookup (records t) j = Some q" if "fmlookup (records t') j = Some q \<and> j \<noteq> i" for j q
    using r(2) [of j q] that by auto
qed

definition sample_process :: "string \<Rightarrow> process_state \<Rightarrow> issuance_process" where
  "sample_process i s = \<lparr>p_id = i, p_state = s, p_holder_id = ''h'', p_holder_did = ''did:web:h'',
     p_holder_pid = ''pid'', p_credential_definitions = [''d''], p_error_detail = None,
     p_created_at = 1, p_state_timestamp = 1, p_delivery_bearer = None, p_delivery_started = False\<rparr>"

text \<open>A table of capacity one makes room by dropping a delivered process, and refuses otherwise.\<close>

theorem request_table_insert_correct_witness:
  "let t = \<lparr>records = fmupd ''a'' (sample_process ''a'' PDelivered) fmempty, rt_order = [''a''], rt_capacity = 1\<rparr>
   in rt_ok t \<and> rt_insert ''b'' (sample_process ''b'' PSubmitted) t \<noteq> None"
proof -
  let ?t = "\<lparr>records = fmupd ''a'' (sample_process ''a'' PDelivered) fmempty, rt_order = [''a''], rt_capacity = 1\<rparr>"
  have ok: "rt_ok ?t"
    by (auto simp: rt_ok_def rt_len_def sample_process_def fcard.rep_eq split: if_splits)
  have none: "ffilter (\<lambda>j. case fmlookup (records ?t) j of None \<Rightarrow> False
      | Some q \<Rightarrow> is_active (p_state q)) (fmdom (records ?t)) = {||}"
    by (auto simp: sample_process_def split: if_splits)
  have "\<not> rt_capacity ?t \<le> 0" by simp
  then have "rt_insert ''b'' (sample_process ''b'' PSubmitted) ?t \<noteq> None"
    using request_table_insert_correct [OF ok, of "''b''" "sample_process ''b'' PSubmitted"]
    unfolding none by (simp add: sample_process_def fcard.rep_eq)
  with ok show ?thesis by (simp add: Let_def)
qed

end
