(* ===== verification/Status_List.thy ===== *)
theory Status_List
  imports Processes
begin

text \<open>
  The revocation bitstring and the records of issued credentials (issuer.rs: \<open>StatusList\<close>,
  \<open>IssuedCredential\<close>, \<open>IssuedCredentials\<close>). Bit \<open>i\<close> is the most significant bit first of byte
  \<open>i div 8\<close>. An access past the end of the byte vector panics in the source: the operations that
  index it return \<open>None\<close> there, and the invariant shows that no run of the hub gets there.
\<close>

unbundle bit_operations_syntax

definition STATUS_LIST_BITS :: nat where
  "STATUS_LIST_BITS = 131072"

section \<open>The bitstring\<close>

record status_list =
  bits :: "8 word list"
  next_index :: nat
  free :: "nat fset"
  cached_jwt :: "string option"

definition status_list_default :: status_list where
  "status_list_default =
     \<lparr>bits = replicate (STATUS_LIST_BITS div 8) 0, next_index = 0, free = {||}, cached_jwt = None\<rparr>"

definition sl_allocate :: "status_list \<Rightarrow> nat option \<times> status_list" where
  "sl_allocate sl =
     (if free sl \<noteq> {||} then
        (let i = fMin (free sl) in (Some i, sl\<lparr>free := free sl |-| {|i|}\<rparr>))
      else if next_index sl < STATUS_LIST_BITS then
        (Some (next_index sl), sl\<lparr>next_index := next_index sl + 1\<rparr>)
      else (None, sl))"

definition sl_mask :: "nat \<Rightarrow> 8 word" where
  "sl_mask i = drop_bit (i mod 8) 0x80"

definition sl_is_set :: "status_list \<Rightarrow> nat \<Rightarrow> bool option" where
  "sl_is_set sl i =
     (if i div 8 < length (bits sl) then Some (bits sl ! (i div 8) AND sl_mask i \<noteq> 0) else None)"

definition sl_set :: "nat \<Rightarrow> status_list \<Rightarrow> status_list option" where
  "sl_set i sl =
     (if i div 8 < length (bits sl) then
        (if bits sl ! (i div 8) AND sl_mask i = 0
         then Some (sl\<lparr>bits := (bits sl)[i div 8 := bits sl ! (i div 8) OR sl_mask i],
                       cached_jwt := None\<rparr>)
         else Some sl)
      else None)"

definition sl_release :: "nat \<Rightarrow> status_list \<Rightarrow> status_list option" where
  "sl_release i sl =
     (if i < next_index sl then
        map_option (\<lambda>b. if b then sl else sl\<lparr>free := finsert i (free sl)\<rparr>) (sl_is_set sl i)
      else Some sl)"

section \<open>Issued credentials\<close>

datatype record_status = RActive | RRevoked

record issued_credential =
  c_id :: string
  c_type :: string
  c_definition_id :: string
  c_holder_id :: string
  c_holder_did :: string
  c_process_id :: string
  c_format :: string
  c_issued_at :: u64
  c_expires_at :: u64
  c_status :: record_status
  c_index :: nat

record issued_credentials =
  ic_records :: "(string, issued_credential) fmap"
  ic_order :: "string list"
  ic_list :: status_list

definition issued_default :: issued_credentials where
  "issued_default = \<lparr>ic_records = fmempty, ic_order = [], ic_list = status_list_default\<rparr>"

definition issued_insert :: "issued_credential \<Rightarrow> issued_credentials \<Rightarrow> issued_credentials" where
  "issued_insert r ic =
     ic\<lparr>ic_order := ic_order ic @ [c_id r], ic_records := fmupd (c_id r) r (ic_records ic)\<rparr>"

definition issued_get :: "issued_credentials \<Rightarrow> string \<Rightarrow> issued_credential option" where
  "issued_get ic i = fmlookup (ic_records ic) i"

definition issued_all :: "issued_credentials \<Rightarrow> issued_credential list" where
  "issued_all ic = List.map_filter (fmlookup (ic_records ic)) (ic_order ic)"

definition issued_revoke ::
    "string \<Rightarrow> issued_credentials \<Rightarrow> (issued_credential option \<times> issued_credentials) option" where
  "issued_revoke i ic =
     (case fmlookup (ic_records ic) i of
        None \<Rightarrow> Some (None, ic)
      | Some r \<Rightarrow>
          (let r' = r\<lparr>c_status := RRevoked\<rparr> in
           map_option (\<lambda>sl. (Some r', ic\<lparr>ic_records := fmupd i r' (ic_records ic), ic_list := sl\<rparr>))
             (sl_set (c_index r) (ic_list ic))))"

definition sl_bit :: "status_list \<Rightarrow> nat \<Rightarrow> bool" where
  "sl_bit sl i \<longleftrightarrow> i div 8 < length (bits sl) \<and> bit (bits sl ! (i div 8)) (7 - i mod 8)"

text \<open>
  The accounting of the list. \<open>F\<close> holds the indexes taken by deliveries in flight: every index handed
  out so far is free again, in flight, or owned by exactly one record, and a bit is set exactly for
  the index of a revoked record.
\<close>

definition record_indexes :: "issued_credentials \<Rightarrow> nat set" where
  "record_indexes ic = {c_index r | i r. fmlookup (ic_records ic) i = Some r}"

definition issued_ok :: "issued_credentials \<Rightarrow> nat set \<Rightarrow> bool" where
  "issued_ok ic F \<longleftrightarrow>
     length (bits (ic_list ic)) = STATUS_LIST_BITS div 8
   \<and> next_index (ic_list ic) \<le> STATUS_LIST_BITS
   \<and> distinct (ic_order ic) \<and> set (ic_order ic) = fset (fmdom (ic_records ic))
   \<and> (\<forall>i r. fmlookup (ic_records ic) i = Some r \<longrightarrow> c_id r = i)
   \<and> {..<next_index (ic_list ic)} = fset (free (ic_list ic)) \<union> F \<union> record_indexes ic
   \<and> fset (free (ic_list ic)) \<inter> F = {} \<and> fset (free (ic_list ic)) \<inter> record_indexes ic = {}
   \<and> F \<inter> record_indexes ic = {}
   \<and> (\<forall>i j r q. fmlookup (ic_records ic) i = Some r \<and> fmlookup (ic_records ic) j = Some q
        \<and> c_index r = c_index q \<longrightarrow> i = j)
   \<and> (\<forall>n. sl_bit (ic_list ic) n \<longleftrightarrow>
        (\<exists>i r. fmlookup (ic_records ic) i = Some r \<and> c_index r = n \<and> c_status r = RRevoked))"

section \<open>Bits\<close>

lemma bit_0x80: "bit (0x80 :: 8 word) n \<longleftrightarrow> n = 7"
proof -
  have "(0x80 :: 8 word) = 2 ^ 7" by simp
  then have "bit (0x80 :: 8 word) n \<longleftrightarrow> bit (2 ^ 7 :: 8 word) n" by (rule arg_cong)
  then show ?thesis by (simp only: bit_exp_iff possible_bit_word) auto
qed

lemma bit_sl_mask: "bit (sl_mask i) n \<longleftrightarrow> n = 7 - i mod 8"
proof -
  have "i mod 8 < 8" by simp
  then show ?thesis unfolding sl_mask_def bit_drop_bit_eq comp_def bit_0x80 by linarith
qed

lemma and_sl_mask_0: "w AND sl_mask i = 0 \<longleftrightarrow> \<not> bit w (7 - i mod 8)" for w :: "8 word"
proof -
  have "bit (w AND sl_mask i) n \<longleftrightarrow> n = 7 - i mod 8 \<and> bit w n" for n
    by (auto simp: bit_and_iff bit_sl_mask)
  moreover have "w AND sl_mask i = 0 \<longleftrightarrow> (\<forall>n. \<not> bit (w AND sl_mask i) n)"
    by (metis bit_0_eq bit_eqI bot_apply bot_bool_def)
  ultimately show ?thesis by metis
qed

lemma sl_is_set_eq [simp]:
  "i div 8 < length (bits sl) \<Longrightarrow> sl_is_set sl i = Some (sl_bit sl i)"
  by (simp add: sl_is_set_def sl_bit_def and_sl_mask_0)

lemma bit_index_inj: "i div 8 = j div 8 \<Longrightarrow> 7 - i mod 8 = 7 - j mod 8 \<Longrightarrow> i = j" for i j :: nat
proof -
  assume a: "i div 8 = j div 8" "7 - i mod 8 = 7 - j mod 8"
  have "i mod 8 \<le> 7" "j mod 8 \<le> 7" by (simp_all add: less_Suc_eq_le [symmetric])
  with a(2) have "i mod 8 = j mod 8" by linarith
  with a(1) show ?thesis by (metis div_mult_mod_eq)
qed

lemma sl_set_Some:
  assumes "i div 8 < length (bits sl)"
  obtains sl' where "sl_set i sl = Some sl'" and "length (bits sl') = length (bits sl)"
    and "\<And>j. sl_bit sl' j \<longleftrightarrow> j = i \<or> sl_bit sl j"
    and "next_index sl' = next_index sl" and "free sl' = free sl"
    and "cached_jwt sl' = (if sl_bit sl i then cached_jwt sl else None)"
    and "sl_bit sl i \<Longrightarrow> sl' = sl"
proof (cases "sl_bit sl i")
  case True
  with assms have "sl_set i sl = Some sl" by (auto simp: sl_set_def sl_bit_def and_sl_mask_0)
  with True show ?thesis by (intro that) auto
next
  case False
  let ?sl = "sl\<lparr>bits := (bits sl)[i div 8 := bits sl ! (i div 8) OR sl_mask i], cached_jwt := None\<rparr>"
  have "sl_set i sl = Some ?sl" using False assms by (auto simp: sl_set_def sl_bit_def and_sl_mask_0)
  moreover have "sl_bit ?sl j \<longleftrightarrow> j = i \<or> sl_bit sl j" for j
    using assms by (auto simp: sl_bit_def nth_list_update bit_or_iff bit_sl_mask dest: bit_index_inj)
  ultimately show ?thesis using False by (intro that [of ?sl]) simp_all
qed

section \<open>Index accounting\<close>

text \<open>The release loop of a failed delivery.\<close>

fun release_each :: "(nat \<Rightarrow> 's \<Rightarrow> 's option) \<Rightarrow> nat list \<Rightarrow> 's \<Rightarrow> 's option" where
  "release_each rel [] s = Some s"
| "release_each rel (i # is) s = (case rel i s of None \<Rightarrow> None | Some s' \<Rightarrow> release_each rel is s')"

text \<open>What the issuing protocols rely on: fresh indexes, and a release that gives one back.\<close>

locale index_pool =
  fixes pool_ok :: "'s \<Rightarrow> nat set \<Rightarrow> bool"
    and alloc :: "'s \<Rightarrow> nat option \<times> 's"
    and rel :: "nat \<Rightarrow> 's \<Rightarrow> 's option"
  assumes alloc_fresh: "pool_ok s F \<Longrightarrow> alloc s = (Some i, s') \<Longrightarrow> i \<notin> F \<and> pool_ok s' (insert i F)"
    and alloc_full: "alloc s = (None, s') \<Longrightarrow> s' = s"
    and release_one: "pool_ok s F \<Longrightarrow> i \<in> F \<Longrightarrow> \<exists>s'. rel i s = Some s' \<and> pool_ok s' (F - {i})"
begin

lemma release_all:
  "pool_ok s F \<Longrightarrow> set is \<subseteq> F \<Longrightarrow> distinct is \<Longrightarrow>
   \<exists>s'. release_each rel is s = Some s' \<and> pool_ok s' (F - set is)"
proof (induction "is" arbitrary: s F)
  case Nil
  then show ?case by simp
next
  case (Cons i ks)
  from Cons.prems have "i \<in> F" by simp
  from release_one [OF Cons.prems(1) this] obtain s1 where
    s1: "rel i s = Some s1" "pool_ok s1 (F - {i})" by blast
  from Cons.prems have "set ks \<subseteq> F - {i}" "distinct ks" by auto
  from Cons.IH [OF s1(2) this] obtain s2 where
    "release_each rel ks s1 = Some s2" "pool_ok s2 (F - {i} - set ks)" by blast
  moreover have "F - {i} - set ks = F - set (i # ks)" by auto
  ultimately show ?case using s1(1) by simp
qed

lemma alloc_then_release:
  assumes "pool_ok s F" and "alloc s = (Some i, s')"
  shows "\<exists>s''. rel i s' = Some s'' \<and> pool_ok s'' F"
proof -
  from alloc_fresh [OF assms] have "i \<notin> F" "pool_ok s' (insert i F)" by simp_all
  then show ?thesis using release_one [of s' "insert i F" i] by simp
qed

end

definition issued_allocate :: "issued_credentials \<Rightarrow> nat option \<times> issued_credentials" where
  "issued_allocate ic = (case sl_allocate (ic_list ic) of (i, sl) \<Rightarrow> (i, ic\<lparr>ic_list := sl\<rparr>))"

definition issued_release :: "nat \<Rightarrow> issued_credentials \<Rightarrow> issued_credentials option" where
  "issued_release i ic = map_option (\<lambda>sl. ic\<lparr>ic_list := sl\<rparr>) (sl_release i (ic_list ic))"

lemma record_indexes_list [simp]: "record_indexes (ic\<lparr>ic_list := sl\<rparr>) = record_indexes ic"
  by (simp add: record_indexes_def)

lemma record_indexesI: "fmlookup (ic_records ic) i = Some r \<Longrightarrow> c_index r \<in> record_indexes ic"
  by (auto simp: record_indexes_def)

lemma issued_ok_bit:
  "issued_ok ic F \<Longrightarrow> sl_bit (ic_list ic) n \<longleftrightarrow>
     (\<exists>i r. fmlookup (ic_records ic) i = Some r \<and> c_index r = n \<and> c_status r = RRevoked)"
  unfolding issued_ok_def by (elim conjE) (erule spec)

lemma issued_ok_partition:
  assumes "issued_ok ic F"
  shows "{..<next_index (ic_list ic)} = fset (free (ic_list ic)) \<union> F \<union> record_indexes ic"
    and "next_index (ic_list ic) \<le> STATUS_LIST_BITS"
    and "fset (free (ic_list ic)) \<inter> F = {}" and "fset (free (ic_list ic)) \<inter> record_indexes ic = {}"
    and "F \<inter> record_indexes ic = {}"
  using assms unfolding issued_ok_def by blast+

lemma issued_ok_index:
  assumes "issued_ok ic F" and "fmlookup (ic_records ic) i = Some r"
  shows "c_index r < next_index (ic_list ic)" and "c_index r div 8 < length (bits (ic_list ic))"
    and "c_index r \<notin> F"
proof -
  from assms have "c_index r \<in> {..<next_index (ic_list ic)}"
    by (auto simp: issued_ok_def record_indexesI)
  then show lt: "c_index r < next_index (ic_list ic)" by simp
  with assms(1) have "c_index r < STATUS_LIST_BITS" by (auto simp: issued_ok_def)
  with assms(1) show "c_index r div 8 < length (bits (ic_list ic))"
    by (simp add: issued_ok_def STATUS_LIST_BITS_def)
  show "c_index r \<notin> F" using assms record_indexesI by (fastforce simp: issued_ok_def)
qed

lemma sl_allocate_cases:
  assumes "sl_allocate sl = (r, sl')"
  obtains (again) i where "r = Some i" "i |\<in>| free sl" "\<And>j. j |\<in>| free sl \<Longrightarrow> i \<le> j"
      "sl' = sl\<lparr>free := free sl |-| {|i|}\<rparr>"
  | (new) "free sl = {||}" "next_index sl < STATUS_LIST_BITS" "r = Some (next_index sl)"
      "sl' = sl\<lparr>next_index := next_index sl + 1\<rparr>"
  | (full) "free sl = {||}" "next_index sl \<ge> STATUS_LIST_BITS" "r = None" "sl' = sl"
proof (cases "free sl = {||}")
  case True
  show ?thesis
  proof (cases "next_index sl < STATUS_LIST_BITS")
    case lt: True
    with True assms show ?thesis by (intro new) (simp_all add: sl_allocate_def)
  next
    case False
    with True assms show ?thesis by (intro full) (simp_all add: sl_allocate_def)
  qed
next
  case False
  with assms show ?thesis by (intro again [of "fMin (free sl)"]) (simp_all add: sl_allocate_def Let_def)
qed

lemma sl_bit_simps [simp]:
  "sl_bit (sl\<lparr>free := f\<rparr>) = sl_bit sl" "sl_bit (sl\<lparr>next_index := n\<rparr>) = sl_bit sl"
  "sl_bit (sl\<lparr>cached_jwt := j\<rparr>) = sl_bit sl"
  by (auto simp: sl_bit_def fun_eq_iff)

lemma issued_allocate_ok:
  assumes ok: "issued_ok ic F" and al: "issued_allocate ic = (Some i, ic')"
  shows "i \<notin> F \<and> issued_ok ic' (insert i F)"
proof -
  from al obtain sl' where a: "sl_allocate (ic_list ic) = (Some i, sl')" and ic': "ic' = ic\<lparr>ic_list := sl'\<rparr>"
    by (auto simp: issued_allocate_def split: prod.splits)
  from a show ?thesis
  proof (cases rule: sl_allocate_cases)
    case (again j)
    with ok show ?thesis unfolding ic' by (simp add: issued_ok_def) blast
  next
    case new
    then have "{..<next_index sl'} = insert i {..<next_index (ic_list ic)}" by auto
    moreover have "i \<notin> {..<next_index (ic_list ic)}" using new by simp
    ultimately show ?thesis using ok new unfolding ic' by (simp add: issued_ok_def) blast
  qed simp
qed

lemma issued_release_ok:
  assumes ok: "issued_ok ic F" and i: "i \<in> F"
  shows "\<exists>ic'. issued_release i ic = Some ic' \<and> issued_ok ic' (F - {i})"
proof -
  from ok i have lt: "i < next_index (ic_list ic)" unfolding issued_ok_def by blast
  with ok have r: "i div 8 < length (bits (ic_list ic))"
    by (auto simp: issued_ok_def STATUS_LIST_BITS_def)
  have "\<not> sl_bit (ic_list ic) i"
  proof
    assume "sl_bit (ic_list ic) i"
    with ok obtain j r where "fmlookup (ic_records ic) j = Some r" "c_index r = i"
      unfolding issued_ok_def by blast
    with issued_ok_index(3) [OF ok] i show False by blast
  qed
  with lt r have rel: "issued_release i ic = Some (ic\<lparr>ic_list := (ic_list ic)\<lparr>free := finsert i (free (ic_list ic))\<rparr>\<rparr>)"
    by (simp add: issued_release_def sl_release_def)
  have "i \<notin> record_indexes ic" using ok i unfolding issued_ok_def by blast
  then show ?thesis unfolding rel using ok i by (simp add: issued_ok_def) blast
qed

interpretation pool: index_pool issued_ok issued_allocate issued_release
proof unfold_locales
  show "issued_allocate s = (None, s') \<Longrightarrow> s' = s" for s s'
    by (auto simp: issued_allocate_def split: prod.splits elim: sl_allocate_cases)
qed (auto simp: issued_allocate_ok intro: issued_release_ok)

section \<open>Records\<close>

lemma issued_default_ok: "issued_ok issued_default {}"
  by (auto simp: issued_ok_def issued_default_def status_list_default_def record_indexes_def sl_bit_def)

lemma record_indexes_upd:
  assumes "\<And>j. fmlookup (ic_records ic') j = (if j = i then Some r else fmlookup (ic_records ic) j)"
    and "\<And>q. fmlookup (ic_records ic) i = Some q \<Longrightarrow> c_index q = c_index r"
  shows "record_indexes ic' = insert (c_index r) (record_indexes ic)"
proof (rule set_eqI)
  fix n
  show "n \<in> record_indexes ic' \<longleftrightarrow> n \<in> insert (c_index r) (record_indexes ic)"
    unfolding record_indexes_def using assms by (auto split: if_splits) metis+
qed

lemma issued_insert_ok [hub_inv]:
  assumes ok: "issued_ok ic F" and i: "c_index r \<in> F" and fresh: "fmlookup (ic_records ic) (c_id r) = None"
    and st: "c_status r = RActive"
  shows "issued_ok (issued_insert r ic) (F - {c_index r})"
proof -
  let ?ic = "issued_insert r ic"
  have lk: "fmlookup (ic_records ?ic) j = (if j = c_id r then Some r else fmlookup (ic_records ic) j)" for j
    by (simp add: issued_insert_def)
  have idx: "record_indexes ?ic = insert (c_index r) (record_indexes ic)"
    by (rule record_indexes_upd [OF lk]) (simp add: fresh)
  have other: "c_index q \<noteq> c_index r" if "fmlookup (ic_records ic) j = Some q" for j q
    using issued_ok_index(3) [OF ok that] i by auto
  have same: "ic_list ?ic = ic_list ic" by (simp add: issued_insert_def)
  have "c_id r |\<notin>| fmdom (ic_records ic)" using fresh by (rule fmdom_notI)
  then have ord: "distinct (ic_order ?ic)" "set (ic_order ?ic) = fset (fmdom (ic_records ?ic))"
    using ok by (auto simp: issued_ok_def issued_insert_def)
  have revoked: "(\<exists>j q. fmlookup (ic_records ?ic) j = Some q \<and> c_index q = n \<and> c_status q = RRevoked)
      \<longleftrightarrow> (\<exists>j q. fmlookup (ic_records ic) j = Some q \<and> c_index q = n \<and> c_status q = RRevoked)" for n
    using fresh st by (metis lk option.distinct(1) option.inject record_status.distinct(1))
  have inj: "\<forall>i j r' q. fmlookup (ic_records ?ic) i = Some r' \<and> fmlookup (ic_records ?ic) j = Some q
        \<and> c_index r' = c_index q \<longrightarrow> i = j"
    using ok other by (auto simp: lk issued_ok_def) metis+
  have ids: "\<forall>i r'. fmlookup (ic_records ?ic) i = Some r' \<longrightarrow> c_id r' = i"
    using ok by (auto simp: lk issued_ok_def)
  show ?thesis
    unfolding issued_ok_def same idx revoked
    using ok ord inj ids i unfolding issued_ok_def by auto
qed

lemma issued_revoke_Some:
  assumes ok: "issued_ok ic F" and r: "fmlookup (ic_records ic) i = Some r"
  obtains sl' where "issued_revoke i ic = Some (Some (r\<lparr>c_status := RRevoked\<rparr>),
        ic\<lparr>ic_records := fmupd i (r\<lparr>c_status := RRevoked\<rparr>) (ic_records ic), ic_list := sl'\<rparr>)"
    and "sl_set (c_index r) (ic_list ic) = Some sl'"
    and "length (bits sl') = length (bits (ic_list ic))"
    and "\<And>j. sl_bit sl' j \<longleftrightarrow> j = c_index r \<or> sl_bit (ic_list ic) j"
    and "next_index sl' = next_index (ic_list ic)" and "free sl' = free (ic_list ic)"
    and "cached_jwt sl' = (if sl_bit (ic_list ic) (c_index r) then cached_jwt (ic_list ic) else None)"
    and "sl_bit (ic_list ic) (c_index r) \<Longrightarrow> sl' = ic_list ic"
proof -
  from sl_set_Some [OF issued_ok_index(2) [OF ok r]] obtain sl' where
    sl': "sl_set (c_index r) (ic_list ic) = Some sl'" "length (bits sl') = length (bits (ic_list ic))"
    "\<And>j. sl_bit sl' j \<longleftrightarrow> j = c_index r \<or> sl_bit (ic_list ic) j"
    "next_index sl' = next_index (ic_list ic)" "free sl' = free (ic_list ic)"
    "cached_jwt sl' = (if sl_bit (ic_list ic) (c_index r) then cached_jwt (ic_list ic) else None)"
    "sl_bit (ic_list ic) (c_index r) \<Longrightarrow> sl' = ic_list ic" by metis
  show ?thesis by (rule that [OF _ sl']) (simp add: issued_revoke_def r sl'(1) Let_def)
qed

lemma issued_revoke_ok:
  assumes ok: "issued_ok ic F"
  shows "\<exists>res ic'. issued_revoke i ic = Some (res, ic') \<and> issued_ok ic' F"
proof (cases "fmlookup (ic_records ic) i")
  case None
  with ok show ?thesis by (simp add: issued_revoke_def)
next
  case (Some r)
  note inv = ok [unfolded issued_ok_def]
  from issued_revoke_Some [OF ok Some] obtain sl' where
    rev: "issued_revoke i ic = Some (Some (r\<lparr>c_status := RRevoked\<rparr>),
        ic\<lparr>ic_records := fmupd i (r\<lparr>c_status := RRevoked\<rparr>) (ic_records ic), ic_list := sl'\<rparr>)"
    and sl': "length (bits sl') = length (bits (ic_list ic))"
    "\<And>j. sl_bit sl' j \<longleftrightarrow> j = c_index r \<or> sl_bit (ic_list ic) j"
    "next_index sl' = next_index (ic_list ic)" "free sl' = free (ic_list ic)" by metis
  let ?ic = "ic\<lparr>ic_records := fmupd i (r\<lparr>c_status := RRevoked\<rparr>) (ic_records ic), ic_list := sl'\<rparr>"
  have lk: "fmlookup (ic_records ?ic) j = (if j = i then Some (r\<lparr>c_status := RRevoked\<rparr>) else fmlookup (ic_records ic) j)" for j
    by simp
  have "record_indexes ?ic = insert (c_index (r\<lparr>c_status := RRevoked\<rparr>)) (record_indexes ic)"
    by (rule record_indexes_upd [OF lk]) (simp add: Some)
  then have idx: "record_indexes ?ic = record_indexes ic" using record_indexesI [OF Some] by auto
  have bits_rev: "sl_bit (ic_list ?ic) n \<longleftrightarrow>
      (\<exists>j q. fmlookup (ic_records ?ic) j = Some q \<and> c_index q = n \<and> c_status q = RRevoked)" for n
  proof -
    have old: "sl_bit (ic_list ic) n \<longleftrightarrow>
      (\<exists>j q. fmlookup (ic_records ic) j = Some q \<and> c_index q = n \<and> c_status q = RRevoked)"
      using inv by blast
    have "sl_bit (ic_list ?ic) n \<longleftrightarrow> n = c_index r \<or> sl_bit (ic_list ic) n" using sl'(2) by simp
    also have "\<dots> \<longleftrightarrow> (\<exists>j q. fmlookup (ic_records ?ic) j = Some q \<and> c_index q = n \<and> c_status q = RRevoked)"
      unfolding old lk using Some by (auto split: if_splits) (metis option.inject)+
    finally show ?thesis .
  qed
  have inj: "\<forall>a b p q. fmlookup (ic_records ?ic) a = Some p \<and> fmlookup (ic_records ?ic) b = Some q
        \<and> c_index p = c_index q \<longrightarrow> a = b"
    unfolding lk using inv Some by (auto split: if_splits)
  have dom: "fmdom (ic_records ?ic) = fmdom (ic_records ic)" using Some by (auto dest: fmdomI)
  have ids: "\<forall>a p. fmlookup (ic_records ?ic) a = Some p \<longrightarrow> c_id p = a"
    unfolding lk using inv Some by auto
  have "issued_ok ?ic F"
    unfolding issued_ok_def idx dom
    by (intro conjI inj ids allI bits_rev) (use inv sl' in simp_all)
  with rev show ?thesis by blast
qed

section \<open>Properties\<close>

text \<open>
  Under the accounting invariant, allocation hands out an index that no delivery in flight, no
  issued record and no free entry holds, takes the lowest returned index first, and fails exactly
  when all \<open>STATUS_LIST_BITS\<close> indexes belong to deliveries in flight or to issued credentials; an index
  given back by a failed delivery restores the accounting, without an out-of-range access.
\<close>

theorem status_list_allocation_correct:
  assumes ok: "issued_ok ic F" and al: "issued_allocate ic = (res, ic')"
  shows "(res = None \<longleftrightarrow> F \<union> record_indexes ic = {..<STATUS_LIST_BITS})
    \<and> (res = None \<longrightarrow> ic' = ic)
    \<and> (\<forall>i. res = Some i \<longrightarrow> i < STATUS_LIST_BITS \<and> i \<notin> F \<and> i \<notin> record_indexes ic
         \<and> \<not> sl_bit (ic_list ic') i \<and> (\<forall>j. j |\<in>| free (ic_list ic) \<longrightarrow> i \<le> j)
         \<and> issued_ok ic' (insert i F)
         \<and> (\<exists>ic''. issued_release i ic' = Some ic'' \<and> issued_ok ic'' F))"
proof -
  note inv = issued_ok_partition [OF ok]
  from al obtain sl' where a: "sl_allocate (ic_list ic) = (res, sl')" and ic': "ic' = ic\<lparr>ic_list := sl'\<rparr>"
    by (auto simp: issued_allocate_def split: prod.splits)
  have alloc: "i < STATUS_LIST_BITS \<and> i \<notin> F \<and> i \<notin> record_indexes ic
         \<and> \<not> sl_bit (ic_list ic') i \<and> issued_ok ic' (insert i F)
         \<and> (\<exists>ic''. issued_release i ic' = Some ic'' \<and> issued_ok ic'' F)" if res: "res = Some i" for i
  proof -
    from al res have al': "issued_allocate ic = (Some i, ic')" by simp
    note fresh = issued_allocate_ok [OF ok al'] and returned = pool.alloc_then_release [OF ok al']
    note ok' = fresh [THEN conjunct2]
    have rec: "record_indexes ic' = record_indexes ic" by (simp add: ic')
    have "i < next_index (ic_list ic')" "i \<notin> record_indexes ic"
      using issued_ok_partition(1,5) [OF ok'] rec by blast+
    moreover have "\<not> sl_bit (ic_list ic') i"
      using issued_ok_index(3) [OF ok'] by (auto simp: issued_ok_bit [OF ok'])
    moreover note issued_ok_partition(2) [OF ok']
    ultimately show ?thesis using fresh returned by simp
  qed
  from a show ?thesis
  proof (cases rule: sl_allocate_cases)
    case (again i)
    from again inv have "i \<notin> F \<union> record_indexes ic" "i < STATUS_LIST_BITS"
      using alloc [OF again(1)] by blast+
    then show ?thesis using again alloc [OF again(1)] by auto
  next
    case new
    from new inv have "F \<union> record_indexes ic = {..<next_index (ic_list ic)}" by auto
    with new have "F \<union> record_indexes ic \<noteq> {..<STATUS_LIST_BITS}" by simp
    then show ?thesis using new alloc [OF new(3)] by auto
  next
    case full
    from full inv have "next_index (ic_list ic) = STATUS_LIST_BITS" by auto
    with full inv have "F \<union> record_indexes ic = {..<STATUS_LIST_BITS}" by auto
    then show ?thesis using full ic' by auto
  qed
qed

theorem status_list_allocation_correct_witness:
  "issued_ok issued_default {} \<and> fst (issued_allocate issued_default) = Some 0"
proof -
  have "issued_allocate issued_default = (Some 0, snd (issued_allocate issued_default))"
    by (simp add: issued_allocate_def sl_allocate_def issued_default_def status_list_default_def
        STATUS_LIST_BITS_def)
  from status_list_allocation_correct [OF issued_default_ok this] show ?thesis
    using issued_default_ok
    by (simp add: issued_allocate_def sl_allocate_def issued_default_def status_list_default_def
        STATUS_LIST_BITS_def)
qed

text \<open>
  C18. Revoking an id under the accounting invariant never indexes past the bitstring. An unknown id
  changes nothing; a known one answers its record marked revoked, sets its own bit and no other,
  drops the cached signed list when (and only when) the bit was clear, keeps the invariant, and
  repeating it answers the same record and changes nothing.
\<close>

theorem revoke_correct:
  assumes ok: "issued_ok ic F"
  shows "case fmlookup (ic_records ic) i of
      None \<Rightarrow> issued_revoke i ic = Some (None, ic)
    | Some r \<Rightarrow> (\<exists>ic'. issued_revoke i ic = Some (Some (r\<lparr>c_status := RRevoked\<rparr>), ic') \<and> issued_ok ic' F
        \<and> (\<forall>n. sl_bit (ic_list ic') n \<longleftrightarrow> n = c_index r \<or> sl_bit (ic_list ic) n)
        \<and> (\<forall>j. j \<noteq> i \<longrightarrow> fmlookup (ic_records ic') j = fmlookup (ic_records ic) j)
        \<and> cached_jwt (ic_list ic') = (if c_status r = RRevoked then cached_jwt (ic_list ic) else None)
        \<and> issued_revoke i ic' = Some (Some (r\<lparr>c_status := RRevoked\<rparr>), ic'))"
proof (cases "fmlookup (ic_records ic) i")
  case None
  then show ?thesis by (simp add: issued_revoke_def)
next
  case (Some r)
  let ?r = "r\<lparr>c_status := RRevoked\<rparr>"
  from issued_revoke_Some [OF ok Some] obtain sl' where
    rev: "issued_revoke i ic = Some (Some ?r, ic\<lparr>ic_records := fmupd i ?r (ic_records ic), ic_list := sl'\<rparr>)"
    and sl': "\<And>j. sl_bit sl' j \<longleftrightarrow> j = c_index r \<or> sl_bit (ic_list ic) j"
    "cached_jwt sl' = (if sl_bit (ic_list ic) (c_index r) then cached_jwt (ic_list ic) else None)" by metis
  let ?ic = "ic\<lparr>ic_records := fmupd i ?r (ic_records ic), ic_list := sl'\<rparr>"
  from issued_revoke_ok [OF ok, of i] rev have ok': "issued_ok ?ic F" by simp
  have was: "sl_bit (ic_list ic) (c_index r) \<longleftrightarrow> c_status r = RRevoked"
  proof -
    from ok have "sl_bit (ic_list ic) (c_index r) \<longleftrightarrow>
        (\<exists>j q. fmlookup (ic_records ic) j = Some q \<and> c_index q = c_index r \<and> c_status q = RRevoked)"
      and "\<And>j q. fmlookup (ic_records ic) j = Some q \<Longrightarrow> c_index q = c_index r \<Longrightarrow> j = i"
      using Some unfolding issued_ok_def by blast+
    then show ?thesis using Some by fastforce
  qed
  have "fmlookup (ic_records ?ic) i = Some ?r" by simp
  from issued_revoke_Some [OF ok' this] obtain sl2 where
    again: "issued_revoke i ?ic = Some (Some ?r, ?ic\<lparr>ic_records := fmupd i ?r (ic_records ?ic), ic_list := sl2\<rparr>)"
    and "sl_bit (ic_list ?ic) (c_index r) \<Longrightarrow> sl2 = ic_list ?ic" by auto
  then have "sl2 = sl'" using sl'(1) by simp
  moreover have "fmupd i ?r (fmupd i ?r (ic_records ic)) = fmupd i ?r (ic_records ic)"
    by (rule fmap_ext) simp
  ultimately have "issued_revoke i ?ic = Some (Some ?r, ?ic)" using again by simp
  with rev ok' sl' was Some show ?thesis by (simp add: exI [of _ ?ic])
qed

definition sample_credential :: issued_credential where
  "sample_credential = \<lparr>c_id = ''urn:uuid:1'', c_type = ''MembershipCredential'', c_definition_id = ''d'',
     c_holder_id = ''h'', c_holder_did = ''did:web:h'', c_process_id = ''p'', c_format = ''VC1_0_JWT'',
     c_issued_at = 1, c_expires_at = 2, c_status = RActive, c_index = 0\<rparr>"

definition sample_issued :: issued_credentials where
  "sample_issued = issued_insert sample_credential (snd (issued_allocate issued_default))"

theorem revoke_correct_witness:
  "issued_ok sample_issued {} \<and> \<not> sl_bit (ic_list sample_issued) 0
   \<and> (\<exists>ic'. issued_revoke ''urn:uuid:1'' sample_issued
        = Some (Some (sample_credential\<lparr>c_status := RRevoked\<rparr>), ic') \<and> sl_bit (ic_list ic') 0)"
proof -
  have al: "issued_allocate issued_default = (Some 0, snd (issued_allocate issued_default))"
    by (simp add: issued_allocate_def sl_allocate_def issued_default_def status_list_default_def
        STATUS_LIST_BITS_def)
  have rec: "ic_records (snd (issued_allocate issued_default)) = fmempty"
    by (simp add: issued_allocate_def issued_default_def split: prod.splits)
  have "issued_ok (snd (issued_allocate issued_default)) {0}"
    using issued_allocate_ok [OF issued_default_ok al] by simp
  from issued_insert_ok [OF this, of sample_credential] have ok: "issued_ok sample_issued {}"
    by (simp add: sample_issued_def sample_credential_def rec)
  have lk: "fmlookup (ic_records sample_issued) i = (if i = ''urn:uuid:1'' then Some sample_credential else None)" for i
    by (simp add: sample_issued_def issued_insert_def rec) (simp add: sample_credential_def)
  have "\<not> sl_bit (ic_list sample_issued) 0"
    by (simp add: issued_ok_bit [OF ok] lk) (simp add: sample_credential_def)
  with revoke_correct [OF ok, of "''urn:uuid:1''"] ok show ?thesis
    by (auto simp: lk sample_credential_def)
qed

end
