(* ===== verification/Http.thy ===== *)
theory Http
  imports Json
begin

text \<open>
  HTTP responses as the handlers build them: a status code, the headers the hub sets itself
  (\<open>Location\<close>, \<open>Cache-Control\<close>, \<open>Content-Type\<close>), and an empty, text or JSON body. Requests the hub
  sends have the same bodies, or a form.
\<close>

datatype http_body = NoBody | TextBody string | JsonBody json | FormBody "(string \<times> string) list"

record response =
  r_status :: nat
  r_headers :: "(string \<times> string) list"
  r_body :: http_body

definition resp :: "nat \<Rightarrow> http_body \<Rightarrow> response" where
  "resp st b = \<lparr>r_status = st, r_headers = [], r_body = b\<rparr>"

definition resp_text :: "nat \<Rightarrow> string \<Rightarrow> response" where
  "resp_text st s = resp st (TextBody s)"

definition resp_json :: "nat \<Rightarrow> json \<Rightarrow> response" where
  "resp_json st j = resp st (JsonBody j)"

definition with_header :: "string \<Rightarrow> string \<Rightarrow> response \<Rightarrow> response" where
  "with_header k v r = r\<lparr>r_headers := r_headers r @ [(k, v)]\<rparr>"

text \<open>\<open>StatusCode::is_success()\<close>.\<close>

definition is_success :: "nat \<Rightarrow> bool" where
  "is_success c \<longleftrightarrow> 200 \<le> c \<and> c < 300"

lemma resp_simps [simp]:
  "r_status (resp st b) = st" "r_body (resp st b) = b"
  "r_status (resp_text st s) = st" "r_body (resp_text st s) = TextBody s"
  "r_status (resp_json st j) = st" "r_body (resp_json st j) = JsonBody j"
  "r_status (with_header k v r) = r_status r" "r_body (with_header k v r) = r_body r"
  by (simp_all add: resp_def resp_text_def resp_json_def with_header_def)

end
