(* ===== verification/Issuer_Ops.thy ===== *)
theory Issuer_Ops
  imports Status_List Http
begin

text \<open>
  The issuer's operations on its shared state, one definition per critical section: the Credential
  Request API and the stages of a delivery task (handlers.rs), the admin decisions on holders and
  definitions (admin.rs), and the stages of an OID4VCI redemption (oid4vci.rs,
  \<open>record_and_mint\<close>). Fresh UUIDs and clock readings are arguments.
\<close>

datatype holder_approval = Auto | Manual

record issuer_state =
  s_definitions :: definition_catalog
  s_holders :: holder_registry
  s_requests :: request_table
  s_issued :: issued_credentials

section \<open>The Credential Request API\<close>

text \<open>First occurrences in order, stopping as soon as there are too many.\<close>

fun dedup_ids :: "string list \<Rightarrow> string list \<Rightarrow> string list" where
  "dedup_ids acc [] = acc"
| "dedup_ids acc (x # xs) =
     (if x \<in> set acc then dedup_ids acc xs
      else if length (acc @ [x]) > MAX_REQUEST_CREDENTIALS then acc @ [x]
      else dedup_ids (acc @ [x]) xs)"

definition initial_status :: "holder_approval \<Rightarrow> holder_status" where
  "initial_status a = (case a of Auto \<Rightarrow> Approved | Manual \<Rightarrow> Pending)"

text \<open>The record of a DID seen for the first time, created under the holders lock.\<close>

definition holder_for ::
    "holder_approval \<Rightarrow> string \<Rightarrow> u64 \<Rightarrow> string \<Rightarrow> holder_registry
     \<Rightarrow> (holder, issuer_error) result \<times> holder_registry" where
  "holder_for approval new_id now holder_did r =
     (case by_did r holder_did of
        Some h \<Rightarrow> (Ok h, r)
      | None \<Rightarrow>
          (case registry_insert \<lparr>holder_id = new_id, did = holder_did, name = None, properties = [],
                  status = initial_status approval, created_at = now\<rparr> r of
             Inl e \<Rightarrow> (Err e, r)
           | Inr (h, r') \<Rightarrow> (Ok h, r')))"

definition new_process ::
    "string \<Rightarrow> process_state \<Rightarrow> holder \<Rightarrow> string \<Rightarrow> string \<Rightarrow> string list \<Rightarrow> u64 \<Rightarrow> string option
     \<Rightarrow> issuance_process" where
  "new_process pid st h holder_did holder_pid ids now bearer =
     \<lparr>p_id = pid, p_state = st, p_holder_id = holder_id h, p_holder_did = holder_did,
      p_holder_pid = holder_pid, p_credential_definitions = ids, p_error_detail = None,
      p_created_at = now, p_state_timestamp = now, p_delivery_bearer = bearer,
      p_delivery_started = False\<rparr>"

text \<open>
  The part of \<open>credential_request\<close> under the three locks. The result is the refusal, or whether
  delivery starts now. A holder record created on the way stays when the request is then refused.
\<close>

definition request_section ::
    "holder_approval \<Rightarrow> string \<Rightarrow> string \<Rightarrow> u64 \<Rightarrow> string \<Rightarrow> string \<Rightarrow> string option \<Rightarrow> string list
     \<Rightarrow> issuer_state \<Rightarrow> (bool, response) result \<times> issuer_state" where
  "request_section approval pid new_hid now holder_did holder_pid bearer ids s =
     (if ids = [] then (Err (resp_text 400 ''credentials must not be empty''), s)
      else if length ids > MAX_REQUEST_CREDENTIALS then
        (Err (resp_text 400 (''at most '' @ nat_to_string MAX_REQUEST_CREDENTIALS
                             @ '' distinct credential ids per request'')), s)
      else case List.find (\<lambda>i. catalog_get (s_definitions s) i = None) ids of
        Some unknown \<Rightarrow>
          (Err (resp_text 400 (''unknown credential id: '' @ [CHR 39] @ unknown @ [CHR 39])), s)
      | None \<Rightarrow>
        (case holder_for approval new_hid now holder_did (s_holders s) of
           (Inl e, _) \<Rightarrow> (Err (resp_text 503 ''holder registry is full''), s)
         | (Inr h, hs) \<Rightarrow>
             let s1 = s\<lparr>s_holders := hs\<rparr> in
             if status h = Rejected
             then (Err (resp_text 403 ''holder has been rejected by this issuer''), s1)
             else
               let st = (if status h = Pending then PSubmitted else PApproved);
                   (mine, all) = pending_counts (s_requests s1) (holder_id h) in
               if st = PSubmitted \<and> (mine \<ge> MAX_PENDING_PROCESSES_PER_HOLDER \<or> all \<ge> MAX_PENDING_PROCESSES)
               then (Err (resp_text 503 ''too many credential requests awaiting approval''), s1)
               else case rt_insert pid (new_process pid st h holder_did holder_pid ids now bearer)
                           (s_requests s1) of
                 None \<Rightarrow> (Err (resp_text 503 ''too many credential requests in flight''), s1)
               | Some t \<Rightarrow> (Ok (st = PApproved), s1\<lparr>s_requests := t\<rparr>)))"

section \<open>Delivery\<close>

text \<open>Claiming: only a process still approved is delivered.\<close>

definition claim :: "string \<Rightarrow> request_table \<Rightarrow> issuance_process option \<times> request_table" where
  "claim pid t =
     (case rt_get t pid of
        Some p \<Rightarrow>
          if p_state p = PApproved
          then (Some (p\<lparr>p_delivery_started := True\<rparr>), rt_modify pid (p_delivery_started_update (\<lambda>_. True)) t)
          else (None, t)
      | None \<Rightarrow> (None, t))"

text \<open>The definitions a claimed process needs, or the first that is gone.\<close>

fun lookup_definitions ::
    "definition_catalog \<Rightarrow> string list \<Rightarrow> (credential_definition list, string) result" where
  "lookup_definitions c [] = Ok []"
| "lookup_definitions c (i # is) =
     (case catalog_get c i of
        None \<Rightarrow> Err (''credential definition '' @ [CHR 39] @ i @ [CHR 39] @ '' no longer exists'')
      | Some d \<Rightarrow> (case lookup_definitions c is of Inl e \<Rightarrow> Err e | Inr ds \<Rightarrow> Ok (d # ds)))"

definition credential_urn :: "string \<Rightarrow> string" where
  "credential_urn uuid = ''urn:uuid:'' @ uuid"

lemma credential_urn_inj [simp]: "credential_urn a = credential_urn b \<longleftrightarrow> a = b"
  by (simp add: credential_urn_def)

text \<open>The record of one credential minted for a process.\<close>

definition minted_record ::
    "string \<Rightarrow> string \<Rightarrow> string \<Rightarrow> credential_definition \<Rightarrow> string \<Rightarrow> u64 \<Rightarrow> nat \<Rightarrow> issued_credential" where
  "minted_record pid hid holder_did d uuid issued_at index =
     \<lparr>c_id = credential_urn uuid, c_type = cd_credential_type d, c_definition_id = cd_id d,
      c_holder_id = hid, c_holder_did = holder_did, c_process_id = pid, c_format = cd_format d,
      c_issued_at = issued_at, c_expires_at = u64_add issued_at (cd_validity d),
      c_status = RActive, c_index = index\<rparr>"

lemma minted_record_simps [simp]:
  "c_id (minted_record pid hid hdid d u now i) = credential_urn u"
  "c_definition_id (minted_record pid hid hdid d u now i) = cd_id d"
  "c_holder_id (minted_record pid hid hdid d u now i) = hid"
  "c_holder_did (minted_record pid hid hdid d u now i) = hdid"
  "c_process_id (minted_record pid hid hdid d u now i) = pid"
  "c_status (minted_record pid hid hdid d u now i) = RActive"
  "c_index (minted_record pid hid hdid d u now i) = i"
  by (simp_all add: minted_record_def)

definition close_process ::
    "string \<Rightarrow> process_state \<Rightarrow> string option \<Rightarrow> u64 \<Rightarrow> request_table \<Rightarrow> request_table" where
  "close_process pid st err now t =
     rt_modify pid (\<lambda>p. (transition st now p)\<lparr>p_error_detail := err\<rparr>) t"

definition record_issued :: "issued_credential list \<Rightarrow> issued_credentials \<Rightarrow> issued_credentials" where
  "record_issued rs ic = fold issued_insert rs ic"

section \<open>Admin decisions\<close>

definition decided_by :: "string \<Rightarrow> process_state \<Rightarrow> issuance_process \<Rightarrow> bool" where
  "decided_by hid next p \<longleftrightarrow> p_holder_id p = hid
     \<and> (p_state p = PSubmitted
        \<or> next = PRejected \<and> p_state p = PApproved \<and> \<not> p_delivery_started p)"

definition moved_ids :: "string \<Rightarrow> process_state \<Rightarrow> request_table \<Rightarrow> string fset" where
  "moved_ids hid next t = ffilter (\<lambda>i. case fmlookup (records t) i of
     None \<Rightarrow> False | Some p \<Rightarrow> decided_by hid next p) (fmdom (records t))"

definition decide_holder ::
    "string \<Rightarrow> holder_status \<Rightarrow> process_state \<Rightarrow> u64 \<Rightarrow> issuer_state
     \<Rightarrow> (holder \<times> string fset, issuer_error) result \<times> issuer_state" where
  "decide_holder hid st next now s =
     (case registry_get (s_holders s) hid of
        None \<Rightarrow> (Err (NotFound (''no holder '' @ [CHR 39] @ hid @ [CHR 39])), s)
      | Some h \<Rightarrow>
          (Ok (h\<lparr>status := st\<rparr>, moved_ids hid next (s_requests s)),
           s\<lparr>s_holders := registry_modify hid (status_update (\<lambda>_. st)) (s_holders s),
             s_requests := rt_modify_all (decided_by hid next) (transition next now) (s_requests s)\<rparr>))"

definition definition_in_use :: "string \<Rightarrow> request_table \<Rightarrow> bool" where
  "definition_in_use i t \<longleftrightarrow>
     list_ex (\<lambda>p. is_active (p_state p) \<and> i \<in> set (p_credential_definitions p)) (rt_iter t)"

definition delete_definition :: "string \<Rightarrow> issuer_state \<Rightarrow> response \<times> issuer_state" where
  "delete_definition i s =
     (if catalog_get (s_definitions s) i = None
      then (resp_json 404 (json_obj [(''error'', JStr (''no credential definition '' @ [CHR 39] @ i @ [CHR 39]))]), s)
      else if definition_in_use i (s_requests s)
      then (resp_json 409 (json_obj [(''error'', JStr (''credential definition '' @ [CHR 39] @ i @ [CHR 39]
              @ '' is referenced by an active issuance process''))]), s)
      else (resp 204 NoBody, s\<lparr>s_definitions := snd (catalog_remove i (s_definitions s))\<rparr>))"

section \<open>OID4VCI redemption\<close>

definition OID4VCI_HOLDER_PID :: string where
  "OID4VCI_HOLDER_PID = ''oid4vci''"

text \<open>The holder section: a rejected holder is refused, a pending one is served.\<close>

definition redeem_holder ::
    "holder_approval \<Rightarrow> string \<Rightarrow> u64 \<Rightarrow> string \<Rightarrow> holder_registry
     \<Rightarrow> (string, nat \<times> string) result \<times> holder_registry" where
  "redeem_holder approval new_hid now holder_did r =
     (case by_did r holder_did of
        Some h \<Rightarrow>
          if status h = Rejected then (Err (400, ''holder has been rejected by this issuer''), r)
          else (Ok (holder_id h), r)
      | None \<Rightarrow>
          (case holder_for approval new_hid now holder_did r of
             (Inl e, r') \<Rightarrow> (Err (503, ''holder registry is full''), r')
           | (Inr h, r') \<Rightarrow> (Ok (holder_id h), r')))"

definition redeem_process :: "string \<Rightarrow> string \<Rightarrow> string \<Rightarrow> credential_definition \<Rightarrow> u64 \<Rightarrow> issuance_process" where
  "redeem_process pid hid holder_did d now =
     \<lparr>p_id = pid, p_state = PDelivered, p_holder_id = hid, p_holder_did = holder_did,
      p_holder_pid = OID4VCI_HOLDER_PID, p_credential_definitions = [cd_id d], p_error_detail = None,
      p_created_at = now, p_state_timestamp = now, p_delivery_bearer = None,
      p_delivery_started = True\<rparr>"

section \<open>What each section does\<close>

lemma holder_for_ok [hub_inv]:
  "registry_ok r \<Longrightarrow> holder_for a i now d r = (res, r') \<Longrightarrow> registry_ok r'"
  by (auto simp: holder_for_def registry_insert_ok split: option.splits sum.splits)

lemma redeem_holder_ok [hub_inv]:
  "registry_ok r \<Longrightarrow> redeem_holder a i now d r = (res, r') \<Longrightarrow> registry_ok r'"
  by (auto simp: redeem_holder_def split: option.splits sum.splits if_splits prod.splits dest: holder_for_ok)

lemma request_section_Err:
  assumes "request_section a pid hid now hdid hpid b ids s = (Err e, s')"
  shows "s_definitions s' = s_definitions s \<and> s_issued s' = s_issued s \<and> s_requests s' = s_requests s
    \<and> (registry_ok (s_holders s) \<longrightarrow> registry_ok (s_holders s'))"
proof -
  obtain res hs where hf: "holder_for a hid now hdid (s_holders s) = (res, hs)" by fastforce
  have "s' = s \<or> s' = s\<lparr>s_holders := hs\<rparr>"
    using assms unfolding request_section_def
    by (simp add: Let_def hf split: if_splits option.splits prod.splits sum.splits)
  then show ?thesis using holder_for_ok [OF _ hf] by auto
qed

lemma request_section_Ok:
  assumes "request_section a pid hid now hdid hpid b ids s = (Ok deliver, s')"
  obtains h hs st t where "holder_for a hid now hdid (s_holders s) = (Ok h, hs)"
    and "st = (if status h = Pending then PSubmitted else PApproved)" and "status h \<noteq> Rejected"
    and "deliver = (st = PApproved)"
    and "rt_insert pid (new_process pid st h hdid hpid ids now b) (s_requests s) = Some t"
    and "s' = s\<lparr>s_holders := hs, s_requests := t\<rparr>" and "set ids \<subseteq> catalog_ids (s_definitions s)"
    and "st = PSubmitted \<Longrightarrow> fcard (pending_of (s_requests s) (holder_id h)) < MAX_PENDING_PROCESSES_PER_HOLDER
       \<and> fcard (pending_ids (s_requests s)) < MAX_PENDING_PROCESSES"
    and "ids \<noteq> []" "length ids \<le> MAX_REQUEST_CREDENTIALS"
proof -
  from assms have g: "ids \<noteq> []" "length ids \<le> MAX_REQUEST_CREDENTIALS"
    "List.find (\<lambda>i. catalog_get (s_definitions s) i = None) ids = None"
    unfolding request_section_def by (auto split: if_splits option.splits)
  with assms obtain h hs where hf: "holder_for a hid now hdid (s_holders s) = (Ok h, hs)"
    unfolding request_section_def by (auto split: if_splits option.splits prod.splits sum.splits)
  let ?st = "if status h = Pending then PSubmitted else PApproved"
  from assms g hf obtain t where
    t: "status h \<noteq> Rejected" "deliver = (?st = PApproved)"
    "rt_insert pid (new_process pid ?st h hdid hpid ids now b) (s_requests s) = Some t"
    "s' = s\<lparr>s_holders := hs, s_requests := t\<rparr>"
    and caps: "?st = PSubmitted \<Longrightarrow> fcard (pending_of (s_requests s) (holder_id h)) < MAX_PENDING_PROCESSES_PER_HOLDER
       \<and> fcard (pending_ids (s_requests s)) < MAX_PENDING_PROCESSES"
    unfolding request_section_def pending_counts_def
    by (auto simp: Let_def not_le split: if_splits option.splits)
  have "set ids \<subseteq> catalog_ids (s_definitions s)"
    using g(3) by (auto simp: find_Some_iff_ex catalog_get_None)
  from that [OF hf refl t(1,2,3,4) this caps g(1,2)] show ?thesis .
qed

lemma decide_holder_Ok:
  assumes "decide_holder hid st next now s = (Ok (h, moved), s')"
  shows "s' = s\<lparr>s_holders := registry_modify hid (status_update (\<lambda>_. st)) (s_holders s),
             s_requests := rt_modify_all (decided_by hid next) (transition next now) (s_requests s)\<rparr>"
    and "moved = moved_ids hid next (s_requests s)"
  using assms by (auto simp: decide_holder_def split: option.splits)

lemma decide_lookup:
  "fmlookup (records (rt_modify_all (decided_by hid next) (transition next now) tab)) i = Some p \<longleftrightarrow>
   (\<exists>q. fmlookup (records tab) i = Some q \<and> p = (if decided_by hid next q then transition next now q else q))"
  by (cases "fmlookup (records tab) i") (simp_all add: rt_modify_all_lookup eq_commute [of p])

lemma moved_ids_iff:
  "i |\<in>| moved_ids hid next tab \<longleftrightarrow> (\<exists>p. fmlookup (records tab) i = Some p \<and> decided_by hid next p)"
  by (auto simp: moved_ids_def fmdomI split: option.splits)

lemma transition_simps [simp]:
  "p_id (transition st now p) = p_id p" "p_state (transition st now p) = st"
  "p_credential_definitions (transition st now p) = p_credential_definitions p"
  "p_holder_id (transition st now p) = p_holder_id p"
  "p_delivery_started (transition st now p) = p_delivery_started p"
  by (simp_all add: transition_def)

lemma new_process_simps [simp]:
  "p_id (new_process pid st h hdid hpid ids now b) = pid"
  "p_state (new_process pid st h hdid hpid ids now b) = st"
  "p_holder_id (new_process pid st h hdid hpid ids now b) = holder_id h"
  "p_credential_definitions (new_process pid st h hdid hpid ids now b) = ids"
  "p_delivery_started (new_process pid st h hdid hpid ids now b) = False"
  by (simp_all add: new_process_def)

lemma redeem_process_simps [simp]:
  "p_id (redeem_process pid hid hdid d now) = pid"
  "p_state (redeem_process pid hid hdid d now) = PDelivered"
  "p_credential_definitions (redeem_process pid hid hdid d now) = [cd_id d]"
  by (simp_all add: redeem_process_def)

lemma claim_Some:
  "claim pid tab = (Some p, tab') \<longleftrightarrow> (\<exists>q. fmlookup (records tab) pid = Some q \<and> p_state q = PApproved
     \<and> p = q\<lparr>p_delivery_started := True\<rparr> \<and> tab' = rt_modify pid (p_delivery_started_update (\<lambda>_. True)) tab)"
  by (auto simp: claim_def rt_get_def split: option.splits if_splits)

lemma claim_None:
  "claim pid tab = (None, tab') \<longleftrightarrow> tab' = tab \<and> (\<forall>q. fmlookup (records tab) pid = Some q \<longrightarrow> p_state q \<noteq> PApproved)"
  by (auto simp: claim_def rt_get_def split: option.splits if_splits)

lemma lookup_definitions_Ok:
  "lookup_definitions c is = Ok ds \<Longrightarrow> map cd_id ds = is \<and> set ds \<subseteq> set (definitions c)"
  by (induction "is" arbitrary: ds) (auto split: option.splits sum.splits dest: catalog_get_SomeD)

lemma lookup_definitions_total: "set is \<subseteq> catalog_ids c \<Longrightarrow> is_ok (lookup_definitions c is)"
proof (induction "is")
  case (Cons i ks)
  then have "is_ok (lookup_definitions c ks)" by simp
  moreover obtain d where "catalog_get c i = Some d"
    using Cons.prems catalog_get_None [of c i] by auto
  ultimately show ?case by (auto split: sum.splits)
qed simp

lemma close_process_lookup:
  "fmlookup (records (close_process pid st e now tab)) j =
     (if j = pid then map_option (\<lambda>p. (transition st now p)\<lparr>p_error_detail := e\<rparr>) (fmlookup (records tab) pid)
      else fmlookup (records tab) j)"
  by (simp add: close_process_def rt_modify_lookup)

lemma definition_in_use_iff:
  assumes "rt_ok tab"
  shows "definition_in_use i tab \<longleftrightarrow> (\<exists>j p. fmlookup (records tab) j = Some p \<and> is_active (p_state p)
     \<and> i \<in> set (p_credential_definitions p))"
proof -
  have "set (rt_iter tab) = {p. \<exists>j. fmlookup (records tab) j = Some p}"
    using assms unfolding rt_iter_def rt_ok_def List.map_filter_def by (force simp: fmdomI)
  then show ?thesis by (auto simp: definition_in_use_def list_ex_iff)
qed

lemma delete_definition_effect:
  assumes "delete_definition i s = (r, s')" and "rt_ok (s_requests s)"
  shows "s' = s \<or> s' = s\<lparr>s_definitions := snd (catalog_remove i (s_definitions s))\<rparr>
     \<and> (\<forall>j p. fmlookup (records (s_requests s)) j = Some p \<and> is_active (p_state p)
          \<longrightarrow> i \<notin> set (p_credential_definitions p))"
  using assms definition_in_use_iff [OF assms(2), of i]
  by (auto simp: delete_definition_def split: if_splits)

end
