(* ===== verification/Bounded_Tables.thy ===== *)
theory Bounded_Tables
  imports Hub_Prelude
begin

text \<open>
  The two oldest-first bounded tables of the HTTP crate: \<open>SeenJtiCache\<close> (state.rs), the
  replay cache of accepted \<open>jti\<close> claims, and \<open>ExpiringTable\<close> (oid4vci.rs), which holds
  offers, pre-authorized codes, access tokens and nonces. The locale \<open>bounded_store\<close> is the
  contract both give their clients: the number of remembered keys never passes the capacity,
  whatever sequence of operations runs.
\<close>

section \<open>The interface of a bounded store\<close>

locale bounded_store =
  fixes keys :: "'s \<Rightarrow> string fset"
    and cap :: "'s \<Rightarrow> nat"
    and good :: "'s \<Rightarrow> bool"
    and step :: "'op \<Rightarrow> 's \<Rightarrow> 's"
    and written :: "'op \<Rightarrow> string option"
  assumes good_bound: "good s \<Longrightarrow> fcard (keys s) \<le> cap s"
    and good_step: "good s \<Longrightarrow> good (step a s)"
    and cap_step: "cap (step a s) = cap s"
    and keys_step: "good s \<Longrightarrow> k |\<in>| keys (step a s) \<Longrightarrow> k |\<notin>| keys s \<Longrightarrow> written a = Some k"
begin

lemma good_run: "good s \<Longrightarrow> good (fold step ops s)"
  by (induction ops arbitrary: s) (auto simp: good_step)

lemma cap_run: "cap (fold step ops s) = cap s"
  by (induction ops arbitrary: s) (auto simp: cap_step)

lemma run_bounded: "good s \<Longrightarrow> fcard (keys (fold step ops s)) \<le> cap s"
  using good_bound [OF good_run] cap_run by metis

text \<open>A key that is absent stays absent while no operation writes it.\<close>

lemma run_absent:
  "good s \<Longrightarrow> k |\<notin>| keys s \<Longrightarrow> \<forall>a \<in> set ops. written a \<noteq> Some k \<Longrightarrow> k |\<notin>| keys (fold step ops s)"
proof (induction ops arbitrary: s)
  case Nil
  then show ?case by simp
next
  case (Cons a ops)
  from Cons.prems keys_step [OF Cons.prems(1), of k a] have "k |\<notin>| keys (step a s)" by auto
  with Cons.prems Cons.IH [OF good_step [OF Cons.prems(1)]] show ?case by simp
qed

end

section \<open>SeenJtiCache\<close>

record seen_jti_cache =
  seen :: "string fset"
  order :: "string list"
  capacity :: nat

definition seen_new :: "nat \<Rightarrow> seen_jti_cache" where
  "seen_new c = \<lparr>seen = {||}, order = [], capacity = c\<rparr>"

definition seen_len :: "seen_jti_cache \<Rightarrow> nat" where
  "seen_len c = fcard (seen c)"

text \<open>The eviction loop: pop the oldest key and forget it while over capacity.\<close>

fun seen_evict :: "nat \<Rightarrow> string fset \<Rightarrow> string list \<Rightarrow> string fset \<times> string list" where
  "seen_evict cap s [] = (s, [])"
| "seen_evict cap s (oldest # ks) =
     (if fcard s > cap then seen_evict cap (s |-| {|oldest|}) ks else (s, oldest # ks))"

definition seen_insert :: "string \<Rightarrow> seen_jti_cache \<Rightarrow> bool \<times> seen_jti_cache" where
  "seen_insert jti c =
     (if jti |\<in>| seen c then (False, c)
      else let (s, ks) = seen_evict (capacity c) (finsert jti (seen c)) (order c @ [jti])
           in (True, c\<lparr>seen := s, order := ks\<rparr>))"

text \<open>A cache of capacity 0 forgets a key in the call that records it, so it never reports a replay.\<close>

lemma seen_insert_without_room:
  "seen_insert jti (seen_new 0) = (True, seen_new 0)"
  by (simp add: seen_insert_def seen_new_def seen_evict.simps fcard.rep_eq)

text \<open>Well-formedness: the queue lists exactly the remembered keys, each once, within capacity.\<close>

definition seen_ok :: "seen_jti_cache \<Rightarrow> bool" where
  "seen_ok c \<longleftrightarrow> distinct (order c) \<and> fset (seen c) = set (order c) \<and> length (order c) \<le> capacity c"

text \<open>The abstract specification: a bounded first-in first-out queue of distinct keys.\<close>

definition fifo_insert :: "nat \<Rightarrow> string \<Rightarrow> string list \<Rightarrow> bool \<times> string list" where
  "fifo_insert cap k q =
     (if k \<in> set q then (False, q) else (True, drop (Suc (length q) - cap) (q @ [k])))"

lemma fcard_fset_list: "distinct xs \<Longrightarrow> fset s = set xs \<Longrightarrow> fcard s = length xs"
  by (simp add: fcard.rep_eq distinct_card)

lemma seen_evict_drop:
  assumes "distinct ks" and "fset s = set ks"
  shows "snd (seen_evict cap s ks) = drop (length ks - cap) ks
    \<and> fset (fst (seen_evict cap s ks)) = set (drop (length ks - cap) ks)"
  using assms
proof (induction ks arbitrary: s)
  case Nil
  then show ?case by simp
next
  case (Cons k ks)
  from Cons.prems have card: "fcard s = Suc (length ks)"
    using fcard_fset_list [OF Cons.prems] by simp
  show ?case
  proof (cases "fcard s > cap")
    case True
    from Cons.prems have "distinct ks" "fset (s |-| {|k|}) = set ks" by auto
    from Cons.IH [OF this] True card show ?thesis
      by (simp add: Suc_diff_le less_Suc_eq_le)
  next
    case False
    with Cons.prems card show ?thesis by simp
  qed
qed

text \<open>The hash set with its queue refines the abstract FIFO.\<close>

lemma seen_insert_refines:
  assumes "seen_ok c"
  shows "fst (seen_insert jti c) = fst (fifo_insert (capacity c) jti (order c))"
    and "order (snd (seen_insert jti c)) = snd (fifo_insert (capacity c) jti (order c))"
    and "capacity (snd (seen_insert jti c)) = capacity c"
    and "seen_ok (snd (seen_insert jti c))"
proof -
  note ok = assms [unfolded seen_ok_def]
  have mem: "jti |\<in>| seen c \<longleftrightarrow> jti \<in> set (order c)"
    using ok by auto
  show fst: "fst (seen_insert jti c) = fst (fifo_insert (capacity c) jti (order c))"
    using mem by (auto simp: seen_insert_def fifo_insert_def split: prod.splits)
  show cap: "capacity (snd (seen_insert jti c)) = capacity c"
    by (auto simp: seen_insert_def split: prod.splits)
  show ord: "order (snd (seen_insert jti c)) = snd (fifo_insert (capacity c) jti (order c))"
    and "seen_ok (snd (seen_insert jti c))"
  proof -
    let ?ks = "order c @ [jti]"
    let ?e = "seen_evict (capacity c) (finsert jti (seen c)) ?ks"
    have fresh: "jti |\<notin>| seen c \<Longrightarrow> snd ?e = drop (length ?ks - capacity c) ?ks
      \<and> fset (fst ?e) = set (drop (length ?ks - capacity c) ?ks)"
      using ok mem by (intro seen_evict_drop) auto
    show "order (snd (seen_insert jti c)) = snd (fifo_insert (capacity c) jti (order c))"
      using fresh mem by (auto simp: seen_insert_def fifo_insert_def split: prod.splits)
    show "seen_ok (snd (seen_insert jti c))"
    proof (cases "jti |\<in>| seen c")
      case True
      with assms show ?thesis by (simp add: seen_insert_def)
    next
      case False
      with ok mem have d: "distinct ?ks" by simp
      have "distinct (drop (length ?ks - capacity c) ?ks)"
        using d distinct_drop by blast
      moreover have "length (drop (length ?ks - capacity c) ?ks) \<le> capacity c" by simp
      ultimately show ?thesis
        using False fresh by (auto simp: seen_insert_def seen_ok_def split: prod.splits)
    qed
  qed
qed

lemma seen_ok_new [hub_inv]: "seen_ok (seen_new c)"
  by (simp add: seen_ok_def seen_new_def)

interpretation seen_store: bounded_store seen capacity seen_ok
    "\<lambda>k c. snd (seen_insert k c)" Some
proof
  fix c :: seen_jti_cache and k j
  show "seen_ok c \<Longrightarrow> fcard (seen c) \<le> capacity c"
    unfolding seen_ok_def using fcard_fset_list by metis
  show "seen_ok c \<Longrightarrow> seen_ok (snd (seen_insert k c))"
    by (rule seen_insert_refines)
  show "capacity (snd (seen_insert k c)) = capacity c"
    by (auto simp: seen_insert_def split: prod.splits)
  show "seen_ok c \<Longrightarrow> j |\<in>| seen (snd (seen_insert k c)) \<Longrightarrow> j |\<notin>| seen c \<Longrightarrow> Some k = Some j"
  proof -
    assume ok: "seen_ok c" and j: "j |\<in>| seen (snd (seen_insert k c))" "j |\<notin>| seen c"
    have "j \<in> set (order (snd (seen_insert k c)))"
      using seen_insert_refines(4) [OF ok, of k] j(1) by (simp add: seen_ok_def)
    then have "j \<in> set (order c @ [k])"
      using seen_insert_refines(2) [OF ok, of k]
      by (auto simp: fifo_insert_def split: if_splits dest: in_set_dropD)
    with ok j(2) show ?thesis by (auto simp: seen_ok_def)
  qed
qed

section \<open>The replay window\<close>

text \<open>A run of insertions, counting those that were accepted as first uses.\<close>

fun seen_run :: "string list \<Rightarrow> seen_jti_cache \<Rightarrow> nat \<times> seen_jti_cache" where
  "seen_run [] c = (0, c)"
| "seen_run (j # js) c =
     (let (ok, c') = seen_insert j c; (n, c'') = seen_run js c'
      in (if ok then Suc n else n, c''))"

fun fifo_run :: "nat \<Rightarrow> string list \<Rightarrow> string list \<Rightarrow> nat \<times> string list" where
  "fifo_run cap [] q = (0, q)"
| "fifo_run cap (j # js) q =
     (let (ok, q') = fifo_insert cap j q; (n, q'') = fifo_run cap js q'
      in (if ok then Suc n else n, q''))"

lemma seen_run_refines:
  assumes "seen_ok c"
  shows "seen_ok (snd (seen_run js c)) \<and> capacity (snd (seen_run js c)) = capacity c
    \<and> fst (seen_run js c) = fst (fifo_run (capacity c) js (order c))
    \<and> order (snd (seen_run js c)) = snd (fifo_run (capacity c) js (order c))"
  using assms
proof (induction js arbitrary: c)
  case Nil
  then show ?case by simp
next
  case (Cons j js)
  note r = seen_insert_refines [OF Cons.prems, of j]
  from Cons.IH [OF r(4)] r show ?case
    by (simp add: Let_def split_beta)
qed

lemma fifo_insert_length: "length q \<le> cap \<Longrightarrow> length (snd (fifo_insert cap k q)) \<le> cap"
  by (auto simp: fifo_insert_def)

lemma fifo_run_absent:
  "j \<notin> set js \<Longrightarrow> j \<notin> set q \<Longrightarrow> j \<notin> set (snd (fifo_run cap js q))"
proof (induction js arbitrary: q)
  case Nil
  then show ?case by simp
next
  case (Cons i js)
  have "j \<notin> set (snd (fifo_insert cap i q))"
    using Cons.prems by (auto simp: fifo_insert_def dest: in_set_dropD)
  from Cons.IH [OF _ this] Cons.prems(1) show ?case by (simp add: split_beta Let_def)
qed

text \<open>
  Where a remembered key sits: with \<open>ys\<close> queued behind it, after \<open>n\<close> further accepted
  insertions it is still remembered exactly while \<open>length ys + n < cap\<close>.
\<close>

lemma fifo_run_window:
  assumes "j \<notin> set js" and "j \<notin> set xs" and "j \<notin> set ys" and "length (xs @ j # ys) \<le> cap"
  shows "j \<in> set (snd (fifo_run cap js (xs @ j # ys))) \<longleftrightarrow>
    length ys + fst (fifo_run cap js (xs @ j # ys)) < cap"
  using assms
proof (induction js arbitrary: xs ys)
  case Nil
  then show ?case by simp
next
  case (Cons k js)
  let ?q = "xs @ j # ys"
  consider (known) "k \<in> set ?q" | (room) "k \<notin> set ?q" "Suc (length ?q) \<le> cap"
    | (shift) x xs' where "k \<notin> set ?q" "length ?q = cap" "xs = x # xs'"
    | (drop) "k \<notin> set ?q" "length ?q = cap" "xs = []"
    using Cons.prems(4) by (cases xs) force+
  then show ?case
  proof cases
    case known
    with Cons show ?thesis by (simp add: fifo_insert_def)
  next
    case room
    then have "fifo_insert cap k ?q = (True, xs @ j # (ys @ [k]))"
      by (simp add: fifo_insert_def)
    with Cons.IH [of xs "ys @ [k]"] Cons.prems room show ?thesis
      by (simp add: split_beta Let_def)
  next
    case shift
    then have "fifo_insert cap k ?q = (True, xs' @ j # (ys @ [k]))"
      by (auto simp: fifo_insert_def)
    with Cons.IH [of xs' "ys @ [k]"] Cons.prems shift show ?thesis
      by (simp add: split_beta Let_def)
  next
    case drop
    then have "fifo_insert cap k ?q = (True, ys @ [k])"
      by (auto simp: fifo_insert_def)
    with fifo_run_absent [of j js "ys @ [k]" cap] Cons.prems drop show ?thesis
      by (simp add: split_beta Let_def)
  qed
qed

lemma fifo_insert_True:
  assumes "fst (fifo_insert cap j q)" and "0 < cap" and "length q \<le> cap"
  shows "\<exists>xs. snd (fifo_insert cap j q) = xs @ [j] \<and> j \<notin> set xs \<and> length (xs @ [j]) \<le> cap"
proof -
  from assms(1) have j: "j \<notin> set q" by (auto simp: fifo_insert_def split: if_splits)
  have "Suc (length q) - cap \<le> length q" using assms(2) by simp
  then have "snd (fifo_insert cap j q) = drop (Suc (length q) - cap) q @ [j]"
    using j by (simp add: fifo_insert_def)
  moreover have "j \<notin> set (drop (Suc (length q) - cap) q)"
    using j by (auto dest: in_set_dropD)
  ultimately show ?thesis using assms(2,3) by force
qed

text \<open>
  C16. Replay protection has an exact window. A \<open>jti\<close> that a well-formed cache accepts is
  refused again, whatever other tokens arrive in between, as long as fewer than \<open>capacity\<close>
  of them were accepted, and it is accepted again once that many were.
\<close>

theorem seen_jti_replay_window:
  assumes "seen_ok c" and "0 < capacity c" and "seen_insert j c = (True, c1)"
    and "j \<notin> set js" and "seen_run js c1 = (n, c2)"
  shows "fst (seen_insert j c2) \<longleftrightarrow> capacity c \<le> n"
proof -
  note r = seen_insert_refines [OF assms(1), of j]
  from r assms(3) have q1: "order c1 = snd (fifo_insert (capacity c) j (order c))"
    and ok1: "seen_ok c1" and cap1: "capacity c1 = capacity c"
    and acc: "fst (fifo_insert (capacity c) j (order c))" by auto
  from assms(1) have "length (order c) \<le> capacity c" by (simp add: seen_ok_def)
  from fifo_insert_True [OF acc assms(2) this] q1 obtain xs where
    xs: "order c1 = xs @ [j]" "j \<notin> set xs" "length (xs @ [j]) \<le> capacity c" by auto
  note run = seen_run_refines [OF ok1, of js]
  from run assms(5) have ok2: "seen_ok c2" and cap2: "capacity c2 = capacity c"
    and n: "n = fst (fifo_run (capacity c) js (order c1))"
    and q2: "order c2 = snd (fifo_run (capacity c) js (order c1))"
    by (auto simp: cap1)
  have "j \<in> set (order c2) \<longleftrightarrow> n < capacity c"
    using fifo_run_window [OF assms(4) xs(2), of "[]" "capacity c"] xs n q2 by simp
  moreover have "fst (seen_insert j c2) \<longleftrightarrow> j \<notin> set (order c2)"
    using seen_insert_refines(1) [OF ok2, of j] by (auto simp: fifo_insert_def)
  ultimately show ?thesis by auto
qed

theorem seen_jti_replay_window_witness:
  "let c = seen_new 2; c1 = snd (seen_insert ''a'' c);
       r = seen_run [''b''] c1; r2 = seen_run [''b'', ''b'', ''c''] c1
   in \<not> fst (seen_insert ''a'' (snd r)) \<and> fst (seen_insert ''a'' (snd r2))"
proof -
  let ?c = "seen_new 2"
  let ?c1 = "snd (seen_insert ''a'' ?c)"
  have ins: "seen_insert ''a'' ?c = (True, ?c1)" by code_simp
  have cap: "0 < capacity ?c" "capacity ?c = 2" by (simp_all add: seen_new_def)
  have "fst (seen_insert ''a'' (snd (seen_run [''b''] ?c1))) \<longleftrightarrow> capacity ?c \<le> 1"
    by (rule seen_jti_replay_window [OF seen_ok_new cap(1) ins, of "[''b'']"]) (simp, code_simp)
  moreover have "fst (seen_insert ''a'' (snd (seen_run [''b'', ''b'', ''c''] ?c1))) \<longleftrightarrow> capacity ?c \<le> 2"
    by (rule seen_jti_replay_window [OF seen_ok_new cap(1) ins, of "[''b'', ''b'', ''c'']"])
      (simp, code_simp)
  ultimately show ?thesis by (simp add: Let_def cap(2))
qed

section \<open>ExpiringTable\<close>

record 'v expiring_table =
  entries :: "(string, u64 \<times> 'v) fmap"
  et_order :: "string list"
  et_capacity :: nat

definition et_new :: "nat \<Rightarrow> 'v expiring_table" where
  "et_new c = \<lparr>entries = fmempty, et_order = [], et_capacity = c\<rparr>"

definition et_len :: "'v expiring_table \<Rightarrow> nat" where
  "et_len t = fcard (fmdom (entries t))"

fun et_evict :: "nat \<Rightarrow> (string, 'b) fmap \<Rightarrow> string list \<Rightarrow> (string, 'b) fmap \<times> string list" where
  "et_evict cap m [] = (m, [])"
| "et_evict cap m (oldest # ks) =
     (if fcard (fmdom m) > cap then et_evict cap (fmdrop oldest m) ks else (m, oldest # ks))"

text \<open>\<open>insert\<close>; \<open>now\<close> is the clock reading the entry's expiry is computed from.\<close>

definition et_insert :: "u64 \<Rightarrow> string \<Rightarrow> u64 \<Rightarrow> 'v \<Rightarrow> 'v expiring_table \<Rightarrow> 'v expiring_table" where
  "et_insert now key ttl_secs value t =
     (let ks = (if fmlookup (entries t) key = None then et_order t @ [key] else et_order t);
          m = fmupd key (u64_add now ttl_secs, value) (entries t);
          (m', ks') = et_evict (et_capacity t) m ks
      in t\<lparr>entries := m', et_order := ks'\<rparr>)"

text \<open>
  \<open>get_mut\<close>: the live value, dropping an expired entry first. A write through the returned
  reference is \<open>et_write\<close>.
\<close>

definition et_get_mut :: "u64 \<Rightarrow> string \<Rightarrow> 'v expiring_table \<Rightarrow> 'v option \<times> 'v expiring_table" where
  "et_get_mut now key t =
     (case fmlookup (entries t) key of
        None \<Rightarrow> (None, t)
      | Some (exp, v) \<Rightarrow>
          if exp \<le> now then (None, t\<lparr>entries := fmdrop key (entries t)\<rparr>) else (Some v, t))"

definition et_write :: "string \<Rightarrow> 'v \<Rightarrow> 'v expiring_table \<Rightarrow> 'v expiring_table" where
  "et_write key v t =
     (case fmlookup (entries t) key of
        None \<Rightarrow> t
      | Some (exp, _) \<Rightarrow> t\<lparr>entries := fmupd key (exp, v) (entries t)\<rparr>)"

definition et_take :: "u64 \<Rightarrow> string \<Rightarrow> 'v expiring_table \<Rightarrow> 'v option \<times> 'v expiring_table" where
  "et_take now key t =
     (case fmlookup (entries t) key of
        None \<Rightarrow> (None, t)
      | Some (exp, v) \<Rightarrow>
          (if exp > now then Some v else None, t\<lparr>entries := fmdrop key (entries t)\<rparr>))"

text \<open>The operations a client can interleave, each with its own clock reading.\<close>

datatype 'v et_op =
    Insert u64 string u64 'v
  | Get u64 string
  | Write string 'v
  | Take u64 string

fun et_apply :: "'v et_op \<Rightarrow> 'v expiring_table \<Rightarrow> 'v expiring_table" where
  "et_apply (Insert now k ttl v) t = et_insert now k ttl v t"
| "et_apply (Get now k) t = snd (et_get_mut now k t)"
| "et_apply (Write k v) t = et_write k v t"
| "et_apply (Take now k) t = snd (et_take now k t)"

fun et_written :: "'v et_op \<Rightarrow> string option" where
  "et_written (Insert now k ttl v) = Some k"
| "et_written _ = None"

text \<open>
  Well-formedness: every entry is queued and the capacity holds. The queue may also hold keys
  whose entry is gone, since \<open>take\<close> and \<open>get_mut\<close> leave it alone.
\<close>

definition et_ok :: "'v expiring_table \<Rightarrow> bool" where
  "et_ok t \<longleftrightarrow> fset (fmdom (entries t)) \<subseteq> set (et_order t) \<and> et_len t \<le> et_capacity t"

lemma fcard_le_length: "fset s \<subseteq> set xs \<Longrightarrow> fcard s \<le> length xs"
  by (metis List.finite_set card_length card_mono fcard.rep_eq le_trans)

lemma fmdom_fmdrop_subset: "fset (fmdom m) \<subseteq> set (k # ks) \<Longrightarrow> fset (fmdom (fmdrop k m)) \<subseteq> set ks"
  by auto

lemma et_evict_props:
  assumes "fset (fmdom m) \<subseteq> set ks"
  shows "fset (fmdom (fst (et_evict cap m ks))) \<subseteq> set (snd (et_evict cap m ks))
    \<and> fcard (fmdom (fst (et_evict cap m ks))) \<le> cap
    \<and> fset (fmdom (fst (et_evict cap m ks))) \<subseteq> fset (fmdom m)"
  using assms
proof (induction ks arbitrary: m)
  case Nil
  then have "fmdom m = {||}" by auto
  with Nil show ?case by simp
next
  case (Cons k ks)
  show ?case
  proof (cases "fcard (fmdom m) > cap")
    case True
    with Cons.IH [OF fmdom_fmdrop_subset [OF Cons.prems]] show ?thesis by auto
  next
    case False
    with Cons.prems show ?thesis by simp
  qed
qed

text \<open>Eviction never touches a key with fewer than \<open>cap\<close> keys queued behind it.\<close>

lemma et_evict_keeps:
  assumes "ks = xs @ k # ys" and "k \<notin> set xs" and "fset (fmdom m) \<subseteq> set ks"
    and "fmlookup m k = Some e" and "length ys < cap"
  shows "fmlookup (fst (et_evict cap m ks)) k = Some e
    \<and> (\<exists>xs'. snd (et_evict cap m ks) = xs' @ k # ys \<and> k \<notin> set xs')"
  using assms
proof (induction xs arbitrary: m ks)
  case Nil
  then have "fcard (fmdom m) \<le> length (k # ys)" by (intro fcard_le_length) simp
  with Nil show ?case by auto
next
  case (Cons x xs)
  show ?case
  proof (cases "fcard (fmdom m) > cap")
    case True
    from Cons.prems have "fset (fmdom (fmdrop x m)) \<subseteq> set (xs @ k # ys)" by auto
    moreover from Cons.prems have "fmlookup (fmdrop x m) k = Some e" "k \<notin> set xs" by auto
    ultimately show ?thesis
      using Cons.IH [OF refl, of "fmdrop x m"] Cons.prems True by simp
  next
    case False
    with Cons.prems have "snd (et_evict cap m ks) = (x # xs) @ k # ys" by simp
    with Cons.prems False show ?thesis by auto
  qed
qed

lemma et_ok_new [hub_inv]: "et_ok (et_new c)"
  by (simp add: et_ok_def et_new_def et_len_def)

lemma et_insert_ok [hub_inv]: "et_ok t \<Longrightarrow> et_ok (et_insert now k ttl v t)"
proof -
  assume ok: "et_ok t"
  let ?ks = "if fmlookup (entries t) k = None then et_order t @ [k] else et_order t"
  let ?m = "fmupd k (u64_add now ttl, v) (entries t)"
  from ok have "fset (fmdom ?m) \<subseteq> set ?ks"
    by (auto simp: et_ok_def dest: fmdomI)
  from et_evict_props [OF this, of "et_capacity t"] show ?thesis
    by (simp add: et_insert_def et_ok_def et_len_def Let_def split_beta)
qed

lemma fcard_fmdrop_le: "fcard (fmdom (fmdrop k m)) \<le> fcard (fmdom m)"
  by (simp add: fcard_fminus_le)

lemma et_take_ok [hub_inv]: "et_ok t \<Longrightarrow> et_ok (snd (et_take now k t))"
  using fcard_fmdrop_le [of k "entries t"]
  by (auto simp: et_ok_def et_take_def et_len_def split: option.splits)

lemma et_get_mut_ok [hub_inv]: "et_ok t \<Longrightarrow> et_ok (snd (et_get_mut now k t))"
  using fcard_fmdrop_le [of k "entries t"]
  by (auto simp: et_ok_def et_get_mut_def et_len_def split: option.splits)

lemma et_write_ok [hub_inv]: "et_ok t \<Longrightarrow> et_ok (et_write k v t)"
  by (auto simp: et_ok_def et_write_def et_len_def fmdomI split: option.splits)

lemma et_apply_ok: "et_ok t \<Longrightarrow> et_ok (et_apply a t)"
  by (cases a) (auto intro: hub_inv)

lemma et_apply_capacity: "et_capacity (et_apply a t) = et_capacity t"
  by (cases a) (auto simp: et_insert_def et_get_mut_def et_write_def et_take_def Let_def
      split: option.splits prod.splits)

lemma et_insert_dom:
  assumes "et_ok t" and "j |\<in>| fmdom (entries (et_insert now k ttl v t))"
  shows "j = k \<or> j |\<in>| fmdom (entries t)"
proof -
  let ?ks = "if fmlookup (entries t) k = None then et_order t @ [k] else et_order t"
  let ?m = "fmupd k (u64_add now ttl, v) (entries t)"
  from assms(1) have "fset (fmdom ?m) \<subseteq> set ?ks"
    by (auto simp: et_ok_def dest: fmdomI)
  from et_evict_props [OF this, of "et_capacity t"] assms(2) show ?thesis
    by (auto simp: et_insert_def Let_def split_beta)
qed

interpretation et_store: bounded_store "\<lambda>t. fmdom (entries t)" et_capacity et_ok
    et_apply et_written
proof
  fix t :: "'v expiring_table" and a k
  show "et_ok t \<Longrightarrow> fcard (fmdom (entries t)) \<le> et_capacity t"
    by (simp add: et_ok_def et_len_def)
  show "et_ok t \<Longrightarrow> et_ok (et_apply a t)" by (rule et_apply_ok)
  show "et_capacity (et_apply a t) = et_capacity t" by (rule et_apply_capacity)
  show "et_ok t \<Longrightarrow> k |\<in>| fmdom (entries (et_apply a t)) \<Longrightarrow> k |\<notin>| fmdom (entries t)
    \<Longrightarrow> et_written a = Some k"
    by (cases a) (auto simp: et_get_mut_def et_write_def et_take_def dest: et_insert_dom
        split: option.splits if_splits intro: fmdomI)
qed

section \<open>What the expiring table promises\<close>

lemma et_take_None_absent: "k |\<notin>| fmdom (entries t) \<Longrightarrow> fst (et_take now k t) = None"
  by (simp add: et_take_def fmdom_notD)

lemma et_get_None_absent: "k |\<notin>| fmdom (entries t) \<Longrightarrow> fst (et_get_mut now k t) = None"
  by (simp add: et_get_mut_def fmdom_notD)

lemma et_take_removes: "k |\<notin>| fmdom (entries (snd (et_take now k t)))"
  by (auto simp: et_take_def dest: fmdomI split: option.splits)

fun et_key :: "'v et_op \<Rightarrow> string" where
  "et_key (Insert now k ttl v) = k"
| "et_key (Get now k) = k"
| "et_key (Write k v) = k"
| "et_key (Take now k) = k"

fun is_insert :: "'v et_op \<Rightarrow> bool" where
  "is_insert (Insert now k ttl v) = True"
| "is_insert _ = False"

text \<open>An entry, its place in the queue, and at most \<open>n\<close> keys queued behind it.\<close>

definition et_holds :: "string \<Rightarrow> u64 \<times> 'v \<Rightarrow> nat \<Rightarrow> 'v expiring_table \<Rightarrow> bool" where
  "et_holds k e n t \<longleftrightarrow> et_ok t \<and> fmlookup (entries t) k = Some e
     \<and> (\<exists>xs ys. et_order t = xs @ k # ys \<and> k \<notin> set xs \<and> length ys \<le> n)"

lemma et_insert_other_holds:
  assumes "et_holds k e n t" and "j \<noteq> k" and "Suc n < et_capacity t"
  shows "et_holds k e (Suc n) (et_insert now j ttl v t)"
proof -
  from assms(1) obtain xs ys where q: "et_order t = xs @ k # ys" "k \<notin> set xs" "length ys \<le> n"
    and ok: "et_ok t" and e: "fmlookup (entries t) k = Some e"
    by (auto simp: et_holds_def)
  let ?ks = "if fmlookup (entries t) j = None then et_order t @ [j] else et_order t"
  let ?ys = "if fmlookup (entries t) j = None then ys @ [j] else ys"
  let ?m = "fmupd j (u64_add now ttl, v) (entries t)"
  have "?ks = xs @ k # ?ys" using q by simp
  moreover have "fset (fmdom ?m) \<subseteq> set ?ks"
    using ok by (auto simp: et_ok_def dest: fmdomI)
  moreover have "fmlookup ?m k = Some e" using e assms(2) by simp
  moreover have "length ?ys < et_capacity t" "length ?ys \<le> Suc n" using q(3) assms(3) by auto
  ultimately obtain xs' where ev: "fmlookup (fst (et_evict (et_capacity t) ?m ?ks)) k = Some e"
    "snd (et_evict (et_capacity t) ?m ?ks) = xs' @ k # ?ys" "k \<notin> set xs'"
    and len: "length ?ys \<le> Suc n"
    using et_evict_keeps [of ?ks xs k ?ys ?m e "et_capacity t"] q(2) by blast
  have "entries (et_insert now j ttl v t) = fst (et_evict (et_capacity t) ?m ?ks)"
    "et_order (et_insert now j ttl v t) = snd (et_evict (et_capacity t) ?m ?ks)"
    by (simp_all add: et_insert_def Let_def split_beta)
  with ev len et_insert_ok [OF ok, of now j ttl v] show ?thesis
    unfolding et_holds_def by metis
qed

lemma et_apply_other_holds:
  assumes "et_holds k e n t" and "et_key a \<noteq> k" and "\<not> is_insert a"
  shows "et_holds k e n (et_apply a t)"
proof -
  have "fmlookup (entries (et_apply a t)) k = fmlookup (entries t) k"
    "et_order (et_apply a t) = et_order t"
    using assms(2,3) by (cases a; auto simp: et_get_mut_def et_write_def et_take_def
        split: option.splits)+
  with assms(1) et_apply_ok [of t a] show ?thesis by (auto simp: et_holds_def)
qed

lemma et_run_other_holds:
  assumes "et_holds k e n t" and "\<forall>a \<in> set ops. et_key a \<noteq> k"
    and "n + length (filter is_insert ops) < et_capacity t"
  shows "et_holds k e (n + length (filter is_insert ops)) (fold et_apply ops t)"
  using assms
proof (induction ops arbitrary: t n)
  case Nil
  then show ?case by simp
next
  case (Cons a ops)
  show ?case
  proof (cases "is_insert a")
    case True
    then obtain now j ttl v where a: "a = Insert now j ttl v" by (cases a) auto
    with Cons.prems have "et_holds k e (Suc n) (et_apply a t)"
      using et_insert_other_holds [of k e n t j now ttl v] by auto
    from Cons.IH [OF this] Cons.prems True show ?thesis by (simp add: et_apply_capacity)
  next
    case False
    with Cons.prems have "et_holds k e n (et_apply a t)"
      by (intro et_apply_other_holds) auto
    from Cons.IH [OF this] Cons.prems False show ?thesis by (simp add: et_apply_capacity)
  qed
qed

lemma et_insert_fresh_holds:
  assumes "et_ok t" and "k \<notin> set (et_order t)" and "0 < et_capacity t"
  shows "et_holds k (u64_add now ttl, v) 0 (et_insert now k ttl v t)"
proof -
  from assms(1,2) have new: "fmlookup (entries t) k = None"
    unfolding et_ok_def by (metis fmdomE fmlookup_dom_iff option.exhaust subsetD)
  let ?m = "fmupd k (u64_add now ttl, v) (entries t)"
  let ?ks = "et_order t @ [k]"
  have "fset (fmdom ?m) \<subseteq> set ?ks" using assms(1) by (auto simp: et_ok_def)
  from et_evict_keeps [of ?ks "et_order t" k "[]" ?m, OF _ assms(2) this]
  have "fmlookup (fst (et_evict (et_capacity t) ?m ?ks)) k = Some (u64_add now ttl, v)
    \<and> (\<exists>xs'. snd (et_evict (et_capacity t) ?m ?ks) = xs' @ [k] \<and> k \<notin> set xs')"
    using assms(3) by simp
  then show ?thesis
    using et_insert_ok [OF assms(1), of now k ttl v] new
    by (auto simp: et_holds_def et_insert_def Let_def split_beta)
qed

text \<open>
  A key handed out by an OID4VCI table (an offer id, pre-authorized code, access token or
  nonce) stays redeemable: inserted under a fresh key, it is returned by \<open>take\<close> with the value
  it was stored with, at any time before its expiry, whatever is done with other keys in
  between, as long as fewer than \<open>capacity\<close> other insertions happened.
\<close>

theorem expiring_table_redeemable:
  assumes "et_ok t" and "k \<notin> set (et_order t)" and "now + ttl < u64_limit"
    and "\<forall>a \<in> set ops. et_key a \<noteq> k" and "length (filter is_insert ops) < et_capacity t"
    and "later < now + ttl"
  shows "fst (et_take later k (fold et_apply ops (et_insert now k ttl v t))) = Some v"
proof -
  let ?t = "et_insert now k ttl v t"
  have cap: "et_capacity ?t = et_capacity t"
    using et_apply_capacity [of "Insert now k ttl v" t] by simp
  from assms(5) have "0 < et_capacity t" by simp
  from et_insert_fresh_holds [OF assms(1,2) this] have "et_holds k (u64_add now ttl, v) 0 ?t" .
  from et_run_other_holds [OF this assms(4)] assms(5) cap
  have "fmlookup (entries (fold et_apply ops ?t)) k = Some (u64_add now ttl, v)"
    by (simp add: et_holds_def)
  with assms(3,6) show ?thesis by (simp add: et_take_def)
qed

theorem expiring_table_redeemable_witness:
  "fst (et_take 700 ''code'' (fold et_apply [Insert 150 ''x'' 600 False, Take 160 ''y'', Get 170 ''x'']
     (et_insert 101 ''code'' 600 True (et_new 2)))) = Some True"
  by (rule expiring_table_redeemable [OF et_ok_new]) (simp_all add: et_new_def u64_limit_def)

text \<open>
  C17. Entries are single-use and never served stale: whatever operations run from the empty
  table, a key that was taken is not returned again by \<open>take\<close> or \<open>get_mut\<close> unless it is
  inserted again, and neither ever returns an entry whose expiry has been reached.
\<close>

theorem expiring_table_single_use:
  assumes "et_ok t" and "\<forall>a \<in> set ops. et_written a \<noteq> Some k"
  shows "fst (et_take later k (fold et_apply ops (snd (et_take now k t)))) = None
    \<and> fst (et_get_mut later k (fold et_apply ops (snd (et_take now k t)))) = None
    \<and> (\<forall>exp v. fmlookup (entries t) k = Some (exp, v) \<and> exp \<le> later \<longrightarrow>
        fst (et_take later k t) = None \<and> fst (et_get_mut later k t) = None)"
proof -
  have "k |\<notin>| fmdom (entries (fold et_apply ops (snd (et_take now k t))))"
    by (rule et_store.run_absent [OF et_take_ok [OF assms(1)] et_take_removes assms(2)])
  moreover have "fst (et_take later k t) = None \<and> fst (et_get_mut later k t) = None"
    if "fmlookup (entries t) k = Some (exp, v)" "exp \<le> later" for exp v
    using that by (simp add: et_take_def et_get_mut_def)
  ultimately show ?thesis by (auto simp: et_take_None_absent et_get_None_absent)
qed

theorem expiring_table_single_use_witness:
  "let t = et_insert 100 ''code'' 600 True (et_new 2) in
   fst (et_take 101 ''code'' t) = Some True
   \<and> fst (et_take 103 ''code'' (fold et_apply [Insert 102 ''x'' 600 False] (snd (et_take 101 ''code'' t)))) = None
   \<and> fst (et_take 700 ''code'' t) = None"
proof -
  let ?t = "et_insert 100 ''code'' 600 True (et_new 2)"
  have ok: "et_ok ?t" by (intro et_insert_ok et_ok_new)
  have e: "fmlookup (entries ?t) ''code'' = Some (700, True)"
    by (simp add: et_insert_def et_new_def u64_limit_def fcard.rep_eq)
  then have live: "fst (et_take 101 ''code'' ?t) = Some True" by (simp add: et_take_def)
  have "\<forall>a \<in> set [Insert 102 ''x'' 600 False]. et_written a \<noteq> Some ''code''" by simp
  note su = expiring_table_single_use [OF ok this]
  from su [of 103 101] su [of 700 101] live e show ?thesis by (auto simp: Let_def)
qed

lemma et_evict_single:
  "1 \<le> c \<Longrightarrow> et_evict c (fmupd k e fmempty) (qs @ [k]) = (fmupd k e fmempty, qs @ [k])"
  by (cases qs) (auto simp: fcard.rep_eq)

text \<open>
  The capacity bounds the entries: from the empty table, any sequence of operations leaves at
  most \<open>capacity\<close> of them. It does not bound the queue of keys kept beside them: \<open>take\<close> drops
  the entry and leaves its key queued, so \<open>n\<close> rounds of issuing and redeeming one key leave an
  empty table whose queue holds \<open>n\<close> keys.
\<close>

theorem expiring_table_bounds:
  "et_len (fold et_apply ops (et_new c)) \<le> c
   \<and> (1 \<le> c \<longrightarrow> (let t = fold (\<lambda>k t. snd (et_take now k (et_insert now k ttl v t))) ks (et_new c)
        in et_len t = 0 \<and> length (et_order t) = length ks))"
proof (intro conjI impI)
  show "et_len (fold et_apply ops (et_new c)) \<le> c"
    using et_store.run_bounded [OF et_ok_new, of ops c] by (simp add: et_len_def et_new_def)
  assume c: "1 \<le> c"
  let ?r = "\<lambda>k t. snd (et_take now k (et_insert now k ttl v t))"
  have "entries (fold ?r ks t) = fmempty \<and> length (et_order (fold ?r ks t)) = length (et_order t) + length ks"
    if "entries t = fmempty" "et_capacity t = c" for t
    using that
  proof (induction ks arbitrary: t)
    case Nil
    then show ?case by simp
  next
    case (Cons k ks)
    have "entries (?r k t) = fmempty" "et_capacity (?r k t) = c"
      "et_order (?r k t) = et_order t @ [k]"
      using Cons.prems by (simp_all add: et_insert_def et_take_def Let_def et_evict_single [OF c])
    from Cons.IH [OF this(1,2)] this(3) show ?case by simp
  qed
  from this [of "et_new c"] show "let t = fold ?r ks (et_new c) in et_len t = 0 \<and> length (et_order t) = length ks"
    by (simp add: et_new_def et_len_def Let_def)
qed

theorem expiring_table_bounds_witness:
  "let t = fold (\<lambda>k t. snd (et_take 10 k (et_insert 10 k 300 () t))) [''a'', ''b'', ''c''] (et_new 1)
   in et_len t = 0 \<and> length (et_order t) = 3"
proof -
  have "(1::nat) \<le> 1" by simp
  from conjunct2 [OF expiring_table_bounds [of "[]" 1 10 300 "()" "[''a'', ''b'', ''c'']"],
      THEN mp, OF this]
  show ?thesis by (simp add: Let_def)
qed

end
