(* ===== verification/Outbound.thy ===== *)
theory Outbound
  imports Http
begin

text \<open>
  Outbound request confinement (outbound.rs, and \<open>redirect_policy\<close> of state.rs), together with what
  the hub takes from its dependencies. The functions of \<open>dcp_core\<close>, of the URL parser and of the
  signature library are fields of the record \<open>dcp\<close>, an argument of every definition that calls them;
  \<open>'d\<close> is the type of DID documents, \<open>'k\<close> of key pairs, which stand for both their keys. A computation that talks to the
  network returns the URLs it contacted, oldest first, beside its result, so that confinement is a
  statement about that trace.
\<close>

record ('d, 'k) dcp =
  decode_jws_unverified :: "string \<Rightarrow> (json \<times> json, string) result"
  did_web_to_url :: "string \<Rightarrow> bool \<Rightarrow> (string, string) result"
  find_verifying_key :: "'d \<Rightarrow> string \<Rightarrow> ('k, string) result"
  verify_jws_signature :: "string \<Rightarrow> 'k \<Rightarrow> (unit, string) result"
  sign_jws :: "json \<Rightarrow> 'k \<Rightarrow> string \<Rightarrow> string"
  capability_invocation :: "'d \<Rightarrow> string list"
  service_endpoint_url :: "'d \<Rightarrow> string \<Rightarrow> (string, string) result"
  url_parse :: "string \<Rightarrow> (string \<times> string option, string) result"
  unicode_lowercase :: "string \<Rightarrow> string"
  status_display :: "nat \<Rightarrow> string"

section \<open>Computations with a trace of contacted URLs\<close>

type_synonym ('a, 'e) io = "string list \<times> ('a, 'e) result"

text \<open>
  What the network answers: the resolution of a DID by the library, with the URLs it requests, and the
  responses of the shared HTTP client by URL (and, of a \<open>POST\<close>, by its \<open>Authorization\<close> header and body).
\<close>

record 'd network =
  resolve_did :: "string \<Rightarrow> bool \<Rightarrow> ('d, string) io"
  http_get :: "string \<Rightarrow> (nat \<times> string, string) result"
  http_post :: "string \<Rightarrow> string option \<Rightarrow> http_body \<Rightarrow> (nat \<times> string, string) result"

definition io_pure :: "('a, 'e) result \<Rightarrow> ('a, 'e) io" where
  "io_pure r = ([], r)"

fun io_bind :: "('a, 'e) io \<Rightarrow> ('a \<Rightarrow> ('b, 'e) io) \<Rightarrow> ('b, 'e) io" where
  "io_bind (tr, Inl e) f = (tr, Inl e)"
| "io_bind (tr, Inr v) f = (case f v of (tr', r) \<Rightarrow> (tr @ tr', r))"

definition io_contact :: "string \<Rightarrow> ('a, 'e) result \<Rightarrow> ('a, 'e) io" where
  "io_contact url r = ([url], r)"

definition io_map_err :: "('e \<Rightarrow> 'f) \<Rightarrow> ('a, 'e) io \<Rightarrow> ('a, 'f) io" where
  "io_map_err f m = (fst m, map_err f (snd m))"

text \<open>A \<open>for\<close> loop whose body may fail.\<close>

fun io_each :: "('a \<Rightarrow> (unit, 'e) io) \<Rightarrow> 'a list \<Rightarrow> (unit, 'e) io" where
  "io_each f [] = io_pure (Ok ())"
| "io_each f (x # xs) = io_bind (f x) (\<lambda>_. io_each f xs)"

section \<open>The policy\<close>

datatype outbound_error =
    HostNotAllowed string
  | UnsupportedScheme string
  | Malformed string

record outbound_policy =
  allowed_hosts :: "string list"

text \<open>\<open>sort\<close> and \<open>dedup\<close> of \<open>Vec<String>\<close>: bytewise order, adjacent equal elements merged.\<close>

fun insert_sorted :: "string \<Rightarrow> string list \<Rightarrow> string list" where
  "insert_sorted x [] = [x]"
| "insert_sorted x (y # ys) = (if str_less y x then y # insert_sorted x ys else x # y # ys)"

definition sort_strings :: "string list \<Rightarrow> string list" where
  "sort_strings xs = foldr insert_sorted xs []"

definition policy_new :: "('d, 'k) dcp \<Rightarrow> string list \<Rightarrow> outbound_policy" where
  "policy_new D hosts =
     \<lparr>allowed_hosts = remdups_adj (sort_strings (map (to_lowercase (unicode_lowercase D)) hosts))\<rparr>"

definition check_url :: "('d, 'k) dcp \<Rightarrow> outbound_policy \<Rightarrow> string \<Rightarrow> (unit, outbound_error) result" where
  "check_url D pol url =
     (case url_parse D url of
        Inl e \<Rightarrow> Err (Malformed e)
      | Inr (scheme, host) \<Rightarrow>
          if scheme \<noteq> ''http'' \<and> scheme \<noteq> ''https'' then Err (UnsupportedScheme scheme)
          else case host of
            None \<Rightarrow> Err (Malformed ([CHR 39] @ url @ [CHR 39] @ '' has no host component''))
          | Some h \<Rightarrow>
              let h' = to_lowercase (unicode_lowercase D) h in
              if h' \<in> set (allowed_hosts pol) then Ok () else Err (HostNotAllowed h'))"

definition check_did :: "('d, 'k) dcp \<Rightarrow> outbound_policy \<Rightarrow> string \<Rightarrow> bool \<Rightarrow> (unit, outbound_error) result" where
  "check_did D pol did insecure =
     (case did_web_to_url D did insecure of
        Inl e \<Rightarrow> Err (Malformed e)
      | Inr url \<Rightarrow> check_url D pol url)"

fun outbound_message :: "outbound_error \<Rightarrow> string" where
  "outbound_message (HostNotAllowed h) =
     ''outbound host '' @ [CHR 39] @ h @ [CHR 39] @ '' is not on this service'' @ [CHR 39] @ ''s allow-list''"
| "outbound_message (UnsupportedScheme s) =
     ''outbound URL scheme '' @ [CHR 39] @ s @ [CHR 39] @ '' is not supported (only http/https)''"
| "outbound_message (Malformed m) = ''outbound destination is not a usable URL: '' @ m"

text \<open>
  What the hub relies on of \<open>dcp_core::resolve_did\<close>: it requests no URL but the one \<open>did_web_to_url\<close>
  derives from the DID, so that \<open>check_did\<close> covers what it does.
\<close>

definition resolves_through :: "('d, 'k) dcp \<Rightarrow> 'd network \<Rightarrow> bool" where
  "resolves_through D N \<longleftrightarrow>
     (\<forall>d insecure. \<forall>u \<in> set (fst (resolve_did N d insecure)). did_web_to_url D d insecure = Ok u)"

section \<open>Redirects\<close>

definition MAX_OUTBOUND_REDIRECTS :: nat where
  "MAX_OUTBOUND_REDIRECTS = 10"

text \<open>The decision on one redirect, from the URLs visited before it and its target.\<close>

definition redirect_policy ::
    "('d, 'k) dcp \<Rightarrow> outbound_policy \<Rightarrow> string list \<Rightarrow> string \<Rightarrow> (unit, string) result" where
  "redirect_policy D pol previous url =
     (if length previous \<ge> MAX_OUTBOUND_REDIRECTS then Err ''too many redirects''
      else case check_url D pol url of
        Inl e \<Rightarrow> Err (''redirect refused: '' @ outbound_message e)
      | Inr _ \<Rightarrow> Ok ())"

text \<open>
  A request through the shared client: \<open>hop url\<close> is the redirect target a server answers, if any. The
  client visits a target only when the policy lets it follow; the chain is the URLs it visits. The first
  of the URLs visited before a redirect is the one the request was made to, which the limit counts too.
\<close>

function redirect_chain ::
    "('d, 'k) dcp \<Rightarrow> outbound_policy \<Rightarrow> (string \<Rightarrow> string option) \<Rightarrow> string list \<Rightarrow> string \<Rightarrow> string list" where
  "redirect_chain D pol hop previous url =
     (case hop url of
        None \<Rightarrow> previous @ [url]
      | Some target \<Rightarrow>
          (case redirect_policy D pol (previous @ [url]) target of
             Inl e \<Rightarrow> previous @ [url]
           | Inr _ \<Rightarrow> redirect_chain D pol hop (previous @ [url]) target))"
  by pat_completeness auto
termination
  by (relation "measure (\<lambda>(D, pol, hop, previous, url). MAX_OUTBOUND_REDIRECTS - length previous)")
    (auto simp: redirect_policy_def MAX_OUTBOUND_REDIRECTS_def split: if_splits)

declare redirect_chain.simps [simp del]

section \<open>Confinement\<close>

definition allowed :: "('d, 'k) dcp \<Rightarrow> outbound_policy \<Rightarrow> string \<Rightarrow> bool" where
  "allowed D pol url \<longleftrightarrow> is_ok (check_url D pol url)"

definition confined :: "('d, 'k) dcp \<Rightarrow> outbound_policy \<Rightarrow> ('a, 'e) io \<Rightarrow> bool" where
  "confined D pol m \<longleftrightarrow> (\<forall>url \<in> set (fst m). allowed D pol url)"

named_theorems hub_confined

lemma confined_pure [simp]: "confined D pol (io_pure r)"
  by (simp add: confined_def io_pure_def)

lemma confined_contact [simp]: "confined D pol (io_contact url r) \<longleftrightarrow> allowed D pol url"
  by (simp add: confined_def io_contact_def)

lemma confined_bind [hub_confined]:
  "confined D pol m \<Longrightarrow> (\<And>v. snd m = Ok v \<Longrightarrow> confined D pol (f v)) \<Longrightarrow> confined D pol (io_bind m f)"
  by (cases "(m, f)" rule: io_bind.cases) (auto simp: confined_def split: prod.splits)

lemma confined_each [hub_confined]:
  "(\<And>x. x \<in> set xs \<Longrightarrow> confined D pol (f x)) \<Longrightarrow> confined D pol (io_each f xs)"
  by (induction xs) (auto intro: confined_bind)

lemma confined_map_err [simp]: "confined D pol (io_map_err f m) \<longleftrightarrow> confined D pol m"
  by (simp add: confined_def io_map_err_def)

lemma snd_io_map_err [simp]: "snd (io_map_err f m) = map_err f (snd m)"
  by (simp add: io_map_err_def)

lemma io_bind_pure [simp]:
  "io_bind (io_pure (Inl e)) f = io_pure (Inl e)" "io_bind (io_pure (Inr v)) f = f v"
  by (simp_all add: io_pure_def split: prod.splits)

lemma snd_io_simps [simp]: "snd (io_pure r) = r" "snd (io_contact url r) = r"
  by (simp_all add: io_pure_def io_contact_def)

lemma snd_io_bind: "snd (io_bind m f) = (case snd m of Inl e \<Rightarrow> Inl e | Inr v \<Rightarrow> snd (f v))"
  by (cases "(m, f)" rule: io_bind.cases) (auto split: prod.splits)

lemma io_bind_Ok: "snd (io_bind m f) = Ok w \<longleftrightarrow> (\<exists>v. snd m = Ok v \<and> snd (f v) = Ok w)"
  by (auto simp: snd_io_bind split: sum.splits)

lemma io_each_Ok: "snd (io_each f xs) = Ok () \<longleftrightarrow> (\<forall>x \<in> set xs. snd (f x) = Ok ())"
  by (induction xs) (auto simp: io_bind_Ok)

text \<open>The check of a DID covers exactly the URL its resolution requests.\<close>

lemma confined_resolve [hub_confined]:
  "resolves_through D N \<Longrightarrow> check_did D pol d insecure = Ok u \<Longrightarrow> confined D pol (resolve_did N d insecure)"
  by (fastforce simp: check_did_def resolves_through_def confined_def allowed_def split: sum.splits)

lemma set_insert_sorted [simp]: "set (insert_sorted x xs) = insert x (set xs)"
  by (induction xs) auto

lemma set_sort_strings [simp]: "set (sort_strings xs) = set xs"
  by (induction xs) (simp_all add: sort_strings_def)

lemma redirect_chain_allowed:
  "allowed D pol url \<Longrightarrow> \<forall>u \<in> set previous. allowed D pol u \<Longrightarrow>
   \<forall>u \<in> set (redirect_chain D pol hop previous url). allowed D pol u"
proof (induction D pol hop previous url rule: redirect_chain.induct)
  case (1 D pol hop previous url)
  show ?case
  proof (cases "hop url")
    case None
    with "1.prems" show ?thesis by (simp add: redirect_chain.simps [of D pol hop previous url])
  next
    case (Some target)
    show ?thesis
    proof (cases "redirect_policy D pol (previous @ [url]) target")
      case (Inl e)
      with Some "1.prems" show ?thesis by (simp add: redirect_chain.simps [of D pol hop previous url])
    next
      case (Inr u)
      then have "allowed D pol target" by (auto simp: redirect_policy_def allowed_def split: if_splits sum.splits)
      with "1.IH" [OF Some Inr] "1.prems" Some Inr show ?thesis
        by (simp add: redirect_chain.simps [of D pol hop previous url])
    qed
  qed
qed

text \<open>While the servers keep redirecting to allowed URLs, the chain grows to the limit.\<close>

lemma redirect_chain_full:
  assumes "\<And>n. hop (path n) = Some (path (Suc n))" and "\<And>n. allowed D pol (path n)"
  shows "n < MAX_OUTBOUND_REDIRECTS \<Longrightarrow>
    redirect_chain D pol hop (map path [0..<n]) (path n) = map path [0..<MAX_OUTBOUND_REDIRECTS]"
proof (induction "MAX_OUTBOUND_REDIRECTS - n" arbitrary: n rule: less_induct)
  case less
  have seen: "map path [0..<n] @ [path n] = map path [0..<Suc n]" by simp
  show ?case
  proof (cases "Suc n < MAX_OUTBOUND_REDIRECTS")
    case True
    have "redirect_policy D pol (map path [0..<n] @ [path n]) (path (Suc n)) = Ok ()"
      using True assms(2) [of "Suc n"] by (auto simp: redirect_policy_def allowed_def split: sum.splits)
    moreover have "MAX_OUTBOUND_REDIRECTS - Suc n < MAX_OUTBOUND_REDIRECTS - n" using less.prems by simp
    from less.hyps [OF this True]
    have "redirect_chain D pol hop (map path [0..<n] @ [path n]) (path (Suc n)) = map path [0..<MAX_OUTBOUND_REDIRECTS]"
      unfolding seen .
    ultimately show ?thesis
      by (simp only: redirect_chain.simps [of D pol hop "map path [0..<n]"] assms(1) option.case sum.case)
  next
    case False
    with less.prems have last: "Suc n = MAX_OUTBOUND_REDIRECTS" by simp
    then have "redirect_policy D pol (map path [0..<n] @ [path n]) (path (Suc n)) = Err ''too many redirects''"
      by (simp add: redirect_policy_def)
    then show ?thesis
      by (simp only: redirect_chain.simps [of D pol hop "map path [0..<n]"] assms(1) option.case sum.case seen last)
  qed
qed

text \<open>
  C26. The outbound allow-list is deny by default and is enforced on every hop: a URL passes exactly
  when it parses, its scheme is http or https and its host is, ignoring case, one of the configured
  hosts - so with no host configured nothing passes; a DID passes exactly when the URL it resolves
  through passes; and a request that starts at an allowed URL only ever visits allowed URLs, however
  the servers redirect it, at most ten of them with the one it starts at. So nine redirects between
  allowed URLs are followed and the tenth is refused, one fewer than \<open>MAX_OUTBOUND_REDIRECTS\<close> is
  documented to let a request follow.
\<close>

theorem outbound_policy_correct:
  assumes "allowed D (policy_new D hosts) start"
  shows "(allowed D (policy_new D hosts) url \<longleftrightarrow> (\<exists>scheme host. url_parse D url = Ok (scheme, Some host)
        \<and> scheme \<in> {''http'', ''https''}
        \<and> to_lowercase (unicode_lowercase D) host \<in> to_lowercase (unicode_lowercase D) ` set hosts))
    \<and> (is_ok (check_did D (policy_new D hosts) d insecure) \<longleftrightarrow>
        (\<exists>u. did_web_to_url D d insecure = Ok u \<and> allowed D (policy_new D hosts) u))
    \<and> (\<forall>u \<in> set (redirect_chain D (policy_new D hosts) hop [] start). allowed D (policy_new D hosts) u)
    \<and> length (redirect_chain D (policy_new D hosts) hop [] start) \<le> 10
    \<and> (\<forall>path. path 0 = start \<and> (\<forall>n. hop (path n) = Some (path (Suc n)) \<and> allowed D (policy_new D hosts) (path n))
         \<longrightarrow> redirect_chain D (policy_new D hosts) hop [] start = map path [0..<10]
           \<and> redirect_policy D (policy_new D hosts) (map path [0..<10]) (path 10) = Err ''too many redirects'')"
proof -
  have hosts: "set (allowed_hosts (policy_new D hosts)) = to_lowercase (unicode_lowercase D) ` set hosts"
    by (simp add: policy_new_def)
  have url: "allowed D (policy_new D hosts) url \<longleftrightarrow> (\<exists>scheme host. url_parse D url = Ok (scheme, Some host)
        \<and> scheme \<in> {''http'', ''https''}
        \<and> to_lowercase (unicode_lowercase D) host \<in> to_lowercase (unicode_lowercase D) ` set hosts)"
    by (auto simp: allowed_def check_url_def hosts Let_def split: sum.splits option.splits if_splits)
  have did: "is_ok (check_did D (policy_new D hosts) d insecure) \<longleftrightarrow>
        (\<exists>u. did_web_to_url D d insecure = Ok u \<and> allowed D (policy_new D hosts) u)"
    by (auto simp: check_did_def allowed_def split: sum.splits)
  have len: "length previous < MAX_OUTBOUND_REDIRECTS \<Longrightarrow>
    length (redirect_chain D pol hop previous u) \<le> MAX_OUTBOUND_REDIRECTS" for D pol hop previous u
  proof (induction D pol hop previous u rule: redirect_chain.induct)
    case (1 D pol hop previous u)
    then show ?case
      by (auto simp: redirect_chain.simps [of D pol hop previous u] redirect_policy_def
          split: option.splits sum.splits if_splits)
  qed
  have ten: "length (redirect_chain D (policy_new D hosts) hop [] start) \<le> 10"
    using len [of "[]" D "policy_new D hosts" hop start] by (simp add: MAX_OUTBOUND_REDIRECTS_def)
  have full: "redirect_chain D (policy_new D hosts) hop [] start = map path [0..<10]
      \<and> redirect_policy D (policy_new D hosts) (map path [0..<10]) (path 10) = Err ''too many redirects''"
    if "path 0 = start \<and> (\<forall>n. hop (path n) = Some (path (Suc n)) \<and> allowed D (policy_new D hosts) (path n))" for path
  proof -
    have "0 < MAX_OUTBOUND_REDIRECTS" by (simp add: MAX_OUTBOUND_REDIRECTS_def)
    moreover have "hop (path n) = Some (path (Suc n))" "allowed D (policy_new D hosts) (path n)" for n using that by blast+
    ultimately have "redirect_chain D (policy_new D hosts) hop (map path [0..<0]) (path 0) = map path [0..<MAX_OUTBOUND_REDIRECTS]"
      by (intro redirect_chain_full)
    moreover have "path 0 = start" using that by blast
    ultimately have "redirect_chain D (policy_new D hosts) hop [] start = map path [0..<10]"
      by (simp only: upt_rec [of 0 0] less_irrefl if_False list.map MAX_OUTBOUND_REDIRECTS_def)
    moreover have "redirect_policy D (policy_new D hosts) (map path [0..<10]) (path 10) = Err ''too many redirects''"
      by (simp only: redirect_policy_def length_map length_upt MAX_OUTBOUND_REDIRECTS_def) simp
    ultimately show ?thesis ..
  qed
  have visited: "\<forall>u \<in> set (redirect_chain D (policy_new D hosts) hop [] start). allowed D (policy_new D hosts) u"
    using redirect_chain_allowed [OF assms, of "[]" hop] by simp
  show ?thesis by (intro conjI url did visited ten) (intro allI impI full)
qed

section \<open>Concrete dependencies for witnesses\<close>

text \<open>
  Documents list the keys of a DID, a signature is valid when the token starts with the key, and DIDs
  resolve as in the did:web method for a bare host.
\<close>

definition sample_dcp :: "(string \<Rightarrow> (json \<times> json, string) result) \<Rightarrow> (string list, string) dcp" where
  "sample_dcp decode = \<lparr>decode_jws_unverified = decode,
     did_web_to_url = (\<lambda>d insecure. case strip_prefix d ''did:web:'' of
        None \<Rightarrow> Err ''not a did:web DID''
      | Some h \<Rightarrow> Ok ((if insecure then ''http://'' else ''https://'') @ h @ ''/.well-known/did.json'')),
     find_verifying_key = (\<lambda>doc kid. if kid \<in> set doc then Ok kid else Err ''no such key''),
     verify_jws_signature = (\<lambda>token key. if starts_with token key then Ok () else Err ''bad signature''),
     sign_jws = (\<lambda>payload key kid. key @ ''.'' @ kid),
     capability_invocation = (\<lambda>doc. doc),
     service_endpoint_url = (\<lambda>doc ty. Ok (''http://holder.example/'' @ ty)),
     url_parse = (\<lambda>u. case split_once u ''://'' of
        None \<Rightarrow> Err ''relative URL''
      | Some (scheme, rest) \<Rightarrow> Ok (scheme, Some (takeWhile (\<lambda>c. c \<noteq> CHR ''/'') rest))),
     unicode_lowercase = to_ascii_lowercase, status_display = nat_to_string\<rparr>"

theorem outbound_policy_correct_witness:
  "let D = sample_dcp (\<lambda>_. Err []); pol = policy_new D [''Holder.example''];
       hop = (\<lambda>u. if u = ''http://holder.example/a'' then Some ''http://evil.example/'' else None)
   in allowed D pol ''http://HOLDER.example/a'' \<and> \<not> allowed D pol ''http://evil.example/''
    \<and> redirect_chain D pol hop [] ''http://holder.example/a'' = [''http://holder.example/a'']
    \<and> redirect_chain D pol (\<lambda>u. Some ''http://holder.example/a'') [] ''http://holder.example/a'' = replicate 10 ''http://holder.example/a''"
proof -
  let ?D = "sample_dcp (\<lambda>_. Err [])"
  let ?pol = "policy_new ?D [''Holder.example'']"
  let ?hop = "\<lambda>u. if u = ''http://holder.example/a'' then Some ''http://evil.example/'' else None"
  have a: "allowed ?D ?pol ''http://holder.example/a''" "allowed ?D ?pol ''http://HOLDER.example/a''"
    "\<not> allowed ?D ?pol ''http://evil.example/''" by code_simp+
  have c: "redirect_chain ?D ?pol ?hop [] ''http://holder.example/a'' = [''http://holder.example/a'']" by code_simp
  have "redirect_chain ?D ?pol (\<lambda>u. Some ''http://holder.example/a'') [] ''http://holder.example/a'' = map (\<lambda>n. ''http://holder.example/a'') [0..<10]"
    using outbound_policy_correct [OF a(1), of "''http://evil.example/''" "[]" False "\<lambda>u. Some ''http://holder.example/a''"] a(1)
    by (elim conjE allE [of _ "\<lambda>n. ''http://holder.example/a''"]) simp
  then have l: "redirect_chain ?D ?pol (\<lambda>u. Some ''http://holder.example/a'') [] ''http://holder.example/a'' = replicate 10 ''http://holder.example/a''"
    by (simp add: map_replicate_const)
  from a c l show ?thesis by (simp add: Let_def)
qed

end
