(* ===== verification/Auth.thy ===== *)
theory Auth
  imports Bounded_Tables Outbound
begin

text \<open>
  Validation of Self-Issued ID Tokens (auth.rs): the bearer token of a request, the trusted-issuer
  allow-list, and the nested access token of a presentation query. The clock is read three times
  while a bearer token is checked; the readings are arguments.
\<close>

definition NBF_LEEWAY_SECS :: u64 where
  "NBF_LEEWAY_SECS = 30"

datatype auth_error =
    MissingToken
  | DidResolution string
  | InvalidSignature string
  | WrongAudience
  | Expired
  | IssuerSubjectMismatch
  | NotYetValid
  | IssuedInFuture
  | KeyNotAuthorizedForInvocation string
  | TokenReplayed
  | UntrustedIssuer string
  | NotTrustedForType string string string
  | TrustRegistryUnavailable string
  | NoTrustedIssuerConfigured
  | InvalidNestedToken string
  | NestedTokenExpired
  | NestedTokenNotBoundToCaller
  | NestedTokenIssuerNotAuthoritative string
  | OutboundDestinationNotAllowed string

fun auth_message :: "auth_error \<Rightarrow> string" where
  "auth_message MissingToken = ''missing or malformed Authorization: Bearer header''"
| "auth_message (DidResolution e) = ''could not resolve caller DID: '' @ e"
| "auth_message (InvalidSignature e) = ''signature verification failed: '' @ e"
| "auth_message WrongAudience = ''token audience does not match this service'' @ [CHR 39] @ ''s DID''"
| "auth_message Expired = ''token has expired''"
| "auth_message IssuerSubjectMismatch =
     ''token sub does not match iss - a Self-Issued ID Token must be about its own issuer''"
| "auth_message NotYetValid = ''token is not yet valid (nbf is in the future)''"
| "auth_message IssuedInFuture = ''token iat (issued-at) is in the future''"
| "auth_message (KeyNotAuthorizedForInvocation k) = ''signing key '' @ quoted k
     @ '' is not listed under the caller'' @ [CHR 39] @ ''s own capabilityInvocation verification relationship''"
| "auth_message TokenReplayed = ''token jti has already been used (replay)''"
| "auth_message (UntrustedIssuer i) =
     ''issuer '' @ quoted i @ '' is not on this service'' @ [CHR 39] @ ''s trusted-issuer allow-list''"
| "auth_message (NotTrustedForType i ty reason) = ''issuer '' @ quoted i
     @ '' is not trusted for credential type '' @ quoted ty @ '' by the trusted issuers registry: '' @ reason"
| "auth_message (TrustRegistryUnavailable e) = ''the trusted issuers registry'' @ [CHR 39]
     @ ''s snapshot is unavailable, so no issuer is trusted: '' @ e"
| "auth_message NoTrustedIssuerConfigured = ''no trusted issuer is configured for this service - the ''
     @ ''Storage/Credential Offer API rejects every caller until at least one --trusted-issuer-did is given''"
| "auth_message (InvalidNestedToken e) = ''nested access token is not valid: '' @ e"
| "auth_message NestedTokenExpired = ''nested access token has expired''"
| "auth_message NestedTokenNotBoundToCaller = ''nested access token is not bound to the party presenting it ''
     @ ''(aud does not match the outer envelope'' @ [CHR 39] @ ''s own caller)''"
| "auth_message (NestedTokenIssuerNotAuthoritative i) = ''nested access token issuer '' @ quoted i
     @ '' is not authoritative for this service'' @ [CHR 39] @ ''s credentials''"
| "auth_message (OutboundDestinationNotAllowed e) = ''outbound destination is not allowed: '' @ e"

section \<open>The bearer token\<close>

text \<open>Everything before the replay check: the token's envelope against the caller's DID document.\<close>

definition verify_envelope ::
    "('d, 'k) dcp \<Rightarrow> 'd network \<Rightarrow> string option \<Rightarrow> string \<Rightarrow> bool \<Rightarrow> outbound_policy
     \<Rightarrow> u64 \<Rightarrow> u64 \<Rightarrow> u64 \<Rightarrow> (json, auth_error) io" where
  "verify_envelope D N authorization_header expected_audience insecure pol now1 now2 now3 =
     io_bind (io_pure (ok_or (Option.bind authorization_header (\<lambda>h. strip_prefix h ''Bearer '')) MissingToken)) (\<lambda>token.
     io_bind (io_pure (map_err InvalidSignature (decode_jws_unverified D token))) (\<lambda>(header, payload).
     io_bind (io_pure (ok_or (get_str payload ''iss'') (InvalidSignature ''token has no iss claim''))) (\<lambda>caller_did.
     io_bind (io_pure (ok_or (get_str header ''kid'') (InvalidSignature ''token has no kid header''))) (\<lambda>kid.
     io_bind (io_pure (map_err (\<lambda>e. OutboundDestinationNotAllowed (outbound_message e))
        (check_did D pol caller_did insecure))) (\<lambda>_.
     io_bind (io_map_err DidResolution (resolve_did N caller_did insecure)) (\<lambda>caller_doc.
     io_bind (io_pure (map_err InvalidSignature (find_verifying_key D caller_doc kid))) (\<lambda>caller_key.
     io_bind (io_pure (map_err InvalidSignature (verify_jws_signature D token caller_key))) (\<lambda>_.
     io_pure
       (if kid \<notin> set (capability_invocation D caller_doc) then Err (KeyNotAuthorizedForInvocation kid)
        else if str_claim payload ''sub'' \<noteq> caller_did
        then Err IssuerSubjectMismatch
        else if str_claim payload ''aud'' \<noteq> expected_audience
        then Err WrongAudience
        else if u64_claim payload ''exp'' \<le> now1 then Err Expired
        else if u64_after payload ''nbf'' (u64_add now2 NBF_LEEWAY_SECS)
        then Err NotYetValid
        else if u64_after payload ''iat'' (u64_add now3 NBF_LEEWAY_SECS)
        then Err IssuedInFuture
        else Ok payload)))))))))"

definition verify_bearer_token ::
    "('d, 'k) dcp \<Rightarrow> 'd network \<Rightarrow> string option \<Rightarrow> string \<Rightarrow> bool \<Rightarrow> outbound_policy
     \<Rightarrow> u64 \<Rightarrow> u64 \<Rightarrow> u64 \<Rightarrow> seen_jti_cache \<Rightarrow> (json, auth_error) io \<times> seen_jti_cache" where
  "verify_bearer_token D N authorization_header expected_audience insecure pol now1 now2 now3 cache =
     (case verify_envelope D N authorization_header expected_audience insecure pol now1 now2 now3 of
        (tr, Inl e) \<Rightarrow> ((tr, Err e), cache)
      | (tr, Inr payload) \<Rightarrow>
          (case get_str payload ''jti'' of
             None \<Rightarrow> ((tr, Ok payload), cache)
           | Some jti \<Rightarrow>
               (case seen_insert jti cache of
                  (fresh, cache') \<Rightarrow> ((tr, if fresh then Ok payload else Err TokenReplayed), cache'))))"

section \<open>Trust\<close>

definition check_trusted_issuer :: "json \<Rightarrow> string list \<Rightarrow> (unit, auth_error) result" where
  "check_trusted_issuer claims trusted_issuer_dids =
     (if trusted_issuer_dids = [] then Err NoTrustedIssuerConfigured
      else let iss = str_claim claims ''iss'' in
        if iss \<in> set trusted_issuer_dids then Ok () else Err (UntrustedIssuer iss))"

section \<open>The nested access token\<close>

text \<open>
  \<open>ServiceIdentity\<close>: a DID this process controls, with its key pair, the id of the key and the path
  segment its document is served under.
\<close>

record 'k service_identity =
  own_did :: string
  own_key_id :: string
  own_key :: 'k
  did_path_segment :: string

definition verify_nested_access_token ::
    "('d, 'k) dcp \<Rightarrow> string \<Rightarrow> string \<Rightarrow> 'k service_identity \<Rightarrow> u64 \<Rightarrow> (json, auth_error) result" where
  "verify_nested_access_token D nested_token outer_sub authority now =
     (case decode_jws_unverified D nested_token of
        Inl e \<Rightarrow> Err (InvalidNestedToken e)
      | Inr (header, payload) \<Rightarrow>
          (case get_str payload ''iss'' of
             None \<Rightarrow> Err (InvalidNestedToken ''nested token has no iss claim'')
           | Some nested_iss \<Rightarrow>
               (case get_str header ''kid'' of
                  None \<Rightarrow> Err (InvalidNestedToken ''nested token has no kid header'')
                | Some kid \<Rightarrow>
                    if nested_iss \<noteq> own_did authority then Err (NestedTokenIssuerNotAuthoritative nested_iss)
                    else if kid \<noteq> own_key_id authority then
                      Err (InvalidNestedToken (''nested token kid '' @ [CHR 39] @ kid @ [CHR 39]
                        @ '' is not the key of '' @ [CHR 39] @ nested_iss @ [CHR 39]))
                    else case verify_jws_signature D nested_token (own_key authority) of
                      Inl e \<Rightarrow> Err (InvalidNestedToken e)
                    | Inr _ \<Rightarrow>
                        if u64_claim payload ''exp'' \<le> now
                        then Err NestedTokenExpired
                        else if str_claim payload ''aud'' \<noteq> outer_sub
                        then Err NestedTokenNotBoundToCaller
                        else Ok payload)))"

section \<open>Correctness\<close>

text \<open>What acceptance of an envelope means, spelled out.\<close>

definition envelope_valid ::
    "('d, 'k) dcp \<Rightarrow> 'd network \<Rightarrow> string option \<Rightarrow> string \<Rightarrow> bool \<Rightarrow> outbound_policy
     \<Rightarrow> u64 \<Rightarrow> u64 \<Rightarrow> u64 \<Rightarrow> json \<Rightarrow> bool" where
  "envelope_valid D N h aud insecure pol now1 now2 now3 payload \<longleftrightarrow>
     (\<exists>token header kid iss doc key url.
        h = Some (''Bearer '' @ token) \<and> decode_jws_unverified D token = Ok (header, payload)
      \<and> get_str payload ''iss'' = Some iss \<and> get_str header ''kid'' = Some kid
      \<and> did_web_to_url D iss insecure = Ok url \<and> allowed D pol url
      \<and> snd (resolve_did N iss insecure) = Ok doc \<and> find_verifying_key D doc kid = Ok key
      \<and> verify_jws_signature D token key = Ok () \<and> kid \<in> set (capability_invocation D doc)
      \<and> str_claim payload ''sub'' = iss \<and> str_claim payload ''aud'' = aud
      \<and> now1 < u64_claim payload ''exp''
      \<and> \<not> u64_after payload ''nbf'' (u64_add now2 NBF_LEEWAY_SECS)
      \<and> \<not> u64_after payload ''iat'' (u64_add now3 NBF_LEEWAY_SECS))"

lemma check_did_Ok: "check_did D pol d insecure = Ok u \<longleftrightarrow>
    (\<exists>url. did_web_to_url D d insecure = Ok url \<and> allowed D pol url)"
  by (auto simp: check_did_def allowed_def split: sum.splits) (metis is_ok.elims(2) old.unit.exhaust)

lemma strip_bearer: "Option.bind h (\<lambda>h. strip_prefix h p) = Some t \<longleftrightarrow> h = Some (p @ t)"
  by (cases h) (auto simp: strip_prefix_Some)

lemma if_Err: "(if b then Inl e else r) = Ok v \<longleftrightarrow> \<not> b \<and> r = Ok v"
  by simp

lemma verify_envelope_Ok:
  "snd (verify_envelope D N h aud insecure pol now1 now2 now3) = Ok payload \<longleftrightarrow>
     envelope_valid D N h aud insecure pol now1 now2 now3 payload"
  unfolding verify_envelope_def envelope_valid_def
  by (simp only: io_bind_Ok split_paired_Ex snd_io_map_err strip_bearer check_did_Ok
      snd_io_simps map_err_Ok ok_or_Ok if_Err prod.case not_le not_not sum.inject) (auto; blast)

lemma verify_envelope_confined [hub_confined]:
  "resolves_through D N \<Longrightarrow> confined D pol (verify_envelope D N h aud insecure pol now1 now2 now3)"
  unfolding verify_envelope_def
  by (auto intro!: confined_bind confined_resolve split: prod.splits)

lemma verify_bearer_token_Ok:
  "snd (fst (verify_bearer_token D N h aud insecure pol now1 now2 now3 c)) = Ok payload \<longleftrightarrow>
     envelope_valid D N h aud insecure pol now1 now2 now3 payload
     \<and> (\<forall>j. get_str payload ''jti'' = Some j \<longrightarrow> j |\<notin>| seen c)"
proof -
  obtain tr r where v: "verify_envelope D N h aud insecure pol now1 now2 now3 = (tr, r)" by fastforce
  have e: "envelope_valid D N h aud insecure pol now1 now2 now3 payload \<longleftrightarrow> r = Ok payload"
    using verify_envelope_Ok [of D N h aud insecure pol now1 now2 now3 payload] v by simp
  show ?thesis unfolding e
    by (cases r) (auto simp: verify_bearer_token_def v seen_insert_def Let_def
        split: option.splits prod.splits if_splits)
qed

lemma verify_bearer_token_trace:
  "fst (fst (verify_bearer_token D N h aud insecure pol now1 now2 now3 c))
     = fst (verify_envelope D N h aud insecure pol now1 now2 now3)"
  by (auto simp: verify_bearer_token_def split: prod.splits sum.splits option.splits)

lemma seen_insert_remembers:
  assumes "seen_ok c" and "0 < capacity c" and "seen_insert j c = (True, c1)"
  shows "j |\<in>| seen c1"
proof -
  note r = seen_insert_refines [OF assms(1), of j]
  from r assms(3) have q: "order c1 = snd (fifo_insert (capacity c) j (order c))" and ok: "seen_ok c1"
    and acc: "fst (fifo_insert (capacity c) j (order c))" by auto
  from assms(1) have "length (order c) \<le> capacity c" by (simp add: seen_ok_def)
  from fifo_insert_True [OF acc assms(2) this] q have "j \<in> set (order c1)" by auto
  with ok show ?thesis by (simp add: seen_ok_def)
qed

text \<open>
  C20. Bearer token validation accepts exactly the tokens that are signed with a key of the caller's
  own DID document listed for capability invocation, are about their issuer and addressed to this
  service, are inside their time window at the clock readings taken, and carry no \<open>jti\<close> still
  remembered. A rejected token never uses up a \<open>jti\<close>; once accepted, a \<open>jti\<close> is refused on the next
  token whatever header, network or clock it comes with; and the only host contacted is one the
  outbound policy allows, contacted after the check.
\<close>

theorem verify_bearer_token_correct:
  fixes D :: "('d, 'k) dcp"
  assumes "seen_ok c" and "0 < capacity c" and "resolves_through D N"
    and "verify_bearer_token D N h aud insecure pol now1 now2 now3 c = (m, c')"
  shows "(snd m = Ok payload \<longleftrightarrow> envelope_valid D N h aud insecure pol now1 now2 now3 payload
        \<and> (\<forall>j. get_str payload ''jti'' = Some j \<longrightarrow> j |\<notin>| seen c))
    \<and> (\<not> is_ok (snd m) \<longrightarrow> c' = c)
    \<and> (\<forall>j. snd m = Ok payload \<and> get_str payload ''jti'' = Some j \<longrightarrow>
        (\<forall>N2 h2 aud2 i2 t1 t2 t3 payload2.
          snd (fst (verify_bearer_token D N2 h2 aud2 i2 pol t1 t2 t3 c')) = Ok payload2
          \<longrightarrow> get_str payload2 ''jti'' \<noteq> Some j))
    \<and> confined D pol m"
proof -
  have ok: "snd m = Ok payload \<longleftrightarrow> envelope_valid D N h aud insecure pol now1 now2 now3 payload
        \<and> (\<forall>j. get_str payload ''jti'' = Some j \<longrightarrow> j |\<notin>| seen c)"
    using verify_bearer_token_Ok [of D N h aud insecure pol now1 now2 now3 c payload] assms(4) by simp
  have same: "c' = c" if "\<not> is_ok (snd m)"
    using that assms(4) by (auto simp: verify_bearer_token_def seen_insert_def Let_def
        split: prod.splits sum.splits option.splits if_splits)
  have remembered: "j |\<in>| seen c'" if "snd m = Ok payload" "get_str payload ''jti'' = Some j" for j
  proof -
    obtain tr r where v: "verify_envelope D N h aud insecure pol now1 now2 now3 = (tr, r)" by fastforce
    have "r = Ok payload"
      using that(1) ok verify_envelope_Ok [of D N h aud insecure pol now1 now2 now3 payload] v by simp
    with that assms(4) v have "seen_insert j c = (True, c')"
      by (auto simp: verify_bearer_token_def split: prod.splits if_splits)
    then show ?thesis by (rule seen_insert_remembers [OF assms(1,2)])
  qed
  have "confined D pol m"
    using verify_envelope_confined [OF assms(3), of pol h aud insecure now1 now2 now3]
      verify_bearer_token_trace [of D N h aud insecure pol now1 now2 now3 c] assms(4)
    by (simp add: confined_def)
  moreover have "get_str payload2 ''jti'' \<noteq> Some j"
    if "snd m = Ok payload" "get_str payload ''jti'' = Some j"
      "snd (fst (verify_bearer_token D N2 h2 aud2 i2 pol t1 t2 t3 c')) = Ok payload2"
    for j N2 h2 aud2 i2 t1 t2 t3 payload2
    using remembered [OF that(1,2)] that(3) unfolding verify_bearer_token_Ok by auto
  ultimately show ?thesis using ok same by blast
qed

text \<open>A caller with one key, and a token it signed for this service.\<close>

definition sample_payload :: json where
  "sample_payload = json_obj [(''iss'', JStr ''did:web:caller.example''), (''sub'', JStr ''did:web:caller.example''),
     (''aud'', JStr ''did:web:hub''), (''exp'', JNum (PosInt 1300)), (''iat'', JNum (PosInt 1000)), (''jti'', JStr ''j1'')]"

definition sample_token_dcp :: "(string list, string) dcp" where
  "sample_token_dcp = sample_dcp (\<lambda>t. if t = ''k1.token''
     then Ok (json_obj [(''kid'', JStr ''k1'')], sample_payload) else Err ''not a JWS'')"

definition sample_network :: "string list network" where
  "sample_network = \<lparr>resolve_did = (\<lambda>d insecure. case strip_prefix d ''did:web:'' of
        None \<Rightarrow> ([], Err ''not a did:web DID'')
      | Some h \<Rightarrow> ([(if insecure then ''http://'' else ''https://'') @ h @ ''/.well-known/did.json''],
          if h = ''caller.example'' then Ok [''k1''] else Err ''404'')),
     http_get = (\<lambda>_. Err ''refused''), http_post = (\<lambda>_ _ _. Err ''refused'')\<rparr>"

lemma sample_resolves: "resolves_through (sample_dcp decode) sample_network"
  by (auto simp: resolves_through_def sample_network_def sample_dcp_def split: option.splits)

lemma sample_envelope_valid_under:
  assumes decode: "decode ''k1.token'' = Ok (json_obj [(''kid'', JStr ''k1'')], sample_payload)"
    and al: "allowed (sample_dcp decode) pol ''http://caller.example/.well-known/did.json''"
  shows "envelope_valid (sample_dcp decode) sample_network (Some ''Bearer k1.token'') ''did:web:hub'' True
     pol 1010 1010 1010 sample_payload"
proof -
  have d: "decode_jws_unverified (sample_dcp decode) ''k1.token'' = Ok (json_obj [(''kid'', JStr ''k1'')], sample_payload)"
    using decode by (simp add: sample_dcp_def)
  have key: "find_verifying_key (sample_dcp decode) [''k1''] ''k1'' = Ok ''k1''"
    "verify_jws_signature (sample_dcp decode) ''k1.token'' ''k1'' = Ok ()"
    "''k1'' \<in> set (capability_invocation (sample_dcp decode) [''k1''])"
    by (simp_all add: sample_dcp_def starts_with_def)
  have url: "did_web_to_url (sample_dcp decode) ''did:web:caller.example'' True = Ok ''http://caller.example/.well-known/did.json''"
    by (simp add: sample_dcp_def strip_prefix_def starts_with_def)
  show ?thesis unfolding envelope_valid_def
    by (intro exI [of _ "''k1.token''"] exI [of _ "json_obj [(''kid'', JStr ''k1'')]"] exI [of _ "''k1''"]
        exI [of _ "''did:web:caller.example''"] exI [of _ "[''k1'']"] exI [of _ "''http://caller.example/.well-known/did.json''"] conjI
        d key url al)
      (simp_all add: sample_payload_def sample_network_def strip_prefix_def starts_with_def str_claim_def u64_claim_def
        u64_after_def NBF_LEEWAY_SECS_def u64_add_def u64_limit_def)
qed

lemma sample_envelope_valid:
  "envelope_valid sample_token_dcp sample_network (Some ''Bearer k1.token'') ''did:web:hub'' True
     (policy_new sample_token_dcp [''caller.example'']) 1010 1010 1010 sample_payload"
  unfolding sample_token_dcp_def by (rule sample_envelope_valid_under, simp, code_simp)

theorem verify_bearer_token_correct_witness:
  "let r = verify_bearer_token sample_token_dcp sample_network (Some ''Bearer k1.token'') ''did:web:hub'' True
       (policy_new sample_token_dcp [''caller.example'']) 1010 1010 1010 (seen_new 4)
   in snd (fst r) = Ok sample_payload
    \<and> \<not> is_ok (snd (fst (verify_bearer_token sample_token_dcp sample_network (Some ''Bearer k1.token'') ''did:web:hub'' True
       (policy_new sample_token_dcp [''caller.example'']) 1011 1011 1011 (snd r))))"
proof -
  let ?pol = "policy_new sample_token_dcp [''caller.example'']"
  let ?r = "verify_bearer_token sample_token_dcp sample_network (Some ''Bearer k1.token'') ''did:web:hub'' True
       ?pol 1010 1010 1010 (seen_new 4)"
  have cap: "0 < capacity (seen_new 4)" by (simp add: seen_new_def)
  have law: "resolves_through sample_token_dcp sample_network"
    unfolding sample_token_dcp_def by (rule sample_resolves)
  have eq: "?r = (fst ?r, snd ?r)" by simp
  note c = verify_bearer_token_correct [OF seen_ok_new cap law eq, of sample_payload]
  have jti: "get_str sample_payload ''jti'' = Some ''j1''" by (simp add: sample_payload_def)
  have ok: "snd (fst ?r) = Ok sample_payload" using c sample_envelope_valid by (simp add: seen_new_def)
  have "\<not> is_ok (snd (fst (verify_bearer_token sample_token_dcp sample_network (Some ''Bearer k1.token'') ''did:web:hub'' True
       ?pol 1011 1011 1011 (snd ?r))))" (is "\<not> is_ok ?v")
  proof
    assume "is_ok ?v"
    then obtain payload2 where p2: "?v = Ok payload2" by (cases ?v) auto
    from p2 [unfolded verify_bearer_token_Ok] have "payload2 = sample_payload"
      unfolding envelope_valid_def by (auto simp: sample_token_dcp_def sample_dcp_def)
    with c ok jti p2 show False by blast
  qed
  with ok show ?thesis by (simp add: Let_def)
qed

text \<open>
  The trusted-issuer allow-list denies by default: an issuer passes exactly when its DID is one
  of the configured ones, so a service with none configured trusts nobody.
\<close>

theorem check_trusted_issuer_correct:
  "(check_trusted_issuer claims dids = Ok () \<longleftrightarrow> str_claim claims ''iss'' \<in> set dids)
   \<and> \<not> is_ok (check_trusted_issuer claims [])"
  by (simp add: check_trusted_issuer_def Let_def)

lemma verify_nested_Ok:
  "verify_nested_access_token D token outer_sub authority now = Ok payload \<longleftrightarrow>
    (\<exists>header. decode_jws_unverified D token = Ok (header, payload)
      \<and> get_str payload ''iss'' = Some (own_did authority) \<and> get_str header ''kid'' = Some (own_key_id authority)
      \<and> verify_jws_signature D token (own_key authority) = Ok ()
      \<and> now < u64_claim payload ''exp'' \<and> str_claim payload ''aud'' = outer_sub)"
  by (auto simp: verify_nested_access_token_def split: sum.splits prod.splits option.splits if_splits)

end
