(* ===== verification/Sts.thy ===== *)
theory Sts
  imports Auth "HOL-Library.Countable"
begin

text \<open>
  The embedded Secure Token Service (sts.rs), the service identities it signs with (identity.rs) and
  the scope aliases of a presentation query (scope.rs).
\<close>

unbundle bit_operations_syntax

section \<open>Service identities\<close>

definition percent_encode_colons :: "string \<Rightarrow> string" where
  "percent_encode_colons s = concat (map (\<lambda>c. if c = CHR '':'' then ''%3A'' else [c]) s)"

text \<open>\<open>DcpKeyPair::generate\<close> is library code: \<open>keygen did\<close> is the key pair and key id it makes.\<close>

definition identity_new :: "(string \<Rightarrow> 'k \<times> string) \<Rightarrow> string \<Rightarrow> string \<Rightarrow> 'k service_identity" where
  "identity_new keygen did_host segment =
     (let d = ''did:web:'' @ percent_encode_colons did_host @ '':'' @ segment in
      case keygen d of (k, kid) \<Rightarrow>
        \<lparr>own_did = d, own_key_id = kid, own_key = k, did_path_segment = segment\<rparr>)"

definition did_document_json ::
    "('k \<Rightarrow> string \<times> string) \<Rightarrow> 'k service_identity \<Rightarrow> (string \<times> string) list \<Rightarrow> json" where
  "did_document_json public_xy me services =
     json_obj [
       (''@context'', JArr [JStr ''https://www.w3.org/ns/did/v1'', JStr ''https://w3id.org/dspace-dcp/v1.0/dcp.jsonld'']),
       (''id'', JStr (own_did me)),
       (''verificationMethod'', JArr [json_obj [
          (''id'', JStr (own_key_id me)), (''type'', JStr ''JsonWebKey2020''), (''controller'', JStr (own_did me)),
          (''publicKeyJwk'', json_obj [(''kty'', JStr ''EC''), (''crv'', JStr ''P-256''),
             (''x'', JStr (fst (public_xy (own_key me)))), (''y'', JStr (snd (public_xy (own_key me))))])]]),
       (''authentication'', JArr [JStr (own_key_id me)]),
       (''assertionMethod'', JArr [JStr (own_key_id me)]),
       (''capabilityInvocation'', JArr [JStr (own_key_id me)]),
       (''service'', JArr (map (\<lambda>(ty, endpoint). json_obj [(''id'', JStr (own_did me @ ''#'' @ ty)),
          (''type'', JStr ty), (''serviceEndpoint'', JStr endpoint)]) services))]"

section \<open>Scopes\<close>

definition SCOPE_ALIAS :: string where
  "SCOPE_ALIAS = ''org.eclipse.dspace.dcp.vc.type:''"

text \<open>
  The default pattern is unanchored: it matches at the first position where the alias is followed by
  at least one character other than a colon, and its group \<open>type\<close> takes all of those.
\<close>

definition type_here :: "string \<Rightarrow> string option" where
  "type_here s = (case strip_prefix s SCOPE_ALIAS of
     None \<Rightarrow> None
   | Some rest \<Rightarrow> (let t = takeWhile (\<lambda>c. c \<noteq> CHR '':'') rest in if t = [] then None else Some t))"

fun default_pattern_type :: "string \<Rightarrow> string option" where
  "default_pattern_type [] = None"
| "default_pattern_type (c # s) =
     (case type_here (c # s) of Some t \<Rightarrow> Some t | None \<Rightarrow> default_pattern_type s)"

text \<open>
  A matcher is the type its compiled pattern captures in one scope string; a configured pattern other
  than the default is run by the regex library.
\<close>

type_synonym scope_matcher = "string \<Rightarrow> string option"

definition credential_types :: "scope_matcher \<Rightarrow> string list \<Rightarrow> string list" where
  "credential_types credential_type scopes = remdups_adj (List.map_filter credential_type scopes)"

definition split_scope_string :: "string \<Rightarrow> string list" where
  "split_scope_string scopes = split_whitespace scopes"

section \<open>The token service\<close>

definition byte_word :: "char \<Rightarrow> 8 word" where
  "byte_word c = of_nat (byte c)"

definition constant_time_eq :: "8 word list \<Rightarrow> 8 word list \<Rightarrow> bool" where
  "constant_time_eq a b \<longleftrightarrow>
     length a = length b \<and> foldl (\<lambda>acc (x, y). acc OR (x XOR y)) 0 (zip a b) = 0"

record sts_config =
  sts_client_id :: string
  sts_client_secret :: string

datatype sts_error = UnsupportedGrantType | InvalidClient | InvalidRequest string

fun sts_message :: "sts_error \<Rightarrow> string" where
  "sts_message UnsupportedGrantType = ''unsupported_grant_type: only client_credentials is supported''"
| "sts_message InvalidClient = ''invalid_client: unknown client_id/client_secret''"
| "sts_message (InvalidRequest m) = ''invalid_request: '' @ m"

record sts_token_request =
  grant_type :: string
  client_id :: string
  client_secret :: string
  audience :: string
  bearer_access_scope :: "string option"
  own_service_did :: string

record sts_token_response =
  access_token :: string
  expires_in :: u64
  token_type :: string

definition TOKEN_TTL_SECS :: u64 where
  "TOKEN_TTL_SECS = 300"

text \<open>The nested access token: bound to whoever will present it.\<close>

definition access_token_payload :: "'k service_identity \<Rightarrow> sts_token_request \<Rightarrow> string \<Rightarrow> u64 \<Rightarrow> string \<Rightarrow> json" where
  "access_token_payload signer req scope now jti =
     json_obj [(''iss'', JStr (own_did signer)), (''sub'', JStr (own_did signer)),
       (''aud'', JStr (if audience req = own_service_did req then own_did signer else audience req)),
       (''scope'', JStr scope), (''iat'', JNum (PosInt now)),
       (''exp'', JNum (PosInt (u64_add now TOKEN_TTL_SECS))), (''jti'', JStr jti)]"

definition id_token_payload ::
    "('d, 'k) dcp \<Rightarrow> 'k service_identity \<Rightarrow> sts_token_request \<Rightarrow> u64 \<Rightarrow> string \<Rightarrow> string \<Rightarrow> json" where
  "id_token_payload D signer req now jti nested_jti =
     (let payload = json_obj [(''iss'', JStr (own_did signer)), (''sub'', JStr (own_did signer)),
        (''aud'', JStr (audience req)), (''iat'', JNum (PosInt now)), (''nbf'', JNum (PosInt now)),
        (''exp'', JNum (PosInt (u64_add now TOKEN_TTL_SECS))), (''jti'', JStr jti)] in
      case bearer_access_scope req of
        None \<Rightarrow> payload
      | Some scope \<Rightarrow> json_set ''token'' (JStr (sign_jws D (access_token_payload signer req scope now nested_jti)
            (own_key signer) (own_key_id signer))) payload)"

definition issue_token ::
    "('d, 'k) dcp \<Rightarrow> sts_config \<Rightarrow> 'k service_identity \<Rightarrow> sts_token_request \<Rightarrow> u64 \<Rightarrow> string \<Rightarrow> string
     \<Rightarrow> (sts_token_response, sts_error) result" where
  "issue_token D config signer req now jti nested_jti =
     (if grant_type req \<noteq> ''client_credentials'' then Err UnsupportedGrantType
      else if \<not> (constant_time_eq (map byte_word (client_id req)) (map byte_word (sts_client_id config))
                \<and> constant_time_eq (map byte_word (client_secret req)) (map byte_word (sts_client_secret config)))
      then Err InvalidClient
      else if trim (audience req) = [] then Err (InvalidRequest ''audience must not be empty'')
      else Ok \<lparr>access_token = sign_jws D (id_token_payload D signer req now jti nested_jti)
                 (own_key signer) (own_key_id signer),
               expires_in = TOKEN_TTL_SECS, token_type = ''Bearer''\<rparr>)"

section \<open>Scopes: which types a scope list names\<close>

lemma set_credential_types: "set (credential_types m scopes) = {t. \<exists>s \<in> set scopes. m s = Some t}"
  by (force simp: credential_types_def List.map_filter_def)

text \<open>
  The types a scope list yields are exactly those its scopes name, in order; but a type is listed
  as often as it starts a new run, so the list is not free of repetitions.
\<close>

theorem credential_types_correct:
  "set (credential_types m scopes) = {t. \<exists>s \<in> set scopes. m s = Some t}
   \<and> (distinct (List.map_filter m scopes) \<longrightarrow> credential_types m scopes = List.map_filter m scopes)
   \<and> \<not> distinct (credential_types default_pattern_type
        [SCOPE_ALIAS @ ''A'', SCOPE_ALIAS @ ''B:read'', SCOPE_ALIAS @ ''A''])"
proof -
  have "credential_types default_pattern_type
        [SCOPE_ALIAS @ ''A'', SCOPE_ALIAS @ ''B:read'', SCOPE_ALIAS @ ''A''] = [''A'', ''B'', ''A'']"
    by code_simp
  then show ?thesis by (simp add: set_credential_types) (simp add: credential_types_def remdups_adj_distinct)
qed

theorem credential_types_correct_witness:
  "credential_types default_pattern_type [SCOPE_ALIAS @ ''A''] = [''A'']"
proof -
  have "List.map_filter default_pattern_type [SCOPE_ALIAS @ ''A''] = [''A'']" by code_simp
  then show ?thesis using credential_types_correct [of default_pattern_type "[SCOPE_ALIAS @ ''A'']"] by simp
qed

section \<open>Secret comparison\<close>

lemma fold_or_xor_0:
  "length a = length b \<Longrightarrow>
   foldl (\<lambda>acc (x, y). acc OR (x XOR y)) acc (zip a b) = (0 :: 8 word) \<longleftrightarrow> acc = 0 \<and> a = b"
proof (induction a b arbitrary: acc rule: list_induct2)
  case Nil
  then show ?case by simp
next
  case (Cons x xs y ys)
  have xor: "x XOR y = 0 \<longleftrightarrow> x = y"
  proof
    assume "x XOR y = 0"
    then have "(x XOR y) XOR y = 0 XOR y" by (rule arg_cong)
    then show "x = y" by (simp add: xor.assoc)
  qed simp
  have "acc OR (x XOR y) = 0 \<longleftrightarrow> acc = 0 \<and> x = y" unfolding or_eq_0_iff xor ..
  with Cons.IH show ?case by simp
qed

lemma constant_time_eq_iff: "constant_time_eq a b \<longleftrightarrow> a = b"
  using fold_or_xor_0 [of a b 0] by (auto simp: constant_time_eq_def)

lemma inj_byte_word: "inj byte_word"
proof
  fix a b assume "byte_word a = byte_word b"
  then have "unat (byte_word a) = unat (byte_word b)" by simp
  moreover have "unat (byte_word c) = byte c" for c
    by (simp add: byte_word_def byte_def unat_of_nat take_bit_eq_mod)
  ultimately show "a = b" by (simp add: byte_def)
qed

lemma bytes_eq_iff: "constant_time_eq (map byte_word a) (map byte_word b) \<longleftrightarrow> a = b"
  by (simp add: constant_time_eq_iff inj_map_eq_map [OF inj_byte_word])

section \<open>Tokens the service mints\<close>

text \<open>
  What the hub relies on of the signature library: a signed payload that its JSON text determines
  decodes to itself under a header that names the key, and verifies against that key.
\<close>

definition jws_roundtrip :: "('d, 'k) dcp \<Rightarrow> bool" where
  "jws_roundtrip D \<longleftrightarrow> (\<forall>payload key kid. canonical_json payload \<longrightarrow> (\<exists>header.
     decode_jws_unverified D (sign_jws D payload key kid) = Ok (header, payload)
     \<and> get_str header ''kid'' = Some kid \<and> verify_jws_signature D (sign_jws D payload key kid) key = Ok ()))"

lemma token_payloads_canonical [simp]:
  "canonical_json (access_token_payload signer req scope now jti)"
  "canonical_json (id_token_payload D signer req now jti nested_jti)"
  by (simp_all add: access_token_payload_def id_token_payload_def Let_def split: option.split)

lemma jws_roundtripE:
  assumes "jws_roundtrip D" "canonical_json payload"
  obtains header where "decode_jws_unverified D (sign_jws D payload key kid) = Ok (header, payload)"
    "get_str header ''kid'' = Some kid" "verify_jws_signature D (sign_jws D payload key kid) key = Ok ()"
  using assms unfolding jws_roundtrip_def by blast

lemma issue_token_accepts: "is_ok (issue_token D config signer req now jti nested_jti) \<longleftrightarrow>
      grant_type req = ''client_credentials'' \<and> client_id req = sts_client_id config
      \<and> client_secret req = sts_client_secret config \<and> trim (audience req) \<noteq> []"
  by (auto simp: issue_token_def bytes_eq_iff)

lemma issue_token_grants:
  assumes law: "jws_roundtrip D" and issued: "issue_token D config signer req now jti nested_jti = Ok res"
    and scope: "bearer_access_scope req = Some scope"
  obtains header payload nested where "decode_jws_unverified D (access_token res) = Ok (header, payload)"
    "str_claim payload ''aud'' = audience req" "get_str payload ''token'' = Some nested"
    "\<And>later presenter. later < u64_add now TOKEN_TTL_SECS \<Longrightarrow>
       if presenter = (if audience req = own_service_did req then own_did signer else audience req)
       then \<exists>p. verify_nested_access_token D nested presenter signer later = Ok p \<and> str_claim p ''scope'' = scope
       else verify_nested_access_token D nested presenter signer later = Err NestedTokenNotBoundToCaller"
proof -
  let ?payload = "id_token_payload D signer req now jti nested_jti"
  let ?ap = "access_token_payload signer req scope now nested_jti"
  let ?nested = "sign_jws D ?ap (own_key signer) (own_key_id signer)"
  from issued have tok: "access_token res = sign_jws D ?payload (own_key signer) (own_key_id signer)"
    by (auto simp: issue_token_def split: if_splits)
  obtain header where "decode_jws_unverified D (sign_jws D ?payload (own_key signer) (own_key_id signer)) = Ok (header, ?payload)"
    by (rule jws_roundtripE [OF law token_payloads_canonical(2)])
  then have h: "decode_jws_unverified D (access_token res) = Ok (header, ?payload)" unfolding tok .
  obtain nh where nh: "decode_jws_unverified D ?nested = Ok (nh, ?ap)"
    "get_str nh ''kid'' = Some (own_key_id signer)" "verify_jws_signature D ?nested (own_key signer) = Ok ()"
    by (rule jws_roundtripE [OF law token_payloads_canonical(1)])
  have p: "str_claim ?payload ''aud'' = audience req" "get_str ?payload ''token'' = Some ?nested"
    using scope by (simp_all add: id_token_payload_def Let_def str_claim_def get_str_def)
  have "if presenter = (if audience req = own_service_did req then own_did signer else audience req)
     then \<exists>p. verify_nested_access_token D ?nested presenter signer later = Ok p \<and> str_claim p ''scope'' = scope
     else verify_nested_access_token D ?nested presenter signer later = Err NestedTokenNotBoundToCaller"
    if "later < u64_add now TOKEN_TTL_SECS" for later presenter
    using that nh by (simp add: verify_nested_access_token_def access_token_payload_def str_claim_def u64_claim_def)
  with h p show ?thesis by (rule that)
qed

text \<open>
  C21. The token service mints a token exactly for the configured client, asking for the client
  credentials grant and a non-empty audience; and a grant it mints is one its own hub accepts: the
  nested access token authenticates, until it expires, for the party that will present it - the
  service's own token party when the token is addressed to this service, the audience otherwise - and
  carries the requested scope. For anybody else it is refused.
\<close>

theorem sts_grant_roundtrip:
  fixes D :: "('d, 'k) dcp"
  assumes law: "jws_roundtrip D"
  shows "(is_ok (issue_token D config signer req now jti nested_jti) \<longleftrightarrow>
      grant_type req = ''client_credentials'' \<and> client_id req = sts_client_id config
      \<and> client_secret req = sts_client_secret config \<and> trim (audience req) \<noteq> [])
    \<and> (\<forall>res scope. issue_token D config signer req now jti nested_jti = Ok res
        \<and> bearer_access_scope req = Some scope \<longrightarrow>
        (\<exists>header payload nested. decode_jws_unverified D (access_token res) = Ok (header, payload)
          \<and> str_claim payload ''aud'' = audience req \<and> get_str payload ''token'' = Some nested
          \<and> (\<forall>later presenter. later < u64_add now TOKEN_TTL_SECS \<longrightarrow>
              (if presenter = (if audience req = own_service_did req then own_did signer else audience req)
               then \<exists>p. verify_nested_access_token D nested presenter signer later = Ok p \<and> str_claim p ''scope'' = scope
               else verify_nested_access_token D nested presenter signer later = Err NestedTokenNotBoundToCaller))))"
proof (intro conjI allI impI)
  fix res scope
  assume "issue_token D config signer req now jti nested_jti = Ok res \<and> bearer_access_scope req = Some scope"
  then have issued: "issue_token D config signer req now jti nested_jti = Ok res" "bearer_access_scope req = Some scope" by blast+
  show "\<exists>header payload nested. decode_jws_unverified D (access_token res) = Ok (header, payload)
          \<and> str_claim payload ''aud'' = audience req \<and> get_str payload ''token'' = Some nested
          \<and> (\<forall>later presenter. later < u64_add now TOKEN_TTL_SECS \<longrightarrow>
              (if presenter = (if audience req = own_service_did req then own_did signer else audience req)
               then \<exists>p. verify_nested_access_token D nested presenter signer later = Ok p \<and> str_claim p ''scope'' = scope
               else verify_nested_access_token D nested presenter signer later = Err NestedTokenNotBoundToCaller))"
    by (rule issue_token_grants [OF law issued]) blast
qed (rule issue_token_accepts)

text \<open>A signature scheme that satisfies the law: a token is a code of its payload and key id.\<close>

instance number :: countable
  by countable_datatype

instance json :: countable
  by countable_datatype

definition roundtrip_dcp :: "(string list, unit) dcp" where
  "roundtrip_dcp = \<lparr>decode_jws_unverified = (\<lambda>t. case from_nat (length t) of
        (payload, kid) \<Rightarrow> Ok (json_obj [(''kid'', JStr kid)], payload)),
     did_web_to_url = (\<lambda>d insecure. Ok (''http://'' @ d)), find_verifying_key = (\<lambda>doc kid. Ok ()),
     verify_jws_signature = (\<lambda>token key. Ok ()),
     sign_jws = (\<lambda>payload key kid. replicate (to_nat (payload, kid)) CHR ''x''),
     capability_invocation = (\<lambda>doc. doc), service_endpoint_url = (\<lambda>doc ty. Ok ty),
     url_parse = (\<lambda>u. Ok (''http'', Some u)), unicode_lowercase = to_ascii_lowercase,
     status_display = nat_to_string\<rparr>"

lemma roundtrip_dcp_law: "jws_roundtrip roundtrip_dcp"
  unfolding jws_roundtrip_def
  by (intro allI impI exI [of _ "json_obj [(''kid'', JStr k)]" for k]) (simp add: roundtrip_dcp_def)

definition sample_party :: "unit service_identity" where
  "sample_party = \<lparr>own_did = ''did:web:hub:sts-party'', own_key_id = ''did:web:hub:sts-party#k'', own_key = (),
     did_path_segment = ''sts-party''\<rparr>"

theorem sts_grant_roundtrip_witness:
  "let req = \<lparr>grant_type = ''client_credentials'', client_id = ''c'', client_secret = ''s'',
       audience = ''did:web:hub:cs'', bearer_access_scope = Some ''read'', own_service_did = ''did:web:hub:cs''\<rparr>;
       config = \<lparr>sts_client_id = ''c'', sts_client_secret = ''s''\<rparr>
   in jws_roundtrip roundtrip_dcp
    \<and> (\<exists>res header payload nested. issue_token roundtrip_dcp config sample_party req 1000 ''a'' ''b'' = Ok res
        \<and> decode_jws_unverified roundtrip_dcp (access_token res) = Ok (header, payload)
        \<and> get_str payload ''token'' = Some nested
        \<and> is_ok (verify_nested_access_token roundtrip_dcp nested ''did:web:hub:sts-party'' sample_party 1100)
        \<and> \<not> is_ok (verify_nested_access_token roundtrip_dcp nested ''did:web:evil'' sample_party 1100))"
proof -
  let ?req = "\<lparr>grant_type = ''client_credentials'', client_id = ''c'', client_secret = ''s'',
       audience = ''did:web:hub:cs'', bearer_access_scope = Some ''read'', own_service_did = ''did:web:hub:cs''\<rparr>"
  let ?config = "\<lparr>sts_client_id = ''c'', sts_client_secret = ''s''\<rparr>"
  note c = sts_grant_roundtrip [OF roundtrip_dcp_law, of ?config sample_party ?req 1000 "''a''" "''b''"]
  have "trim (audience ?req) \<noteq> []" by code_simp
  with c have "is_ok (issue_token roundtrip_dcp ?config sample_party ?req 1000 ''a'' ''b'')" by simp
  then obtain res where res: "issue_token roundtrip_dcp ?config sample_party ?req 1000 ''a'' ''b'' = Ok res"
    by (cases "issue_token roundtrip_dcp ?config sample_party ?req 1000 ''a'' ''b''") auto
  have "bearer_access_scope ?req = Some ''read''" by simp
  with c res obtain header payload nested where
    d: "decode_jws_unverified roundtrip_dcp (access_token res) = Ok (header, payload)"
    "get_str payload ''token'' = Some nested"
    and v: "\<And>later presenter. later < u64_add 1000 TOKEN_TTL_SECS \<Longrightarrow>
        (if presenter = (if audience ?req = own_service_did ?req then own_did sample_party else audience ?req)
         then \<exists>p. verify_nested_access_token roundtrip_dcp nested presenter sample_party later = Ok p \<and> str_claim p ''scope'' = ''read''
         else verify_nested_access_token roundtrip_dcp nested presenter sample_party later = Err NestedTokenNotBoundToCaller)"
    by blast
  have later: "1100 < u64_add 1000 TOKEN_TTL_SECS" by (simp add: u64_add_def TOKEN_TTL_SECS_def u64_limit_def)
  from v [OF later, of "''did:web:hub:sts-party''"] v [OF later, of "''did:web:evil''"] res d
  show ?thesis by (auto simp: sample_party_def Let_def roundtrip_dcp_law)
qed

end
