(* ===== verification/Hub_Config.thy ===== *)
theory Hub_Config
  imports Issuer_Ops Sts
begin

text \<open>
  The configuration of a hub process (config.rs) and the part of \<open>AppState\<close> that never changes after
  start-up: its identities, its token service, its scope matcher and its outbound allow-list
  (state.rs, \<open>AppState::new\<close>).
\<close>

datatype mode = CredentialService | IssuerService

fun mode_path_segment :: "mode \<Rightarrow> string" where
  "mode_path_segment CredentialService = ''credential-service''"
| "mode_path_segment IssuerService = ''issuer-service''"

record trusted_issuers_registry =
  reg_base_url :: string
  reg_did :: string

text \<open>A socket address is the part of it the program reads, its port, or its text.\<close>

record config =
  cfg_mode :: mode
  bind_port :: nat
  did_host :: string
  cfg_sts_client_id :: string
  cfg_sts_client_secret :: string
  scope_pattern :: string
  insecure_http :: bool
  trusted_issuer_dids :: "string list"
  cfg_registry :: "trusted_issuers_registry option"
  known_holder_pids :: "string list"
  allowed_outbound_hosts :: "string list"
  oid4vci_client_id :: "string option"
  oid4vci_offer_endpoint :: bool
  oid4vci_offer_tx_code :: "string option"
  extra_root_certs :: "string list"
  admin_bind :: string
  admin_token :: "string option"
  participant_context_id :: string
  cfg_holder_approval :: holder_approval

definition scheme :: "config \<Rightarrow> string" where
  "scheme c = (if insecure_http c then ''http'' else ''https'')"

definition base_url :: "config \<Rightarrow> string" where
  "base_url c = scheme c @ ''://'' @ did_host c"

definition HOST_DOCKER_INTERNAL :: string where
  "HOST_DOCKER_INTERNAL = ''host.docker.internal''"

definition MAX_SEEN_JTI :: nat where
  "MAX_SEEN_JTI = 4096"

text \<open>The host of a URL, for the allow-list.\<close>

definition url_host :: "('d, 'k) dcp \<Rightarrow> string \<Rightarrow> string option" where
  "url_host D url = (case url_parse D url of Inl e \<Rightarrow> None | Inr (sch, host) \<Rightarrow> host)"

text \<open>Every host the process may contact, from its configuration alone.\<close>

definition outbound_hosts :: "('d, 'k) dcp \<Rightarrow> config \<Rightarrow> string list" where
  "outbound_hosts D c =
     [hd (split_char CHR '':'' (did_host c)), ''127.0.0.1'', HOST_DOCKER_INTERNAL] @ allowed_outbound_hosts c
     @ (case cfg_registry c of
          None \<Rightarrow> []
        | Some r \<Rightarrow> List.map_filter id [url_host D (reg_base_url r),
            (case did_web_to_url D (reg_did r) (insecure_http c) of Inl e \<Rightarrow> None | Inr url \<Rightarrow> url_host D url)])"

record 'k app =
  a_config :: config
  a_identity :: "'k service_identity"
  a_sts_party :: "'k service_identity"
  a_sts_config :: sts_config
  a_scope_matcher :: scope_matcher
  a_outbound :: outbound_policy

text \<open>
  Start-up. \<open>keygen\<close> generates the key pair of a DID, \<open>compile\<close> is the regex library on the scope
  pattern; a pattern it refuses stops the process.
\<close>

definition app_new ::
    "('d, 'k) dcp \<Rightarrow> (string \<Rightarrow> 'k \<times> string) \<Rightarrow> (string \<Rightarrow> scope_matcher option) \<Rightarrow> config \<Rightarrow> 'k app option" where
  "app_new D keygen compile c =
     (case compile (scope_pattern c) of
        None \<Rightarrow> None
      | Some matcher \<Rightarrow> Some
          \<lparr>a_config = c,
           a_identity = identity_new keygen (did_host c) (mode_path_segment (cfg_mode c)),
           a_sts_party = identity_new keygen (''127.0.0.1:'' @ nat_to_string (bind_port c)) ''sts-party'',
           a_sts_config = \<lparr>sts_client_id = cfg_sts_client_id c, sts_client_secret = cfg_sts_client_secret c\<rparr>,
           a_scope_matcher = matcher,
           a_outbound = policy_new D (outbound_hosts D c)\<rparr>)"

definition base_url_of :: "'k app \<Rightarrow> string" where
  "base_url_of a = base_url (a_config a)"

section \<open>A concrete process for witnesses\<close>

definition sample_config :: "mode \<Rightarrow> config" where
  "sample_config md = \<lparr>cfg_mode = md, bind_port = 8080, did_host = ''hub.example'', cfg_sts_client_id = ''c'',
     cfg_sts_client_secret = ''s'', scope_pattern = [], insecure_http = True,
     trusted_issuer_dids = [''did:web:caller.example''], cfg_registry = None, known_holder_pids = [],
     allowed_outbound_hosts = [''caller.example''], oid4vci_client_id = None, oid4vci_offer_endpoint = False,
     oid4vci_offer_tx_code = None, extra_root_certs = [], admin_bind = ''127.0.0.1:8182'', admin_token = Some ''t'',
     participant_context_id = ''issuer'', cfg_holder_approval = Auto\<rparr>"

definition sample_app :: "('d, string) dcp \<Rightarrow> config \<Rightarrow> string app" where
  "sample_app D c = the (app_new D (\<lambda>d. (''k1'', d @ ''#k1'')) (\<lambda>_. Some default_pattern_type) c)"

lemma sample_app_simps [simp]: "a_config (sample_app D c) = c" "a_outbound (sample_app D c) = policy_new D (outbound_hosts D c)"
  "a_scope_matcher (sample_app D c) = default_pattern_type"
  by (simp_all add: sample_app_def app_new_def)

end
