(* ===== verification/Messages.thy ===== *)
theory Messages
  imports Json
begin

text \<open>
  The DCP wire messages (messages.rs), field for field. A message arrives parsed: which JSON texts
  parse is decided by the serialisation library from these field lists.
\<close>

definition DCP_CONTEXT :: string where
  "DCP_CONTEXT = ''https://w3id.org/dspace-dcp/v1.0/dcp.jsonld''"

definition VC_CONTEXT :: string where
  "VC_CONTEXT = ''https://www.w3.org/2018/credentials/v1''"

definition dcp_context :: "string list" where
  "dcp_context = [DCP_CONTEXT]"

record presentation_query_message =
  pq_context :: "string list"
  pq_type :: string
  pq_scope :: "string list"
  pq_definition :: "json option"

record presentation_response_message =
  pr_context :: "string list"
  pr_type :: string
  pr_presentation :: "string list"
  pr_submission :: "json option"

definition presentation_response_new :: "string list \<Rightarrow> presentation_response_message" where
  "presentation_response_new ps = \<lparr>pr_context = dcp_context, pr_type = ''PresentationResponseMessage'',
     pr_presentation = ps, pr_submission = None\<rparr>"

record credential_container =
  cc_type :: string
  cc_payload :: json
  cc_format :: string

record credential_message =
  cm_context :: "string list"
  cm_type :: string
  cm_issuer_pid :: string
  cm_holder_pid :: string
  cm_status :: string
  cm_credentials :: "credential_container list"
  cm_rejection_reason :: "string option"

record credential_request_message =
  rq_context :: "string list"
  rq_type :: string
  rq_holder_pid :: string
  rq_credentials :: "string list"

record credential_status_message =
  cs_context :: "string list"
  cs_type :: string
  cs_issuer_pid :: string
  cs_holder_pid :: string
  cs_status :: string

definition credential_status_new :: "string \<Rightarrow> string \<Rightarrow> string \<Rightarrow> credential_status_message" where
  "credential_status_new issuer_pid holder_pid st = \<lparr>cs_context = dcp_context, cs_type = ''CredentialStatus'',
     cs_issuer_pid = issuer_pid, cs_holder_pid = holder_pid, cs_status = st\<rparr>"

record credential_object =
  co_context :: "string list option"
  co_id :: string
  co_object_type :: string
  co_credential_type :: "string option"
  co_binding_methods :: "string list option"
  co_credential_schema :: "string option"
  co_profile :: "string option"
  co_issuance_policy :: "json option"
  co_offer_reason :: "string option"

record credential_offer_message =
  of_context :: "string list"
  of_type :: string
  of_issuer :: string
  of_credentials :: "credential_object list"

record issuer_metadata =
  im_context :: "string list"
  im_type :: string
  im_issuer :: string
  im_credentials_supported :: "credential_object list option"

definition issuer_metadata_new :: "string \<Rightarrow> credential_object list \<Rightarrow> issuer_metadata" where
  "issuer_metadata_new issuer supported = \<lparr>im_context = dcp_context, im_type = ''IssuerMetadata'',
     im_issuer = issuer, im_credentials_supported = Some supported\<rparr>"

end
