(* ===== verification/Validation.thy ===== *)
theory Validation
  imports Auth Messages
begin

text \<open>
  Validation of message contents (validation.rs), applied after the token checks: what a delivered
  credential says about itself, the proofs embedded in a message, and the catalog an offer refers to.
\<close>

datatype validation_error =
    InvalidStatus string
  | UnknownHolderPid string
  | UnverifiableProof string
  | UnsupportedCredentialFormat string
  | EmptyCredentials
  | UnknownCredentialId string
  | CatalogUnavailable string
  | UntrustedCredentialIssuer string
  | ForeignSubject string
  | OutsideValidity
  | TypeNotInCredential string

fun validation_message :: "validation_error \<Rightarrow> string" where
  "validation_message (InvalidStatus st) = ''credential message status '' @ quoted st
     @ '' is not one of the recognized values (ISSUED, REJECTED)''"
| "validation_message (UnknownHolderPid p) = ''holderPid '' @ quoted p
     @ '' does not match a request this service was configured to expect''"
| "validation_message (UnverifiableProof e) =
     ''a credential'' @ [CHR 39] @ ''s own embedded proof could not be verified: '' @ e"
| "validation_message (UnsupportedCredentialFormat f) =
     ''credential format '' @ quoted f @ '' cannot be verified by this service''"
| "validation_message EmptyCredentials = ''a CredentialOfferMessage must offer at least one credential''"
| "validation_message (UnknownCredentialId i) = ''offered credential id '' @ quoted i
     @ '' does not match the issuer'' @ [CHR 39] @ ''s own known catalog''"
| "validation_message (CatalogUnavailable e) =
     ''could not resolve the offering issuer'' @ [CHR 39] @ ''s own credential catalog: '' @ e"
| "validation_message (UntrustedCredentialIssuer i) =
     ''credential issuer '' @ quoted i @ '' is not a trusted issuer''"
| "validation_message (ForeignSubject s) = ''credential is bound to '' @ quoted s @ '', not to this service''"
| "validation_message OutsideValidity = ''credential is outside its validity period''"
| "validation_message (TypeNotInCredential t) =
     ''credentialType '' @ quoted t @ '' is not one of the credential'' @ [CHR 39] @ ''s own vc.type''"

definition CLOCK_SKEW_SECS :: u64 where
  "CLOCK_SKEW_SECS = 60"

section \<open>Claims of a credential\<close>

definition has_type :: "json \<Rightarrow> string \<Rightarrow> bool" where
  "has_type payload credential_type =
     (case json_pointer payload [''vc'', ''type''] of
        Some (JStr only) \<Rightarrow> only = credential_type
      | Some (JArr types) \<Rightarrow> list_ex (\<lambda>t. as_str t = Some credential_type) types
      | _ \<Rightarrow> False)"

definition is_within_validity :: "json \<Rightarrow> u64 \<Rightarrow> bool" where
  "is_within_validity payload now \<longleftrightarrow>
     (case get_u64 payload ''nbf'' of None \<Rightarrow> True | Some nbf \<Rightarrow> nbf \<le> u64_add now CLOCK_SKEW_SECS)
   \<and> (case get_u64 payload ''exp'' of None \<Rightarrow> True | Some expires \<Rightarrow> now < expires)"

definition credential_subject :: "json \<Rightarrow> string option" where
  "credential_subject payload =
     (case get_str payload ''sub'' of
        Some s \<Rightarrow> Some s
      | None \<Rightarrow> Option.bind (json_pointer payload [''vc'', ''credentialSubject'', ''id'']) as_str)"

text \<open>One container; \<open>trusted = None\<close> when a registry checks issuers instead.\<close>

definition check_container ::
    "('d, 'k) dcp \<Rightarrow> string \<Rightarrow> string list option \<Rightarrow> u64 \<Rightarrow> credential_container \<Rightarrow> (unit, validation_error) result" where
  "check_container D me trusted now container =
     (case as_str (cc_payload container) of
        None \<Rightarrow> Err (UnverifiableProof (''a jwt-format credential'' @ [CHR 39] @ ''s payload must be a JWS string''))
      | Some jws \<Rightarrow>
          (case decode_jws_unverified D jws of
             Inl e \<Rightarrow> Err (UnverifiableProof e)
           | Inr (header, payload) \<Rightarrow>
               if \<not> has_type payload (cc_type container) then Err (TypeNotInCredential (cc_type container))
               else if (case trusted of None \<Rightarrow> False | Some ts \<Rightarrow> str_claim payload ''iss'' \<notin> set ts)
               then Err (UntrustedCredentialIssuer (str_claim payload ''iss''))
               else if credential_subject payload \<noteq> Some me
               then Err (ForeignSubject (case credential_subject payload of None \<Rightarrow> ''nobody'' | Some s \<Rightarrow> s))
               else if \<not> is_within_validity payload now then Err OutsideValidity
               else Ok ()))"

definition check_credential_claims ::
    "('d, 'k) dcp \<Rightarrow> credential_container list \<Rightarrow> string \<Rightarrow> string list option \<Rightarrow> u64 \<Rightarrow> (unit, validation_error) result" where
  "check_credential_claims D credentials me trusted now = try_each (check_container D me trusted now) credentials"

section \<open>Envelope fields\<close>

definition validate_status :: "string \<Rightarrow> (unit, validation_error) result" where
  "validate_status st = (if st \<in> {''ISSUED'', ''REJECTED''} then Ok () else Err (InvalidStatus st))"

definition check_known_holder_pid :: "string \<Rightarrow> string list \<Rightarrow> (unit, validation_error) result" where
  "check_known_holder_pid pid known =
     (if known = [] \<or> pid \<in> set known then Ok () else Err (UnknownHolderPid pid))"

section \<open>Proofs\<close>

definition verify_container_proof ::
    "('d, 'k) dcp \<Rightarrow> 'd network \<Rightarrow> bool \<Rightarrow> outbound_policy \<Rightarrow> credential_container \<Rightarrow> (unit, validation_error) io" where
  "verify_container_proof D N insecure pol container =
     io_bind (io_pure (if contains_str (to_lowercase (unicode_lowercase D) (trim (cc_format container))) ''jwt''
        then Ok () else Err (UnsupportedCredentialFormat (cc_format container)))) (\<lambda>_.
     io_bind (io_pure (ok_or (as_str (cc_payload container))
        (UnverifiableProof (''a jwt-format credential'' @ [CHR 39] @ ''s payload must be a JWS string'')))) (\<lambda>jws.
     io_bind (io_pure (map_err UnverifiableProof (decode_jws_unverified D jws))) (\<lambda>(header, payload).
     io_bind (io_pure (ok_or (get_str payload ''iss'') (UnverifiableProof ''credential has no iss claim''))) (\<lambda>vc_issuer.
     io_bind (io_pure (ok_or (get_str header ''kid'') (UnverifiableProof ''credential JWS has no kid header''))) (\<lambda>kid.
     io_bind (io_pure (map_err (\<lambda>e. UnverifiableProof (outbound_message e)) (check_did D pol vc_issuer insecure))) (\<lambda>_.
     io_bind (io_map_err UnverifiableProof (resolve_did N vc_issuer insecure)) (\<lambda>issuer_doc.
     io_bind (io_pure (map_err UnverifiableProof (find_verifying_key D issuer_doc kid))) (\<lambda>key.
     io_pure (map_err UnverifiableProof (verify_jws_signature D jws key))))))))))"

definition verify_credential_proofs ::
    "('d, 'k) dcp \<Rightarrow> 'd network \<Rightarrow> credential_container list \<Rightarrow> bool \<Rightarrow> outbound_policy \<Rightarrow> (unit, validation_error) io" where
  "verify_credential_proofs D N credentials insecure pol = io_each (verify_container_proof D N insecure pol) credentials"

section \<open>Offers\<close>

text \<open>\<open>parse\<close> is the JSON library reading a response body as \<open>IssuerMetadata\<close>.\<close>

definition validate_offer_credentials ::
    "('d, 'k) dcp \<Rightarrow> 'd network \<Rightarrow> (string \<Rightarrow> (issuer_metadata, string) result) \<Rightarrow> string \<Rightarrow> credential_object list
     \<Rightarrow> bool \<Rightarrow> outbound_policy \<Rightarrow> (unit, validation_error) io" where
  "validate_offer_credentials D N parse issuer_did credentials insecure pol =
     (if credentials = [] then io_pure (Err EmptyCredentials)
      else let sparse_ids = map co_id (filter (\<lambda>c. co_credential_type c = None) credentials) in
      if sparse_ids = [] then io_pure (Ok ())
      else
       io_bind (io_pure (map_err (\<lambda>e. CatalogUnavailable (outbound_message e)) (check_did D pol issuer_did insecure))) (\<lambda>_.
       io_bind (io_map_err CatalogUnavailable (resolve_did N issuer_did insecure)) (\<lambda>issuer_doc.
       io_bind (io_pure (map_err CatalogUnavailable (service_endpoint_url D issuer_doc ''IssuerService''))) (\<lambda>endpoint.
       io_bind (io_pure (map_err (\<lambda>e. CatalogUnavailable (outbound_message e)) (check_url D pol (endpoint @ ''/metadata'')))) (\<lambda>_.
       io_bind (io_contact (endpoint @ ''/metadata'') (map_err CatalogUnavailable (http_get N (endpoint @ ''/metadata'')))) (\<lambda>(st, body).
       io_bind (io_pure (if 200 \<le> st \<and> st < 300 then Ok ()
          else Err (CatalogUnavailable (''issuer metadata endpoint returned HTTP '' @ status_display D st)))) (\<lambda>_.
       io_bind (io_pure (map_err CatalogUnavailable (parse body))) (\<lambda>metadata.
       io_pure (try_each (\<lambda>i. if i \<in> set (map co_id (case im_credentials_supported metadata of None \<Rightarrow> [] | Some cs \<Rightarrow> cs))
          then Ok () else Err (UnknownCredentialId i)) sparse_ids)))))))))"

section \<open>Correctness\<close>

lemma check_container_Ok:
  "check_container D me trusted now c = Ok u \<longleftrightarrow> (\<exists>jws header payload. cc_payload c = JStr jws
     \<and> decode_jws_unverified D jws = Ok (header, payload) \<and> has_type payload (cc_type c)
     \<and> (\<forall>ts. trusted = Some ts \<longrightarrow> str_claim payload ''iss'' \<in> set ts)
     \<and> credential_subject payload = Some me \<and> is_within_validity payload now)"
  by (cases "as_str (cc_payload c)")
    (auto simp: check_container_def split: sum.splits prod.splits option.splits if_splits)


lemma is_ok_check_did: "is_ok (check_did D pol d insecure) \<longleftrightarrow> check_did D pol d insecure = Ok ()"
  by (cases "check_did D pol d insecure") auto

lemma verify_container_proof_Ok:
  "snd (verify_container_proof D N insecure pol c) = Ok u \<longleftrightarrow>
     contains_str (to_lowercase (unicode_lowercase D) (trim (cc_format c))) ''jwt''
     \<and> (\<exists>jws header payload iss kid doc key. cc_payload c = JStr jws
       \<and> decode_jws_unverified D jws = Ok (header, payload)
       \<and> get_str payload ''iss'' = Some iss \<and> get_str header ''kid'' = Some kid
       \<and> is_ok (check_did D pol iss insecure) \<and> snd (resolve_did N iss insecure) = Ok doc
       \<and> find_verifying_key D doc kid = Ok key \<and> verify_jws_signature D jws key = Ok ())"
proof -
  have conv: "(if b then Ok () else Inl e) = Ok v \<longleftrightarrow> b" for b v and e :: 'x by simp
  have did: "is_ok (check_did D pol iss insecure) \<longleftrightarrow>
      (\<exists>url. did_web_to_url D iss insecure = Ok url \<and> allowed D pol url)" for iss
    by (simp add: is_ok_check_did check_did_Ok)
  have unit: "(x :: unit) = y" for x y by simp
  show ?thesis
    unfolding verify_container_proof_def did
    by (simp only: io_bind_Ok split_paired_Ex snd_io_map_err check_did_Ok snd_io_simps
        map_err_Ok ok_or_Ok prod.case conv as_str_Some) (auto; blast)
qed

lemma verify_container_proof_confined [hub_confined]:
  "resolves_through D N \<Longrightarrow> confined D pol (verify_container_proof D N insecure pol c)"
  unfolding verify_container_proof_def
  by (auto intro!: confined_bind confined_resolve split: prod.splits)

lemma validate_offer_confined [hub_confined]:
  "resolves_through D N \<Longrightarrow> confined D pol (validate_offer_credentials D N parse issuer credentials insecure pol)"
  unfolding validate_offer_credentials_def Let_def
  by (auto intro!: confined_bind confined_resolve simp: allowed_def split: prod.splits)

text \<open>
  What the Storage API lets in. A message's proofs and claims both pass exactly when every
  container is of a JWT format, decodes to a token signed by a key of its own issuer's DID document
  (resolved only through an allowed host), is labelled with one of its own types, comes from a trusted
  issuer when the static list applies, is about this service, and is inside its validity window; no
  host outside the allow-list is contacted on the way.
\<close>

theorem storage_validation_correct:
  fixes D :: "('d, 'k) dcp"
  assumes law: "resolves_through D N"
  shows "((is_ok (snd (verify_credential_proofs D N cs insecure pol)) \<and> is_ok (check_credential_claims D cs me trusted now))
     \<longleftrightarrow> (\<forall>c \<in> set cs. contains_str (to_lowercase (unicode_lowercase D) (trim (cc_format c))) ''jwt''
        \<and> (\<exists>jws header payload iss kid doc key. cc_payload c = JStr jws
          \<and> decode_jws_unverified D jws = Ok (header, payload)
          \<and> get_str payload ''iss'' = Some iss \<and> get_str header ''kid'' = Some kid
          \<and> is_ok (check_did D pol iss insecure) \<and> snd (resolve_did N iss insecure) = Ok doc
          \<and> find_verifying_key D doc kid = Ok key \<and> verify_jws_signature D jws key = Ok ()
          \<and> has_type payload (cc_type c) \<and> (\<forall>ts. trusted = Some ts \<longrightarrow> iss \<in> set ts)
          \<and> credential_subject payload = Some me \<and> is_within_validity payload now)))
   \<and> confined D pol (verify_credential_proofs D N cs insecure pol)"
proof -
  have okp: "is_ok r \<longleftrightarrow> r = Ok ()" for r :: "(unit, validation_error) result" by (cases r) auto
  have iss: "get_str payload ''iss'' = Some iss \<Longrightarrow> str_claim payload ''iss'' = iss" for payload iss
    by (simp add: str_claim_def)
  have each: "snd (verify_container_proof D N insecure pol c) = Ok () \<and> check_container D me trusted now c = Ok () \<longleftrightarrow>
      contains_str (to_lowercase (unicode_lowercase D) (trim (cc_format c))) ''jwt''
        \<and> (\<exists>jws header payload iss kid doc key. cc_payload c = JStr jws
          \<and> decode_jws_unverified D jws = Ok (header, payload)
          \<and> get_str payload ''iss'' = Some iss \<and> get_str header ''kid'' = Some kid
          \<and> is_ok (check_did D pol iss insecure) \<and> snd (resolve_did N iss insecure) = Ok doc
          \<and> find_verifying_key D doc kid = Ok key \<and> verify_jws_signature D jws key = Ok ()
          \<and> has_type payload (cc_type c) \<and> (\<forall>ts. trusted = Some ts \<longrightarrow> iss \<in> set ts)
          \<and> credential_subject payload = Some me \<and> is_within_validity payload now)" for c
    unfolding verify_container_proof_Ok check_container_Ok by (auto dest: iss) (use iss in blast)+
  have "confined D pol (verify_credential_proofs D N cs insecure pol)"
    unfolding verify_credential_proofs_def by (intro confined_each verify_container_proof_confined law)
  moreover have "(is_ok (snd (verify_credential_proofs D N cs insecure pol)) \<and> is_ok (check_credential_claims D cs me trusted now))
     \<longleftrightarrow> (\<forall>c \<in> set cs. snd (verify_container_proof D N insecure pol c) = Ok () \<and> check_container D me trusted now c = Ok ())"
    unfolding okp verify_credential_proofs_def io_each_Ok check_credential_claims_def try_each_Ok by blast
  ultimately show ?thesis unfolding each by blast
qed

text \<open>A membership credential the sample caller issued to this service.\<close>

definition sample_vc :: json where
  "sample_vc = json_obj [(''iss'', JStr ''did:web:caller.example''), (''sub'', JStr ''did:web:hub''),
     (''vc'', json_obj [(''type'', JArr [JStr ''VerifiableCredential'', JStr ''MembershipCredential''])]),
     (''nbf'', JNum (PosInt 1000)), (''exp'', JNum (PosInt 4600))]"

definition sample_vc_dcp :: "(string list, string) dcp" where
  "sample_vc_dcp = sample_dcp (\<lambda>t. if t = ''k1.vc''
     then Ok (json_obj [(''kid'', JStr ''k1'')], sample_vc) else Err ''not a JWS'')"

lemma sample_vc_resolves: "resolves_through sample_vc_dcp sample_network"
  unfolding sample_vc_dcp_def by (rule sample_resolves)

definition sample_container :: credential_container where
  "sample_container = \<lparr>cc_type = ''MembershipCredential'', cc_payload = JStr ''k1.vc'', cc_format = '' VC1_0_JWT''\<rparr>"

theorem storage_validation_correct_witness:
  "let pol = policy_new sample_vc_dcp [''caller.example''] in
   is_ok (snd (verify_credential_proofs sample_vc_dcp sample_network [sample_container] True pol))
   \<and> is_ok (check_credential_claims sample_vc_dcp [sample_container] ''did:web:hub'' (Some [''did:web:caller.example'']) 1010)"
proof -
  let ?pol = "policy_new sample_vc_dcp [''caller.example'']"
  have f: "contains_str (to_lowercase (unicode_lowercase sample_vc_dcp) (trim (cc_format sample_container))) ''jwt''"
    unfolding sample_vc_dcp_def sample_container_def by code_simp
  have did: "is_ok (check_did sample_vc_dcp ?pol ''did:web:caller.example'' True)"
    unfolding sample_vc_dcp_def by code_simp
  have "\<exists>jws header payload iss kid doc key. cc_payload sample_container = JStr jws
          \<and> decode_jws_unverified sample_vc_dcp jws = Ok (header, payload)
          \<and> get_str payload ''iss'' = Some iss \<and> get_str header ''kid'' = Some kid
          \<and> is_ok (check_did sample_vc_dcp ?pol iss True) \<and> snd (resolve_did sample_network iss True) = Ok doc
          \<and> find_verifying_key sample_vc_dcp doc kid = Ok key \<and> verify_jws_signature sample_vc_dcp jws key = Ok ()
          \<and> has_type payload (cc_type sample_container)
          \<and> (\<forall>ts. Some [''did:web:caller.example''] = Some ts \<longrightarrow> iss \<in> set ts)
          \<and> credential_subject payload = Some ''did:web:hub'' \<and> is_within_validity payload 1010"
    by (intro exI [of _ "''k1.vc''"] exI [of _ "json_obj [(''kid'', JStr ''k1'')]"] exI [of _ sample_vc]
        exI [of _ "''did:web:caller.example''"] exI [of _ "''k1''"] exI [of _ "[''k1'']"] conjI did)
      (simp_all add: sample_container_def sample_vc_dcp_def sample_dcp_def sample_network_def strip_prefix_def starts_with_def
        sample_vc_def has_type_def credential_subject_def is_within_validity_def CLOCK_SKEW_SECS_def u64_add_def u64_limit_def)
  with storage_validation_correct [OF sample_vc_resolves, of "[sample_container]" True ?pol "''did:web:hub''"
      "Some [''did:web:caller.example'']" 1010] f
  show ?thesis by (simp add: Let_def)
qed

text \<open>
  The validity window of a credential is decided by the claims that are unsigned integers: with
  an integral \<open>exp\<close> the credential lapses at it, with an integral \<open>nbf\<close> it starts at most the clock skew
  early. A \<open>exp\<close> of any other JSON form, such as a fractional NumericDate, is ignored, and the
  credential then never expires.
\<close>

theorem validity_window:
  "(get_u64 payload ''exp'' = Some e \<longrightarrow> (is_within_validity payload now \<longrightarrow> now < e))
   \<and> (get_u64 payload ''nbf'' = Some n \<longrightarrow> (is_within_validity payload now \<longrightarrow> n \<le> u64_add now CLOCK_SKEW_SECS))
   \<and> (\<forall>later. is_within_validity (json_obj [(''exp'', JNum (Float (2001 / 2)))]) later)"
  by (simp add: is_within_validity_def)

theorem validity_window_witness:
  "\<not> is_within_validity (json_obj [(''exp'', JNum (PosInt 1000))]) 1001
   \<and> is_within_validity (json_obj [(''exp'', JNum (Float (2001 / 2)))]) 1001"
proof -
  have "get_u64 (json_obj [(''exp'', JNum (PosInt 1000))]) ''exp'' = Some 1000" by simp
  with validity_window [of "json_obj [(''exp'', JNum (PosInt 1000))]" 1000 1001 0] show ?thesis by auto
qed

text \<open>
  An offer is accepted exactly when it names at least one credential and every entry given by id
  alone is in the catalog the offering issuer publishes, fetched from the service endpoint of its own
  DID document; a self-describing offer needs no network, and no host outside the allow-list is
  contacted.
\<close>

theorem offer_validation_correct:
  fixes D :: "('d, 'k) dcp"
  assumes law: "resolves_through D N"
  shows "(is_ok (snd (validate_offer_credentials D N parse issuer cs insecure pol)) \<longleftrightarrow> cs \<noteq> []
     \<and> ((\<exists>c \<in> set cs. co_credential_type c = None) \<longrightarrow>
        (\<exists>doc endpoint st body metadata. is_ok (check_did D pol issuer insecure) \<and> snd (resolve_did N issuer insecure) = Ok doc
          \<and> service_endpoint_url D doc ''IssuerService'' = Ok endpoint \<and> allowed D pol (endpoint @ ''/metadata'')
          \<and> http_get N (endpoint @ ''/metadata'') = Ok (st, body) \<and> 200 \<le> st \<and> st < 300 \<and> parse body = Ok metadata
          \<and> (\<forall>c \<in> set cs. co_credential_type c = None \<longrightarrow>
               (\<exists>supported. im_credentials_supported metadata = Some supported \<and> co_id c \<in> co_id ` set supported)))))
   \<and> confined D pol (validate_offer_credentials D N parse issuer cs insecure pol)
   \<and> ((\<forall>c \<in> set cs. co_credential_type c \<noteq> None) \<longrightarrow> fst (validate_offer_credentials D N parse issuer cs insecure pol) = [])"
proof (intro conjI)
  let ?sparse = "map co_id (filter (\<lambda>c. co_credential_type c = None) cs)"
  have okp: "is_ok r \<longleftrightarrow> r = Ok ()" for r :: "(unit, validation_error) result" by (cases r) auto
  have oko: "is_ok r \<longleftrightarrow> r = Ok ()" for r :: "(unit, outbound_error) result" by (cases r) auto
  have conv: "(if b then Ok () else Inl e) = Ok v \<longleftrightarrow> b" for b v and e :: validation_error by simp
  have sparse: "?sparse = [] \<longleftrightarrow> \<not> (\<exists>c \<in> set cs. co_credential_type c = None)"
    by (auto simp: filter_empty_conv)
  show "confined D pol (validate_offer_credentials D N parse issuer cs insecure pol)"
    by (rule validate_offer_confined [OF law])
  show "(\<forall>c \<in> set cs. co_credential_type c \<noteq> None) \<longrightarrow> fst (validate_offer_credentials D N parse issuer cs insecure pol) = []"
    by (auto simp: validate_offer_credentials_def Let_def io_pure_def filter_empty_conv)
  have url: "check_url D pol u = Ok v \<longleftrightarrow> allowed D pol u" for u v
    by (cases "check_url D pol u") (auto simp: allowed_def)
  have known: "(\<forall>i \<in> set ?sparse. i \<in> set (map co_id (case im_credentials_supported metadata of None \<Rightarrow> [] | Some cs \<Rightarrow> cs)))
    \<longleftrightarrow> (\<forall>c \<in> set cs. co_credential_type c = None \<longrightarrow>
               (\<exists>supported. im_credentials_supported metadata = Some supported \<and> co_id c \<in> co_id ` set supported))" for metadata
    by (cases "im_credentials_supported metadata") auto
  have body: "snd (validate_offer_credentials D N parse issuer cs insecure pol) = Ok () \<longleftrightarrow>
      (\<exists>doc endpoint st body metadata. is_ok (check_did D pol issuer insecure) \<and> snd (resolve_did N issuer insecure) = Ok doc
          \<and> service_endpoint_url D doc ''IssuerService'' = Ok endpoint \<and> allowed D pol (endpoint @ ''/metadata'')
          \<and> http_get N (endpoint @ ''/metadata'') = Ok (st, body) \<and> 200 \<le> st \<and> st < 300 \<and> parse body = Ok metadata
          \<and> (\<forall>i \<in> set ?sparse. i \<in> set (map co_id (case im_credentials_supported metadata of None \<Rightarrow> [] | Some cs \<Rightarrow> cs))))"
    if ne: "cs \<noteq> []" "?sparse \<noteq> []"
  proof -
    have "snd (validate_offer_credentials D N parse issuer cs insecure pol) = Ok () \<longleftrightarrow>
      (\<exists>doc endpoint st body metadata. (\<exists>u. did_web_to_url D issuer insecure = Ok u \<and> allowed D pol u) \<and> snd (resolve_did N issuer insecure) = Ok doc
          \<and> service_endpoint_url D doc ''IssuerService'' = Ok endpoint \<and> allowed D pol (endpoint @ ''/metadata'')
          \<and> http_get N (endpoint @ ''/metadata'') = Ok (st, body) \<and> 200 \<le> st \<and> st < 300 \<and> parse body = Ok metadata
          \<and> (\<forall>i \<in> set ?sparse. i \<in> set (map co_id (case im_credentials_supported metadata of None \<Rightarrow> [] | Some cs \<Rightarrow> cs))))"
      unfolding validate_offer_credentials_def Let_def if_not_P [OF ne(1)] if_not_P [OF ne(2)]
      by (simp only: io_bind_Ok split_paired_Ex snd_io_map_err check_did_Ok snd_io_simps
          map_err_Ok prod.case conv url try_each_Ok) auto
    then show ?thesis unfolding oko check_did_Ok .
  qed
  show "is_ok (snd (validate_offer_credentials D N parse issuer cs insecure pol)) \<longleftrightarrow> cs \<noteq> []
     \<and> ((\<exists>c \<in> set cs. co_credential_type c = None) \<longrightarrow>
        (\<exists>doc endpoint st body metadata. is_ok (check_did D pol issuer insecure) \<and> snd (resolve_did N issuer insecure) = Ok doc
          \<and> service_endpoint_url D doc ''IssuerService'' = Ok endpoint \<and> allowed D pol (endpoint @ ''/metadata'')
          \<and> http_get N (endpoint @ ''/metadata'') = Ok (st, body) \<and> 200 \<le> st \<and> st < 300 \<and> parse body = Ok metadata
          \<and> (\<forall>c \<in> set cs. co_credential_type c = None \<longrightarrow>
               (\<exists>supported. im_credentials_supported metadata = Some supported \<and> co_id c \<in> co_id ` set supported))))"
  proof (cases "cs = [] \<or> ?sparse = []")
    case True
    then have "snd (validate_offer_credentials D N parse issuer cs insecure pol) = (if cs = [] then Err EmptyCredentials else Ok ())"
      by (auto simp: validate_offer_credentials_def Let_def)
    with True sparse show ?thesis by auto
  next
    case False
    then have ne: "cs \<noteq> []" "?sparse \<noteq> []" by auto
    show ?thesis unfolding okp body [OF ne] known using ne sparse by auto
  qed
qed

theorem offer_validation_correct_witness:
  "let c = \<lparr>co_context = None, co_id = ''d1'', co_object_type = ''CredentialObject'', co_credential_type = Some ''T'',
     co_binding_methods = None, co_credential_schema = None, co_profile = None, co_issuance_policy = None, co_offer_reason = None\<rparr>
   in is_ok (snd (validate_offer_credentials sample_vc_dcp sample_network (\<lambda>_. Err []) ''did:web:x'' [c] True (policy_new sample_vc_dcp [])))
    \<and> \<not> is_ok (snd (validate_offer_credentials sample_vc_dcp sample_network (\<lambda>_. Err []) ''did:web:x'' [] True (policy_new sample_vc_dcp [])))"
  using offer_validation_correct [OF sample_vc_resolves, of "\<lambda>_. Err []" "''did:web:x''" _ True "policy_new sample_vc_dcp []"]
  by (simp add: Let_def)

end
