(* ===== verification/Registry_Trust.thy ===== *)
theory Registry_Trust
  imports Hub_Config Validation
begin

text \<open>
  Trust through the dataspace's trusted issuers registry (registry_trust.rs). The registry core is a
  dependency: its trust lists and its snapshot verification are the fields of the record \<open>trust_core\<close>,
  with \<open>'l\<close> the type of trust lists. The cached snapshot is threaded through the operations; the mutex
  around it is held for a whole refresh, so they do not interleave.
\<close>

record ('l, 'k) trust_core =
  tl_iat :: "'l \<Rightarrow> u64"
  tl_exp :: "'l \<Rightarrow> u64"
  tl_types :: "'l \<Rightarrow> string \<Rightarrow> string list option"
  tl_check :: "'l \<Rightarrow> string \<Rightarrow> string \<Rightarrow> u64 \<Rightarrow> bool \<times> string option"
  snapshot_kid :: "string \<Rightarrow> (string, string) result"
  verify_snapshot :: "string \<Rightarrow> string \<Rightarrow> 'k \<Rightarrow> u64 \<Rightarrow> ('l, string) result"

definition REFRESH_MARGIN_SECS :: u64 where
  "REFRESH_MARGIN_SECS = 30"

definition needs_refresh :: "u64 \<Rightarrow> u64 \<Rightarrow> u64 \<Rightarrow> u64 \<Rightarrow> bool" where
  "needs_refresh fetched_at iat expires now \<longleftrightarrow>
     (let lifetime = saturating_sub expires iat in
      now \<ge> saturating_add fetched_at (lifetime div 4) \<or> saturating_add now REFRESH_MARGIN_SECS \<ge> expires)"

record 'l cached =
  cached_list :: 'l
  fetched_at :: u64

type_synonym 'l registry_cache = "'l cached option"

definition snapshot_url :: "trusted_issuers_registry \<Rightarrow> string" where
  "snapshot_url src = trim_end_matches CHR ''/'' (reg_base_url src) @ ''/v1/snapshot''"

definition fetch ::
    "('d, 'k) dcp \<Rightarrow> 'd network \<Rightarrow> ('l, 'k) trust_core \<Rightarrow> 'k app \<Rightarrow> trusted_issuers_registry \<Rightarrow> u64
     \<Rightarrow> ('l, string) io" where
  "fetch D N T a src now =
     (let url = snapshot_url src; d = reg_did src; insecure = insecure_http (a_config a); pol = a_outbound a in
      io_bind (io_pure (map_err (\<lambda>e. url @ '': '' @ outbound_message e) (check_url D pol url))) (\<lambda>_.
      io_bind (io_contact url (map_err (\<lambda>e. ''GET '' @ url @ '': '' @ e) (http_get N url))) (\<lambda>(st, body).
      io_bind (io_pure (if is_success st then Ok () else Err (''GET '' @ url @ '': '' @ status_display D st))) (\<lambda>_.
      io_bind (io_pure (map_err (\<lambda>e. d @ '': '' @ outbound_message e) (check_did D pol d insecure))) (\<lambda>_.
      io_bind (io_map_err (\<lambda>e. ''resolving '' @ d @ '': '' @ e) (resolve_did N d insecure)) (\<lambda>doc.
      io_bind (io_pure (snapshot_kid T (trim body))) (\<lambda>kid.
      io_bind (io_pure (find_verifying_key D doc kid)) (\<lambda>key.
      io_pure (verify_snapshot T (trim body) d key now)))))))))"

definition trust_list ::
    "('d, 'k) dcp \<Rightarrow> 'd network \<Rightarrow> ('l, 'k) trust_core \<Rightarrow> 'k app \<Rightarrow> trusted_issuers_registry \<Rightarrow> u64
     \<Rightarrow> 'l registry_cache \<Rightarrow> ('l, string) io \<times> 'l registry_cache" where
  "trust_list D N T a src now cache =
     (if (case cache of None \<Rightarrow> False
          | Some c \<Rightarrow> \<not> needs_refresh (fetched_at c) (tl_iat T (cached_list c)) (tl_exp T (cached_list c)) now)
      then (io_pure (Ok (cached_list (the cache))), cache)
      else case fetch D N T a src now of
        (tr, Inr l) \<Rightarrow> ((tr, Ok l), Some \<lparr>cached_list = l, fetched_at = now\<rparr>)
      | (tr, Inl e) \<Rightarrow>
          (case cache of
             Some c \<Rightarrow> if now < tl_exp T (cached_list c) then ((tr, Ok (cached_list c)), cache) else ((tr, Err e), cache)
           | None \<Rightarrow> ((tr, Err e), cache)))"

text \<open>What a trust list says of an issuer and the types at stake.\<close>

definition list_decision ::
    "('l, 'k) trust_core \<Rightarrow> 'l \<Rightarrow> string \<Rightarrow> string list \<Rightarrow> u64 \<Rightarrow> (unit, auth_error) result" where
  "list_decision T l iss types now =
     (if types = [] then
        (if (case tl_types T l iss of None \<Rightarrow> False | Some ts \<Rightarrow> list_ex (\<lambda>t. fst (tl_check T l iss t now)) ts)
         then Ok () else Err (UntrustedIssuer iss))
      else try_each (\<lambda>t. if fst (tl_check T l iss t now) then Ok ()
        else Err (NotTrustedForType iss t (case snd (tl_check T l iss t now) of None \<Rightarrow> [] | Some r \<Rightarrow> r))) types)"

definition registry_check ::
    "('d, 'k) dcp \<Rightarrow> 'd network \<Rightarrow> ('l, 'k) trust_core \<Rightarrow> 'k app \<Rightarrow> trusted_issuers_registry \<Rightarrow> u64 \<Rightarrow> u64
     \<Rightarrow> string \<Rightarrow> string list \<Rightarrow> 'l registry_cache \<Rightarrow> (unit, auth_error) io \<times> 'l registry_cache" where
  "registry_check D N T a src now1 now2 iss types cache =
     (case trust_list D N T a src now1 cache of
        (m, cache') \<Rightarrow>
          (io_bind (io_map_err TrustRegistryUnavailable m) (\<lambda>l. io_pure (list_decision T l iss types now2)), cache'))"

text \<open>The step both inbound APIs use: the registry when there is one, else the static list.\<close>

definition check_issuer ::
    "('d, 'k) dcp \<Rightarrow> 'd network \<Rightarrow> ('l, 'k) trust_core \<Rightarrow> 'k app \<Rightarrow> u64 \<Rightarrow> u64
     \<Rightarrow> string \<Rightarrow> string list \<Rightarrow> 'l registry_cache \<Rightarrow> (unit, auth_error) io \<times> 'l registry_cache" where
  "check_issuer D N T a now1 now2 iss types cache =
     (case cfg_registry (a_config a) of
        Some src \<Rightarrow> registry_check D N T a src now1 now2 iss types cache
      | None \<Rightarrow> (io_pure (check_trusted_issuer (json_obj [(''iss'', JStr iss)]) (trusted_issuer_dids (a_config a))), cache))"

definition registry_configured :: "'k app \<Rightarrow> bool" where
  "registry_configured a \<longleftrightarrow> cfg_registry (a_config a) \<noteq> None"

section \<open>Confinement\<close>

lemma fetch_confined [hub_confined]:
  "resolves_through D N \<Longrightarrow> confined D (a_outbound a) (fetch D N T a src now)"
  unfolding fetch_def Let_def
  by (auto intro!: confined_bind confined_resolve simp: allowed_def split: prod.splits)

lemma trust_list_confined [hub_confined]:
  assumes "resolves_through D N"
  shows "confined D (a_outbound a) (fst (trust_list D N T a src now cache))"
  using fetch_confined [OF assms, of a T src now]
  by (auto simp: trust_list_def confined_def io_pure_def split: prod.splits sum.splits option.splits)

lemma check_issuer_confined [hub_confined]:
  assumes "resolves_through D N"
  shows "confined D (a_outbound a) (fst (check_issuer D N T a now1 now2 iss types cache))"
  using trust_list_confined [OF assms, of a T _ now1 cache]
  by (auto simp: check_issuer_def registry_check_def intro!: confined_bind split: prod.splits option.splits)
    (metis fst_conv)

section \<open>Freshness and provenance\<close>

text \<open>
  What the hub relies on of the registry core: a snapshot that verifies has not expired.
\<close>

definition snapshots_unexpired :: "('l, 'k) trust_core \<Rightarrow> bool" where
  "snapshots_unexpired T \<longleftrightarrow> (\<forall>token d key now l. verify_snapshot T token d key now = Ok l \<longrightarrow> now < tl_exp T l)"

text \<open>A trust list came from a snapshot that verified, for the registry's DID, when it was fetched.\<close>

definition verified_at :: "('l, 'k) trust_core \<Rightarrow> trusted_issuers_registry \<Rightarrow> 'l \<Rightarrow> u64 \<Rightarrow> bool" where
  "verified_at T src l now \<longleftrightarrow> (\<exists>token key. verify_snapshot T token (reg_did src) key now = Ok l)"

definition cache_ok :: "('l, 'k) trust_core \<Rightarrow> trusted_issuers_registry \<Rightarrow> 'l registry_cache \<Rightarrow> bool" where
  "cache_ok T src cache \<longleftrightarrow>
     (case cache of None \<Rightarrow> True | Some c \<Rightarrow> verified_at T src (cached_list c) (fetched_at c))"

lemma fresh_not_expired: "\<not> needs_refresh f i e now \<Longrightarrow> now < e"
  by (auto simp: needs_refresh_def Let_def saturating_add_def REFRESH_MARGIN_SECS_def)

lemma fresh_within_quarter: "\<not> needs_refresh f i e now \<Longrightarrow> now < f + (e - i) div 4"
  by (auto simp: needs_refresh_def Let_def saturating_add_def saturating_sub_def)

lemma fetch_Ok: "snd (fetch D N T a src now) = Ok l \<Longrightarrow> verified_at T src l now"
  unfolding fetch_def Let_def
  by (auto simp: io_bind_Ok verified_at_def)

text \<open>The cache of a hub, whose registry, if it has one, is fixed by its configuration.\<close>

definition trusted_cache :: "('l, 'k) trust_core \<Rightarrow> 'k app \<Rightarrow> 'l registry_cache \<Rightarrow> bool" where
  "trusted_cache T a cache \<longleftrightarrow> (\<forall>src. cfg_registry (a_config a) = Some src \<longrightarrow> cache_ok T src cache)"

lemma trust_list_cache_ok:
  "cache_ok T src cache \<Longrightarrow> cache_ok T src (snd (trust_list D N T a src now cache))"
  using fetch_Ok [of D N T a src now]
  by (auto simp: trust_list_def cache_ok_def split: if_splits sum.splits option.splits prod.splits)

lemma check_issuer_cache_ok [hub_inv]:
  "trusted_cache T a cache \<Longrightarrow> trusted_cache T a (snd (check_issuer D N T a now1 now2 iss types cache))"
  using trust_list_cache_ok [of T _ cache D N a now1]
  by (auto simp: trusted_cache_def check_issuer_def registry_check_def split: option.splits prod.splits) (metis snd_conv)

text \<open>
  C30. The registry fails closed and stays fresh. A trust list the hub decides by came from a snapshot
  that verified for the registry's own DID and has not expired; unless the refresh due at that moment
  has just failed, it was fetched less than a quarter of its lifetime before. With no such list every
  issuer is refused. An issuer passes exactly when that list trusts it for every type at stake, and the
  cache only ever holds verified snapshots.
\<close>

theorem registry_trust_correct:
  fixes D :: "('d, 'k) dcp"
  assumes law: "snapshots_unexpired T" and ok: "cache_ok T src cache"
    and run: "registry_check D N T a src now1 now2 iss types cache = (m, cache')"
  shows "cache_ok T src cache'
    \<and> (snd m = Ok () \<longleftrightarrow> (\<exists>l. snd (fst (trust_list D N T a src now1 cache)) = Ok l
         \<and> (if types = [] then \<exists>ts t. tl_types T l iss = Some ts \<and> t \<in> set ts \<and> fst (tl_check T l iss t now2)
            else \<forall>t \<in> set types. fst (tl_check T l iss t now2))))
    \<and> (\<forall>l. snd (fst (trust_list D N T a src now1 cache)) = Ok l \<longrightarrow>
         now1 < tl_exp T l
         \<and> (\<exists>t0. verified_at T src l t0
              \<and> (is_ok (snd (fetch D N T a src now1)) \<longrightarrow> t0 = now1 \<or> now1 < t0 + (tl_exp T l - tl_iat T l) div 4)))
    \<and> (\<not> is_ok (snd (fetch D N T a src now1)) \<and> (\<forall>c. cache = Some c \<longrightarrow> tl_exp T (cached_list c) \<le> now1)
        \<longrightarrow> (\<exists>e. snd m = Err (TrustRegistryUnavailable e)) \<and> cache' = cache)"
proof -
  obtain tr r where f: "fetch D N T a src now1 = (tr, r)" by fastforce
  obtain tl where tl: "trust_list D N T a src now1 cache = (tl, cache')"
    using run by (auto simp: registry_check_def split: prod.splits)
  have m: "snd m = (case snd tl of Inl e \<Rightarrow> Err (TrustRegistryUnavailable e) | Inr l \<Rightarrow> list_decision T l iss types now2)"
    using run tl by (auto simp: registry_check_def snd_io_bind split: sum.splits)
  have fetched: "verified_at T src l now1" if "r = Ok l" for l
    using fetch_Ok [of D N T a src now1 l] that f by simp
  have unexpired: "now1 < tl_exp T l" if "verified_at T src l now1" for l
    using law that by (auto simp: snapshots_unexpired_def verified_at_def)
  have "cache_ok T src cache'"
    using tl ok fetched by (auto simp: trust_list_def f cache_ok_def split: if_splits sum.splits option.splits)
  moreover have "list_decision T l iss types now2 = Ok () \<longleftrightarrow>
      (if types = [] then \<exists>ts t. tl_types T l iss = Some ts \<and> t \<in> set ts \<and> fst (tl_check T l iss t now2)
       else \<forall>t \<in> set types. fst (tl_check T l iss t now2))" for l
    by (auto simp: list_decision_def list_ex_iff split: option.splits)
  then have "snd m = Ok () \<longleftrightarrow> (\<exists>l. snd tl = Ok l
      \<and> (if types = [] then \<exists>ts t. tl_types T l iss = Some ts \<and> t \<in> set ts \<and> fst (tl_check T l iss t now2)
         else \<forall>t \<in> set types. fst (tl_check T l iss t now2)))"
    unfolding m by (cases "snd tl") simp_all
  moreover have "now1 < tl_exp T l \<and> (\<exists>t0. verified_at T src l t0
      \<and> (is_ok r \<longrightarrow> t0 = now1 \<or> now1 < t0 + (tl_exp T l - tl_iat T l) div 4))" if "snd tl = Ok l" for l
    using tl that ok fetched [THEN unexpired] fetched fresh_not_expired fresh_within_quarter
    by (auto simp: trust_list_def f cache_ok_def io_pure_def split: if_splits sum.splits option.splits)
  moreover have "(\<exists>e. snd m = Err (TrustRegistryUnavailable e)) \<and> cache' = cache"
    if "\<not> is_ok r" "\<forall>c. cache = Some c \<longrightarrow> tl_exp T (cached_list c) \<le> now1"
    using tl that unfolding m
    by (auto simp: trust_list_def f dest!: fresh_not_expired split: if_splits sum.splits option.splits)
  ultimately show ?thesis using f tl by simp
qed

text \<open>A registry whose snapshots live from 1000 to 2000 and accredit one issuer for one type.\<close>

definition sample_trust :: "(nat, string) trust_core" where
  "sample_trust = \<lparr>tl_iat = (\<lambda>l. l - 1000), tl_exp = (\<lambda>l. l),
     tl_types = (\<lambda>l iss. if iss = ''did:web:i'' then Some [''T''] else None),
     tl_check = (\<lambda>l iss t now. (iss = ''did:web:i'' \<and> t = ''T'', None)),
     snapshot_kid = (\<lambda>token. Ok token),
     verify_snapshot = (\<lambda>token d key now. if now < 2000 then Ok 2000 else Err ''expired'')\<rparr>"

lemma sample_trust_law: "snapshots_unexpired sample_trust"
  by (auto simp: snapshots_unexpired_def sample_trust_def split: if_splits)

lemma sample_fetch_fails: "\<not> is_ok (snd (fetch D sample_network T a src now))"
proof
  assume "is_ok (snd (fetch D sample_network T a src now))"
  then obtain l where "snd (fetch D sample_network T a src now) = Ok l"
    by (cases "snd (fetch D sample_network T a src now)") auto
  then show False by (auto simp: fetch_def Let_def io_bind_Ok sample_network_def)
qed

theorem registry_trust_correct_witness:
  "let D = sample_dcp (\<lambda>_. Err []); a = sample_app D (sample_config CredentialService);
       src = \<lparr>reg_base_url = ''http://registry.example/'', reg_did = ''did:web:registry.example''\<rparr>;
       cache = Some \<lparr>cached_list = 2000, fetched_at = 1000\<rparr>;
       check = (\<lambda>now types. snd (fst (registry_check D sample_network sample_trust a src now now ''did:web:i'' types cache)))
   in check 1100 [''T''] = Ok () \<and> check 1900 [''T''] = Ok () \<and> check 1100 [''U''] \<noteq> Ok ()
    \<and> (\<exists>e. check 2000 [''T''] = Err (TrustRegistryUnavailable e))"
proof -
  define D where "D = sample_dcp (\<lambda>_. Err [])"
  define a where "a = sample_app D (sample_config CredentialService)"
  define src where "src = \<lparr>reg_base_url = ''http://registry.example/'', reg_did = ''did:web:registry.example''\<rparr>"
  define cache where "cache = Some \<lparr>cached_list = 2000::nat, fetched_at = 1000\<rparr>"
  let ?r = "\<lambda>now types. registry_check D sample_network sample_trust a src now now ''did:web:i'' types cache"
  have ok: "cache_ok sample_trust src cache"
    by (auto simp: cache_ok_def cache_def verified_at_def sample_trust_def)
  have eq: "?r now types = (fst (?r now types), snd (?r now types))" for now types by simp
  note c = registry_trust_correct [OF sample_trust_law ok eq]
  have tl: "snd (fst (trust_list D sample_network sample_trust a src now cache)) = Ok 2000" if "now < 2000" for now
    using sample_fetch_fails [of D sample_trust a src now] that
    by (auto simp: trust_list_def cache_def sample_trust_def split: prod.splits sum.splits)
  have "snd (fst (?r now types)) = Ok () \<longleftrightarrow> types = [] \<or> set types \<subseteq> {''T''}" if "now < 2000" for now types
    using c [of now types] tl [OF that] by (auto simp: sample_trust_def)
  moreover have "\<exists>e. snd (fst (?r 2000 [''T''])) = Err (TrustRegistryUnavailable e)"
    using c [of 2000 "[''T'']"] sample_fetch_fails [of D sample_trust a src 2000]
    by (simp add: cache_def sample_trust_def)
  ultimately show ?thesis unfolding Let_def D_def [symmetric] a_def [symmetric] src_def [symmetric] cache_def [symmetric] by simp
qed

end
