(* ===== verification/Graph.thy ===== *)
theory Graph
  imports Json "HOL-Library.Product_Lexorder" "HOL-Library.Multiset"
begin

text \<open>
  The credential graph (identity-hub-graph: store.rs, model.rs, vocab.rs): accepted batches and offers
  decomposed into RDF triples, read back through SPARQL queries, and trimmed to a cap. The embedded
  store is a set of triples, kept here as a list without repetitions; a query is the list of its
  solutions by the SPARQL semantics of its text, in an order that is the engine's own unless the query
  says \<open>ORDER BY\<close>. Blank nodes are numbered in the order they are minted. Inserting a batch and
  trimming are one step here; UUIDs are arguments.
\<close>

section \<open>Data\<close>

record credential_entry =
  ce_type :: string
  ce_payload :: json
  ce_format :: string

record new_credential_batch =
  nb_issuer_pid :: string
  nb_holder_pid :: "string option"
  nb_status :: string
  nb_rejection_reason :: "string option"
  nb_credentials :: "credential_entry list"

record credential_batch =
  cb_id :: string
  cb_issuer_pid :: string
  cb_holder_pid :: "string option"
  cb_status :: string
  cb_rejection_reason :: "string option"
  cb_credentials :: "credential_entry list"

record offered_credential =
  oc_id :: string
  oc_type :: "string option"

record new_accepted_offer =
  no_issuer :: string
  no_credentials :: "offered_credential list"

record accepted_offer =
  ao_id :: string
  ao_issuer :: string
  ao_credentials :: "offered_credential list"

section \<open>Triples\<close>

definition vc :: "string \<Rightarrow> string" where
  "vc t = ''https://www.w3.org/2018/credentials#'' @ t"

definition rdf :: "string \<Rightarrow> string" where
  "rdf t = ''http://www.w3.org/1999/02/22-rdf-syntax-ns#'' @ t"

definition ds :: "string \<Rightarrow> string" where
  "ds t = ''https://ds42.org/ontologies/ds-identity-hub-rs#'' @ t"

text \<open>Terms: blank nodes, IRIs, plain literals and \<open>xsd:integer\<close> literals.\<close>

datatype rdf_term = BNode nat | Iri string | Lit string | IntLit nat

type_synonym triple = "nat \<times> string \<times> rdf_term"

fun literal_value :: "rdf_term \<Rightarrow> string option" where
  "literal_value (Lit s) = Some s"
| "literal_value (IntLit n) = Some (nat_to_string n)"
| "literal_value (Iri s) = Some s"
| "literal_value (BNode n) = None"

text \<open>The JSON library's printer and parser.\<close>

record serde =
  serde_print :: "json \<Rightarrow> string"
  serde_parse :: "string \<Rightarrow> json option"

definition decode_payload :: "serde \<Rightarrow> string \<Rightarrow> json" where
  "decode_payload S s = (case serde_parse S s of None \<Rightarrow> JStr s | Some v \<Rightarrow> v)"

definition MAX_CREDENTIAL_BATCHES :: nat where
  "MAX_CREDENTIAL_BATCHES = 2048"

definition MAX_ACCEPTED_OFFERS :: nat where
  "MAX_ACCEPTED_OFFERS = 2048"

record graph =
  triples :: "triple list"
  next_order :: u64
  next_blank :: nat

definition graph_open :: graph where
  "graph_open = \<lparr>triples = [], next_order = 0, next_blank = 0\<rparr>"

definition objs :: "triple list \<Rightarrow> nat \<Rightarrow> string \<Rightarrow> rdf_term list" where
  "objs ts s p = map (snd \<circ> snd) (filter (\<lambda>t. fst t = s \<and> fst (snd t) = p) ts)"

text \<open>\<open>OPTIONAL\<close>: the matches, or one solution that leaves the variables unbound.\<close>

definition optional :: "'a list \<Rightarrow> 'a option list" where
  "optional xs = (if xs = [] then [None] else map Some xs)"

fun insert_quad :: "triple \<Rightarrow> triple list \<Rightarrow> triple list" where
  "insert_quad t ts = (if t \<in> set ts then ts else ts @ [t])"

text \<open>\<open>ORDER BY\<close> on the values of \<open>ds:order\<close>: integers by value, unbound first.\<close>

fun order_key :: "rdf_term option \<Rightarrow> nat" where
  "order_key (Some (IntLit n)) = Suc n"
| "order_key _ = 0"

section \<open>Eviction\<close>

definition nodes_of_type :: "triple list \<Rightarrow> string \<Rightarrow> nat list" where
  "nodes_of_type ts cls = map fst (filter (\<lambda>t. snd t = (rdf ''type'', Iri cls)) ts)"

definition count_of_type :: "triple list \<Rightarrow> string \<Rightarrow> nat" where
  "count_of_type ts cls = length (nodes_of_type ts cls)"

text \<open>The subquery that picks the oldest nodes of a class.\<close>

definition oldest :: "triple list \<Rightarrow> string \<Rightarrow> nat \<Rightarrow> nat list" where
  "oldest ts cls n = map fst (take n (sort_key (\<lambda>(s, ord). order_key (Some ord))
     (concat (map (\<lambda>s. map (Pair s) (objs ts s (ds ''order''))) (nodes_of_type ts cls)))))"

definition children :: "triple list \<Rightarrow> string \<Rightarrow> nat list \<Rightarrow> nat list" where
  "children ts p ns = concat (map (\<lambda>s. List.map_filter
     (\<lambda>term. case term of BNode c \<Rightarrow> Some c | _ \<Rightarrow> None) (objs ts s p)) ns)"

definition trim_oldest :: "string \<Rightarrow> string \<Rightarrow> nat \<Rightarrow> triple list \<Rightarrow> triple list" where
  "trim_oldest cls child_predicate cap ts =
     (if count_of_type ts cls \<le> cap then ts
      else let ns = oldest ts cls (count_of_type ts cls - cap); cs = children ts child_predicate ns in
        filter (\<lambda>t. fst t \<notin> set ns \<and> fst t \<notin> set cs) ts)"

section \<open>Batches\<close>

text \<open>The triples of one credential of a batch: \<open>b\<close> the batch node, \<open>c\<close> its own, \<open>i\<close> its position.\<close>

definition credential_quads :: "serde \<Rightarrow> nat \<Rightarrow> nat \<Rightarrow> nat \<Rightarrow> credential_entry \<Rightarrow> triple list" where
  "credential_quads S b c i e =
     [(b, ds ''hasCredential'', BNode c),
      (c, rdf ''type'', Iri (vc ''VerifiableCredential'')),
      (c, ds ''order'', IntLit i),
      (c, ds ''credentialType'', Lit (ce_type e)),
      (c, ds ''format'', Lit (ce_format e)),
      (c, ds ''payload'', Lit (serde_print S (ce_payload e)))]"

definition opt_quad :: "nat \<Rightarrow> string \<Rightarrow> string option \<Rightarrow> triple list" where
  "opt_quad b p x = (case x of None \<Rightarrow> [] | Some v \<Rightarrow> [(b, p, Lit v)])"

fun each_quads :: "(nat \<Rightarrow> nat \<Rightarrow> 'e \<Rightarrow> triple list) \<Rightarrow> nat \<Rightarrow> nat \<Rightarrow> 'e list \<Rightarrow> triple list" where
  "each_quads f c i [] = []"
| "each_quads f c i (e # es) = f c i e @ each_quads f (Suc c) (Suc i) es"

definition batch_quads :: "serde \<Rightarrow> string \<Rightarrow> nat \<Rightarrow> u64 \<Rightarrow> new_credential_batch \<Rightarrow> triple list" where
  "batch_quads S i b ord nb =
     [(b, rdf ''type'', Iri (ds ''CredentialBatch'')),
      (b, ds ''batchId'', Lit i),
      (b, ds ''order'', IntLit ord),
      (b, ds ''issuerPid'', Lit (nb_issuer_pid nb)),
      (b, ds ''status'', Lit (nb_status nb))]
     @ opt_quad b (ds ''holderPid'') (nb_holder_pid nb)
     @ opt_quad b (ds ''rejectionReason'') (nb_rejection_reason nb)
     @ each_quads (credential_quads S b) (Suc b) 0 (nb_credentials nb)"

definition add_batch :: "serde \<Rightarrow> string \<Rightarrow> new_credential_batch \<Rightarrow> graph \<Rightarrow> string \<times> graph" where
  "add_batch S i nb g =
     (let ts = fold insert_quad (batch_quads S i (next_blank g) (next_order g) nb) (triples g) in
      (i, \<lparr>triples = trim_oldest (ds ''CredentialBatch'') (ds ''hasCredential'') MAX_CREDENTIAL_BATCHES ts,
           next_order = u64_add (next_order g) 1,
           next_blank = next_blank g + 1 + length (nb_credentials nb)\<rparr>))"

record batch_row =
  br_batch :: nat
  br_order :: rdf_term
  br_id :: rdf_term
  br_issuer :: rdf_term
  br_status :: rdf_term
  br_holder :: "rdf_term option"
  br_reason :: "rdf_term option"
  br_cred :: "(rdf_term \<times> rdf_term \<times> rdf_term \<times> rdf_term) option"

text \<open>The solutions of the third \<open>OPTIONAL\<close>: order, type, format and payload of each credential.\<close>

definition cred_rows :: "triple list \<Rightarrow> nat \<Rightarrow> (rdf_term \<times> rdf_term \<times> rdf_term \<times> rdf_term) list" where
  "cred_rows ts b = concat (map (\<lambda>x. case x of
       BNode c \<Rightarrow> [(co, ty, fm, pl). co \<leftarrow> objs ts c (ds ''order''), ty \<leftarrow> objs ts c (ds ''credentialType''),
          fm \<leftarrow> objs ts c (ds ''format''), pl \<leftarrow> objs ts c (ds ''payload'')]
     | _ \<Rightarrow> []) (objs ts b (ds ''hasCredential'')))"

definition rows_at :: "triple list \<Rightarrow> triple \<Rightarrow> batch_row list" where
  "rows_at ts t =
     (if fst (snd t) = ds ''order''
      then [\<lparr>br_batch = fst t, br_order = snd (snd t), br_id = bi, br_issuer = ip, br_status = st,
              br_holder = hp, br_reason = rr, br_cred = cr\<rparr>.
             bi \<leftarrow> objs ts (fst t) (ds ''batchId''), ip \<leftarrow> objs ts (fst t) (ds ''issuerPid''),
             st \<leftarrow> objs ts (fst t) (ds ''status''), hp \<leftarrow> optional (objs ts (fst t) (ds ''holderPid'')),
             rr \<leftarrow> optional (objs ts (fst t) (ds ''rejectionReason'')), cr \<leftarrow> optional (cred_rows ts (fst t))]
      else [])"

definition batch_rows :: "triple list \<Rightarrow> batch_row list" where
  "batch_rows ts = sort_key (\<lambda>r. (order_key (Some (br_order r)), order_key (map_option fst (br_cred r))))
     (concat (map (rows_at ts) ts))"

definition value_or_default :: "rdf_term option \<Rightarrow> string" where
  "value_or_default x = (case Option.bind x literal_value of None \<Rightarrow> [] | Some s \<Rightarrow> s)"

definition row_entry :: "serde \<Rightarrow> batch_row \<Rightarrow> credential_entry list" where
  "row_entry S r =
     (case br_cred r of
        None \<Rightarrow> []
      | Some (co, ty, fm, pl) \<Rightarrow>
          (case literal_value ty of
             None \<Rightarrow> []
           | Some ct \<Rightarrow> [\<lparr>ce_type = ct,
               ce_payload = (case literal_value pl of None \<Rightarrow> JNull | Some s \<Rightarrow> decode_payload S s),
               ce_format = value_or_default (Some fm)\<rparr>]))"

definition row_batch :: "batch_row \<Rightarrow> credential_batch" where
  "row_batch r = \<lparr>cb_id = value_or_default (Some (br_id r)), cb_issuer_pid = value_or_default (Some (br_issuer r)),
     cb_holder_pid = Option.bind (br_holder r) literal_value, cb_status = value_or_default (Some (br_status r)),
     cb_rejection_reason = Option.bind (br_reason r) literal_value, cb_credentials = []\<rparr>"

text \<open>Consecutive rows of one batch node make one batch.\<close>

fun group_rows :: "serde \<Rightarrow> (nat \<times> credential_batch) list \<Rightarrow> batch_row list \<Rightarrow> (nat \<times> credential_batch) list" where
  "group_rows S out [] = out"
| "group_rows S out (r # rs) =
     (let out' = (if out \<noteq> [] \<and> fst (last out) = br_batch r then out else out @ [(br_batch r, row_batch r)]);
          (n, b) = last out' in
      group_rows S (butlast out' @ [(n, b\<lparr>cb_credentials := cb_credentials b @ row_entry S r\<rparr>)]) rs)"

definition batches :: "serde \<Rightarrow> graph \<Rightarrow> credential_batch list" where
  "batches S g = map snd (group_rows S [] (batch_rows (triples g)))"

definition batch_by_id :: "serde \<Rightarrow> graph \<Rightarrow> string \<Rightarrow> credential_batch option" where
  "batch_by_id S g i = List.find (\<lambda>b. cb_id b = i) (batches S g)"

text \<open>
  The issued credentials of some types. The query has no \<open>ORDER BY\<close>: \<open>arrange\<close> is the order in which the
  engine delivers its solutions.
\<close>

definition issued_rows :: "triple list \<Rightarrow> (rdf_term \<times> rdf_term \<times> rdf_term) list" where
  "issued_rows ts = concat (map (\<lambda>(b, p, st).
     if p = ds ''status'' \<and> st = Lit ''ISSUED''
     then concat (map (\<lambda>x. case x of
        BNode c \<Rightarrow> [(ty, fm, pl). ty \<leftarrow> objs ts c (ds ''credentialType''), fm \<leftarrow> objs ts c (ds ''format''),
                      pl \<leftarrow> objs ts c (ds ''payload'')]
      | _ \<Rightarrow> []) (objs ts b (ds ''hasCredential'')))
     else []) ts)"

definition graph_credentials_of_types ::
    "serde \<Rightarrow> ((rdf_term \<times> rdf_term \<times> rdf_term) list \<Rightarrow> (rdf_term \<times> rdf_term \<times> rdf_term) list)
     \<Rightarrow> graph \<Rightarrow> string list \<Rightarrow> credential_entry list" where
  "graph_credentials_of_types S arrange g types = List.map_filter (\<lambda>(ty, fm, pl).
     case literal_value ty of
       None \<Rightarrow> None
     | Some t \<Rightarrow> if t \<in> set types
         then Some \<lparr>ce_type = t, ce_payload = (case literal_value pl of None \<Rightarrow> JNull | Some s \<Rightarrow> decode_payload S s),
                    ce_format = value_or_default (Some fm)\<rparr>
         else None) (arrange (issued_rows (triples g)))"

section \<open>Offers\<close>

definition offered_quads :: "nat \<Rightarrow> nat \<Rightarrow> nat \<Rightarrow> offered_credential \<Rightarrow> triple list" where
  "offered_quads b c i oc =
     [(b, ds ''offersCredential'', BNode c),
      (c, ds ''order'', IntLit i),
      (c, ds ''credentialId'', Lit (oc_id oc))] @ opt_quad c (ds ''credentialType'') (oc_type oc)"

definition offer_quads :: "string \<Rightarrow> nat \<Rightarrow> u64 \<Rightarrow> new_accepted_offer \<Rightarrow> triple list" where
  "offer_quads i b ord no =
     [(b, rdf ''type'', Iri (ds ''AcceptedCredentialOffer'')),
      (b, ds ''offerId'', Lit i),
      (b, ds ''order'', IntLit ord),
      (b, vc ''issuer'', Lit (no_issuer no))]
     @ each_quads (offered_quads b) (Suc b) 0 (no_credentials no)"

definition add_offer :: "string \<Rightarrow> new_accepted_offer \<Rightarrow> graph \<Rightarrow> string \<times> graph" where
  "add_offer i no g =
     (let ts = fold insert_quad (offer_quads i (next_blank g) (next_order g) no) (triples g) in
      (i, \<lparr>triples = trim_oldest (ds ''AcceptedCredentialOffer'') (ds ''offersCredential'') MAX_ACCEPTED_OFFERS ts,
           next_order = u64_add (next_order g) 1,
           next_blank = next_blank g + 1 + length (no_credentials no)\<rparr>))"

record offer_row =
  or_offer :: nat
  or_order :: rdf_term
  or_id :: rdf_term
  or_issuer :: rdf_term
  or_cred :: "(rdf_term \<times> rdf_term \<times> rdf_term option) option"

definition offered_rows :: "triple list \<Rightarrow> nat \<Rightarrow> (rdf_term \<times> rdf_term \<times> rdf_term option) list" where
  "offered_rows ts b = concat (map (\<lambda>x. case x of
       BNode c \<Rightarrow> [(co, ci, ct). co \<leftarrow> objs ts c (ds ''order''), ci \<leftarrow> objs ts c (ds ''credentialId''),
          ct \<leftarrow> optional (objs ts c (ds ''credentialType''))]
     | _ \<Rightarrow> []) (objs ts b (ds ''offersCredential'')))"

definition offer_rows_at :: "triple list \<Rightarrow> triple \<Rightarrow> offer_row list" where
  "offer_rows_at ts t =
     (if fst (snd t) = ds ''order''
      then [\<lparr>or_offer = fst t, or_order = snd (snd t), or_id = oi, or_issuer = ui, or_cred = cr\<rparr>.
             oi \<leftarrow> objs ts (fst t) (ds ''offerId''), ui \<leftarrow> objs ts (fst t) (vc ''issuer''),
             cr \<leftarrow> optional (offered_rows ts (fst t))]
      else [])"

definition offer_rows :: "triple list \<Rightarrow> offer_row list" where
  "offer_rows ts = sort_key (\<lambda>r. (order_key (Some (or_order r)), order_key (map_option fst (or_cred r))))
     (concat (map (offer_rows_at ts) ts))"

definition row_offered :: "offer_row \<Rightarrow> offered_credential list" where
  "row_offered r =
     (case or_cred r of
        None \<Rightarrow> []
      | Some (co, ci, ct) \<Rightarrow>
          (case literal_value ci of
             None \<Rightarrow> []
           | Some i \<Rightarrow> [\<lparr>oc_id = i, oc_type = Option.bind ct literal_value\<rparr>]))"

definition row_offer :: "offer_row \<Rightarrow> accepted_offer" where
  "row_offer r = \<lparr>ao_id = value_or_default (Some (or_id r)), ao_issuer = value_or_default (Some (or_issuer r)),
     ao_credentials = []\<rparr>"

fun group_offers :: "(nat \<times> accepted_offer) list \<Rightarrow> offer_row list \<Rightarrow> (nat \<times> accepted_offer) list" where
  "group_offers out [] = out"
| "group_offers out (r # rs) =
     (let out' = (if out \<noteq> [] \<and> fst (last out) = or_offer r then out else out @ [(or_offer r, row_offer r)]);
          (n, b) = last out' in
      group_offers (butlast out' @ [(n, b\<lparr>ao_credentials := ao_credentials b @ row_offered r\<rparr>)]) rs)"

definition offers :: "graph \<Rightarrow> accepted_offer list" where
  "offers g = map snd (group_offers [] (offer_rows (triples g)))"

definition offer_by_id :: "graph \<Rightarrow> string \<Rightarrow> accepted_offer option" where
  "offer_by_id g i = List.find (\<lambda>b. ao_id b = i) (offers g)"

end
