(* ===== verification/Graph_Store.thy ===== *)
theory Graph_Store
  imports Graph
begin

text \<open>
  The credential graph implements two bounded queues: what \<open>batches\<close> and \<open>offers\<close> read back is the last
  batches and offers written, in order. The triples of a graph are those of a list of nodes laid out
  one after the other; the queries and the eviction are computed on that list.
\<close>

section \<open>Nodes\<close>

datatype gnode =
    BatchN (node_blank: nat) (node_order: u64) (node_id: string) (node_batch: new_credential_batch)
  | OfferN (node_blank: nat) (node_order: u64) (node_id: string) (node_offer: new_accepted_offer)

fun is_batch :: "gnode \<Rightarrow> bool" where
  "is_batch (BatchN _ _ _ _) = True"
| "is_batch (OfferN _ _ _ _) = False"

fun node_size :: "gnode \<Rightarrow> nat" where
  "node_size (BatchN _ _ _ nb) = Suc (length (nb_credentials nb))"
| "node_size (OfferN _ _ _ no) = Suc (length (no_credentials no))"

fun node_quads :: "serde \<Rightarrow> gnode \<Rightarrow> triple list" where
  "node_quads S (BatchN b ord i nb) = batch_quads S i b ord nb"
| "node_quads S (OfferN b ord i no) = offer_quads i b ord no"

definition owns :: "gnode \<Rightarrow> nat \<Rightarrow> bool" where
  "owns e s \<longleftrightarrow> node_blank e \<le> s \<and> s < node_blank e + node_size e"

definition before :: "gnode \<Rightarrow> gnode \<Rightarrow> bool" where
  "before e f \<longleftrightarrow> node_blank e + node_size e \<le> node_blank f \<and> node_order e < node_order f"

definition represents :: "serde \<Rightarrow> graph \<Rightarrow> gnode list \<Rightarrow> bool" where
  "represents S g es \<longleftrightarrow> triples g = concat (map (node_quads S) es) \<and> sorted_wrt before es
     \<and> (\<forall>e \<in> set es. node_blank e + node_size e \<le> next_blank g \<and> node_order e < next_order g)"

section \<open>Vocabulary\<close>

lemma iri_simps [simp]:
  "ds a = ds b \<longleftrightarrow> a = b" "rdf a \<noteq> ds b" "ds b \<noteq> rdf a" "vc a \<noteq> ds b" "ds b \<noteq> vc a" "rdf a \<noteq> vc b" "vc b \<noteq> rdf a"
  by (simp_all add: ds_def rdf_def vc_def)

section \<open>Triples of a node\<close>

lemma objs_simps [simp]:
  "objs [] s p = []"
  "objs (t # ts) s p = (if fst t = s \<and> fst (snd t) = p then snd (snd t) # objs ts s p else objs ts s p)"
  "objs (ts @ us) s p = objs ts s p @ objs us s p"
  by (simp_all add: objs_def)

lemma objs_Nil: "(\<And>t. t \<in> set ts \<Longrightarrow> fst t \<noteq> s \<or> fst (snd t) \<noteq> p) \<Longrightarrow> objs ts s p = []"
  by (fastforce simp: objs_def filter_empty_conv)

lemma mem_objs: "x \<in> set (objs ts s p) \<longleftrightarrow> (s, p, x) \<in> set ts"
  by (force simp: objs_def)

lemma node_size_pos [simp]: "0 < node_size e"
  by (cases e) auto

text \<open>A family of child triples is about the parent \<open>b\<close> and the child itself.\<close>

definition child_family :: "nat \<Rightarrow> (nat \<Rightarrow> nat \<Rightarrow> 'e \<Rightarrow> triple list) \<Rightarrow> bool" where
  "child_family b f \<longleftrightarrow> (\<forall>c i e. \<forall>t \<in> set (f c i e). fst t = b \<or> fst t = c)"

lemma child_familyD: "child_family b f \<Longrightarrow> t \<in> set (f c i e) \<Longrightarrow> fst t = b \<or> fst t = c"
  by (auto simp: child_family_def)

lemma child_families [simp]: "child_family b (credential_quads S b)" "child_family b (offered_quads b)"
  by (auto simp: child_family_def credential_quads_def offered_quads_def opt_quad_def split: option.splits)

lemma each_quads_subject:
  assumes "child_family b f"
  shows "t \<in> set (each_quads f c i es) \<Longrightarrow> fst t \<noteq> b \<Longrightarrow> c \<le> fst t \<and> fst t < c + length es"
proof (induction es arbitrary: c i)
  case (Cons e es)
  from Cons.prems(1) consider "t \<in> set (f c i e)" | "t \<in> set (each_quads f (Suc c) (Suc i) es)" by auto
  then show ?case
  proof cases
    case 1
    with child_familyD [OF assms 1] Cons.prems(2) show ?thesis by simp
  next
    case 2
    from Cons.IH [OF 2 Cons.prems(2)] show ?thesis by simp
  qed
qed simp

lemma node_quads_owned: "t \<in> set (node_quads S e) \<Longrightarrow> owns e (fst t)"
proof (cases "fst t = node_blank e")
  case False
  assume t: "t \<in> set (node_quads S e)"
  show ?thesis
  proof (cases e)
    case (BatchN b ord i nb)
    with t False have "t \<in> set (each_quads (credential_quads S b) (Suc b) 0 (nb_credentials nb))"
      by (auto simp: batch_quads_def opt_quad_def split: option.splits)
    with False BatchN show ?thesis by (auto simp: owns_def dest!: each_quads_subject [OF child_families(1)])
  next
    case (OfferN b ord i no)
    with t False have "t \<in> set (each_quads (offered_quads b) (Suc b) 0 (no_credentials no))"
      by (auto simp: offer_quads_def)
    with False OfferN show ?thesis by (auto simp: owns_def dest!: each_quads_subject [OF child_families(2)])
  qed
qed (simp add: owns_def)

lemma before_disjoint: "before e f \<Longrightarrow> owns e s \<Longrightarrow> \<not> owns f s"
  by (auto simp: before_def owns_def)

lemma owner_unique:
  "sorted_wrt before es \<Longrightarrow> e \<in> set es \<Longrightarrow> f \<in> set es \<Longrightarrow> owns e s \<Longrightarrow> owns f s \<Longrightarrow> e = f"
  by (induction es) (auto dest: before_disjoint)

text \<open>A query on a node's own subjects sees its own triples only.\<close>

lemma objs_node:
  assumes "sorted_wrt before es" "e \<in> set es" "owns e s"
  shows "objs (concat (map (node_quads S) es)) s p = objs (node_quads S e) s p"
proof -
  from assms(2) obtain xs ys where es: "es = xs @ e # ys" by (meson split_list)
  have other: "\<not> owns f s" if "f \<in> set xs \<or> f \<in> set ys" for f
    using assms that unfolding es by (auto simp: sorted_wrt_append dest: before_disjoint)
  have "objs (concat (map (node_quads S) zs)) s p = []" if "set zs \<subseteq> set xs \<union> set ys" for zs
  proof (rule objs_Nil)
    fix t assume "t \<in> set (concat (map (node_quads S) zs))"
    then obtain f where "f \<in> set zs" "owns f (fst t)" by (auto dest: node_quads_owned)
    with that other [of f] show "fst t \<noteq> s \<or> fst (snd t) \<noteq> p" by auto
  qed
  then show ?thesis by (simp add: es)
qed

text \<open>The triples of the \<open>k\<close>-th child of a node.\<close>

lemma objs_each_other:
  assumes "child_family b f" "s \<noteq> b" "s < c \<or> c + length es \<le> s"
  shows "objs (each_quads f c i es) s p = []"
proof (rule objs_Nil)
  fix t assume "t \<in> set (each_quads f c i es)"
  with each_quads_subject [OF assms(1) this] assms(2,3) show "fst t \<noteq> s \<or> fst (snd t) \<noteq> p" by auto
qed

lemma objs_each_child:
  assumes "child_family b f"
  shows "k < length es \<Longrightarrow> b < c \<Longrightarrow> objs (each_quads f c i es) (c + k) p = objs (f (c + k) (i + k) (es ! k)) (c + k) p"
proof (induction es arbitrary: c i k)
  case (Cons e es)
  show ?case
  proof (cases k)
    case 0
    with Cons.prems objs_each_other [OF assms, of c "Suc c" es "Suc i" p] show ?thesis by simp
  next
    case (Suc k')
    have "objs (f c i e) (c + k) p = []"
      using child_familyD [OF assms, of _ c i e] Cons.prems Suc by (intro objs_Nil) fastforce
    with Suc Cons.prems Cons.IH [of k' "Suc c" "Suc i"] show ?thesis by simp
  qed
qed simp

lemma objs_each_parent:
  assumes "\<And>c i e. b < c \<Longrightarrow> objs (f c i e) b p = g c"
  shows "b < c \<Longrightarrow> objs (each_quads f c i es) b p = concat (map g [c..<c + length es])"
proof (induction es arbitrary: c i)
  case (Cons e es)
  have "[c..<c + length (e # es)] = c # [Suc c..<Suc c + length es]" by (simp add: upt_conv_Cons del: upt_Suc)
  with Cons show ?case by (simp add: assms del: upt_Suc)
qed simp

lemma objs_opt_quad [simp]:
  "objs (opt_quad b q x) s p = (case x of None \<Rightarrow> [] | Some v \<Rightarrow> if b = s \<and> q = p then [Lit v] else [])"
  by (auto simp: opt_quad_def split: option.splits)

lemma concat_singleton: "concat (map (\<lambda>c. [h c]) xs) = map h xs"
  by (induction xs) auto

lemma objs_batch_node:
  "objs (batch_quads S i b ord nb) b p =
     (if p = rdf ''type'' then [Iri (ds ''CredentialBatch'')]
      else if p = ds ''batchId'' then [Lit i] else if p = ds ''order'' then [IntLit ord]
      else if p = ds ''issuerPid'' then [Lit (nb_issuer_pid nb)] else if p = ds ''status'' then [Lit (nb_status nb)]
      else if p = ds ''holderPid'' then (case nb_holder_pid nb of None \<Rightarrow> [] | Some h \<Rightarrow> [Lit h])
      else if p = ds ''rejectionReason'' then (case nb_rejection_reason nb of None \<Rightarrow> [] | Some h \<Rightarrow> [Lit h])
      else if p = ds ''hasCredential'' then map BNode [Suc b..<Suc b + length (nb_credentials nb)] else [])"
proof -
  have "objs (each_quads (credential_quads S b) (Suc b) 0 es) b p
      = concat (map (\<lambda>c. if p = ds ''hasCredential'' then [BNode c] else []) [Suc b..<Suc b + length es])" for es
    by (rule objs_each_parent) (auto simp: credential_quads_def)
  then show ?thesis by (auto simp: batch_quads_def concat_singleton split: option.splits)
qed

lemma objs_batch_child:
  assumes "k < length (nb_credentials nb)"
  shows "objs (batch_quads S i b ord nb) (Suc (b + k)) p = objs (credential_quads S b (Suc (b + k)) k (nb_credentials nb ! k)) (Suc (b + k)) p"
  using objs_each_child [OF child_families(1), of k "nb_credentials nb" b "Suc b" S 0 p] assms
  by (auto simp: batch_quads_def split: option.splits)

lemma objs_offer_node:
  "objs (offer_quads i b ord no) b p =
     (if p = rdf ''type'' then [Iri (ds ''AcceptedCredentialOffer'')]
      else if p = ds ''offerId'' then [Lit i] else if p = ds ''order'' then [IntLit ord]
      else if p = vc ''issuer'' then [Lit (no_issuer no)]
      else if p = ds ''offersCredential'' then map BNode [Suc b..<Suc b + length (no_credentials no)] else [])"
proof -
  have "objs (each_quads (offered_quads b) (Suc b) 0 es) b p
      = concat (map (\<lambda>c. if p = ds ''offersCredential'' then [BNode c] else []) [Suc b..<Suc b + length es])" for es
    by (rule objs_each_parent) (auto simp: offered_quads_def split: option.splits)
  then show ?thesis by (auto simp: offer_quads_def concat_singleton)
qed

lemma objs_offer_child:
  assumes "k < length (no_credentials no)"
  shows "objs (offer_quads i b ord no) (Suc (b + k)) p = objs (offered_quads b (Suc (b + k)) k (no_credentials no ! k)) (Suc (b + k)) p"
  using objs_each_child [OF child_families(2), of k "no_credentials no" b "Suc b" 0 p] assms
  by (auto simp: offer_quads_def)

lemma owns_cases:
  assumes "owns e s"
  obtains "s = node_blank e" | k where "s = Suc (node_blank e + k)" "Suc k < node_size e"
proof (cases "s = node_blank e")
  case False
  with assms have "s = Suc (node_blank e + (s - Suc (node_blank e)))" "Suc (s - Suc (node_blank e)) < node_size e"
    by (auto simp: owns_def)
  then show ?thesis by (rule that(2))
qed (rule that(1))

section \<open>Eviction\<close>

lemma filter_drop: "distinct xs \<Longrightarrow> filter (\<lambda>x. x \<notin> set (take k xs)) xs = drop k xs"
proof -
  assume "distinct xs"
  then have d: "set (take k xs) \<inter> set (drop k xs) = {}" by (metis append_take_drop_id distinct_append)
  have "filter (\<lambda>x. x \<notin> set (take k xs)) (take k xs @ drop k xs) = drop k xs"
    using d by (subst filter_append) (auto simp: filter_empty_conv filter_id_conv)
  then show ?thesis by simp
qed

lemma before_distinct: "sorted_wrt before es \<Longrightarrow> distinct es"
  by (induction es) (auto simp: before_def)

lemma before_sorted: "sorted_wrt before es \<Longrightarrow> sorted (map (Suc \<circ> node_order) es)"
  by (induction es) (auto simp: before_def)

text \<open>
  What eviction needs of a kind of node: which class marks it, under which predicate its children hang,
  and that its own order is its only one.
\<close>

locale graph_class =
  fixes S :: serde and cls childp :: string and member :: "gnode \<Rightarrow> bool"
  assumes typed: "nodes_of_type (node_quads S e) cls = (if member e then [node_blank e] else [])"
    and ordered: "objs (node_quads S e) (node_blank e) (ds ''order'') = [IntLit (node_order e)]"
    and kids: "member e \<Longrightarrow> children (node_quads S e) childp [node_blank e]
      = [Suc (node_blank e)..<node_blank e + node_size e]"
begin

lemma nodes_eq: "nodes_of_type (concat (map (node_quads S) es)) cls = map node_blank (filter member es)"
proof (induction es)
  case (Cons e es)
  then show ?case using typed [of e] by (simp add: nodes_of_type_def)
qed (simp add: nodes_of_type_def)

lemma oldest_eq:
  assumes "sorted_wrt before es"
  shows "oldest (concat (map (node_quads S) es)) cls n = map node_blank (take n (filter member es))"
proof -
  let ?ts = "concat (map (node_quads S) es)"
  let ?pair = "\<lambda>e. (node_blank e, IntLit (node_order e))"
  have one: "objs ?ts (node_blank e) (ds ''order'') = [IntLit (node_order e)]" if "e \<in> set es" for e
    using objs_node [OF assms that, of "node_blank e" S "ds ''order''"] ordered by (simp add: owns_def)
  have gen: "concat (map (\<lambda>s. map (Pair s) (objs ?ts s (ds ''order''))) (map node_blank fs)) = map ?pair fs"
    if "set fs \<subseteq> set es" for fs
    using that one by (induction fs) auto
  have pairs: "concat (map (\<lambda>s. map (Pair s) (objs ?ts s (ds ''order''))) (map node_blank (filter member es)))
      = map ?pair (filter member es)" by (rule gen) auto
  have "sorted (map (Suc \<circ> node_order) (filter member es))"
    using before_sorted sorted_wrt_filter assms by blast
  then have "sort_key (\<lambda>(s, ord). order_key (Some ord)) (map ?pair (filter member es)) = map ?pair (filter member es)"
    by (intro sort_key_id_if_sorted) (simp add: comp_def)
  then show ?thesis unfolding oldest_def nodes_eq pairs by (simp add: take_map)
qed

lemma children_eq:
  assumes "sorted_wrt before es" and "set fs \<subseteq> set es" and "\<forall>f \<in> set fs. member f"
  shows "children (concat (map (node_quads S) es)) childp (map node_blank fs)
    = concat (map (\<lambda>f. [Suc (node_blank f)..<node_blank f + node_size f]) fs)"
proof -
  have "objs (concat (map (node_quads S) es)) (node_blank f) childp = objs (node_quads S f) (node_blank f) childp"
    if "f \<in> set fs" for f
    using objs_node [OF assms(1), of f "node_blank f"] that assms(2) by (auto simp: owns_def)
  then have "children (concat (map (node_quads S) es)) childp [node_blank f] = [Suc (node_blank f)..<node_blank f + node_size f]"
    if "f \<in> set fs" for f
    using kids [of f] that assms(3) by (simp add: children_def)
  then show ?thesis by (simp add: children_def comp_def cong: map_cong)
qed

lemma trim_eq:
  assumes "sorted_wrt before es"
  shows "trim_oldest cls childp cap (concat (map (node_quads S) es)) =
    concat (map (node_quads S) (filter (\<lambda>e. e \<notin> set (take (length (filter member es) - cap) (filter member es))) es))"
proof -
  let ?ts = "concat (map (node_quads S) es)"
  let ?ms = "filter member es"
  let ?gone = "take (length ?ms - cap) ?ms"
  have sub: "set ?gone \<subseteq> set es" "\<forall>f \<in> set ?gone. member f" by (auto dest: in_set_takeD)
  have owned: "s \<in> set (map node_blank ?gone) \<or> s \<in> set (concat (map (\<lambda>f. [Suc (node_blank f)..<node_blank f + node_size f]) ?gone))
      \<longleftrightarrow> (\<exists>f \<in> set ?gone. owns f s)" for s
  proof -
    have "owns f s \<longleftrightarrow> s = node_blank f \<or> s \<in> set [Suc (node_blank f)..<node_blank f + node_size f]" for f
      using node_size_pos [of f] by (auto simp: owns_def)
    then show ?thesis by auto
  qed
  have part: "filter (\<lambda>t. \<not> (\<exists>f \<in> set ?gone. owns f (fst t))) (node_quads S e) = (if e \<in> set ?gone then [] else node_quads S e)"
    if "e \<in> set es" for e
  proof (cases "e \<in> set ?gone")
    case True
    then show ?thesis by (auto simp: filter_empty_conv dest: node_quads_owned)
  next
    case False
    have "\<not> owns f (fst t)" if "t \<in> set (node_quads S e)" "f \<in> set ?gone" for t f
      using owner_unique [OF assms \<open>e \<in> set es\<close> _ node_quads_owned [OF that(1)], of f] that(2) sub(1) False by blast
    with False show ?thesis by (auto simp: filter_id_conv)
  qed
  have "filter (\<lambda>t. \<not> (\<exists>f \<in> set ?gone. owns f (fst t))) (concat (map (node_quads S) fs))
      = concat (map (node_quads S) (filter (\<lambda>e. e \<notin> set ?gone) fs))" if "set fs \<subseteq> set es" for fs
    using that part by (induction fs) simp_all
  then have "filter (\<lambda>t. \<not> (\<exists>f \<in> set ?gone. owns f (fst t))) ?ts
      = concat (map (node_quads S) (filter (\<lambda>e. e \<notin> set ?gone) es))" by blast
  moreover have "(\<lambda>t::triple. fst t \<notin> set (map node_blank ?gone)
        \<and> fst t \<notin> set (concat (map (\<lambda>f. [Suc (node_blank f)..<node_blank f + node_size f]) ?gone)))
      = (\<lambda>t. \<not> (\<exists>f \<in> set ?gone. owns f (fst t)))"
    by (rule ext) (simp only: owned [symmetric] de_Morgan_disj)
  ultimately have "filter (\<lambda>t. fst t \<notin> set (map node_blank ?gone)
        \<and> fst t \<notin> set (concat (map (\<lambda>f. [Suc (node_blank f)..<node_blank f + node_size f]) ?gone))) ?ts
      = concat (map (node_quads S) (filter (\<lambda>e. e \<notin> set ?gone) es))" by simp
  then show ?thesis
    unfolding trim_oldest_def count_of_type_def nodes_eq length_map oldest_eq [OF assms] Let_def children_eq [OF assms sub]
    by (cases "length ?ms \<le> cap") simp_all
qed

lemma trim_members:
  assumes "sorted_wrt before es"
    and kept_def: "kept = filter (\<lambda>e. e \<notin> set (take (length (filter member es) - cap) (filter member es))) es"
  shows "filter member kept = drop (length (filter member es) - cap) (filter member es)"
    and "filter (\<lambda>e. \<not> member e) kept = filter (\<lambda>e. \<not> member e) es"
    and "sorted_wrt before kept"
proof -
  have "distinct (filter member es)" using before_distinct [OF assms(1)] by simp
  from filter_drop [OF this]
  show "filter member kept = drop (length (filter member es) - cap) (filter member es)"
    unfolding kept_def filter_filter by (simp add: conj_commute)
  show "filter (\<lambda>e. \<not> member e) kept = filter (\<lambda>e. \<not> member e) es"
    unfolding kept_def filter_filter by (rule filter_cong) (auto dest: in_set_takeD)
  show "sorted_wrt before kept" unfolding kept_def using assms(1) by (rule sorted_wrt_filter)
qed

end

section \<open>The two kinds of node\<close>

lemma nodes_of_type_simps [simp]:
  "nodes_of_type [] cls = []"
  "nodes_of_type (t # ts) cls = (if snd t = (rdf ''type'', Iri cls) then fst t # nodes_of_type ts cls else nodes_of_type ts cls)"
  "nodes_of_type (ts @ us) cls = nodes_of_type ts cls @ nodes_of_type us cls"
  by (simp_all add: nodes_of_type_def)

lemma nodes_opt_quad [simp]: "nodes_of_type (opt_quad b (ds p) x) cls = []"
  by (simp add: opt_quad_def split: option.splits)

lemma nodes_each_credential [simp]: "nodes_of_type (each_quads (credential_quads S b) c i es) (ds cls) = []"
  by (induction es arbitrary: c i) (simp_all add: credential_quads_def)

lemma nodes_each_offered [simp]: "nodes_of_type (each_quads (offered_quads b) c i es) (ds cls) = []"
  by (induction es arbitrary: c i) (simp_all add: offered_quads_def)

lemma children_BNode: "objs ts s p = map BNode cs \<Longrightarrow> children ts p [s] = cs"
  by (simp add: children_def List.map_filter_def comp_def)

interpretation batch_class: graph_class S "ds ''CredentialBatch''" "ds ''hasCredential''" is_batch for S
proof unfold_locales
  fix e show "nodes_of_type (node_quads S e) (ds ''CredentialBatch'') = (if is_batch e then [node_blank e] else [])"
    by (cases e) (simp_all add: batch_quads_def offer_quads_def)
next
  fix e show "objs (node_quads S e) (node_blank e) (ds ''order'') = [IntLit (node_order e)]"
    by (cases e) (simp_all add: objs_batch_node objs_offer_node)
next
  fix e assume "is_batch e"
  then show "children (node_quads S e) (ds ''hasCredential'') [node_blank e] = [Suc (node_blank e)..<node_blank e + node_size e]"
    by (cases e) (auto intro!: children_BNode simp: objs_batch_node simp del: upt_Suc)
qed

interpretation offer_class: graph_class S "ds ''AcceptedCredentialOffer''" "ds ''offersCredential''" "\<lambda>e. \<not> is_batch e" for S
proof unfold_locales
  fix e show "nodes_of_type (node_quads S e) (ds ''AcceptedCredentialOffer'') = (if \<not> is_batch e then [node_blank e] else [])"
    by (cases e) (simp_all add: batch_quads_def offer_quads_def)
next
  fix e show "objs (node_quads S e) (node_blank e) (ds ''order'') = [IntLit (node_order e)]"
    by (rule batch_class.ordered)
next
  fix e assume "\<not> is_batch e"
  then show "children (node_quads S e) (ds ''offersCredential'') [node_blank e] = [Suc (node_blank e)..<node_blank e + node_size e]"
    by (cases e) (auto intro!: children_BNode simp: objs_offer_node simp del: upt_Suc)
qed

section \<open>Insertion\<close>

lemma fold_insert_quad: "distinct qs \<Longrightarrow> set qs \<inter> set ts = {} \<Longrightarrow> fold insert_quad qs ts = ts @ qs"
  by (induction qs arbitrary: ts) auto

lemma distinct_each_quads:
  assumes f: "child_family b f" and d: "\<And>c i e. b < c \<Longrightarrow> distinct (f c i e)"
    and link: "\<And>c i e t. b < c \<Longrightarrow> t \<in> set (f c i e) \<Longrightarrow> fst t = b \<Longrightarrow> snd (snd t) = BNode c"
  shows "b < c \<Longrightarrow> distinct (each_quads f c i es)"
proof (induction es arbitrary: c i)
  case (Cons e es)
  have later: "\<exists>c' \<ge> c. snd (snd t) = BNode c'" if "t \<in> set (each_quads f c i es)" "fst t = b" "b < c" for t c i and es
    using that
  proof (induction es arbitrary: c i)
    case (Cons e es)
    then show ?case using link [of c t i e] Cons.IH [of "Suc c" "Suc i"] by fastforce
  qed simp
  have "t \<notin> set (each_quads f (Suc c) (Suc i) es)" if t: "t \<in> set (f c i e)" for t
  proof (cases "fst t = b")
    case True
    with link [OF Cons.prems t] later [of t "Suc c" "Suc i" es] Cons.prems show ?thesis by auto
  next
    case False
    with child_familyD [OF f t] each_quads_subject [OF f, of t "Suc c" "Suc i" es] show ?thesis by auto
  qed
  with Cons d show ?case by auto
qed simp

lemma distinct_node_quads: "distinct (node_quads S e)"
proof (cases e)
  case (BatchN b ord i nb)
  have "distinct (each_quads (credential_quads S b) (Suc b) 0 (nb_credentials nb))"
    by (rule distinct_each_quads [OF child_families(1)]) (auto simp: credential_quads_def)
  moreover have "s = b \<longrightarrow> p = ds ''hasCredential''"
    if "(s, p, x) \<in> set (each_quads (credential_quads S b) c j es)" "b < c" for s p x c j es
    using that by (induction es arbitrary: c j) (auto simp: credential_quads_def)
  then have "(b, p, x) \<notin> set (each_quads (credential_quads S b) (Suc b) 0 (nb_credentials nb))" if "p \<noteq> ds ''hasCredential''" for p x
    using that by blast
  ultimately show ?thesis
    unfolding BatchN by (auto simp: batch_quads_def opt_quad_def split: option.splits)
next
  case (OfferN b ord i no)
  have "distinct (each_quads (offered_quads b) (Suc b) 0 (no_credentials no))"
    by (rule distinct_each_quads [OF child_families(2)]) (auto simp: offered_quads_def opt_quad_def split: option.splits)
  moreover have "s = b \<longrightarrow> p = ds ''offersCredential''"
    if "(s, p, x) \<in> set (each_quads (offered_quads b) c j es)" "b < c" for s p x c j es
    using that by (induction es arbitrary: c j) (auto simp: offered_quads_def opt_quad_def split: option.splits)
  then have "(b, p, x) \<notin> set (each_quads (offered_quads b) (Suc b) 0 (no_credentials no))" if "p \<noteq> ds ''offersCredential''" for p x
    using that by blast
  ultimately show ?thesis
    unfolding OfferN by (auto simp: offer_quads_def)
qed

lemma represents_open: "represents S graph_open []"
  by (simp add: represents_def graph_open_def)

text \<open>A fresh node goes behind the others; its blank nodes and its order are new.\<close>

lemma insert_node:
  assumes "represents S g es" "node_blank e = next_blank g" "node_order e = next_order g"
  shows "fold insert_quad (node_quads S e) (triples g) = concat (map (node_quads S) (es @ [e]))"
    and "sorted_wrt before (es @ [e])"
proof -
  have b: "before f e" if "f \<in> set es" for f
    using assms that by (auto simp: represents_def before_def)
  then show "sorted_wrt before (es @ [e])" using assms(1) by (simp add: represents_def sorted_wrt_append)
  have "set (node_quads S e) \<inter> set (triples g) = {}"
    using assms(1) b by (fastforce simp: represents_def dest: node_quads_owned before_disjoint)
  from fold_insert_quad [OF distinct_node_quads this] assms(1)
  show "fold insert_quad (node_quads S e) (triples g) = concat (map (node_quads S) (es @ [e]))"
    by (simp add: represents_def)
qed

text \<open>The nodes left when the oldest \<open>member\<close>s beyond \<open>cap\<close> are gone.\<close>

definition keep_newest :: "(gnode \<Rightarrow> bool) \<Rightarrow> nat \<Rightarrow> gnode list \<Rightarrow> gnode list" where
  "keep_newest member cap es =
     filter (\<lambda>e. e \<notin> set (take (length (filter member es) - cap) (filter member es))) es"

lemma add_batch_represents:
  assumes rep: "represents S g es" and room: "next_order g + 1 < u64_limit"
    and e_def: "e = BatchN (next_blank g) (next_order g) i nb"
  shows "represents S (snd (add_batch S i nb g)) (keep_newest is_batch MAX_CREDENTIAL_BATCHES (es @ [e]))"
proof -
  note ins = insert_node [OF rep, of e, unfolded e_def, simplified, folded e_def]
  have q: "fold insert_quad (batch_quads S i (next_blank g) (next_order g) nb) (triples g) = concat (map (node_quads S) (es @ [e]))"
    using ins(1) by (simp add: e_def)
  have "\<forall>f \<in> set (es @ [e]). node_blank f + node_size f \<le> next_blank g + 1 + length (nb_credentials nb)
      \<and> node_order f < u64_add (next_order g) 1"
    using rep room by (auto simp: represents_def e_def)
  then show ?thesis
    unfolding add_batch_def Let_def q batch_class.trim_eq [OF ins(2)] represents_def keep_newest_def
    using batch_class.trim_members(3) [OF ins(2) refl] by auto
qed

lemma add_offer_represents:
  assumes rep: "represents S g es" and room: "next_order g + 1 < u64_limit"
    and e_def: "e = OfferN (next_blank g) (next_order g) i no"
  shows "represents S (snd (add_offer i no g)) (keep_newest (\<lambda>e. \<not> is_batch e) MAX_ACCEPTED_OFFERS (es @ [e]))"
proof -
  note ins = insert_node [OF rep, of e, unfolded e_def, simplified, folded e_def]
  have q: "fold insert_quad (offer_quads i (next_blank g) (next_order g) no) (triples g) = concat (map (node_quads S) (es @ [e]))"
    using ins(1) by (simp add: e_def)
  have "\<forall>f \<in> set (es @ [e]). node_blank f + node_size f \<le> next_blank g + 1 + length (no_credentials no)
      \<and> node_order f < u64_add (next_order g) 1"
    using rep room by (auto simp: represents_def e_def)
  then show ?thesis
    unfolding add_offer_def Let_def q offer_class.trim_eq [OF ins(2)] represents_def keep_newest_def
    using offer_class.trim_members(3) [OF ins(2) refl] by auto
qed

section \<open>Reading batches back\<close>

text \<open>What a stored entry is read back as: its payload printed and parsed again.\<close>

definition read_entry :: "serde \<Rightarrow> credential_entry \<Rightarrow> credential_entry" where
  "read_entry S e = e\<lparr>ce_payload := decode_payload S (serde_print S (ce_payload e))\<rparr>"

definition read_batch :: "serde \<Rightarrow> string \<Rightarrow> new_credential_batch \<Rightarrow> credential_batch" where
  "read_batch S i nb = \<lparr>cb_id = i, cb_issuer_pid = nb_issuer_pid nb, cb_holder_pid = nb_holder_pid nb,
     cb_status = nb_status nb, cb_rejection_reason = nb_rejection_reason nb,
     cb_credentials = map (read_entry S) (nb_credentials nb)\<rparr>"

definition cred_tuple :: "serde \<Rightarrow> nat \<Rightarrow> credential_entry \<Rightarrow> rdf_term \<times> rdf_term \<times> rdf_term \<times> rdf_term" where
  "cred_tuple S k e = (IntLit k, Lit (ce_type e), Lit (ce_format e), Lit (serde_print S (ce_payload e)))"

fun node_rows :: "serde \<Rightarrow> gnode \<Rightarrow> batch_row list" where
  "node_rows S (BatchN b ord i nb) =
     map (\<lambda>cr. \<lparr>br_batch = b, br_order = IntLit ord, br_id = Lit i, br_issuer = Lit (nb_issuer_pid nb),
       br_status = Lit (nb_status nb), br_holder = map_option Lit (nb_holder_pid nb),
       br_reason = map_option Lit (nb_rejection_reason nb), br_cred = cr\<rparr>)
     (optional (map (\<lambda>k. cred_tuple S k (nb_credentials nb ! k)) [0..<length (nb_credentials nb)]))"
| "node_rows S (OfferN b ord i no) = []"

lemma objs_child_cred:
  assumes "represents S g es" "BatchN b ord i nb \<in> set es" "k < length (nb_credentials nb)"
  shows "objs (triples g) (Suc (b + k)) p = objs (credential_quads S b (Suc (b + k)) k (nb_credentials nb ! k)) (Suc (b + k)) p"
  using objs_node [of es "BatchN b ord i nb" "Suc (b + k)" S p] assms
  by (simp add: represents_def owns_def objs_batch_child)

lemma objs_batch:
  assumes "represents S g es" "BatchN b ord i nb \<in> set es"
  shows "objs (triples g) b p = objs (batch_quads S i b ord nb) b p"
  using objs_node [of es "BatchN b ord i nb" b S p] assms by (simp add: represents_def owns_def)

lemma upt_shift: "[Suc b..<Suc b + n] = map (\<lambda>k. Suc (b + k)) [0..<n]"
  by (induction n) simp_all

lemma concat_map_concat: "concat (map f (concat (map h xs))) = concat (map (\<lambda>x. concat (map f (h x))) xs)"
  by (induction xs) auto

lemma concat_map_single: "(\<And>x. x \<in> set xs \<Longrightarrow> f x = [h x]) \<Longrightarrow> concat (map f xs) = map h xs"
  by (induction xs) auto

lemma cred_rows_batch:
  assumes "represents S g es" "BatchN b ord i nb \<in> set es"
  shows "cred_rows (triples g) b = map (\<lambda>k. cred_tuple S k (nb_credentials nb ! k)) [0..<length (nb_credentials nb)]"
proof -
  have "objs (triples g) b (ds ''hasCredential'') = map BNode [Suc b..<Suc b + length (nb_credentials nb)]"
    using objs_batch [OF assms] by (simp add: objs_batch_node del: upt_Suc)
  then have kids: "objs (triples g) b (ds ''hasCredential'') = map (\<lambda>k. BNode (Suc (b + k))) [0..<length (nb_credentials nb)]"
    unfolding upt_shift by (simp add: comp_def)
  show ?thesis unfolding cred_rows_def kids map_map comp_def
    by (rule concat_map_single) (simp add: objs_child_cred [OF assms] credential_quads_def cred_tuple_def)
qed

lemma optional_opt: "optional (case x of None \<Rightarrow> [] | Some h \<Rightarrow> [Lit h]) = [map_option Lit x]"
  by (cases x) (simp_all add: optional_def)

lemma objs_batchId:
  assumes "represents S g es" "e \<in> set es" "owns e s" "s \<noteq> node_blank e \<or> \<not> is_batch e"
  shows "objs (triples g) s (ds ''batchId'') = []"
proof -
  have "objs (triples g) s (ds ''batchId'') = objs (node_quads S e) s (ds ''batchId'')"
    using objs_node [of es e s S] assms by (simp add: represents_def)
  moreover have "objs (node_quads S e) s (ds ''batchId'') = []"
    using assms(3)
  proof (cases rule: owns_cases)
    case 1
    with assms(4) show ?thesis by (cases e) (auto simp: objs_offer_node)
  next
    case (2 k)
    then show ?thesis
      by (cases e) (auto simp: objs_batch_child objs_offer_child credential_quads_def offered_quads_def split: option.splits)
  qed
  ultimately show ?thesis by simp
qed

lemma rows_at_none:
  assumes "represents S g es" "e \<in> set es" "t \<in> set (node_quads S e)"
    "fst t \<noteq> node_blank e \<or> \<not> is_batch e \<or> fst (snd t) \<noteq> ds ''order''"
  shows "rows_at (triples g) t = []"
  using objs_batchId [OF assms(1,2) node_quads_owned [OF assms(3)]] assms(4) by (auto simp: rows_at_def)

lemma rows_of_node:
  assumes "represents S g es" "e \<in> set es"
  shows "concat (map (rows_at (triples g)) (node_quads S e)) = node_rows S e"
proof (cases e)
  case (BatchN b ord i nb)
  have here: "rows_at (triples g) (b, ds ''order'', IntLit ord) = node_rows S e"
    using cred_rows_batch [OF assms(1), of b ord i nb] assms(2) objs_batch [OF assms(1), of b ord i nb] BatchN
    by (simp add: rows_at_def objs_batch_node optional_opt)
  have pre: "node_quads S e = [(b, rdf ''type'', Iri (ds ''CredentialBatch'')), (b, ds ''batchId'', Lit i)]
      @ (b, ds ''order'', IntLit ord) # ([(b, ds ''issuerPid'', Lit (nb_issuer_pid nb)), (b, ds ''status'', Lit (nb_status nb))]
      @ opt_quad b (ds ''holderPid'') (nb_holder_pid nb)
     @ opt_quad b (ds ''rejectionReason'') (nb_rejection_reason nb)
     @ each_quads (credential_quads S b) (Suc b) 0 (nb_credentials nb))" (is "_ = ?xs @ _ # ?ys")
    by (simp add: BatchN batch_quads_def)
  have d: "distinct (?xs @ (b, ds ''order'', IntLit ord) # ?ys)" using distinct_node_quads [of S e] unfolding pre .
  have "rows_at (triples g) t = []" if t: "t \<in> set ?xs \<union> set ?ys" for t
  proof (cases "fst t = b \<and> fst (snd t) = ds ''order''")
    case True
    have "t = (b, ds ''order'', IntLit ord)"
    proof -
      have "snd (snd t) \<in> set (objs (node_quads S e) b (ds ''order''))"
        using True t unfolding pre mem_objs by (metis Un_iff prod.collapse set_append list.set_intros(2))
      then have "snd (snd t) = IntLit ord" by (simp add: BatchN objs_batch_node)
      with True show ?thesis by (metis prod.collapse)
    qed
    with d t show ?thesis by auto
  next
    case False
    from t have "t \<in> set (node_quads S e)" unfolding pre by auto
    from rows_at_none [OF assms this] False BatchN show ?thesis by auto
  qed
  then have "concat (map (rows_at (triples g)) ?xs) = []" "concat (map (rows_at (triples g)) ?ys) = []"
    by (auto simp: concat_eq_Nil_conv)
  then show ?thesis unfolding pre map_append concat_append list.map concat.simps here by simp
next
  case (OfferN b ord i no)
  then show ?thesis using rows_at_none [OF assms] by (auto simp: concat_eq_Nil_conv)
qed

lemma node_rows_keys:
  "sorted (map (\<lambda>r. (order_key (Some (br_order r)), order_key (map_option fst (br_cred r)))) (node_rows S e))"
  "r \<in> set (node_rows S e) \<Longrightarrow> br_order r = IntLit (node_order e)"
  by (cases e; auto simp: optional_def comp_def cred_tuple_def sorted_iff_nth_mono)+

lemma batch_rows_eq:
  assumes "represents S g es"
  shows "batch_rows (triples g) = concat (map (node_rows S) es)"
proof -
  let ?key = "\<lambda>r. (order_key (Some (br_order r)), order_key (map_option fst (br_cred r)))"
  have "concat (map (rows_at (triples g)) (triples g)) = concat (map (\<lambda>e. concat (map (rows_at (triples g)) (node_quads S e))) es)"
    using assms concat_map_concat [of "rows_at (triples g)" "node_quads S" es] by (simp add: represents_def)
  also have "\<dots> = concat (map (node_rows S) es)"
    using rows_of_node [OF assms] by (simp cong: map_cong)
  finally have rows: "concat (map (rows_at (triples g)) (triples g)) = concat (map (node_rows S) es)" .
  have "sorted (map ?key (concat (map (node_rows S) fs)))" if "sorted_wrt before fs" for fs
    using that
  proof (induction fs)
    case (Cons e fs)
    then show ?case
      by (auto simp: sorted_append node_rows_keys before_def dest!: node_rows_keys(2))
  qed simp
  then show ?thesis
    using assms unfolding batch_rows_def rows by (intro sort_key_id_if_sorted) (simp add: represents_def)
qed

fun batch_of :: "serde \<Rightarrow> gnode \<Rightarrow> credential_batch" where
  "batch_of S (BatchN b ord i nb) = read_batch S i nb"
| "batch_of S (OfferN b ord i no) = undefined"

lemma group_same:
  "\<forall>r \<in> set rs. br_batch r = b \<Longrightarrow> group_rows S (out @ [(b, x)]) (rs @ rest)
     = group_rows S (out @ [(b, x\<lparr>cb_credentials := cb_credentials x @ concat (map (row_entry S) rs)\<rparr>)]) rest"
  by (induction rs arbitrary: x) simp_all

lemma group_new:
  "out = [] \<or> fst (last out) \<noteq> br_batch r \<Longrightarrow> group_rows S out (r # rs) = group_rows S (out @ [(br_batch r, row_batch r)]) (r # rs)"
  by auto

lemma row_entries_of:
  "concat (map (row_entry S) (node_rows S (BatchN b ord i nb))) = map (read_entry S) (nb_credentials nb)"
proof (cases "nb_credentials nb = []")
  case False
  then have "concat (map (row_entry S) (node_rows S (BatchN b ord i nb)))
      = map (\<lambda>k. read_entry S (nb_credentials nb ! k)) [0..<length (nb_credentials nb)]"
    by (simp add: optional_def comp_def row_entry_def cred_tuple_def value_or_default_def read_entry_def)
  also have "\<dots> = map (read_entry S) (nb_credentials nb)" using arg_cong [OF map_nth [of "nb_credentials nb"], of "map (read_entry S)"] by (simp add: comp_def)
  finally show ?thesis .
qed (simp add: optional_def row_entry_def)

lemma group_node:
  assumes "out = [] \<or> fst (last out) \<noteq> b"
  shows "group_rows S out (node_rows S (BatchN b ord i nb) @ rest) = group_rows S (out @ [(b, read_batch S i nb)]) rest"
proof -
  let ?rows = "node_rows S (BatchN b ord i nb)"
  have ne: "?rows \<noteq> []" by (simp add: optional_def)
  then obtain r rs where rr: "?rows = r # rs" by (cases ?rows) auto
  have all: "\<forall>r \<in> set ?rows. br_batch r = b \<and> row_batch r = (read_batch S i nb)\<lparr>cb_credentials := []\<rparr>"
    by (auto simp: row_batch_def read_batch_def value_or_default_def option.map_comp comp_def split: option.splits)
      (cases "nb_holder_pid nb"; cases "nb_rejection_reason nb"; simp)+
  then have r: "br_batch r = b" "row_batch r = (read_batch S i nb)\<lparr>cb_credentials := []\<rparr>" unfolding rr by auto
  have "group_rows S out (?rows @ rest) = group_rows S (out @ [(b, (read_batch S i nb)\<lparr>cb_credentials := []\<rparr>)]) (?rows @ rest)"
    unfolding rr using group_new [of out r S "rs @ rest"] assms r by simp
  also have "\<dots> = group_rows S (out @ [(b, (read_batch S i nb)\<lparr>cb_credentials := map (read_entry S) (nb_credentials nb)\<rparr>)]) rest"
    using group_same [of ?rows b S out "(read_batch S i nb)\<lparr>cb_credentials := []\<rparr>" rest] all
    unfolding row_entries_of by simp
  finally show ?thesis by (simp add: read_batch_def)
qed

lemma group_nodes:
  "sorted_wrt before es \<Longrightarrow> out = [] \<or> (\<forall>e \<in> set es. fst (last out) \<noteq> node_blank e) \<Longrightarrow>
   group_rows S out (concat (map (node_rows S) es)) = out @ map (\<lambda>e. (node_blank e, batch_of S e)) (filter is_batch es)"
proof (induction es arbitrary: out)
  case (Cons e es)
  have blanks: "node_blank e \<noteq> node_blank f" if "f \<in> set es" for f
  proof -
    have "before e f" using Cons.prems(1) that by simp
    then show ?thesis using node_size_pos [of e] unfolding before_def by linarith
  qed
  show ?case
  proof (cases e)
    case (BatchN b ord i nb)
    with Cons.prems Cons.IH [of "out @ [(b, read_batch S i nb)]"] group_node [of out b S ord i nb] blanks show ?thesis
      by (auto simp del: node_rows.simps)
  next
    case (OfferN b ord i no)
    with Cons.prems Cons.IH [of out] show ?thesis by auto
  qed
qed simp

text \<open>The batches of a graph are those of its batch nodes, in order.\<close>

lemma batches_eq:
  assumes "represents S g es"
  shows "batches S g = map (batch_of S) (filter is_batch es)"
  using group_nodes [of es "[]" S] assms unfolding batches_def batch_rows_eq [OF assms]
  by (simp add: represents_def comp_def)

section \<open>Reading offers back\<close>

definition read_offer :: "string \<Rightarrow> new_accepted_offer \<Rightarrow> accepted_offer" where
  "read_offer i no = \<lparr>ao_id = i, ao_issuer = no_issuer no, ao_credentials = no_credentials no\<rparr>"

definition offered_tuple :: "nat \<Rightarrow> offered_credential \<Rightarrow> rdf_term \<times> rdf_term \<times> rdf_term option" where
  "offered_tuple k oc = (IntLit k, Lit (oc_id oc), map_option Lit (oc_type oc))"

fun node_offer_rows :: "gnode \<Rightarrow> offer_row list" where
  "node_offer_rows (BatchN b ord i nb) = []"
| "node_offer_rows (OfferN b ord i no) =
     map (\<lambda>cr. \<lparr>or_offer = b, or_order = IntLit ord, or_id = Lit i, or_issuer = Lit (no_issuer no), or_cred = cr\<rparr>)
     (optional (map (\<lambda>k. offered_tuple k (no_credentials no ! k)) [0..<length (no_credentials no)]))"

lemma objs_offered_child:
  "b < c \<Longrightarrow> objs (offered_quads b c k oc) c p = (if p = ds ''order'' then [IntLit k]
     else if p = ds ''credentialId'' then [Lit (oc_id oc)]
     else if p = ds ''credentialType'' then (case oc_type oc of None \<Rightarrow> [] | Some t \<Rightarrow> [Lit t]) else [])"
  by (auto simp: offered_quads_def split: option.splits)

lemma objs_child_offered:
  assumes "represents S g es" "OfferN b ord i no \<in> set es" "k < length (no_credentials no)"
  shows "objs (triples g) (Suc (b + k)) p = objs (offered_quads b (Suc (b + k)) k (no_credentials no ! k)) (Suc (b + k)) p"
  using objs_node [of es "OfferN b ord i no" "Suc (b + k)" S p] assms
  by (simp add: represents_def owns_def objs_offer_child)

lemma objs_offer:
  assumes "represents S g es" "OfferN b ord i no \<in> set es"
  shows "objs (triples g) b p = objs (offer_quads i b ord no) b p"
  using objs_node [of es "OfferN b ord i no" b S p] assms by (simp add: represents_def owns_def)

lemma offered_rows_offer:
  assumes "represents S g es" "OfferN b ord i no \<in> set es"
  shows "offered_rows (triples g) b = map (\<lambda>k. offered_tuple k (no_credentials no ! k)) [0..<length (no_credentials no)]"
proof -
  have "objs (triples g) b (ds ''offersCredential'') = map BNode [Suc b..<Suc b + length (no_credentials no)]"
    using objs_offer [OF assms] by (simp add: objs_offer_node del: upt_Suc)
  then have kids: "objs (triples g) b (ds ''offersCredential'') = map (\<lambda>k. BNode (Suc (b + k))) [0..<length (no_credentials no)]"
    unfolding upt_shift by (simp add: comp_def)
  show ?thesis unfolding offered_rows_def kids map_map comp_def
    by (rule concat_map_single) (simp add: objs_child_offered [OF assms] objs_offered_child offered_tuple_def optional_opt)
qed

lemma objs_offerId:
  assumes "represents S g es" "e \<in> set es" "owns e s" "s \<noteq> node_blank e \<or> is_batch e"
  shows "objs (triples g) s (ds ''offerId'') = []"
proof -
  have "objs (triples g) s (ds ''offerId'') = objs (node_quads S e) s (ds ''offerId'')"
    using objs_node [of es e s S] assms by (simp add: represents_def)
  moreover have "objs (node_quads S e) s (ds ''offerId'') = []"
    using assms(3)
  proof (cases rule: owns_cases)
    case 1
    with assms(4) show ?thesis by (cases e) (auto simp: objs_batch_node)
  next
    case (2 k)
    then show ?thesis
      by (cases e) (auto simp: objs_batch_child objs_offer_child credential_quads_def offered_quads_def split: option.splits)
  qed
  ultimately show ?thesis by simp
qed

lemma offer_rows_at_none:
  assumes "represents S g es" "e \<in> set es" "t \<in> set (node_quads S e)"
    "fst t \<noteq> node_blank e \<or> is_batch e \<or> fst (snd t) \<noteq> ds ''order''"
  shows "offer_rows_at (triples g) t = []"
  using objs_offerId [OF assms(1,2) node_quads_owned [OF assms(3)]] assms(4) by (auto simp: offer_rows_at_def)

lemma offer_rows_of_node:
  assumes "represents S g es" "e \<in> set es"
  shows "concat (map (offer_rows_at (triples g)) (node_quads S e)) = node_offer_rows e"
proof (cases e)
  case (OfferN b ord i no)
  have here: "offer_rows_at (triples g) (b, ds ''order'', IntLit ord) = node_offer_rows e"
    using offered_rows_offer [OF assms(1), of b ord i no] assms(2) objs_offer [OF assms(1), of b ord i no] OfferN
    by (simp add: offer_rows_at_def objs_offer_node)
  have pre: "node_quads S e = [(b, rdf ''type'', Iri (ds ''AcceptedCredentialOffer'')), (b, ds ''offerId'', Lit i)]
      @ (b, ds ''order'', IntLit ord) # ([(b, vc ''issuer'', Lit (no_issuer no))]
     @ each_quads (offered_quads b) (Suc b) 0 (no_credentials no))" (is "_ = ?xs @ _ # ?ys")
    by (simp add: OfferN offer_quads_def)
  have d: "distinct (?xs @ (b, ds ''order'', IntLit ord) # ?ys)" using distinct_node_quads [of S e] unfolding pre .
  have "offer_rows_at (triples g) t = []" if t: "t \<in> set ?xs \<union> set ?ys" for t
  proof (cases "fst t = b \<and> fst (snd t) = ds ''order''")
    case True
    have "t = (b, ds ''order'', IntLit ord)"
    proof -
      have "snd (snd t) \<in> set (objs (node_quads S e) b (ds ''order''))"
        using True t unfolding pre mem_objs by (metis Un_iff prod.collapse set_append list.set_intros(2))
      then have "snd (snd t) = IntLit ord" by (simp add: OfferN objs_offer_node)
      with True show ?thesis by (metis prod.collapse)
    qed
    with d t show ?thesis by auto
  next
    case False
    from t have "t \<in> set (node_quads S e)" unfolding pre by auto
    from offer_rows_at_none [OF assms this] False OfferN show ?thesis by auto
  qed
  then have "concat (map (offer_rows_at (triples g)) ?xs) = []" "concat (map (offer_rows_at (triples g)) ?ys) = []"
    by (auto simp: concat_eq_Nil_conv)
  then show ?thesis unfolding pre map_append concat_append list.map concat.simps here by simp
next
  case (BatchN b ord i nb)
  then show ?thesis using offer_rows_at_none [OF assms] by (auto simp: concat_eq_Nil_conv)
qed

lemma node_offer_rows_keys:
  "sorted (map (\<lambda>r. (order_key (Some (or_order r)), order_key (map_option fst (or_cred r)))) (node_offer_rows e))"
  "r \<in> set (node_offer_rows e) \<Longrightarrow> or_order r = IntLit (node_order e)"
  by (cases e; auto simp: optional_def comp_def offered_tuple_def sorted_iff_nth_mono)+

lemma offer_rows_eq:
  assumes "represents S g es"
  shows "offer_rows (triples g) = concat (map node_offer_rows es)"
proof -
  let ?key = "\<lambda>r. (order_key (Some (or_order r)), order_key (map_option fst (or_cred r)))"
  have "concat (map (offer_rows_at (triples g)) (triples g)) = concat (map (\<lambda>e. concat (map (offer_rows_at (triples g)) (node_quads S e))) es)"
    using assms concat_map_concat [of "offer_rows_at (triples g)" "node_quads S" es] by (simp add: represents_def)
  also have "\<dots> = concat (map node_offer_rows es)"
    using offer_rows_of_node [OF assms] by (simp cong: map_cong)
  finally have rows: "concat (map (offer_rows_at (triples g)) (triples g)) = concat (map node_offer_rows es)" .
  have "sorted (map ?key (concat (map node_offer_rows fs)))" if "sorted_wrt before fs" for fs
    using that
  proof (induction fs)
    case (Cons e fs)
    then show ?case
      by (auto simp: sorted_append node_offer_rows_keys before_def dest!: node_offer_rows_keys(2))
  qed simp
  then show ?thesis
    using assms unfolding offer_rows_def rows by (intro sort_key_id_if_sorted) (simp add: represents_def)
qed

fun offer_of :: "gnode \<Rightarrow> accepted_offer" where
  "offer_of (OfferN b ord i no) = read_offer i no"
| "offer_of (BatchN b ord i nb) = undefined"

lemma group_offers_same:
  "\<forall>r \<in> set rs. or_offer r = b \<Longrightarrow> group_offers (out @ [(b, x)]) (rs @ rest)
     = group_offers (out @ [(b, x\<lparr>ao_credentials := ao_credentials x @ concat (map row_offered rs)\<rparr>)]) rest"
  by (induction rs arbitrary: x) simp_all

lemma group_offers_new:
  "out = [] \<or> fst (last out) \<noteq> or_offer r \<Longrightarrow> group_offers out (r # rs) = group_offers (out @ [(or_offer r, row_offer r)]) (r # rs)"
  by auto

lemma row_offered_of: "concat (map row_offered (node_offer_rows (OfferN b ord i no))) = no_credentials no"
proof (cases "no_credentials no = []")
  case False
  have "Option.bind (map_option Lit x) literal_value = x" for x by (cases x) simp_all
  with False have "concat (map row_offered (node_offer_rows (OfferN b ord i no)))
      = map (\<lambda>k. no_credentials no ! k) [0..<length (no_credentials no)]"
    by (simp add: optional_def comp_def row_offered_def offered_tuple_def)
  then show ?thesis by (simp add: map_nth)
qed (simp add: optional_def row_offered_def)

lemma group_offer_node:
  assumes "out = [] \<or> fst (last out) \<noteq> b"
  shows "group_offers out (node_offer_rows (OfferN b ord i no) @ rest) = group_offers (out @ [(b, read_offer i no)]) rest"
proof -
  let ?rows = "node_offer_rows (OfferN b ord i no)"
  have ne: "?rows \<noteq> []" by (simp add: optional_def)
  then obtain r rs where rr: "?rows = r # rs" by (cases ?rows) auto
  have all: "\<forall>r \<in> set ?rows. or_offer r = b \<and> row_offer r = (read_offer i no)\<lparr>ao_credentials := []\<rparr>"
    by (auto simp: row_offer_def read_offer_def value_or_default_def)
  then have r: "or_offer r = b" "row_offer r = (read_offer i no)\<lparr>ao_credentials := []\<rparr>" unfolding rr by auto
  have "group_offers out (?rows @ rest) = group_offers (out @ [(b, (read_offer i no)\<lparr>ao_credentials := []\<rparr>)]) (?rows @ rest)"
    unfolding rr using group_offers_new [of out r "rs @ rest"] assms r by simp
  also have "\<dots> = group_offers (out @ [(b, (read_offer i no)\<lparr>ao_credentials := no_credentials no\<rparr>)]) rest"
    using group_offers_same [of ?rows b out "(read_offer i no)\<lparr>ao_credentials := []\<rparr>" rest] all
    unfolding row_offered_of by simp
  finally show ?thesis by (simp add: read_offer_def)
qed

lemma group_offer_nodes:
  "sorted_wrt before es \<Longrightarrow> out = [] \<or> (\<forall>e \<in> set es. fst (last out) \<noteq> node_blank e) \<Longrightarrow>
   group_offers out (concat (map node_offer_rows es)) = out @ map (\<lambda>e. (node_blank e, offer_of e)) (filter (\<lambda>e. \<not> is_batch e) es)"
proof (induction es arbitrary: out)
  case (Cons e es)
  have blanks: "node_blank e \<noteq> node_blank f" if "f \<in> set es" for f
  proof -
    have "before e f" using Cons.prems(1) that by simp
    then show ?thesis using node_size_pos [of e] unfolding before_def by linarith
  qed
  show ?case
  proof (cases e)
    case (OfferN b ord i no)
    with Cons.prems Cons.IH [of "out @ [(b, read_offer i no)]"] group_offer_node [of out b ord i no] blanks show ?thesis
      by (auto simp del: node_offer_rows.simps)
  next
    case (BatchN b ord i nb)
    with Cons.prems Cons.IH [of out] show ?thesis by auto
  qed
qed simp

lemma offers_eq:
  assumes "represents S g es"
  shows "offers g = map offer_of (filter (\<lambda>e. \<not> is_batch e) es)"
  using group_offer_nodes [of es "[]"] assms unfolding offers_def offer_rows_eq [OF assms]
  by (simp add: represents_def comp_def)

section \<open>Issued credentials\<close>

definition issued_here :: "triple list \<Rightarrow> triple \<Rightarrow> (rdf_term \<times> rdf_term \<times> rdf_term) list" where
  "issued_here ts t = (if fst (snd t) = ds ''status'' \<and> snd (snd t) = Lit ''ISSUED''
     then concat (map (\<lambda>x. case x of
        BNode c \<Rightarrow> [(ty, fm, pl). ty \<leftarrow> objs ts c (ds ''credentialType''), fm \<leftarrow> objs ts c (ds ''format''),
                      pl \<leftarrow> objs ts c (ds ''payload'')]
      | _ \<Rightarrow> []) (objs ts (fst t) (ds ''hasCredential'')))
     else [])"

lemma issued_rows_here: "issued_rows ts = concat (map (issued_here ts) ts)"
  unfolding issued_rows_def by (rule arg_cong [of _ _ concat], rule map_cong) (auto simp: issued_here_def)

lemma no_status_each:
  "t \<in> set (each_quads (credential_quads S b) c i es) \<Longrightarrow> fst (snd t) \<noteq> ds ''status''"
  "t \<in> set (each_quads (offered_quads b) c i os) \<Longrightarrow> fst (snd t) \<noteq> ds ''status''"
  by (induction es arbitrary: c i, simp_all add: credential_quads_def)
    (induction os arbitrary: c i; auto simp: offered_quads_def opt_quad_def split: option.splits)+

fun node_issued :: "serde \<Rightarrow> gnode \<Rightarrow> (rdf_term \<times> rdf_term \<times> rdf_term) list" where
  "node_issued S (BatchN b ord i nb) = (if nb_status nb = ''ISSUED''
     then map (\<lambda>k. snd (cred_tuple S k (nb_credentials nb ! k))) [0..<length (nb_credentials nb)] else [])"
| "node_issued S (OfferN b ord i no) = []"

lemma issued_of_node:
  assumes "represents S g es" "e \<in> set es"
  shows "concat (map (issued_here (triples g)) (node_quads S e)) = node_issued S e"
proof (cases e)
  case (BatchN b ord i nb)
  have "objs (triples g) b (ds ''hasCredential'') = map BNode [Suc b..<Suc b + length (nb_credentials nb)]"
    using objs_batch [OF assms(1), of b ord i nb] assms(2) BatchN by (simp add: objs_batch_node del: upt_Suc)
  then have kids: "objs (triples g) b (ds ''hasCredential'') = map (\<lambda>k. BNode (Suc (b + k))) [0..<length (nb_credentials nb)]"
    unfolding upt_shift by (simp add: comp_def)
  have here: "issued_here (triples g) (b, ds ''status'', Lit (nb_status nb)) = node_issued S e"
  proof (cases "nb_status nb = ''ISSUED''")
    case True
    have "issued_here (triples g) (b, ds ''status'', Lit (nb_status nb))
        = map (\<lambda>k. snd (cred_tuple S k (nb_credentials nb ! k))) [0..<length (nb_credentials nb)]"
      unfolding issued_here_def fst_conv snd_conv kids map_map comp_def True
      using objs_child_cred [OF assms(1), of b ord i nb] assms(2) BatchN
      by (simp, intro concat_map_single) (simp add: credential_quads_def cred_tuple_def)
    with True BatchN show ?thesis by simp
  qed (simp add: issued_here_def BatchN)
  have none: "issued_here (triples g) t = []" if "fst (snd t) \<noteq> ds ''status''" for t
    using that by (simp add: issued_here_def)
  have "concat (map (issued_here (triples g)) (each_quads (credential_quads S b) (Suc b) 0 (nb_credentials nb))) = []"
    using no_status_each(1) none by (auto simp: concat_eq_Nil_conv)
  moreover have opt: "concat (map (issued_here (triples g)) (opt_quad b (ds p) x)) = []" if "p \<noteq> ''status''" for p x
    using none that by (cases x) (auto simp: opt_quad_def)
  ultimately show ?thesis unfolding BatchN node_quads.simps batch_quads_def map_append concat_append
    using here none opt [of "''holderPid''" "nb_holder_pid nb"] opt [of "''rejectionReason''" "nb_rejection_reason nb"]
    by (simp add: BatchN)
next
  case (OfferN b ord i no)
  have "issued_here (triples g) t = []" if "t \<in> set (node_quads S e)" for t
    using that no_status_each(2) [of t b "Suc b" 0 "no_credentials no"] OfferN
    by (auto simp: offer_quads_def issued_here_def)
  with OfferN show ?thesis by (auto simp: concat_eq_Nil_conv)
qed

lemma issued_rows_eq:
  assumes "represents S g es"
  shows "issued_rows (triples g) = concat (map (node_issued S) es)"
proof -
  have "issued_rows (triples g) = concat (map (\<lambda>e. concat (map (issued_here (triples g)) (node_quads S e))) es)"
    using assms concat_map_concat [of "issued_here (triples g)" "node_quads S" es]
    by (simp add: issued_rows_here represents_def)
  then show ?thesis using issued_of_node [OF assms] by (simp cong: map_cong)
qed

text \<open>The engine delivers every solution once, in some order.\<close>

definition permutes :: "('a list \<Rightarrow> 'a list) \<Rightarrow> bool" where
  "permutes arrange \<longleftrightarrow> (\<forall>xs. mset (arrange xs) = mset xs)"

lemma mset_map_filter: "mset (List.map_filter f xs) = image_mset (the \<circ> f) (filter_mset (\<lambda>x. f x \<noteq> None) (mset xs))"
  by (simp add: List.map_filter_def)

lemma map_filter_concat: "List.map_filter f (concat xss) = concat (map (List.map_filter f) xss)"
  by (induction xss) (auto simp: List.map_filter_def)

text \<open>The entries a query for some types selects from a batch.\<close>

definition selected :: "string list \<Rightarrow> credential_batch \<Rightarrow> credential_entry list" where
  "selected types b = (if cb_status b = ''ISSUED'' then filter (\<lambda>c. ce_type c \<in> set types) (cb_credentials b) else [])"

lemma credentials_of_types_mset:
  assumes rep: "represents S g es" and arr: "permutes arrange"
  shows "mset (graph_credentials_of_types S arrange g types) = mset (concat (map (selected types) (batches S g)))"
proof -
  let ?f = "\<lambda>(ty, fm, pl). case literal_value ty of None \<Rightarrow> None
     | Some t \<Rightarrow> if t \<in> set types
         then Some \<lparr>ce_type = t, ce_payload = (case literal_value pl of None \<Rightarrow> JNull | Some s \<Rightarrow> decode_payload S s),
                    ce_format = value_or_default (Some fm)\<rparr>
         else None"
  have one: "List.map_filter ?f (map (\<lambda>k. snd (cred_tuple S k (cs ! k))) ks)
      = filter (\<lambda>c. ce_type c \<in> set types) (map (\<lambda>k. read_entry S (cs ! k)) ks)" for cs ks
    by (induction ks) (simp_all add: List.map_filter_def cred_tuple_def read_entry_def value_or_default_def)
  have node: "List.map_filter ?f (node_issued S e) = (if is_batch e then selected types (batch_of S e) else [])" for e
  proof (cases e)
    case (BatchN b ord i nb)
    have "map (\<lambda>k. read_entry S (nb_credentials nb ! k)) [0..<length (nb_credentials nb)] = map (read_entry S) (nb_credentials nb)"
      using arg_cong [OF map_nth [of "nb_credentials nb"], of "map (read_entry S)"] by (simp add: comp_def)
    with BatchN one [of "nb_credentials nb"] show ?thesis
      by (simp add: selected_def read_batch_def)
  qed (simp add: List.map_filter_def)
  have "mset (graph_credentials_of_types S arrange g types) = mset (List.map_filter ?f (issued_rows (triples g)))"
    using arr unfolding graph_credentials_of_types_def mset_map_filter by (simp add: permutes_def)
  also have "List.map_filter ?f (issued_rows (triples g)) = concat (map (selected types) (batches S g))"
    unfolding issued_rows_eq [OF rep] map_filter_concat batches_eq [OF rep] map_map comp_def node
    by (induction es) simp_all
  finally show ?thesis .
qed

section \<open>Refinement\<close>

definition graph_ok :: "serde \<Rightarrow> graph \<Rightarrow> bool" where
  "graph_ok S g \<longleftrightarrow> (\<exists>es. represents S g es)"

text \<open>The abstract store: append, and drop the oldest beyond the cap.\<close>

definition push :: "nat \<Rightarrow> 'a \<Rightarrow> 'a list \<Rightarrow> 'a list" where
  "push cap x xs = drop (length (xs @ [x]) - cap) (xs @ [x])"

lemma graph_ok_open: "graph_ok S graph_open"
  using represents_open by (auto simp: graph_ok_def)

lemma add_batch_refines:
  assumes "graph_ok S g" and "next_order g + 1 < u64_limit"
  shows "graph_ok S (snd (add_batch S i nb g))"
    and "batches S (snd (add_batch S i nb g)) = push MAX_CREDENTIAL_BATCHES (read_batch S i nb) (batches S g)"
    and "offers (snd (add_batch S i nb g)) = offers g"
proof -
  from assms(1) obtain es where rep: "represents S g es" by (auto simp: graph_ok_def)
  let ?e = "BatchN (next_blank g) (next_order g) i nb"
  note rep' = add_batch_represents [OF rep assms(2) refl, of i nb]
  have s: "sorted_wrt before (es @ [?e])" using insert_node(2) [OF rep, of ?e] by simp
  note tm = batch_class.trim_members [OF s refl, of MAX_CREDENTIAL_BATCHES]
  show "graph_ok S (snd (add_batch S i nb g))" using rep' by (auto simp: graph_ok_def)
  show "batches S (snd (add_batch S i nb g)) = push MAX_CREDENTIAL_BATCHES (read_batch S i nb) (batches S g)"
    unfolding batches_eq [OF rep'] batches_eq [OF rep] keep_newest_def tm(1) by (simp add: push_def flip: drop_map)
  show "offers (snd (add_batch S i nb g)) = offers g"
    unfolding offers_eq [OF rep'] offers_eq [OF rep] keep_newest_def tm(2) by simp
qed

lemma add_offer_refines:
  assumes "graph_ok S g" and "next_order g + 1 < u64_limit"
  shows "graph_ok S (snd (add_offer i no g))"
    and "offers (snd (add_offer i no g)) = push MAX_ACCEPTED_OFFERS (read_offer i no) (offers g)"
    and "batches S (snd (add_offer i no g)) = batches S g"
proof -
  from assms(1) obtain es where rep: "represents S g es" by (auto simp: graph_ok_def)
  let ?e = "OfferN (next_blank g) (next_order g) i no"
  note rep' = add_offer_represents [OF rep assms(2) refl, of i no]
  have s: "sorted_wrt before (es @ [?e])" using insert_node(2) [OF rep, of ?e] by simp
  note tm = offer_class.trim_members [OF s refl, of MAX_ACCEPTED_OFFERS]
  show "graph_ok S (snd (add_offer i no g))" using rep' by (auto simp: graph_ok_def)
  show "offers (snd (add_offer i no g)) = push MAX_ACCEPTED_OFFERS (read_offer i no) (offers g)"
    unfolding offers_eq [OF rep'] offers_eq [OF rep] keep_newest_def tm(1) by (simp add: push_def flip: drop_map)
  show "batches S (snd (add_offer i no g)) = batches S g"
    unfolding batches_eq [OF rep'] batches_eq [OF rep] keep_newest_def using tm(2) by simp
qed

end
