(* ===== verification/Credential_Store.thy ===== *)
theory Credential_Store
  imports Graph_Store Messages
begin

text \<open>
  The Storage API's backing store (identity-hub-core, store.rs) and the Contreforts connector
  (identity-hub-contreforts), both views of one credential graph.
\<close>

section \<open>The store\<close>

record stored_credential_batch =
  sb_issuer_pid :: string
  sb_holder_pid :: "string option"
  sb_status :: string
  sb_rejection_reason :: "string option"
  sb_credentials :: "credential_container list"

definition to_graph_entry :: "credential_container \<Rightarrow> credential_entry" where
  "to_graph_entry c = \<lparr>ce_type = cc_type c, ce_payload = cc_payload c, ce_format = cc_format c\<rparr>"

definition from_graph_entry :: "credential_entry \<Rightarrow> credential_container" where
  "from_graph_entry e = \<lparr>cc_type = ce_type e, cc_payload = ce_payload e, cc_format = ce_format e\<rparr>"

definition store_new :: graph where
  "store_new = graph_open"

definition store_batch :: "serde \<Rightarrow> string \<Rightarrow> stored_credential_batch \<Rightarrow> graph \<Rightarrow> graph" where
  "store_batch S i b g = snd (add_batch S i
     \<lparr>nb_issuer_pid = sb_issuer_pid b, nb_holder_pid = sb_holder_pid b, nb_status = sb_status b,
      nb_rejection_reason = sb_rejection_reason b, nb_credentials = map to_graph_entry (sb_credentials b)\<rparr> g)"

definition to_stored :: "credential_batch \<Rightarrow> stored_credential_batch" where
  "to_stored b = \<lparr>sb_issuer_pid = cb_issuer_pid b, sb_holder_pid = cb_holder_pid b, sb_status = cb_status b,
     sb_rejection_reason = cb_rejection_reason b, sb_credentials = map from_graph_entry (cb_credentials b)\<rparr>"

definition store_all :: "serde \<Rightarrow> graph \<Rightarrow> stored_credential_batch list" where
  "store_all S g = map to_stored (batches S g)"

definition credentials_of_types ::
    "serde \<Rightarrow> ((rdf_term \<times> rdf_term \<times> rdf_term) list \<Rightarrow> (rdf_term \<times> rdf_term \<times> rdf_term) list)
     \<Rightarrow> graph \<Rightarrow> string list \<Rightarrow> credential_container list" where
  "credentials_of_types S arrange g types = map from_graph_entry (graph_credentials_of_types S arrange g types)"

section \<open>The connector\<close>

definition STORED_CREDENTIAL_KIND :: string where
  "STORED_CREDENTIAL_KIND = ''ds-identity-hub-rs:stored-credential-batch''"

definition ACCEPTED_OFFER_KIND :: string where
  "ACCEPTED_OFFER_KIND = ''ds-identity-hub-rs:accepted-offer''"

definition source_name :: string where
  "source_name = ''ds-identity-hub-rs''"

record document =
  d_name :: string
  d_remote_id :: string
  d_kind :: string
  d_source :: string
  d_fields :: json

datatype connector_error =
    UnsupportedKind string string
  | ConnectorNotFound string string
  | Unsupported string string

definition batch_document :: "string \<Rightarrow> credential_batch \<Rightarrow> document" where
  "batch_document kind b = \<lparr>d_name = ''credential-batch-'' @ cb_issuer_pid b, d_remote_id = cb_id b, d_kind = kind,
     d_source = source_name,
     d_fields = json_obj [(''issuerPid'', JStr (cb_issuer_pid b)), (''holderPid'', opt_json JStr (cb_holder_pid b)),
       (''status'', JStr (cb_status b)), (''rejectionReason'', opt_json JStr (cb_rejection_reason b)),
       (''credentials'', JArr (map (\<lambda>c. json_obj [(''credentialType'', JStr (ce_type c)),
          (''format'', JStr (ce_format c)), (''payload'', ce_payload c)]) (cb_credentials b)))]\<rparr>"

definition offer_document :: "string \<Rightarrow> accepted_offer \<Rightarrow> document" where
  "offer_document kind ao = \<lparr>d_name = ''credential-offer-'' @ ao_issuer ao, d_remote_id = ao_id ao, d_kind = kind,
     d_source = source_name,
     d_fields = json_obj [(''issuer'', JStr (ao_issuer ao)),
       (''credentials'', JArr (map (\<lambda>c. json_obj [(''id'', JStr (oc_id c)),
          (''credentialType'', opt_json JStr (oc_type c))]) (ao_credentials ao)))]\<rparr>"

definition connector_pull :: "serde \<Rightarrow> graph \<Rightarrow> string \<Rightarrow> (document list, connector_error) result" where
  "connector_pull S g kind =
     (if kind = STORED_CREDENTIAL_KIND then Ok (map (batch_document kind) (batches S g))
      else if kind = ACCEPTED_OFFER_KIND then Ok (map (offer_document kind) (offers g))
      else Err (UnsupportedKind source_name kind))"

definition connector_get :: "serde \<Rightarrow> graph \<Rightarrow> string \<Rightarrow> string \<Rightarrow> (document, connector_error) result" where
  "connector_get S g kind remote_id =
     (if kind = STORED_CREDENTIAL_KIND then
        (case batch_by_id S g remote_id of
           None \<Rightarrow> Err (ConnectorNotFound kind remote_id) | Some b \<Rightarrow> Ok (batch_document kind b))
      else if kind = ACCEPTED_OFFER_KIND then
        (case offer_by_id g remote_id of
           None \<Rightarrow> Err (ConnectorNotFound kind remote_id) | Some ao \<Rightarrow> Ok (offer_document kind ao))
      else Err (UnsupportedKind source_name kind))"

definition connector_push :: "document \<Rightarrow> (document, connector_error) result" where
  "connector_push doc = Err (Unsupported source_name (''push (kind: '' @ d_kind doc @ '')''))"

section \<open>Correctness\<close>

text \<open>A payload the JSON library prints and reads back unchanged.\<close>

definition payload_exact :: "serde \<Rightarrow> json \<Rightarrow> bool" where
  "payload_exact S v \<longleftrightarrow> serde_parse S (serde_print S v) = Some v"

definition batch_exact :: "serde \<Rightarrow> stored_credential_batch \<Rightarrow> bool" where
  "batch_exact S b \<longleftrightarrow> (\<forall>c \<in> set (sb_credentials b). payload_exact S (cc_payload c))"

lemma from_to_entry [simp]: "from_graph_entry (to_graph_entry c) = c"
  by (simp add: from_graph_entry_def to_graph_entry_def)

lemma read_stored:
  assumes "batch_exact S b"
  shows "to_stored (read_batch S i \<lparr>nb_issuer_pid = sb_issuer_pid b, nb_holder_pid = sb_holder_pid b,
      nb_status = sb_status b, nb_rejection_reason = sb_rejection_reason b,
      nb_credentials = map to_graph_entry (sb_credentials b)\<rparr>) = b"
proof -
  have "from_graph_entry (read_entry S (to_graph_entry c)) = c" if "c \<in> set (sb_credentials b)" for c
    using assms that by (simp add: batch_exact_def payload_exact_def read_entry_def decode_payload_def
        to_graph_entry_def from_graph_entry_def)
  then show ?thesis by (simp add: to_stored_def read_batch_def comp_def map_idI)
qed

lemma store_batch_refines:
  assumes "graph_ok S g" "next_order g + 1 < u64_limit" "batch_exact S b"
  shows "store_all S (store_batch S i b g) = push MAX_CREDENTIAL_BATCHES b (store_all S g)"
    and "graph_ok S (store_batch S i b g)"
  using add_batch_refines(1,2) [OF assms(1,2)] read_stored [OF assms(3)]
  by (simp_all add: store_batch_def store_all_def push_def flip: drop_map)

lemma selected_stored:
  "map from_graph_entry (selected types b) =
     (if sb_status (to_stored b) = ''ISSUED''
      then filter (\<lambda>c. cc_type c \<in> set types) (sb_credentials (to_stored b)) else [])"
  by (simp add: selected_def to_stored_def filter_map comp_def from_graph_entry_def)

lemma credentials_of_types_refines:
  assumes "graph_ok S g" "permutes arrange"
  shows "mset (credentials_of_types S arrange g types) = mset (concat (map (\<lambda>b.
     if sb_status b = ''ISSUED'' then filter (\<lambda>c. cc_type c \<in> set types) (sb_credentials b) else []) (store_all S g)))"
proof -
  from assms(1) obtain es where rep: "represents S g es" by (auto simp: graph_ok_def)
  have "mset (credentials_of_types S arrange g types) = image_mset from_graph_entry (mset (concat (map (selected types) (batches S g))))"
    using credentials_of_types_mset [OF rep assms(2), of types] by (simp add: credentials_of_types_def)
  also have "\<dots> = mset (map from_graph_entry (concat (map (selected types) (batches S g))))" by simp
  also have "map from_graph_entry (concat (map (selected types) (batches S g))) = concat (map (\<lambda>b.
     if sb_status b = ''ISSUED'' then filter (\<lambda>c. cc_type c \<in> set types) (sb_credentials b) else []) (store_all S g))"
    unfolding store_all_def map_concat map_map comp_def selected_stored ..
  finally show ?thesis .
qed

text \<open>
  C29. The RDF credential store is a bounded queue of batches. Storing a batch appends it to what
  \<open>all\<close> reads back and drops the oldest batch beyond the cap, with no triple of it left to be read;
  a lookup by type finds, in some order, exactly the credentials of those types in the stored batches
  of status ISSUED; and an offer recorded in the same graph disturbs neither.
\<close>

theorem credential_store_refines:
  assumes "graph_ok S g" "next_order g + 1 < u64_limit" "batch_exact S b" "permutes arrange"
  shows "graph_ok S (store_batch S i b g)
    \<and> store_all S (store_batch S i b g) = push MAX_CREDENTIAL_BATCHES b (store_all S g)
    \<and> mset (credentials_of_types S arrange g types) = mset (concat (map (\<lambda>b.
         if sb_status b = ''ISSUED'' then filter (\<lambda>c. cc_type c \<in> set types) (sb_credentials b) else []) (store_all S g)))
    \<and> offers (store_batch S i b g) = offers g
    \<and> graph_ok S (snd (add_offer j no g)) \<and> store_all S (snd (add_offer j no g)) = store_all S g
    \<and> offers (snd (add_offer j no g)) = push MAX_ACCEPTED_OFFERS (read_offer j no) (offers g)"
  using store_batch_refines [OF assms(1,2,3)] credentials_of_types_refines [OF assms(1,4)]
    add_batch_refines(3) [OF assms(1,2)] add_offer_refines [OF assms(1,2)]
  by (simp add: store_batch_def store_all_def)

definition sample_serde :: serde where
  "sample_serde = \<lparr>serde_print = (\<lambda>v. case v of JStr s \<Rightarrow> s | _ \<Rightarrow> []), serde_parse = (\<lambda>s. Some (JStr s))\<rparr>"

definition sample_batch :: stored_credential_batch where
  "sample_batch = \<lparr>sb_issuer_pid = ''p1'', sb_holder_pid = Some ''h1'', sb_status = ''ISSUED'', sb_rejection_reason = None,
     sb_credentials = [\<lparr>cc_type = ''T'', cc_payload = JStr ''jws'', cc_format = ''jwt''\<rparr>]\<rparr>"

theorem credential_store_refines_witness:
  "let g = store_batch sample_serde ''b1'' sample_batch store_new
   in store_all sample_serde g = [sample_batch]
    \<and> mset (credentials_of_types sample_serde rev g [''T'']) = mset (sb_credentials sample_batch)"
proof -
  have room: "next_order store_new + 1 < u64_limit" "next_order (store_batch sample_serde ''b1'' sample_batch store_new) + 1 < u64_limit"
    by (simp_all add: store_new_def graph_open_def store_batch_def add_batch_def Let_def u64_add_def u64_limit_def)
  have ex: "batch_exact sample_serde sample_batch"
    by (simp add: batch_exact_def payload_exact_def sample_batch_def sample_serde_def)
  have perm: "permutes rev" by (simp add: permutes_def)
  have ok: "graph_ok sample_serde store_new" by (simp add: store_new_def graph_ok_open)
  note a = credential_store_refines [OF ok room(1) ex perm, of "''b1''"]
  have empty: "store_all sample_serde store_new = []" by code_simp
  from a have g: "graph_ok sample_serde (store_batch sample_serde ''b1'' sample_batch store_new)"
    and all: "store_all sample_serde (store_batch sample_serde ''b1'' sample_batch store_new) = [sample_batch]"
    unfolding empty by (simp_all add: push_def MAX_CREDENTIAL_BATCHES_def)
  from credential_store_refines [OF g room(2) ex perm, of "''b2''" "[''T'']"] all
  show ?thesis by (simp add: Let_def sample_batch_def)
qed

text \<open>
  The connector answers from the same store: a document fetched by id is the first document with
  that id in a pull of its kind, an id is reported missing exactly when the pull has no document of
  that id, a batch just stored under a new id is found under it with its fields, any other kind is
  refused by both, and nothing can be pushed.
\<close>

theorem connector_agrees:
  assumes ok: "graph_ok S g" and room: "next_order g + 1 < u64_limit" and fresh: "\<forall>b \<in> set (batches S g). cb_id b \<noteq> i"
  shows "(kind \<in> {STORED_CREDENTIAL_KIND, ACCEPTED_OFFER_KIND} \<longrightarrow> (\<exists>ds. connector_pull S g kind = Ok ds
          \<and> connector_get S g kind r = (case List.find (\<lambda>d. d_remote_id d = r) ds of
               None \<Rightarrow> Err (ConnectorNotFound kind r) | Some d \<Rightarrow> Ok d)))
    \<and> (kind \<notin> {STORED_CREDENTIAL_KIND, ACCEPTED_OFFER_KIND} \<longrightarrow>
          connector_pull S g kind = Err (UnsupportedKind source_name kind)
        \<and> connector_get S g kind r = Err (UnsupportedKind source_name kind))
    \<and> connector_get S (snd (add_batch S i nb g)) STORED_CREDENTIAL_KIND i
        = Ok (batch_document STORED_CREDENTIAL_KIND (read_batch S i nb))
    \<and> \<not> is_ok (connector_push doc)"
proof -
  have find_map: "List.find P (map f xs) = map_option f (List.find (P \<circ> f) xs)" for P and f :: "'x \<Rightarrow> document" and xs
    by (induction xs) auto
  have kinds: "STORED_CREDENTIAL_KIND \<noteq> ACCEPTED_OFFER_KIND"
    by (simp add: STORED_CREDENTIAL_KIND_def ACCEPTED_OFFER_KIND_def)
  have rid: "d_remote_id (batch_document k b) = cb_id b" "d_remote_id (offer_document k ao) = ao_id ao" for k b ao
    by (simp_all add: batch_document_def offer_document_def)
  have both: "\<exists>ds. connector_pull S g k = Ok ds \<and> connector_get S g k r = (case List.find (\<lambda>d. d_remote_id d = r) ds of
               None \<Rightarrow> Err (ConnectorNotFound k r) | Some d \<Rightarrow> Ok d)"
    if "k = STORED_CREDENTIAL_KIND \<or> k = ACCEPTED_OFFER_KIND" for k
    using that kinds
    by (auto simp: connector_pull_def connector_get_def batch_by_id_def offer_by_id_def find_map comp_def rid split: option.splits)
  have "List.find (\<lambda>b. cb_id b = i) (drop k (batches S g) @ [read_batch S i nb]) = Some (read_batch S i nb)" for k
  proof -
    have "\<forall>b \<in> set (drop k (batches S g)). cb_id b \<noteq> i" using fresh by (auto dest: in_set_dropD)
    then have "List.find (\<lambda>b. cb_id b = i) (drop k (batches S g)) = None" by (simp add: find_None_iff)
    moreover have "List.find P (xs @ ys) = (case List.find P xs of None \<Rightarrow> List.find P ys | Some x \<Rightarrow> Some x)"
      for P and xs ys :: "credential_batch list" by (induction xs) auto
    ultimately show ?thesis by (simp add: read_batch_def)
  qed
  then have "batch_by_id S (snd (add_batch S i nb g)) i = Some (read_batch S i nb)"
    unfolding batch_by_id_def add_batch_refines(2) [OF ok room] push_def MAX_CREDENTIAL_BATCHES_def by simp
  with both kinds show ?thesis by (auto simp: connector_pull_def connector_get_def connector_push_def)
qed

theorem connector_agrees_witness:
  "connector_get sample_serde (store_batch sample_serde ''b1'' sample_batch store_new) STORED_CREDENTIAL_KIND ''b1''
     \<noteq> connector_get sample_serde store_new STORED_CREDENTIAL_KIND ''b1''"
proof -
  have room: "next_order store_new + 1 < u64_limit" by (simp add: store_new_def graph_open_def u64_limit_def)
  have ok: "graph_ok sample_serde store_new" by (simp add: store_new_def graph_ok_open)
  have empty: "batches sample_serde store_new = []" by code_simp
  then have "\<forall>b \<in> set (batches sample_serde store_new). cb_id b \<noteq> ''b1''" by simp
  note a = connector_agrees [OF ok room this]
  have "connector_get sample_serde store_new STORED_CREDENTIAL_KIND ''b1'' = Err (ConnectorNotFound STORED_CREDENTIAL_KIND ''b1'')"
    by (simp add: connector_get_def batch_by_id_def empty)
  with a show ?thesis by (simp add: store_batch_def)
qed

end
