(* ===== verification/Service.thy ===== *)
theory Service
  imports Registry_Trust Credential_Store
begin

text \<open>
  What the request handlers of both modes share (handlers.rs): the mutable part of \<open>AppState\<close>, handlers
  as state-passing computations with a trace of contacted URLs and early returns, the two error
  responses, and the authentication of a caller. A handler runs as one step here; successive readings
  of the clock are given by a function of their position.
\<close>

record 'l hub_state =
  h_seen :: seen_jti_cache
  h_store :: graph
  h_registry :: "'l registry_cache"
  h_issuer :: issuer_state

section \<open>Handlers as computations\<close>

type_synonym ('s, 'a, 'e) sio = "'s \<Rightarrow> ('a, 'e) io \<times> 's"

definition sio_lift :: "('a, 'e) io \<Rightarrow> ('s, 'a, 'e) sio" where
  "sio_lift m s = (m, s)"

definition sio_bind :: "('s, 'a, 'e) sio \<Rightarrow> ('a \<Rightarrow> ('s, 'b, 'e) sio) \<Rightarrow> ('s, 'b, 'e) sio" where
  "sio_bind m f s =
     (case m s of
        ((tr, Inl e), s') \<Rightarrow> ((tr, Inl e), s')
      | ((tr, Inr v), s') \<Rightarrow> (case f v s' of ((tr', r), s'') \<Rightarrow> ((tr @ tr', r), s'')))"

definition sio_return :: "('a, 'e) result \<Rightarrow> ('s, 'a, 'e) sio" where
  "sio_return r = sio_lift (io_pure r)"

definition sio_modify :: "('s \<Rightarrow> 's) \<Rightarrow> 'a \<Rightarrow> ('s, 'a, 'e) sio" where
  "sio_modify f v s = (io_pure (Ok v), f s)"

fun sio_each :: "('a \<Rightarrow> ('s, unit, 'e) sio) \<Rightarrow> 'a list \<Rightarrow> ('s, unit, 'e) sio" where
  "sio_each f [] = sio_return (Ok ())"
| "sio_each f (x # xs) = sio_bind (f x) (\<lambda>_. sio_each f xs)"

text \<open>The response a handler sends, whichever way it returned.\<close>

definition respond :: "(response, response) io \<times> 's \<Rightarrow> response" where
  "respond run = (case snd (fst run) of Inl r \<Rightarrow> r | Inr r \<Rightarrow> r)"

definition sconfined :: "('d, 'k) dcp \<Rightarrow> outbound_policy \<Rightarrow> ('s, 'a, 'e) sio \<Rightarrow> bool" where
  "sconfined D pol m \<longleftrightarrow> (\<forall>s. confined D pol (fst (m s)))"

lemma sconfined_bind [hub_confined]:
  assumes "sconfined D pol m" "\<And>v. sconfined D pol (f v)"
  shows "sconfined D pol (sio_bind m f)"
  unfolding sconfined_def
proof
  fix s
  obtain tr r s' where m: "m s = ((tr, r), s')" by (metis prod.collapse)
  have tr: "confined D pol (tr, r)" using assms(1) m by (metis sconfined_def fst_conv)
  show "confined D pol (fst (sio_bind m f s))"
  proof (cases r)
    case (Inr v)
    obtain tr' r' s'' where f: "f v s' = ((tr', r'), s'')" by (metis prod.collapse)
    have "confined D pol (tr', r')" using assms(2) f by (metis sconfined_def fst_conv)
    with tr show ?thesis by (simp add: sio_bind_def m Inr f confined_def) blast
  qed (use tr in \<open>simp add: sio_bind_def m confined_def\<close>)
qed

lemma sconfined_lift [simp]: "sconfined D pol (sio_lift m) \<longleftrightarrow> confined D pol m"
  by (simp add: sconfined_def sio_lift_def)

lemma sconfined_return [simp]: "sconfined D pol (sio_return r)"
  by (simp add: sio_return_def)

lemma sconfined_modify [simp]: "sconfined D pol (sio_modify f v)"
  by (simp add: sconfined_def sio_modify_def)

lemma sconfined_each [hub_confined]: "(\<And>x. sconfined D pol (f x)) \<Longrightarrow> sconfined D pol (sio_each f xs)"
  by (induction xs) (auto intro: sconfined_bind)

text \<open>A run that returns normally went through every stage; one that does not stopped at the first failure.\<close>

lemma sio_bind_Ok:
  "snd (fst (sio_bind m f s)) = Ok w \<longleftrightarrow> (\<exists>v. snd (fst (m s)) = Ok v \<and> snd (fst (f v (snd (m s)))) = Ok w)"
  by (auto simp: sio_bind_def split: prod.splits sum.splits)

lemma sio_bind_state:
  "snd (sio_bind m f s) = (case snd (fst (m s)) of Inl e \<Rightarrow> snd (m s) | Inr v \<Rightarrow> snd (f v (snd (m s))))"
  by (auto simp: sio_bind_def split: prod.splits sum.splits)

lemma sio_bind_result:
  "snd (fst (sio_bind m f s)) = (case snd (fst (m s)) of Inl e \<Rightarrow> Inl e | Inr v \<Rightarrow> snd (fst (f v (snd (m s)))))"
  by (auto simp: sio_bind_def split: prod.splits sum.splits)

lemma sio_simps [simp]:
  "snd (fst (sio_lift m s)) = snd m" "snd (sio_lift m s) = s"
  "snd (fst (sio_return r s)) = r" "snd (sio_return r s) = s"
  "snd (fst (sio_modify g v s)) = Ok v" "snd (sio_modify g v s) = g s"
  by (simp_all add: sio_lift_def sio_return_def sio_modify_def)

text \<open>A part of the state every stage leaves alone.\<close>

definition keeps :: "('s \<Rightarrow> 'x) \<Rightarrow> ('s, 'a, 'e) sio \<Rightarrow> bool" where
  "keeps proj m \<longleftrightarrow> (\<forall>s. proj (snd (m s)) = proj s)"

lemma keeps_bind: "keeps p m \<Longrightarrow> (\<And>v. keeps p (f v)) \<Longrightarrow> keeps p (sio_bind m f)"
  by (auto simp: keeps_def sio_bind_state split: sum.splits)

lemma keeps_simps [simp]: "keeps p (sio_lift m)" "keeps p (sio_return r)"
  by (simp_all add: keeps_def)

lemma keeps_each: "(\<And>x. keeps p (f x)) \<Longrightarrow> keeps p (sio_each f xs)"
  by (induction xs) (auto intro: keeps_bind)

lemma keepsD: "keeps p m \<Longrightarrow> p (snd (m s)) = p s"
  by (simp add: keeps_def)

text \<open>What holds of every value a stage returns, under an invariant of the state the stages keep.\<close>

definition guarantees :: "('s \<Rightarrow> bool) \<Rightarrow> ('s, 'a, 'e) sio \<Rightarrow> ('a \<Rightarrow> bool) \<Rightarrow> bool" where
  "guarantees I m Q \<longleftrightarrow> (\<forall>s. I s \<longrightarrow> I (snd (m s)) \<and> (\<forall>v. snd (fst (m s)) = Ok v \<longrightarrow> Q v))"

lemma guarantees_bind:
  "guarantees I m Q \<Longrightarrow> (\<And>v. Q v \<Longrightarrow> guarantees I (f v) R) \<Longrightarrow> guarantees I (sio_bind m f) R"
  unfolding guarantees_def by (auto simp: sio_bind_state sio_bind_result split: sum.splits)

lemma guarantees_simps [simp]:
  "guarantees I (sio_lift m) Q \<longleftrightarrow> (\<forall>s. \<not> I s) \<or> (\<forall>v. snd m = Ok v \<longrightarrow> Q v)"
  "guarantees I (sio_return r) Q \<longleftrightarrow> (\<forall>s. \<not> I s) \<or> (\<forall>v. r = Ok v \<longrightarrow> Q v)"
  by (auto simp: guarantees_def)

lemma guaranteesD: "guarantees I m Q \<Longrightarrow> I s \<Longrightarrow> I (snd (m s)) \<and> (\<forall>v. snd (fst (m s)) = Ok v \<longrightarrow> Q v)"
  by (simp add: guarantees_def)

text \<open>The status codes a stage can refuse a request with.\<close>

definition refuses :: "nat set \<Rightarrow> ('s, 'a, response) sio \<Rightarrow> bool" where
  "refuses codes m \<longleftrightarrow> (\<forall>s r. snd (fst (m s)) = Inl r \<longrightarrow> r_status r \<in> codes)"

lemma refuses_bind: "refuses codes m \<Longrightarrow> (\<And>v. refuses codes (f v)) \<Longrightarrow> refuses codes (sio_bind m f)"
  by (auto simp: refuses_def sio_bind_result split: sum.splits)

lemma refuses_simps [simp]:
  "refuses codes (sio_lift m) \<longleftrightarrow> (\<forall>r. snd m = Inl r \<longrightarrow> r_status r \<in> codes)"
  "refuses codes (sio_return x) \<longleftrightarrow> (\<forall>r. x = Inl r \<longrightarrow> r_status r \<in> codes)"
  "refuses codes (sio_modify g v)"
  by (auto simp: refuses_def)

lemma refuses_each: "(\<And>x. refuses codes (f x)) \<Longrightarrow> refuses codes (sio_each f xs)"
  by (induction xs) (auto intro: refuses_bind)

lemma refusesD: "refuses codes m \<Longrightarrow> snd (fst (m s)) = Inl r \<Longrightarrow> r_status r \<in> codes"
  by (simp add: refuses_def)

section \<open>Error responses\<close>

definition auth_error_response :: "auth_error \<Rightarrow> response" where
  "auth_error_response e = resp_text 401 (auth_message e)"

definition validation_error_response :: "validation_error \<Rightarrow> response" where
  "validation_error_response e = resp_text 400 (validation_message e)"

section \<open>Callers\<close>

definition caller :: "json \<Rightarrow> string" where
  "caller claims = str_claim claims ''iss''"

definition credential_issuer :: "('d, 'k) dcp \<Rightarrow> credential_container \<Rightarrow> string option" where
  "credential_issuer D container =
     (case as_str (cc_payload container) of
        None \<Rightarrow> None
      | Some jws \<Rightarrow> (case decode_jws_unverified D jws of Inl e \<Rightarrow> None | Inr (header, payload) \<Rightarrow> get_str payload ''iss''))"

text \<open>The claims of the caller's ID token, or the 401 that ends the request.\<close>

definition authenticate ::
    "('d, 'k) dcp \<Rightarrow> 'd network \<Rightarrow> 'k app \<Rightarrow> string option \<Rightarrow> (nat \<Rightarrow> u64)
     \<Rightarrow> ('l hub_state, json, response) sio" where
  "authenticate D N a hdr clock s =
     (case verify_bearer_token D N hdr (own_did (a_identity a)) (insecure_http (a_config a)) (a_outbound a)
             (clock 0) (clock 1) (clock 2) (h_seen s) of
        (m, cache) \<Rightarrow> (io_map_err auth_error_response m, s\<lparr>h_seen := cache\<rparr>))"

text \<open>The trust step on an issuer and the types at stake.\<close>

definition trust_issuer ::
    "('d, 'k) dcp \<Rightarrow> 'd network \<Rightarrow> ('l, 'k) trust_core \<Rightarrow> 'k app \<Rightarrow> (nat \<Rightarrow> u64) \<Rightarrow> string \<Rightarrow> string list
     \<Rightarrow> ('l hub_state, unit, response) sio" where
  "trust_issuer D N T a clock iss types s =
     (case check_issuer D N T a (clock 0) (clock 1) iss types (h_registry s) of
        (m, cache) \<Rightarrow> (io_map_err auth_error_response m, s\<lparr>h_registry := cache\<rparr>))"

lemma authenticate_Ok:
  "snd (fst (authenticate D N a hdr clock s)) = Ok claims \<longleftrightarrow>
     envelope_valid D N hdr (own_did (a_identity a)) (insecure_http (a_config a)) (a_outbound a) (clock 0) (clock 1) (clock 2) claims
     \<and> (\<forall>j. get_str claims ''jti'' = Some j \<longrightarrow> j |\<notin>| seen (h_seen s))"
  unfolding verify_bearer_token_Ok [symmetric] by (auto simp: authenticate_def split: prod.splits)

lemma authenticate_confined [hub_confined]:
  assumes "resolves_through D N"
  shows "sconfined D (a_outbound a) (authenticate D N a hdr clock)"
proof -
  have "confined D (a_outbound a) (fst (verify_bearer_token D N hdr aud i (a_outbound a) t1 t2 t3 c))" for aud i t1 t2 t3 c
    using verify_envelope_confined [OF assms, of "a_outbound a" hdr aud i t1 t2 t3]
    by (simp add: confined_def verify_bearer_token_trace)
  then show ?thesis unfolding sconfined_def authenticate_def by (auto split: prod.splits) (metis fst_conv)
qed

lemma trust_issuer_confined [hub_confined]:
  assumes "resolves_through D N"
  shows "sconfined D (a_outbound a) (trust_issuer D N T a clock iss types)"
  unfolding sconfined_def trust_issuer_def
  using check_issuer_confined [OF assms, of a T "clock 0" "clock 1" iss types]
  by (auto split: prod.splits) (metis fst_conv)

lemma auth_keeps [simp]:
  "keeps h_store (authenticate D N a hdr clock)" "keeps h_issuer (authenticate D N a hdr clock)"
  "keeps h_registry (authenticate D N a hdr clock)"
  "keeps h_store (trust_issuer D N T a clock2 iss types)" "keeps h_issuer (trust_issuer D N T a clock2 iss types)"
  "keeps h_seen (trust_issuer D N T a clock2 iss types)"
  by (auto simp: keeps_def authenticate_def trust_issuer_def split: prod.splits)

text \<open>A response that ends a request at one of the two checks is a 401.\<close>

lemma auth_refuses [simp]:
  "401 \<in> codes \<Longrightarrow> refuses codes (authenticate D N a hdr clock)"
  "401 \<in> codes \<Longrightarrow> refuses codes (trust_issuer D N T a clock iss types)"
  by (auto simp: refuses_def authenticate_def trust_issuer_def auth_error_response_def split: prod.splits)

end
