(* ===== verification/Issuance.thy ===== *)
theory Issuance
  imports Issuer_Ops
begin

text \<open>
  The issuer as a concurrent system: HTTP handlers and spawned tasks interleave at the granularity
  of their critical sections. A world is the shared state, the tasks spawned so far with the stage
  each has reached, and the identifiers drawn so far (a UUID drawn later is different: that is the
  only assumption on the generator). The network between two sections answers anything.
\<close>

section \<open>Tasks\<close>

text \<open>
  The stages of \<open>deliver_issued_credential\<close> between its sections, then those of \<open>record_and_mint\<close>.
  A delivery that waits on the delivery semaphore is \<open>Queued\<close>, one that holds a permit and has not
  claimed its process yet is \<open>Permitted\<close>; the permit is given back when the task ends.
\<close>

datatype task =
    Queued string
  | Permitted string
  | Claimed issuance_process
  | Minting issuance_process "credential_definition list" "issued_credential list"
  | Accepted issuance_process "issued_credential list"
  | Failing issuance_process "nat list" string
  | Closing issuance_process process_state "string option"
  | Ended string
  | Redeeming credential_definition string string
  | RedeemIndexed credential_definition string string nat
  | RedeemRecorded credential_definition string string nat string
  | RedeemUndo nat
  | RedeemEnded

fun task_pids :: "task \<Rightarrow> string list" where
  "task_pids (Queued i) = [i]"
| "task_pids (Permitted i) = [i]"
| "task_pids (Claimed p) = [p_id p]"
| "task_pids (Minting p _ _) = [p_id p]"
| "task_pids (Accepted p _) = [p_id p]"
| "task_pids (Failing p _ _) = [p_id p]"
| "task_pids (Closing p _ _) = [p_id p]"
| "task_pids (Ended i) = [i]"
| "task_pids (RedeemRecorded _ _ _ _ i) = [i]"
| "task_pids _ = []"

fun task_indexes :: "task \<Rightarrow> nat list" where
  "task_indexes (Minting _ _ rs) = map c_index rs"
| "task_indexes (Accepted _ rs) = map c_index rs"
| "task_indexes (Failing _ is _) = is"
| "task_indexes (RedeemIndexed _ _ _ i) = [i]"
| "task_indexes (RedeemRecorded _ _ _ i _) = [i]"
| "task_indexes (RedeemUndo i) = [i]"
| "task_indexes _ = []"

fun task_cids :: "task \<Rightarrow> string list" where
  "task_cids (Minting _ _ rs) = map c_id rs"
| "task_cids (Accepted _ rs) = map c_id rs"
| "task_cids _ = []"

record world =
  shared :: issuer_state
  tasks :: "task list"
  drawn :: "string fset"

section \<open>The delivery semaphore\<close>

text \<open>
  The semaphore starts with \<open>MAX_IN_FLIGHT_DELIVERIES\<close> permits. A delivery takes one before anything
  else and holds it until it ends, so the permits taken are the tasks in between; a queued task can
  run only while a permit is left, and which queued task gets it is open. Redemptions take none.
\<close>

definition MAX_IN_FLIGHT_DELIVERIES :: nat where
  "MAX_IN_FLIGHT_DELIVERIES = 32"

fun holds_permit :: "task \<Rightarrow> bool" where
  "holds_permit (Permitted _) = True"
| "holds_permit (Claimed _) = True"
| "holds_permit (Minting _ _ _) = True"
| "holds_permit (Accepted _ _) = True"
| "holds_permit (Failing _ _ _) = True"
| "holds_permit (Closing _ _ _) = True"
| "holds_permit _ = False"

definition permits_out :: "task list \<Rightarrow> nat" where
  "permits_out ts = length (filter holds_permit ts)"

fun may_run :: "task list \<Rightarrow> task \<Rightarrow> bool" where
  "may_run ts (Queued _) = (permits_out ts < MAX_IN_FLIGHT_DELIVERIES)"
| "may_run ts _ = True"

section \<open>Steps of a task\<close>

text \<open>
  \<open>task_step s d t s' d' t'\<close>: one section of task \<open>t\<close> on the shared state \<open>s\<close>, with the identifiers \<open>d\<close>
  drawn before it.
\<close>

inductive task_step ::
    "issuer_state \<Rightarrow> string fset \<Rightarrow> task \<Rightarrow> issuer_state \<Rightarrow> string fset \<Rightarrow> task \<Rightarrow> bool" where
  acquire: "task_step s d (Queued pid) s d (Permitted pid)"
| claim_ok: "claim pid (s_requests s) = (Some p, t) \<Longrightarrow>
    task_step s d (Permitted pid) (s\<lparr>s_requests := t\<rparr>) d (Claimed p)"
| claim_no: "claim pid (s_requests s) = (None, t) \<Longrightarrow>
    task_step s d (Permitted pid) (s\<lparr>s_requests := t\<rparr>) d (Ended pid)"
| definitions_ok: "lookup_definitions (s_definitions s) (p_credential_definitions p) = Ok ds \<Longrightarrow>
    task_step s d (Claimed p) s d (Minting p ds [])"
| definitions_gone: "lookup_definitions (s_definitions s) (p_credential_definitions p) = Err e \<Longrightarrow>
    task_step s d (Claimed p) s d (Failing p [] e)"
| network_failure: "task_step s d (Minting p ds rs) s d (Failing p (map c_index rs) e)"
| mint: "issued_allocate (s_issued s) = (Some i, ic) \<Longrightarrow> uuid |\<notin>| d \<Longrightarrow>
    r = minted_record (p_id p) (p_holder_id p) (p_holder_did p) dn uuid now i \<Longrightarrow>
    task_step s d (Minting p (dn # ds) rs) (s\<lparr>s_issued := ic\<rparr>) (finsert uuid d) (Minting p ds (rs @ [r]))"
| exhausted: "issued_allocate (s_issued s) = (None, ic) \<Longrightarrow>
    task_step s d (Minting p (dn # ds) rs) (s\<lparr>s_issued := ic\<rparr>) d
      (Failing p (map c_index rs)
        ''the revocation status list is exhausted; no further credentials can be issued'')"
| posted: "task_step s d (Minting p [] rs) s d (Accepted p rs)"
| released: "release_each issued_release is (s_issued s) = Some ic \<Longrightarrow>
    task_step s d (Failing p is e) (s\<lparr>s_issued := ic\<rparr>) d (Closing p PErrored (Some e))"
| recorded: "task_step s d (Accepted p rs) (s\<lparr>s_issued := record_issued rs (s_issued s)\<rparr>) d
      (Closing p PDelivered None)"
| closed: "task_step s d (Closing p st e) (s\<lparr>s_requests := close_process (p_id p) st e now (s_requests s)\<rparr>) d
      (Ended (p_id p))"
| redeem_index: "issued_allocate (s_issued s) = (Some i, ic) \<Longrightarrow>
    task_step s d (Redeeming dn hdid hid) (s\<lparr>s_issued := ic\<rparr>) d (RedeemIndexed dn hdid hid i)"
| redeem_exhausted: "issued_allocate (s_issued s) = (None, ic) \<Longrightarrow>
    task_step s d (Redeeming dn hdid hid) (s\<lparr>s_issued := ic\<rparr>) d RedeemEnded"
| redeem_tracked: "pid |\<notin>| d \<Longrightarrow> rt_insert pid (redeem_process pid hid hdid dn now) (s_requests s) = Some t \<Longrightarrow>
    task_step s d (RedeemIndexed dn hdid hid i) (s\<lparr>s_requests := t\<rparr>) (finsert pid d)
      (RedeemRecorded dn hdid hid i pid)"
| redeem_full: "pid |\<notin>| d \<Longrightarrow> rt_insert pid (redeem_process pid hid hdid dn now) (s_requests s) = None \<Longrightarrow>
    task_step s d (RedeemIndexed dn hdid hid i) s (finsert pid d) (RedeemUndo i)"
| redeem_undo: "issued_release i (s_issued s) = Some ic \<Longrightarrow>
    task_step s d (RedeemUndo i) (s\<lparr>s_issued := ic\<rparr>) d RedeemEnded"
| redeem_done: "uuid |\<notin>| d \<Longrightarrow>
    task_step s d (RedeemRecorded dn hdid hid i pid)
      (s\<lparr>s_issued := issued_insert (minted_record pid hid hdid dn uuid now i) (s_issued s)\<rparr>)
      (finsert uuid d) RedeemEnded"

section \<open>Steps of the environment\<close>

text \<open>\<open>env_step s d s' d' ts\<close>: a handler's section, with the tasks it spawns.\<close>

inductive env_step ::
    "issuer_state \<Rightarrow> string fset \<Rightarrow> issuer_state \<Rightarrow> string fset \<Rightarrow> task list \<Rightarrow> bool" where
  request_refused: "pid |\<notin>| d \<Longrightarrow> hid |\<notin>| finsert pid d \<Longrightarrow>
    request_section approval pid hid now hdid hpid bearer (dedup_ids [] ids) s = (Err e, s') \<Longrightarrow>
    env_step s d s' (finsert hid (finsert pid d)) []"
| request_admitted: "pid |\<notin>| d \<Longrightarrow> hid |\<notin>| finsert pid d \<Longrightarrow>
    request_section approval pid hid now hdid hpid bearer (dedup_ids [] ids) s = (Ok deliver, s') \<Longrightarrow>
    env_step s d s' (finsert hid (finsert pid d)) (if deliver then [Queued pid] else [])"
| approve: "decide_holder hid Approved PApproved now s = (Ok (h, moved), s') \<Longrightarrow>
    distinct pids \<Longrightarrow> set pids = fset moved \<Longrightarrow>
    env_step s d s' d (map Queued pids)"
| reject: "decide_holder hid Rejected PRejected now s = (Ok (h, moved), s') \<Longrightarrow>
    env_step s d s' d []"
| register: "registry_insert h (s_holders s) = Ok (h', hs) \<Longrightarrow>
    env_step s d (s\<lparr>s_holders := hs\<rparr>) (finsert (holder_id h) d) []"
| rename: "(\<And>h. holder_id (f h) = holder_id h \<and> did (f h) = did h \<and> status (f h) = status h) \<Longrightarrow>
    env_step s d (s\<lparr>s_holders := registry_modify hid f (s_holders s)\<rparr>) d []"
| create: "into_definition inp now = Ok dn \<Longrightarrow> input_in_range inp \<Longrightarrow>
    catalog_create dn (s_definitions s) = Ok c \<Longrightarrow>
    env_step s d (s\<lparr>s_definitions := c\<rparr>) d []"
| update: "into_definition inp now = Ok dn \<Longrightarrow> input_in_range inp \<Longrightarrow>
    catalog_update dn (s_definitions s) = Ok (dn', c) \<Longrightarrow>
    env_step s d (s\<lparr>s_definitions := c\<rparr>) d []"
| delete: "delete_definition i s = (r, s') \<Longrightarrow> env_step s d s' d []"
| revoke: "issued_revoke i (s_issued s) = Some (r, ic) \<Longrightarrow>
    env_step s d (s\<lparr>s_issued := ic\<rparr>) d []"
| redeem: "hid |\<notin>| d \<Longrightarrow> catalog_get (s_definitions s) i = Some dn \<Longrightarrow>
    redeem_holder approval hid now hdid (s_holders s) = (Ok hid', hs) \<Longrightarrow>
    env_step s d (s\<lparr>s_holders := hs\<rparr>) (finsert hid d) [Redeeming dn hdid hid']"
| publish: "env_step s d (s\<lparr>s_issued := (s_issued s)\<lparr>ic_list := (ic_list (s_issued s))\<lparr>cached_jwt := Some j\<rparr>\<rparr>\<rparr>) d []"

text \<open>
  \<open>task_move i w w'\<close>: the task at position \<open>i\<close> runs its next section, which it can unless that is to
  take a permit and none is left.
\<close>

inductive task_move :: "nat \<Rightarrow> world \<Rightarrow> world \<Rightarrow> bool" where
  "i < length (tasks w) \<Longrightarrow> may_run (tasks w) (tasks w ! i) \<Longrightarrow>
    task_step (shared w) (drawn w) (tasks w ! i) s d t \<Longrightarrow>
    task_move i w (w\<lparr>shared := s, drawn := d, tasks := (tasks w)[i := t]\<rparr>)"

inductive step :: "world \<Rightarrow> world \<Rightarrow> bool" where
  task: "task_move i w w' \<Longrightarrow> step w w'"
| env: "env_step (shared w) (drawn w) s d ts \<Longrightarrow>
    step w (w\<lparr>shared := s, drawn := d, tasks := tasks w @ ts\<rparr>)"

inductive reachable :: "nat \<Rightarrow> world \<Rightarrow> bool" for cap where
  start: "catalog_seeded now = Some c \<Longrightarrow>
    reachable cap \<lparr>shared = \<lparr>s_definitions = c, s_holders = registry_default,
        s_requests = rt_new cap, s_issued = issued_default\<rparr>, tasks = [], drawn = {||}\<rparr>"
| extend: "reachable cap w \<Longrightarrow> step w w' \<Longrightarrow> reachable cap w'"

section \<open>Invariants\<close>

text \<open>
  A task past its claim owns its process: the table holds it approved, started, and unchanged since
  the claim. Before its claim a task, with or without a permit, finds its process approved and not
  started, or rejected meanwhile.
\<close>

definition owned :: "request_table \<Rightarrow> issuance_process \<Rightarrow> bool" where
  "owned tab p \<longleftrightarrow> fmlookup (records tab) (p_id p) = Some p \<and> p_state p = PApproved \<and> p_delivery_started p"

definition issued_for :: "issuance_process \<Rightarrow> issued_credential \<Rightarrow> bool" where
  "issued_for p r \<longleftrightarrow> c_process_id r = p_id p \<and> c_holder_id r = p_holder_id p
     \<and> c_holder_did r = p_holder_did p \<and> c_status r = RActive"

fun task_ok :: "request_table \<Rightarrow> task \<Rightarrow> bool" where
  "task_ok tab (Queued i) = (\<forall>p. fmlookup (records tab) i = Some p \<longrightarrow>
     p_state p = PRejected \<or> p_state p = PApproved \<and> \<not> p_delivery_started p)"
| "task_ok tab (Permitted i) = (\<forall>p. fmlookup (records tab) i = Some p \<longrightarrow>
     p_state p = PRejected \<or> p_state p = PApproved \<and> \<not> p_delivery_started p)"
| "task_ok tab (Claimed p) = owned tab p"
| "task_ok tab (Minting p ds rs) = (owned tab p
     \<and> map c_definition_id rs @ map cd_id ds = p_credential_definitions p \<and> (\<forall>r \<in> set rs. issued_for p r))"
| "task_ok tab (Accepted p rs) = (owned tab p
     \<and> map c_definition_id rs = p_credential_definitions p \<and> (\<forall>r \<in> set rs. issued_for p r))"
| "task_ok tab (Failing p is e) = owned tab p"
| "task_ok tab (Closing p st e) = (owned tab p \<and> (st = PDelivered \<and> e = None \<or> st = PErrored \<and> e \<noteq> None))"
| "task_ok tab (Ended i) = (\<forall>p. fmlookup (records tab) i = Some p \<longrightarrow> is_terminal (p_state p))"
| "task_ok tab (RedeemRecorded dn hdid hid n i) = (\<forall>p. fmlookup (records tab) i = Some p \<longrightarrow>
     p_state p = PDelivered \<and> p_credential_definitions p = [cd_id dn])"
| "task_ok tab _ = True"

text \<open>The task that will bring an approved process to its end.\<close>

fun serves :: "task \<Rightarrow> issuance_process \<Rightarrow> bool" where
  "serves (Queued i) p = (p_id p = i \<and> \<not> p_delivery_started p)"
| "serves (Permitted i) p = (p_id p = i \<and> \<not> p_delivery_started p)"
| "serves (Claimed q) p = (q = p)"
| "serves (Minting q _ _) p = (q = p)"
| "serves (Accepted q _) p = (q = p)"
| "serves (Failing q _ _) p = (q = p)"
| "serves (Closing q _ _) p = (q = p)"
| "serves _ p = False"

definition in_flight :: "task list \<Rightarrow> nat list" where
  "in_flight ts = concat (map task_indexes ts)"

definition issued_inv :: "issued_credentials \<Rightarrow> task list \<Rightarrow> bool" where
  "issued_inv ic ts \<longleftrightarrow> issued_ok ic (set (in_flight ts)) \<and> distinct (in_flight ts)"

definition cids_inv :: "issued_credentials \<Rightarrow> string fset \<Rightarrow> task list \<Rightarrow> bool" where
  "cids_inv ic d ts \<longleftrightarrow> distinct (concat (map task_cids ts))
     \<and> (\<forall>c \<in> set (concat (map task_cids ts)). fmlookup (ic_records ic) c = None)
     \<and> (\<forall>c \<in> set (concat (map task_cids ts)) \<union> fset (fmdom (ic_records ic)).
          \<exists>u. u |\<in>| d \<and> c = credential_urn u)"

definition pids_inv :: "request_table \<Rightarrow> string fset \<Rightarrow> task list \<Rightarrow> bool" where
  "pids_inv tab d ts \<longleftrightarrow> rt_ok tab \<and> distinct (concat (map task_pids ts))
     \<and> set (concat (map task_pids ts)) \<subseteq> fset d \<and> fset (fmdom (records tab)) \<subseteq> fset d"

definition procs_inv :: "string set \<Rightarrow> request_table \<Rightarrow> task list \<Rightarrow> bool" where
  "procs_inv ids tab ts \<longleftrightarrow> (\<forall>i p. fmlookup (records tab) i = Some p \<longrightarrow>
     (is_active (p_state p) \<longrightarrow> set (p_credential_definitions p) \<subseteq> ids)
     \<and> (p_state p = PSubmitted \<longrightarrow> \<not> p_delivery_started p \<and> i \<notin> set (concat (map task_pids ts)))
     \<and> (p_state p = PApproved \<longrightarrow> (\<exists>t \<in> set ts. serves t p)))"

definition records_inv :: "request_table \<Rightarrow> issued_credentials \<Rightarrow> string fset \<Rightarrow> task list \<Rightarrow> bool" where
  "records_inv tab ic d ts \<longleftrightarrow> (\<forall>c r. fmlookup (ic_records ic) c = Some r \<longrightarrow>
     c_process_id r |\<in>| d
     \<and> (\<forall>p. fmlookup (records tab) (c_process_id r) = Some p \<longrightarrow>
          p_state p = PDelivered \<or> Closing p PDelivered None \<in> set ts))"

definition covered :: "issued_credentials \<Rightarrow> task list \<Rightarrow> issuance_process \<Rightarrow> bool" where
  "covered ic ts p \<longleftrightarrow> (\<forall>x \<in> set (p_credential_definitions p).
     (\<exists>c r. fmlookup (ic_records ic) c = Some r \<and> c_process_id r = p_id p \<and> c_definition_id r = x)
     \<or> (\<exists>dn hdid hid n. RedeemRecorded dn hdid hid n (p_id p) \<in> set ts \<and> cd_id dn = x))"

definition delivered_inv :: "request_table \<Rightarrow> issued_credentials \<Rightarrow> task list \<Rightarrow> bool" where
  "delivered_inv tab ic ts \<longleftrightarrow>
     (\<forall>i p. fmlookup (records tab) i = Some p \<and> p_state p = PDelivered \<longrightarrow> covered ic ts p)
     \<and> (\<forall>p e. Closing p PDelivered e \<in> set ts \<longrightarrow> covered ic ts p)"

definition caps_inv :: "request_table \<Rightarrow> bool" where
  "caps_inv tab \<longleftrightarrow> fcard (pending_ids tab) \<le> MAX_PENDING_PROCESSES
     \<and> (\<forall>h. fcard (pending_of tab h) \<le> MAX_PENDING_PROCESSES_PER_HOLDER)"

definition issuer_inv :: "issuer_state \<Rightarrow> string fset \<Rightarrow> task list \<Rightarrow> bool" where
  "issuer_inv s d ts \<longleftrightarrow>
     catalog_ok (s_definitions s) \<and> registry_ok (s_holders s)
     \<and> issued_inv (s_issued s) ts \<and> cids_inv (s_issued s) d ts
     \<and> pids_inv (s_requests s) d ts \<and> (\<forall>t \<in> set ts. task_ok (s_requests s) t)
     \<and> procs_inv (catalog_ids (s_definitions s)) (s_requests s) ts
     \<and> records_inv (s_requests s) (s_issued s) d ts
     \<and> delivered_inv (s_requests s) (s_issued s) ts
     \<and> caps_inv (s_requests s)"

text \<open>The invariant does not depend on the order of the tasks.\<close>

lemma issuer_inv_rotate: "issuer_inv s d (as @ t # bs) \<longleftrightarrow> issuer_inv s d (t # as @ bs)"
proof -
  have d: "distinct (xs @ y @ zs) \<longleftrightarrow> distinct (y @ xs @ zs)" for xs y zs :: "'a list" by auto
  have m: "concat (map f (as @ t # bs)) = concat (map f as) @ f t @ concat (map f bs)"
    "concat (map f (t # as @ bs)) = f t @ concat (map f as) @ concat (map f bs)" for f :: "task \<Rightarrow> 'b list"
    by simp_all
  have st: "set (as @ t # bs) = set (t # as @ bs)" by auto
  have sc: "set (concat (map f (as @ t # bs))) = set (concat (map f (t # as @ bs)))" for f :: "task \<Rightarrow> 'b list"
    by auto
  have dc: "distinct (concat (map f (as @ t # bs))) = distinct (concat (map f (t # as @ bs)))" for f :: "task \<Rightarrow> 'b list"
    unfolding m by (rule d)
  show ?thesis
    unfolding issuer_inv_def issued_inv_def in_flight_def cids_inv_def pids_inv_def procs_inv_def
      records_inv_def delivered_inv_def covered_def st sc dc ..
qed

section \<open>Frame lemmas\<close>

text \<open>Outside \<open>X\<close> the table is unchanged, except that terminal processes may have been evicted.\<close>

definition framed :: "string set \<Rightarrow> request_table \<Rightarrow> request_table \<Rightarrow> bool" where
  "framed X tab tab' \<longleftrightarrow> (\<forall>j. j \<notin> X \<longrightarrow> fmlookup (records tab') j = fmlookup (records tab) j
     \<or> fmlookup (records tab') j = None
       \<and> (\<exists>q. fmlookup (records tab) j = Some q \<and> is_terminal (p_state q)))"

lemma framed_refl [simp]: "framed X tab tab"
  by (simp add: framed_def)

lemma framed_modify: "framed {i} tab (rt_modify i f tab)"
  by (simp add: framed_def rt_modify_lookup)

lemma framed_insert:
  assumes "rt_insert i p tab = Some tab'" and "rt_ok tab"
  shows "framed {i} tab tab'"
proof -
  note r = rt_insert_SomeD [OF assms]
  have "fmlookup (records tab') j = fmlookup (records tab) j \<or> fmlookup (records tab') j = None
       \<and> (\<exists>q. fmlookup (records tab) j = Some q \<and> is_terminal (p_state q))" if "j \<noteq> i" for j
    using r(2) [of j] r(3) [of j] that
    by (cases "fmlookup (records tab) j"; cases "fmlookup (records tab') j") (auto simp: is_terminal_def)
  then show ?thesis by (simp add: framed_def)
qed

lemma framed_old: "framed X tab tab' \<Longrightarrow> j \<notin> X \<Longrightarrow> fmlookup (records tab') j = Some q \<Longrightarrow> fmlookup (records tab) j = Some q"
  by (auto simp: framed_def)

lemma framed_active: "framed X tab tab' \<Longrightarrow> j \<notin> X \<Longrightarrow> fmlookup (records tab) j = Some q \<Longrightarrow> is_active (p_state q)
  \<Longrightarrow> fmlookup (records tab') j = Some q"
  by (force simp: framed_def is_terminal_def)

lemma task_ok_framed:
  assumes "framed X tab tab'" and "set (task_pids t) \<inter> X = {}" and "task_ok tab t"
  shows "task_ok tab' t"
  using assms by (cases t) (auto simp: owned_def dest: framed_old framed_active)

section \<open>Index accounting across tasks\<close>

lemma record_issued_Cons [simp]: "record_issued (r # rs) ic = record_issued rs (issued_insert r ic)"
  "record_issued [] ic = ic"
  by (simp_all add: record_issued_def)

lemma record_issued_list [simp]: "ic_list (record_issued rs ic) = ic_list ic"
  by (induction rs arbitrary: ic) (simp_all add: issued_insert_def)

lemma record_issued_lookup:
  assumes "distinct (map c_id rs)"
  shows "fmlookup (ic_records (record_issued rs ic)) c = Some r \<longleftrightarrow>
     (r \<in> set rs \<and> c = c_id r) \<or> (c \<notin> c_id ` set rs \<and> fmlookup (ic_records ic) c = Some r)"
  using assms
proof (induction rs arbitrary: ic)
  case Nil
  then show ?case by simp
next
  case (Cons q rs)
  then have "distinct (map c_id rs)" by simp
  note IH = Cons.IH [OF this, of "issued_insert q ic"]
  have lk: "fmlookup (ic_records (issued_insert q ic)) c = (if c = c_id q then Some q else fmlookup (ic_records ic) c)"
    by (simp add: issued_insert_def)
  from Cons.prems have "c_id q \<notin> c_id ` set rs" by simp
  then show ?case unfolding record_issued_Cons IH lk by auto
qed

lemma record_issued_None:
  "fmlookup (ic_records (record_issued rs ic)) c = None \<longleftrightarrow>
     c \<notin> c_id ` set rs \<and> fmlookup (ic_records ic) c = None"
  by (induction rs arbitrary: ic) (auto simp: issued_insert_def)

lemma record_issued_dom:
  "fset (fmdom (ic_records (record_issued rs ic))) = c_id ` set rs \<union> fset (fmdom (ic_records ic))"
  by (induction rs arbitrary: ic) (auto simp: issued_insert_def)

lemma record_issued_ok:
  assumes "issued_ok ic F" and "distinct (map c_index rs)" and "set (map c_index rs) \<subseteq> F"
    and "distinct (map c_id rs)" and "\<forall>r \<in> set rs. c_status r = RActive \<and> fmlookup (ic_records ic) (c_id r) = None"
  shows "issued_ok (record_issued rs ic) (F - set (map c_index rs))"
  using assms
proof (induction rs arbitrary: ic F)
  case Nil
  then show ?case by simp
next
  case (Cons r rs)
  have 1: "issued_ok (issued_insert r ic) (F - {c_index r})"
    using issued_insert_ok [OF Cons.prems(1), of r] Cons.prems(3,5) by simp
  have "set (map c_index rs) \<subseteq> F - {c_index r}"
    using Cons.prems(2,3) by (auto simp: image_iff)
  moreover have "\<forall>q \<in> set rs. c_status q = RActive \<and> fmlookup (ic_records (issued_insert r ic)) (c_id q) = None"
    using Cons.prems(4,5) by (auto simp: issued_insert_def)
  ultimately have "issued_ok (record_issued rs (issued_insert r ic)) (F - {c_index r} - set (map c_index rs))"
    using Cons.IH [OF 1] Cons.prems(2,4) by simp
  moreover have "F - {c_index r} - set (map c_index rs) = F - set (map c_index (r # rs))" by auto
  ultimately show ?case by simp
qed

lemma issued_ok_cached: "issued_ok (ic\<lparr>ic_list := (ic_list ic)\<lparr>cached_jwt := j\<rparr>\<rparr>) F \<longleftrightarrow> issued_ok ic F"
  by (simp add: issued_ok_def)

lemma release_each_records:
  "release_each issued_release is ic = Some ic' \<Longrightarrow> ic_records ic' = ic_records ic"
  by (induction "is" arbitrary: ic) (auto simp: issued_release_def split: option.splits)

lemma in_flight_Cons [simp]: "in_flight (t # ts) = task_indexes t @ in_flight ts" "in_flight [] = []"
  "in_flight (ts @ us) = in_flight ts @ in_flight us"
  by (simp_all add: in_flight_def)

lemma fresh_cid:
  assumes "cids_inv ic d ts" and "u |\<notin>| d"
  shows "fmlookup (ic_records ic) (credential_urn u) = None" "credential_urn u \<notin> set (concat (map task_cids ts))"
proof -
  have no: "credential_urn u \<notin> set (concat (map task_cids ts)) \<union> fset (fmdom (ic_records ic))"
    using assms unfolding cids_inv_def by (metis credential_urn_inj)
  then show "fmlookup (ic_records ic) (credential_urn u) = None" by (auto intro: fmdom_notD)
  from no show "credential_urn u \<notin> set (concat (map task_cids ts))" by blast
qed

lemma issued_inv_task:
  assumes "task_step s d t s' d' t'" and iv: "issued_inv (s_issued s) (t # us)"
    and cids: "cids_inv (s_issued s) d (t # us)" and ok: "task_ok (s_requests s) t"
  shows "issued_inv (s_issued s') (t' # us)"
  using assms(1)
proof cases
  case (mint i ic uuid r p dn now ds rs)
  with issued_allocate_ok [of "s_issued s" "set (in_flight (t # us))" i ic] iv show ?thesis
    by (simp add: issued_inv_def)
next
  case (exhausted ic p dn ds rs)
  with pool.alloc_full iv show ?thesis by (auto simp: issued_inv_def)
next
  case (released "is" ic p e)
  from iv released have ok': "issued_ok (s_issued s) (set is \<union> set (in_flight us))" "distinct is"
    "set is \<inter> set (in_flight us) = {}" "distinct (in_flight us)" by (auto simp: issued_inv_def)
  from pool.release_all [OF ok'(1) _ ok'(2)] released ok'(3) have "issued_ok ic (set (in_flight us))"
    by (auto simp: Un_Diff Diff_triv Int_commute)
  with released ok'(4) show ?thesis by (simp add: issued_inv_def)
next
  case (recorded p rs)
  from iv recorded have ok': "issued_ok (s_issued s) (c_index ` set rs \<union> set (in_flight us))"
    "distinct (map c_index rs)" "c_index ` set rs \<inter> set (in_flight us) = {}" "distinct (in_flight us)"
    by (auto simp: issued_inv_def)
  from cids recorded have "distinct (map c_id rs)" "\<forall>r \<in> set rs. fmlookup (ic_records (s_issued s)) (c_id r) = None"
    by (auto simp: cids_inv_def)
  moreover have "\<forall>r \<in> set rs. c_status r = RActive" using ok recorded by (auto simp: issued_for_def)
  ultimately have "issued_ok (record_issued rs (s_issued s)) (c_index ` set rs \<union> set (in_flight us) - c_index ` set rs)"
    using record_issued_ok [OF ok'(1,2)] by simp
  with recorded ok'(3,4) show ?thesis by (simp add: issued_inv_def Un_Diff Diff_triv Int_commute)
next
  case (redeem_index i ic dn hdid hid)
  with issued_allocate_ok [of "s_issued s" "set (in_flight (t # us))" i ic] iv show ?thesis
    by (simp add: issued_inv_def)
next
  case (redeem_exhausted ic dn hdid hid)
  with pool.alloc_full iv show ?thesis by (auto simp: issued_inv_def)
next
  case (redeem_undo i ic)
  with issued_release_ok [of "s_issued s" "insert i (set (in_flight us))" i] iv show ?thesis
    by (auto simp: issued_inv_def)
next
  case (redeem_done uuid dn hdid hid i pid now)
  with issued_insert_ok [of "s_issued s" "insert i (set (in_flight us))" "minted_record pid hid hdid dn uuid now i"]
    iv fresh_cid(1) [OF cids] show ?thesis by (simp add: issued_inv_def)
qed (use iv in \<open>simp_all add: issued_inv_def\<close>)

lemma issued_inv_env:
  assumes "env_step s d s' d' ts" and "issued_inv (s_issued s) us" and "rt_ok (s_requests s)"
  shows "issued_inv (s_issued s') (us @ ts)"
proof -
  have none: "in_flight ts = []" using assms(1) by cases (auto simp: in_flight_def)
  from assms(1) have "issued_ok (s_issued s) F \<Longrightarrow> issued_ok (s_issued s') F" for F
  proof cases
    case (delete i r)
    with delete_definition_effect [of i s r s'] assms(3) show "issued_ok (s_issued s) F \<Longrightarrow> issued_ok (s_issued s') F"
      by auto
  next
    case (revoke i r ic)
    then show "issued_ok (s_issued s) F \<Longrightarrow> issued_ok (s_issued s') F"
      using issued_revoke_ok [of "s_issued s" F i] by auto
  qed (auto simp: issued_ok_cached dest: request_section_Err decide_holder_Ok elim!: request_section_Ok)
  with assms(2) none show ?thesis by (simp add: issued_inv_def)
qed

lemma issued_revoke_dom:
  assumes "issued_revoke i ic = Some (r, ic')"
  shows "fmdom (ic_records ic') = fmdom (ic_records ic)"
    and "fmlookup (ic_records ic') c = None \<longleftrightarrow> fmlookup (ic_records ic) c = None"
  using assms by (auto simp: issued_revoke_def Let_def split: option.splits if_splits dest: fmdomI)

section \<open>Identifiers\<close>

lemma cids_inv_mono: "cids_inv ic d ts \<Longrightarrow> cids_inv ic (finsert u d) ts"
  unfolding cids_inv_def by blast

lemma cids_inv_task:
  assumes "task_step s d t s' d' t'" and iv: "cids_inv (s_issued s) d (t # us)"
  shows "cids_inv (s_issued s') d' (t' # us)"
  using assms(1)
proof cases
  case (mint i ic uuid r p dn now ds rs)
  then have "ic_records ic = ic_records (s_issued s)" by (auto simp: issued_allocate_def split: prod.splits)
  with mint iv fresh_cid [OF iv mint(6)] show ?thesis
    unfolding cids_inv_def by auto
next
  case (recorded p rs)
  with iv show ?thesis unfolding cids_inv_def by (auto simp: record_issued_None record_issued_dom)
next
  case (redeem_done uuid dn hdid hid i pid now)
  with iv fresh_cid [OF iv redeem_done(5)] show ?thesis
    unfolding cids_inv_def issued_insert_def by auto
qed (use iv in \<open>auto simp: cids_inv_def issued_allocate_def issued_release_def
      dest: release_each_records split: prod.splits\<close>)

text \<open>What a handler's section leaves alone.\<close>

lemma env_issued:
  assumes "env_step s d s' d' ts" and "rt_ok (s_requests s)"
  shows "fmdom (ic_records (s_issued s')) = fmdom (ic_records (s_issued s))"
    and "concat (map task_cids ts) = []" and "d |\<subseteq>| d'"
  using assms(1)
proof (atomize (full), cases)
  case (delete i r)
  with delete_definition_effect [of i s r s'] assms(2)
  show "fmdom (ic_records (s_issued s')) = fmdom (ic_records (s_issued s)) \<and> concat (map task_cids ts) = [] \<and> d |\<subseteq>| d'"
    by auto
next
  case (revoke i r ic)
  with issued_revoke_dom(1) [of i "s_issued s" r ic]
  show "fmdom (ic_records (s_issued s')) = fmdom (ic_records (s_issued s)) \<and> concat (map task_cids ts) = [] \<and> d |\<subseteq>| d'"
    by simp
next
  case (approve hid now h moved pids)
  then show "fmdom (ic_records (s_issued s')) = fmdom (ic_records (s_issued s)) \<and> concat (map task_cids ts) = [] \<and> d |\<subseteq>| d'"
    by (auto dest: decide_holder_Ok)
qed (auto dest: request_section_Err decide_holder_Ok elim!: request_section_Ok)

lemma cids_inv_env:
  assumes "env_step s d s' d' ts" and "cids_inv (s_issued s) d us" and "rt_ok (s_requests s)"
  shows "cids_inv (s_issued s') d' (us @ ts)"
proof -
  note e = env_issued [OF assms(1,3)]
  have n: "fmlookup (ic_records (s_issued s')) c = None \<longleftrightarrow> fmlookup (ic_records (s_issued s)) c = None" for c
    using e(1) by (metis fmdom_notD fmdom_notI)
  have c: "concat (map task_cids (us @ ts)) = concat (map task_cids us)"
    unfolding map_append concat_append e(2) by (rule append_Nil2)
  from assms(2) e(3) show ?thesis unfolding cids_inv_def e(1) n c by (blast dest: fsubsetD)
qed

lemma close_process_ok [hub_inv]: "rt_ok tab \<Longrightarrow> rt_ok (close_process i st e now tab)"
  unfolding close_process_def by (rule rt_modify_ok) simp_all

lemma claim_ok_inv [hub_inv]: "rt_ok tab \<Longrightarrow> claim i tab = (r, tab') \<Longrightarrow> rt_ok tab'"
  by (cases r) (auto simp: claim_Some claim_None intro: rt_modify_ok)

lemma claim_dom: "claim i tab = (r, tab') \<Longrightarrow> fmdom (records tab') = fmdom (records tab)"
  by (cases r) (auto simp: claim_Some claim_None)

lemma rt_insert_dom:
  assumes "rt_insert i p tab = Some tab'" and "rt_ok tab"
  shows "fset (fmdom (records tab')) \<subseteq> insert i (fset (fmdom (records tab)))"
proof
  fix j assume "j \<in> fset (fmdom (records tab'))"
  then obtain q where "fmlookup (records tab') j = Some q" by (auto elim: fmdomE)
  with rt_insert_SomeD(2) [OF assms] show "j \<in> insert i (fset (fmdom (records tab)))"
    by (cases "j = i") (auto intro: fmdomI)
qed

lemma pids_inv_fresh: "pids_inv tab d ts \<Longrightarrow> i |\<notin>| d \<Longrightarrow> fmlookup (records tab) i = None"
  unfolding pids_inv_def by (blast intro: fmdom_notD)

lemma pids_inv_other:
  "pids_inv tab d (t # us) \<Longrightarrow> u \<in> set us \<Longrightarrow> set (task_pids u) \<inter> set (task_pids t) = {}"
  by (auto simp: pids_inv_def)

lemma pids_inv_insert:
  assumes "pids_inv tab d ts" and "rt_insert i p tab = Some tab'" and "i |\<notin>| d" and "p_id p = i"
  shows "rt_ok tab' \<and> fset (fmdom (records tab')) \<subseteq> fset (finsert i d)"
  using rt_insert_SomeD(5) [OF assms(2) _ pids_inv_fresh [OF assms(1,3)] assms(4)]
    rt_insert_dom [OF assms(2)] assms(1) by (auto simp: pids_inv_def)

lemma pids_inv_task:
  assumes "task_step s d t s' d' t'" and iv: "pids_inv (s_requests s) d (t # us)"
    and ok: "task_ok (s_requests s) t"
  shows "pids_inv (s_requests s') d' (t' # us)"
  using assms(1)
proof cases
  case (claim_ok pid p tab)
  then obtain q where q: "fmlookup (records (s_requests s)) pid = Some q" "p = q\<lparr>p_delivery_started := True\<rparr>"
    by (auto simp: claim_Some)
  with iv have "p_id p = pid" by (auto simp: pids_inv_def rt_ok_def)
  with claim_ok iv show ?thesis by (auto simp: pids_inv_def claim_dom hub_inv)
next
  case (claim_no pid tab)
  with iv show ?thesis by (auto simp: pids_inv_def claim_dom hub_inv)
next
  case (closed p st e now)
  then show ?thesis using iv by (auto simp: pids_inv_def hub_inv close_process_def)
next
  case (redeem_tracked pid hid hdid dn now tab i)
  with pids_inv_insert [OF iv redeem_tracked(6) redeem_tracked(5)] iv show ?thesis
    by (auto simp: pids_inv_def)
qed (use iv in \<open>auto simp: pids_inv_def\<close>)

text \<open>
  The four ways a handler's section changes the request table: not at all, by admitting a process
  under a fresh id, or by an approval or rejection that moves the processes of one holder.
\<close>

lemma env_requests:
  assumes "env_step s d s' d' ts" and "rt_ok (s_requests s)"
  obtains (same) "s_requests s' = s_requests s" "concat (map task_pids ts) = []" "d |\<subseteq>| d'"
      "\<And>p. \<not> (\<exists>t \<in> set ts. serves t p)" "\<forall>t \<in> set ts. \<exists>dn hdid hid. t = Redeeming dn hdid hid"
      "\<forall>j p. fmlookup (records (s_requests s)) j = Some p \<and> is_active (p_state p)
        \<longrightarrow> set (p_credential_definitions p) \<inter> catalog_ids (s_definitions s) \<subseteq> catalog_ids (s_definitions s')"
  | (admitted) pid p st where "pid |\<notin>| d" "rt_insert pid p (s_requests s) = Some (s_requests s')"
      "p_id p = pid" "p_state p = st" "st = PSubmitted \<or> st = PApproved" "\<not> p_delivery_started p"
      "set (p_credential_definitions p) \<subseteq> catalog_ids (s_definitions s)"
      "s_definitions s' = s_definitions s" "s_issued s' = s_issued s"
      "ts = (if st = PApproved then [Queued pid] else [])" "finsert pid d |\<subseteq>| d'"
      "st = PSubmitted \<Longrightarrow> fcard (pending_of (s_requests s) (p_holder_id p)) < MAX_PENDING_PROCESSES_PER_HOLDER
         \<and> fcard (pending_ids (s_requests s)) < MAX_PENDING_PROCESSES"
  | (approved) hid now pids where
      "s_requests s' = rt_modify_all (decided_by hid PApproved) (transition PApproved now) (s_requests s)"
      "ts = map Queued pids" "distinct pids" "set pids = fset (moved_ids hid PApproved (s_requests s))"
      "s_definitions s' = s_definitions s" "s_issued s' = s_issued s" "d' = d"
  | (rejected) hid now where
      "s_requests s' = rt_modify_all (decided_by hid PRejected) (transition PRejected now) (s_requests s)"
      "ts = []" "s_definitions s' = s_definitions s" "s_issued s' = s_issued s" "d' = d"
  using assms(1)
proof cases
  case (request_refused pid hid approval now hdid hpid bearer ids e)
  with request_section_Err [OF request_refused(5)] show ?thesis by (intro same) auto
next
  case (request_admitted pid hid approval now hdid hpid bearer ids deliver)
  from request_admitted(5) show ?thesis
  proof (rule request_section_Ok)
    fix h hs st tab
    assume a: "st = (if status h = Pending then PSubmitted else PApproved)" "deliver = (st = PApproved)"
      "rt_insert pid (new_process pid st h hdid hpid (dedup_ids [] ids) now bearer) (s_requests s) = Some tab"
      "s' = s\<lparr>s_holders := hs, s_requests := tab\<rparr>" "set (dedup_ids [] ids) \<subseteq> catalog_ids (s_definitions s)"
      "st = PSubmitted \<Longrightarrow> fcard (pending_of (s_requests s) (holder_id h)) < MAX_PENDING_PROCESSES_PER_HOLDER
       \<and> fcard (pending_ids (s_requests s)) < MAX_PENDING_PROCESSES"
    show ?thesis
      by (rule admitted [of pid "new_process pid st h hdid hpid (dedup_ids [] ids) now bearer" st])
        (use a request_admitted in auto)
  qed
next
  case (approve hid now h moved pids)
  with decide_holder_Ok [OF approve(3)] show ?thesis by (intro approved [of hid now pids]) auto
next
  case (reject hid now h moved)
  with decide_holder_Ok [OF reject(3)] show ?thesis by (intro rejected [of hid now]) auto
next
  case (create inp now dn c)
  with catalog_create_ids show ?thesis by (intro same) auto
next
  case (update inp now dn dn' c)
  with catalog_update_ids_set show ?thesis by (intro same) auto
next
  case (delete i r)
  with delete_definition_effect [OF delete(3) assms(2)] show ?thesis
    by (intro same) (auto simp: catalog_remove_ids)
next
  case (redeem hid i dn approval now hdid hid' hs)
  then show ?thesis by (intro same) auto
next
  case (register h h' hs)
  then show ?thesis by (intro same) auto
next
  case (rename f hid)
  then show ?thesis by (intro same) simp_all
next
  case (revoke i r ic)
  then show ?thesis by (intro same) simp_all
next
  case (publish j)
  then show ?thesis by (intro same) simp_all
qed

lemma pids_inv_env:
  assumes "env_step s d s' d' ts" and iv: "pids_inv (s_requests s) d us"
    and procs: "procs_inv ids (s_requests s) us"
  shows "pids_inv (s_requests s') d' (us @ ts)"
proof -
  from iv have ok: "rt_ok (s_requests s)" by (simp add: pids_inv_def)
  from assms(1) ok show ?thesis
  proof (cases rule: env_requests)
    case same
    with iv show ?thesis unfolding pids_inv_def map_append concat_append same(2) by (auto dest: fsubsetD)
  next
    case (admitted pid p st)
    from pids_inv_insert [OF iv admitted(2,1,3)] iv admitted(1,10,11) show ?thesis
      by (auto simp: pids_inv_def dest: fsubsetD)
  next
    case (approved hid now pids)
    have "i \<notin> set (concat (map task_pids us))" "i |\<in>| d" if i: "i \<in> set pids" for i
    proof -
      from that approved(4) have "i |\<in>| moved_ids hid PApproved (s_requests s)" by simp
      then obtain p where "fmlookup (records (s_requests s)) i = Some p" "p_state p = PSubmitted"
        by (auto simp: moved_ids_iff decided_by_def)
      then show "i \<notin> set (concat (map task_pids us))" "i |\<in>| d"
        using procs iv by (auto simp: procs_inv_def pids_inv_def dest: fmdomI)
    qed
    moreover have "concat (map task_pids ts) = pids" using approved(2) by (induction pids arbitrary: ts) auto
    moreover have "rt_ok (s_requests s')" unfolding approved(1) by (rule rt_modify_all_ok [OF ok]) simp
    moreover have "fmdom (records (s_requests s')) = fmdom (records (s_requests s))"
      by (simp add: approved(1) rt_modify_all_def)
    ultimately show ?thesis using iv approved(3,7) unfolding pids_inv_def map_append concat_append by auto
  next
    case (rejected hid now)
    have "rt_ok (s_requests s')" unfolding rejected(1) by (rule rt_modify_all_ok [OF ok]) simp
    moreover have "fmdom (records (s_requests s')) = fmdom (records (s_requests s))"
      by (simp add: rejected(1) rt_modify_all_def)
    ultimately show ?thesis using iv rejected(2,5) by (simp add: pids_inv_def)
  qed
qed

section \<open>Tasks and processes\<close>

lemma tasks_ok_task:
  assumes "task_step s d t s' d' t'" and iv: "pids_inv (s_requests s) d (t # us)"
    and ok: "\<forall>u \<in> set (t # us). task_ok (s_requests s) u"
  shows "\<forall>u \<in> set (t' # us). task_ok (s_requests s') u"
proof -
  from iv have other: "set (task_pids u) \<inter> set (task_pids t) = {}" "set (task_pids u) \<subseteq> fset d" if "u \<in> set us" for u
    using that by (auto simp: pids_inv_def)
  have frame: "\<forall>u \<in> set us. task_ok tab u" if "framed X (s_requests s) tab" "\<forall>u \<in> set us. set (task_pids u) \<inter> X = {}" for X tab
    using task_ok_framed [OF that(1)] that(2) ok by auto
  from ok have own: "task_ok (s_requests s) t" and us: "\<forall>u \<in> set us. task_ok (s_requests s) u" by simp_all
  from iv have rt: "rt_ok (s_requests s)" by (simp add: pids_inv_def)
  from assms(1) show ?thesis
  proof cases
    case (claim_ok pid p tab)
    then obtain q where q: "fmlookup (records (s_requests s)) pid = Some q" "p_state q = PApproved"
      "p = q\<lparr>p_delivery_started := True\<rparr>" "tab = rt_modify pid (p_delivery_started_update (\<lambda>_. True)) (s_requests s)"
      by (auto simp: claim_Some)
    with rt have "p_id p = pid" by (auto simp: rt_ok_def)
    with q have "owned tab p" by (simp add: owned_def rt_modify_lookup)
    moreover have "framed {pid} (s_requests s) tab" unfolding q(4) by (rule framed_modify)
    then have "\<forall>u \<in> set us. task_ok tab u" by (rule frame) (use other claim_ok(1) in auto)
    ultimately show ?thesis using claim_ok by simp
  next
    case (claim_no pid tab)
    with own us show ?thesis by (auto simp: claim_None is_terminal_def)
  next
    case (closed p st e now)
    have "framed {p_id p} (s_requests s) (s_requests s')"
      using closed by (simp add: close_process_def framed_modify)
    then have "\<forall>u \<in> set us. task_ok (s_requests s') u" by (rule frame) (use other closed(1) in auto)
    moreover have "task_ok (s_requests s') t'"
      using own closed by (auto simp: close_process_lookup is_terminal_def)
    ultimately show ?thesis by simp
  next
    case (redeem_tracked pid hid hdid dn now tab i)
    have "\<forall>u \<in> set us. task_ok tab u"
      by (rule frame [OF framed_insert [OF redeem_tracked(6) rt]]) (use other(2) redeem_tracked(5) in blast)
    moreover have "task_ok tab t'"
      using rt_insert_SomeD(1) [OF redeem_tracked(6) rt] redeem_tracked(4) by simp
    ultimately show ?thesis using redeem_tracked by simp
  next
    case (definitions_ok p ds)
    with own us lookup_definitions_Ok show ?thesis by auto
  next
    case (mint i ic uuid r p dn now ds rs)
    with own us show ?thesis by (auto simp: issued_for_def)
  qed (use own us in auto)
qed

lemma tasks_ok_env:
  assumes "env_step s d s' d' ts" and iv: "pids_inv (s_requests s) d us"
    and procs: "procs_inv ids (s_requests s) us" and ok: "\<forall>u \<in> set us. task_ok (s_requests s) u"
  shows "\<forall>u \<in> set (us @ ts). task_ok (s_requests s') u"
proof -
  from iv have rt: "rt_ok (s_requests s)" by (simp add: pids_inv_def)
  from iv have used: "set (task_pids u) \<subseteq> fset d" if "u \<in> set us" for u
    using that by (auto simp: pids_inv_def)
  have submitted: "i \<notin> set (task_pids u)"
    if "fmlookup (records (s_requests s)) i = Some p" "p_state p = PSubmitted" "u \<in> set us" for i p u
    using procs that by (auto simp: procs_inv_def)
  from assms(1) rt show ?thesis
  proof (cases rule: env_requests)
    case same
    with ok show ?thesis by auto
  next
    case (admitted pid p st)
    have "\<forall>u \<in> set us. task_ok (s_requests s') u"
      using task_ok_framed [OF framed_insert [OF admitted(2) rt]] used admitted(1) ok by blast
    moreover have "\<forall>u \<in> set ts. task_ok (s_requests s') u"
      using rt_insert_SomeD(1) [OF admitted(2) rt] admitted by auto
    ultimately show ?thesis by auto
  next
    case (approved hid now pids)
    let ?X = "fset (moved_ids hid PApproved (s_requests s))"
    have "framed ?X (s_requests s) (s_requests s')"
      unfolding framed_def
    proof (intro allI impI disjI1)
      fix j assume "j \<notin> ?X"
      then show "fmlookup (records (s_requests s')) j = fmlookup (records (s_requests s)) j"
        by (cases "fmlookup (records (s_requests s)) j") (auto simp: approved(1) rt_modify_all_lookup moved_ids_iff)
    qed
    moreover have "set (task_pids u) \<inter> ?X = {}" if "u \<in> set us" for u
      using submitted that by (auto simp: moved_ids_iff decided_by_def)
    ultimately have "\<forall>u \<in> set us. task_ok (s_requests s') u" using task_ok_framed ok by blast
    moreover have "task_ok (s_requests s') (Queued i)" if "i \<in> set pids" for i
    proof -
      from that approved(4) have "i |\<in>| moved_ids hid PApproved (s_requests s)" by simp
      then obtain q where q: "fmlookup (records (s_requests s)) i = Some q" "decided_by hid PApproved q"
        by (auto simp: moved_ids_iff)
      then have "\<not> p_delivery_started q" using procs by (auto simp: procs_inv_def decided_by_def)
      with q show ?thesis unfolding approved(1) by (simp add: rt_modify_all_lookup)
    qed
    ultimately show ?thesis using approved(2) by auto
  next
    case (rejected hid now)
    have "task_ok (s_requests s') u" if "u \<in> set us" for u
      using ok that submitted [OF _ _ that] unfolding rejected(1)
      by (cases u) (fastforce simp: owned_def rt_modify_all_lookup decided_by_def is_terminal_def)+
    then show ?thesis using rejected(2) by simp
  qed
qed

lemma procs_inv_replace:
  assumes "procs_inv ids tab (t # us)" and rt: "rt_ok tab"
    and "\<forall>j q. fmlookup (records tab') j = Some q \<longrightarrow> j \<noteq> i \<and> fmlookup (records tab) j = Some q \<or> is_terminal (p_state q)"
    and "\<forall>q. serves t q \<longrightarrow> p_id q = i" and "set (task_pids t') \<subseteq> {i}"
  shows "procs_inv ids tab' (t' # us)"
  unfolding procs_inv_def
proof (intro allI impI)
  fix j q assume lk: "fmlookup (records tab') j = Some q"
  show "(is_active (p_state q) \<longrightarrow> set (p_credential_definitions q) \<subseteq> ids)
     \<and> (p_state q = PSubmitted \<longrightarrow> \<not> p_delivery_started q \<and> j \<notin> set (concat (map task_pids (t' # us))))
     \<and> (p_state q = PApproved \<longrightarrow> (\<exists>u \<in> set (t' # us). serves u q))"
  proof (cases "is_terminal (p_state q)")
    case True
    then show ?thesis by (cases "p_state q") (auto simp: is_terminal_def)
  next
    case False
    with assms(3) lk have old: "j \<noteq> i" "fmlookup (records tab) j = Some q" by auto
    from rt old(2) have "p_id q = j" by (simp add: rt_ok_def)
    with old(1) assms(4) have "\<not> serves t q" by auto
    with assms(1,5) old show ?thesis by (auto simp: procs_inv_def)
  qed
qed

lemma procs_inv_task:
  assumes "task_step s d t s' d' t'" and iv: "pids_inv (s_requests s) d (t # us)"
    and ok: "task_ok (s_requests s) t"
    and procs: "procs_inv (catalog_ids (s_definitions s)) (s_requests s) (t # us)"
  shows "procs_inv (catalog_ids (s_definitions s')) (s_requests s') (t' # us)"
proof -
  from iv have rt: "rt_ok (s_requests s)" by (simp add: pids_inv_def)
  from assms(1) show ?thesis
  proof cases
    case (claim_ok pid p tab)
    then obtain q where q: "fmlookup (records (s_requests s)) pid = Some q" "p_state q = PApproved"
      "p = q\<lparr>p_delivery_started := True\<rparr>" "tab = rt_modify pid (p_delivery_started_update (\<lambda>_. True)) (s_requests s)"
      by (auto simp: claim_Some)
    have ids: "\<And>i p. fmlookup (records (s_requests s)) i = Some p \<Longrightarrow> p_id p = i"
      using rt by (auto simp: rt_ok_def)
    from claim_ok procs q ids show ?thesis
      by (auto simp: procs_inv_def rt_modify_lookup)
  next
    case (claim_no pid tab)
    show ?thesis
      by (rule procs_inv_replace [OF _ rt, of _ t us _ pid])
        (use claim_no procs ok in \<open>auto simp: claim_None is_terminal_def\<close>)
  next
    case (closed p st e now)
    show ?thesis
      by (rule procs_inv_replace [OF _ rt, of _ t us _ "p_id p"])
        (use closed procs ok in \<open>auto simp: close_process_lookup is_terminal_def split: if_splits\<close>)
  next
    case (redeem_tracked pid hid hdid dn now tab i)
    note r = rt_insert_SomeD [OF redeem_tracked(6) rt]
    have "\<forall>j q. fmlookup (records tab) j = Some q \<longrightarrow> j \<noteq> pid \<and> fmlookup (records (s_requests s)) j = Some q
        \<or> is_terminal (p_state q)"
    proof (intro allI impI)
      fix j q assume "fmlookup (records tab) j = Some q"
      with r(1) r(2) [of j q] show "j \<noteq> pid \<and> fmlookup (records (s_requests s)) j = Some q \<or> is_terminal (p_state q)"
        by (cases "j = pid") (auto simp: is_terminal_def)
    qed
    with redeem_tracked procs show ?thesis
      using procs_inv_replace [OF procs rt, of tab pid t'] by simp
  qed (use procs in \<open>auto simp: procs_inv_def\<close>)
qed

lemma procs_inv_env:
  assumes "env_step s d s' d' ts" and iv: "pids_inv (s_requests s) d us"
    and procs: "procs_inv (catalog_ids (s_definitions s)) (s_requests s) us"
  shows "procs_inv (catalog_ids (s_definitions s')) (s_requests s') (us @ ts)"
proof -
  from iv have rt: "rt_ok (s_requests s)" by (simp add: pids_inv_def)
  from assms(1) rt show ?thesis
  proof (cases rule: env_requests)
    case same
    have "set (concat (map task_pids (us @ ts))) = set (concat (map task_pids us))"
      unfolding map_append concat_append same(2) by simp
    with procs same(4,6) show ?thesis unfolding procs_inv_def same(1) by (simp add: bex_Un) blast
  next
    case (admitted pid p st)
    note r = rt_insert_SomeD [OF admitted(2) rt]
    from iv admitted(1) have new: "pid \<notin> set (concat (map task_pids us))" by (auto simp: pids_inv_def)
    show ?thesis unfolding procs_inv_def admitted(8)
    proof (intro allI impI)
      fix j q assume lk: "fmlookup (records (s_requests s')) j = Some q"
      show "(is_active (p_state q) \<longrightarrow> set (p_credential_definitions q) \<subseteq> catalog_ids (s_definitions s))
         \<and> (p_state q = PSubmitted \<longrightarrow> \<not> p_delivery_started q \<and> j \<notin> set (concat (map task_pids (us @ ts))))
         \<and> (p_state q = PApproved \<longrightarrow> (\<exists>u \<in> set (us @ ts). serves u q))"
      proof (cases "j = pid")
        case True
        with lk r(1) have "q = p" by simp
        with True admitted new show ?thesis by auto
      next
        case False
        then have "fmlookup (records (s_requests s)) j = Some q" using r(2) lk by simp
        with procs False admitted(10) show ?thesis by (auto simp: procs_inv_def)
      qed
    qed
  next
    case (approved hid now pids)
    show ?thesis unfolding procs_inv_def approved(5)
    proof (intro allI impI)
      fix j q assume lk: "fmlookup (records (s_requests s')) j = Some q"
      then obtain q0 where q0: "fmlookup (records (s_requests s)) j = Some q0"
        "q = (if decided_by hid PApproved q0 then transition PApproved now q0 else q0)"
        unfolding approved(1) decide_lookup by blast
      from rt q0(1) have "p_id q0 = j" by (simp add: rt_ok_def)
      have moved: "j \<in> set pids \<longleftrightarrow> decided_by hid PApproved q0"
        unfolding approved(4) by (simp add: moved_ids_iff q0(1))
      show "(is_active (p_state q) \<longrightarrow> set (p_credential_definitions q) \<subseteq> catalog_ids (s_definitions s))
         \<and> (p_state q = PSubmitted \<longrightarrow> \<not> p_delivery_started q \<and> j \<notin> set (concat (map task_pids (us @ ts))))
         \<and> (p_state q = PApproved \<longrightarrow> (\<exists>u \<in> set (us @ ts). serves u q))"
      proof (cases "decided_by hid PApproved q0")
        case True
        then have sub: "p_state q0 = PSubmitted" by (simp add: decided_by_def)
        with procs q0 \<open>p_id q0 = j\<close> True have "serves (Queued j) q" by (simp add: procs_inv_def)
        moreover have "Queued j \<in> set (us @ ts)" using moved True approved(2) by simp
        ultimately have "\<exists>u \<in> set (us @ ts). serves u q" by blast
        moreover have "set (p_credential_definitions q) \<subseteq> catalog_ids (s_definitions s)" "p_state q = PApproved"
          using procs q0 sub True by (simp_all add: procs_inv_def)
        ultimately show ?thesis by simp
      next
        case False
        with q0(2) have "q = q0" by simp
        with procs q0(1) have "p_state q = PApproved \<longrightarrow> (\<exists>u \<in> set us. serves u q)" by (simp add: procs_inv_def)
        then have "p_state q = PApproved \<longrightarrow> (\<exists>u \<in> set (us @ ts). serves u q)" by (metis UnCI set_append)
        with False procs q0 moved approved(2) show ?thesis by (auto simp: procs_inv_def)
      qed
    qed
  next
    case (rejected hid now)
    show ?thesis unfolding procs_inv_def rejected(1-3) decide_lookup
    proof (intro allI impI, elim exE conjE)
      fix j q q0
      assume q: "fmlookup (records (s_requests s)) j = Some q0"
        "q = (if decided_by hid PRejected q0 then transition PRejected now q0 else q0)"
      show "(is_active (p_state q) \<longrightarrow> set (p_credential_definitions q) \<subseteq> catalog_ids (s_definitions s))
         \<and> (p_state q = PSubmitted \<longrightarrow> \<not> p_delivery_started q \<and> j \<notin> set (concat (map task_pids (us @ []))))
         \<and> (p_state q = PApproved \<longrightarrow> (\<exists>u \<in> set (us @ []). serves u q))"
        using procs q by (cases "decided_by hid PRejected q0") (simp_all add: procs_inv_def)
    qed
  qed
qed

section \<open>Issued records and delivered processes\<close>

lemma records_inv_mono:
  assumes "records_inv tab ic d ts" and "tab' = tab" and "ic_records ic' = ic_records ic" and "d |\<subseteq>| d'"
    and "\<And>p. Closing p PDelivered None \<in> set ts \<Longrightarrow> Closing p PDelivered None \<in> set ts'"
  shows "records_inv tab' ic' d' ts'"
  using assms unfolding records_inv_def by (simp add: fsubsetD) blast

lemma records_inv_task:
  assumes "task_step s d t s' d' t'" and iv: "pids_inv (s_requests s) d (t # us)"
    and ok: "\<forall>u \<in> set (t # us). task_ok (s_requests s) u" and cids: "cids_inv (s_issued s) d (t # us)"
    and rec: "records_inv (s_requests s) (s_issued s) d (t # us)"
  shows "records_inv (s_requests s') (s_issued s') d' (t' # us)"
proof -
  from iv have rt: "rt_ok (s_requests s)" by (simp add: pids_inv_def)
  from assms(1) show ?thesis
  proof cases
    case (claim_ok pid p tab)
    then obtain q where q: "fmlookup (records (s_requests s)) pid = Some q" "p_state q = PApproved"
      "tab = rt_modify pid (p_delivery_started_update (\<lambda>_. True)) (s_requests s)" by (auto simp: claim_Some)
    from rt q(1) have "p_id q = pid" by (simp add: rt_ok_def)
    then have "\<not> (\<exists>st e. Closing q st e \<in> set us)" using pids_inv_other [OF iv] claim_ok(1) by fastforce
    with rec q claim_ok show ?thesis by (fastforce simp: records_inv_def rt_modify_lookup)
  next
    case (recorded p rs)
    from cids recorded have d: "distinct (map c_id rs)" by (simp add: cids_inv_def)
    from ok recorded have own: "owned (s_requests s) p" "\<forall>r \<in> set rs. issued_for p r" by simp_all
    from iv own(1) have "p_id p |\<in>| d" by (auto simp: pids_inv_def owned_def dest: fmdomI)
    with rec own recorded show ?thesis
      by (auto simp: records_inv_def record_issued_lookup [OF d] issued_for_def owned_def)
  next
    case (closed p st e now)
    have ids: "\<And>i q. fmlookup (records (s_requests s)) i = Some q \<Longrightarrow> p_id q = i"
      using rt by (simp add: rt_ok_def)
    have no: "Closing p st' e' \<notin> set us" for st' e' using pids_inv_other [OF iv] closed(1) by fastforce
    have own: "owned (s_requests s) p" "st = PDelivered \<and> e = None \<or> st = PErrored" using ok closed(1) by auto
    show ?thesis unfolding records_inv_def
    proof (intro allI impI conjI)
      fix c r assume r: "fmlookup (ic_records (s_issued s')) c = Some r"
      then have r0: "fmlookup (ic_records (s_issued s)) c = Some r" using closed(2) by simp
      with rec closed(3) show "c_process_id r |\<in>| d'" by (simp add: records_inv_def)
      fix q assume q: "fmlookup (records (s_requests s')) (c_process_id r) = Some q"
      show "p_state q = PDelivered \<or> Closing q PDelivered None \<in> set (t' # us)"
      proof (cases "c_process_id r = p_id p")
        case True
        then have "fmlookup (records (s_requests s)) (c_process_id r) = Some p" using own(1) by (simp add: owned_def)
        with rec r0 have "p_state p = PDelivered \<or> Closing p PDelivered None \<in> set (t # us)"
          unfolding records_inv_def by blast
        then have "st = PDelivered" using own(1) no closed(1) by (auto simp: owned_def)
        with True q closed(2) show ?thesis by (auto simp: close_process_lookup)
      next
        case False
        then have q0: "fmlookup (records (s_requests s)) (c_process_id r) = Some q"
          using q closed(2) by (simp add: close_process_lookup)
        with rec r0 have "p_state q = PDelivered \<or> Closing q PDelivered None \<in> set (t # us)"
          unfolding records_inv_def by blast
        moreover have "q \<noteq> p" using ids [OF q0] False by auto
        ultimately show ?thesis using closed(1) by auto
      qed
    qed
  next
    case (redeem_tracked pid hid hdid dn now tab i)
    note r = rt_insert_SomeD [OF redeem_tracked(6) rt]
    have "p_state p = PDelivered \<or> fmlookup (records (s_requests s)) j = Some p"
      if "fmlookup (records tab) j = Some p" for j p
      using r(1) r(2) [OF that] that by (cases "j = pid") auto
    with rec redeem_tracked show ?thesis by (fastforce simp: records_inv_def)
  next
    case (redeem_done uuid dn hdid hid i pid now)
    from iv redeem_done(1) have "pid |\<in>| d" by (simp add: pids_inv_def)
    with rec ok redeem_done show ?thesis
      by (auto simp: records_inv_def issued_insert_def split: if_splits)
  qed ((rule records_inv_mono [OF rec]; auto simp: issued_allocate_def issued_release_def claim_None
      dest: release_each_records split: prod.splits)+)
qed

lemma issued_revoke_lookup:
  assumes "issued_revoke i ic = Some (r, ic')" and "fmlookup (ic_records ic') c = Some q'"
  shows "\<exists>q. fmlookup (ic_records ic) c = Some q \<and> c_process_id q' = c_process_id q
     \<and> c_definition_id q' = c_definition_id q"
  using assms by (auto simp: issued_revoke_def Let_def split: option.splits if_splits)

lemma issued_revoke_keeps:
  assumes "issued_revoke i ic = Some (r, ic')" and "fmlookup (ic_records ic) c = Some q"
  shows "\<exists>q'. fmlookup (ic_records ic') c = Some q' \<and> c_process_id q' = c_process_id q
     \<and> c_definition_id q' = c_definition_id q"
  using assms by (auto simp: issued_revoke_def Let_def split: option.splits if_splits)

text \<open>What handlers may do to the records: revocation keeps whose they are.\<close>

lemma env_records:
  assumes "env_step s d s' d' ts" and "rt_ok (s_requests s)"
  shows "fmlookup (ic_records (s_issued s')) c = Some q' \<Longrightarrow> \<exists>q. fmlookup (ic_records (s_issued s)) c = Some q
      \<and> c_process_id q' = c_process_id q \<and> c_definition_id q' = c_definition_id q"
    and "fmlookup (ic_records (s_issued s)) c = Some q \<Longrightarrow> \<exists>q'. fmlookup (ic_records (s_issued s')) c = Some q'
      \<and> c_process_id q' = c_process_id q \<and> c_definition_id q' = c_definition_id q"
proof -
  have "ic_records (s_issued s') = ic_records (s_issued s)
     \<or> (\<exists>i r ic. issued_revoke i (s_issued s) = Some (r, ic) \<and> s_issued s' = ic)"
    using assms(1)
  proof cases
    case (delete i r)
    with delete_definition_effect [of i s r s'] assms(2) show ?thesis by auto
  next
    case (revoke i r ic)
    then show ?thesis by auto
  qed (auto dest: request_section_Err decide_holder_Ok elim!: request_section_Ok)
  then show "fmlookup (ic_records (s_issued s')) c = Some q' \<Longrightarrow> \<exists>q. fmlookup (ic_records (s_issued s)) c = Some q
      \<and> c_process_id q' = c_process_id q \<and> c_definition_id q' = c_definition_id q"
    and "fmlookup (ic_records (s_issued s)) c = Some q \<Longrightarrow> \<exists>q'. fmlookup (ic_records (s_issued s')) c = Some q'
      \<and> c_process_id q' = c_process_id q \<and> c_definition_id q' = c_definition_id q"
    using issued_revoke_lookup issued_revoke_keeps by (force, force)
qed

text \<open>No section of a handler touches a process that is delivered or owned by a task.\<close>

lemma env_process:
  assumes "env_step s d s' d' ts" and iv: "pids_inv (s_requests s) d us"
    and "fmlookup (records (s_requests s')) i = Some p" and "i |\<in>| d"
  shows "\<exists>q. fmlookup (records (s_requests s)) i = Some q \<and> (p = q \<or> p_state p = PRejected \<or> p_state p = PApproved)
     \<and> (p_state q \<in> {PDelivered, PErrored, PRejected} \<or> p_state q = PApproved \<and> p_delivery_started q \<longrightarrow> p = q)"
proof -
  from iv have rt: "rt_ok (s_requests s)" by (simp add: pids_inv_def)
  from assms(1) rt show ?thesis
  proof (cases rule: env_requests)
    case same
    with assms(3) show ?thesis by simp
  next
    case (admitted pid q st)
    with assms(3,4) rt_insert_SomeD(2) [OF admitted(2) rt, of i p] show ?thesis by auto
  next
    case (approved hid now pids)
    from assms(3) obtain q where q: "fmlookup (records (s_requests s)) i = Some q"
      "p = (if decided_by hid PApproved q then transition PApproved now q else q)"
      unfolding approved(1) decide_lookup by blast
    then show ?thesis by (cases "decided_by hid PApproved q") (auto simp: decided_by_def)
  next
    case (rejected hid now)
    from assms(3) obtain q where q: "fmlookup (records (s_requests s)) i = Some q"
      "p = (if decided_by hid PRejected q then transition PRejected now q else q)"
      unfolding rejected(1) decide_lookup by blast
    then show ?thesis by (cases "decided_by hid PRejected q") (auto simp: decided_by_def)
  qed
qed

lemma records_inv_env:
  assumes st: "env_step s d s' d' ts" and iv: "pids_inv (s_requests s) d us"
    and ok: "\<forall>u \<in> set us. task_ok (s_requests s) u"
    and rec: "records_inv (s_requests s) (s_issued s) d us"
  shows "records_inv (s_requests s') (s_issued s') d' (us @ ts)"
  unfolding records_inv_def
proof (intro allI impI conjI)
  from iv have rt: "rt_ok (s_requests s)" by (simp add: pids_inv_def)
  fix c r' assume "fmlookup (ic_records (s_issued s')) c = Some r'"
  from env_records(1) [OF st rt this] obtain r where r: "fmlookup (ic_records (s_issued s)) c = Some r"
    "c_process_id r' = c_process_id r" by blast
  with rec have drawn: "c_process_id r' |\<in>| d" by (simp add: records_inv_def)
  with env_issued(3) [OF st rt] show "c_process_id r' |\<in>| d'" by blast
  fix p assume p: "fmlookup (records (s_requests s')) (c_process_id r') = Some p"
  from env_process [OF st iv p drawn] obtain q where
    q: "fmlookup (records (s_requests s)) (c_process_id r') = Some q"
    "p_state q \<in> {PDelivered, PErrored, PRejected} \<or> p_state q = PApproved \<and> p_delivery_started q \<Longrightarrow> p = q" by blast
  with rec r have "p_state q = PDelivered \<or> Closing q PDelivered None \<in> set us" by (simp add: records_inv_def)
  moreover from this have "p = q" using q(2) ok by (auto simp: owned_def)
  ultimately show "p_state p = PDelivered \<or> Closing p PDelivered None \<in> set (us @ ts)" by auto
qed

lemma covered_mono:
  assumes "covered ic ts q" and "p_id p = p_id q" and "p_credential_definitions p = p_credential_definitions q"
    and "\<And>c r. fmlookup (ic_records ic) c = Some r \<Longrightarrow> \<exists>r'. fmlookup (ic_records ic') c = Some r'
      \<and> c_process_id r' = c_process_id r \<and> c_definition_id r' = c_definition_id r"
    and "\<And>dn hdid hid n. RedeemRecorded dn hdid hid n (p_id q) \<in> set ts \<Longrightarrow>
      RedeemRecorded dn hdid hid n (p_id q) \<in> set ts'
      \<or> (\<exists>c r. fmlookup (ic_records ic') c = Some r \<and> c_process_id r = p_id q \<and> c_definition_id r = cd_id dn)"
  shows "covered ic' ts' p"
  unfolding covered_def assms(2,3)
proof
  fix x assume "x \<in> set (p_credential_definitions q)"
  with assms(1) consider c r where "fmlookup (ic_records ic) c = Some r" "c_process_id r = p_id q" "c_definition_id r = x"
    | dn hdid hid n where "RedeemRecorded dn hdid hid n (p_id q) \<in> set ts" "cd_id dn = x"
    unfolding covered_def by blast
  then show "(\<exists>c r. fmlookup (ic_records ic') c = Some r \<and> c_process_id r = p_id q \<and> c_definition_id r = x)
     \<or> (\<exists>dn hdid hid n. RedeemRecorded dn hdid hid n (p_id q) \<in> set ts' \<and> cd_id dn = x)"
  proof cases
    case 1
    from assms(4) [OF 1(1)] 1(2,3) show ?thesis by auto
  next
    case 2
    from assms(5) [OF 2(1)] 2 show ?thesis by blast
  qed
qed

lemma delivered_invI:
  assumes "\<And>i p. fmlookup (records tab) i = Some p \<Longrightarrow> p_state p = PDelivered \<Longrightarrow> covered ic ts p"
    and "\<And>p e. Closing p PDelivered e \<in> set ts \<Longrightarrow> covered ic ts p"
  shows "delivered_inv tab ic ts"
  using assms unfolding delivered_inv_def by blast

lemma delivered_inv_same:
  assumes "delivered_inv tab ic (t # us)" and "tab' = tab" and "ic_records ic' = ic_records ic"
    and "\<And>dn hdid hid n i. t \<noteq> RedeemRecorded dn hdid hid n i" and "\<And>p st e. t' \<noteq> Closing p PDelivered e"
  shows "delivered_inv tab' ic' (t' # us)"
proof -
  have "covered ic (t # us) q \<Longrightarrow> covered ic' (t' # us) q" for q
  proof (erule covered_mono)
    show "RedeemRecorded dn hdid hid n (p_id q) \<in> set (t # us) \<Longrightarrow>
      RedeemRecorded dn hdid hid n (p_id q) \<in> set (t' # us) \<or>
      (\<exists>c r. fmlookup (ic_records ic') c = Some r \<and> c_process_id r = p_id q \<and> c_definition_id r = cd_id dn)"
      for dn hdid hid n using assms(4) [of dn hdid hid n "p_id q"] by auto
  qed (use assms(3) in auto)
  then show ?thesis
    using assms(1,2,5) unfolding delivered_inv_def by (metis list.set_intros(2) set_ConsD)
qed

lemma delivered_inv_task:
  assumes "task_step s d t s' d' t'" and iv: "pids_inv (s_requests s) d (t # us)"
    and ok: "\<forall>u \<in> set (t # us). task_ok (s_requests s) u" and cids: "cids_inv (s_issued s) d (t # us)"
    and del: "delivered_inv (s_requests s) (s_issued s) (t # us)"
  shows "delivered_inv (s_requests s') (s_issued s') (t' # us)"
proof -
  from iv have rt: "rt_ok (s_requests s)" by (simp add: pids_inv_def)
  then have ids: "\<And>i p. fmlookup (records (s_requests s)) i = Some p \<Longrightarrow> p_id p = i" by (simp add: rt_ok_def)
  from del have old: "\<And>i p. fmlookup (records (s_requests s)) i = Some p \<Longrightarrow> p_state p = PDelivered
      \<Longrightarrow> covered (s_issued s) (t # us) p"
    "\<And>p e. Closing p PDelivered e \<in> set (t # us) \<Longrightarrow> covered (s_issued s) (t # us) p"
    unfolding delivered_inv_def by blast+
  from assms(1) show ?thesis
  proof cases
    case (claim_ok pid p tab)
    have mono: "covered (s_issued s) (t # us) q \<Longrightarrow> covered (s_issued s) (t' # us) q" for q
      by (erule covered_mono) (use claim_ok in auto)
    from claim_ok have tab: "\<And>i p. fmlookup (records tab) i = Some p \<Longrightarrow> p_state p = PDelivered
        \<Longrightarrow> fmlookup (records (s_requests s)) i = Some p" by (auto simp: claim_Some rt_modify_lookup split: if_splits)
    show ?thesis
    proof (rule delivered_invI)
      show "fmlookup (records (s_requests s')) i = Some q \<Longrightarrow> p_state q = PDelivered \<Longrightarrow> covered (s_issued s') (t' # us) q" for i q
        using mono [OF old(1) [OF tab]] claim_ok(2) by simp
      show "Closing q PDelivered e \<in> set (t' # us) \<Longrightarrow> covered (s_issued s') (t' # us) q" for q e
        using mono [OF old(2), of q e] claim_ok by simp
    qed
  next
    case (recorded p rs)
    from cids recorded have d: "distinct (map c_id rs)" and fr: "\<forall>r \<in> set rs. fmlookup (ic_records (s_issued s)) (c_id r) = None"
      by (auto simp: cids_inv_def)
    have keep: "fmlookup (ic_records (record_issued rs (s_issued s))) c = Some r"
      if "fmlookup (ic_records (s_issued s)) c = Some r" for c r
      using that fr by (auto simp: record_issued_lookup [OF d])
    have mono: "covered (s_issued s) (t # us) q \<Longrightarrow> covered (s_issued s') (t' # us) q" for q
      by (erule covered_mono) (use recorded keep in auto)
    from ok recorded have own: "map c_definition_id rs = p_credential_definitions p" "\<forall>r \<in> set rs. issued_for p r" by simp_all
    have "covered (s_issued s') (t' # us) p"
      unfolding covered_def own(1) [symmetric] using recorded own(2)
      by (auto simp: record_issued_lookup [OF d] issued_for_def)
    moreover have "covered (s_issued s') (t' # us) q" if "Closing q PDelivered e \<in> set us" for q e
      using mono [OF old(2), of q e] that by simp
    moreover have "covered (s_issued s') (t' # us) q"
      if "fmlookup (records (s_requests s')) i = Some q" "p_state q = PDelivered" for i q
      using mono [OF old(1), of i q] that recorded(2) by simp
    ultimately show ?thesis using recorded(4) by (intro delivered_invI) auto
  next
    case (closed p st e now)
    have mono: "covered (s_issued s) (t # us) q \<Longrightarrow> covered (s_issued s') (t' # us) q" for q
      by (erule covered_mono) (use closed in auto)
    show ?thesis unfolding delivered_inv_def
    proof (intro conjI allI impI)
      fix q e' assume "Closing q PDelivered e' \<in> set (t' # us)"
      with closed have "Closing q PDelivered e' \<in> set (t # us)" by auto
      then show "covered (s_issued s') (t' # us) q" by (rule mono [OF old(2)])
    next
      fix i q assume q: "fmlookup (records (s_requests s')) i = Some q \<and> p_state q = PDelivered"
      show "covered (s_issued s') (t' # us) q"
      proof (cases "i = p_id p")
        case True
        from ok closed(1) have "fmlookup (records (s_requests s)) i = Some p" by (simp add: True owned_def)
        with q closed(2) True have "q = (transition st now p)\<lparr>p_error_detail := e\<rparr>" "st = PDelivered"
          by (auto simp: close_process_lookup)
        with mono [OF old(2) [of p e]] closed(1) show ?thesis unfolding covered_def by simp
      next
        case False
        with q closed(2) have "fmlookup (records (s_requests s)) i = Some q" by (simp add: close_process_lookup)
        with q show ?thesis using mono [OF old(1)] by blast
      qed
    qed
  next
    case (redeem_tracked pid hid hdid dn now tab i)
    note r = rt_insert_SomeD [OF redeem_tracked(6) rt]
    have mono: "covered (s_issued s) (t # us) q \<Longrightarrow> covered (s_issued s) (t' # us) q" for q
      by (erule covered_mono) (use redeem_tracked in auto)
    show ?thesis unfolding delivered_inv_def
    proof (intro conjI allI impI)
      fix q e' assume "Closing q PDelivered e' \<in> set (t' # us)"
      with redeem_tracked have "Closing q PDelivered e' \<in> set (t # us)" by auto
      then show "covered (s_issued s') (t' # us) q" using mono [OF old(2)] redeem_tracked(2) by simp
    next
      fix j q assume q: "fmlookup (records (s_requests s')) j = Some q \<and> p_state q = PDelivered"
      show "covered (s_issued s') (t' # us) q"
      proof (cases "j = pid")
        case True
        with q r(1) redeem_tracked(2) have "q = redeem_process pid hid hdid dn now" by simp
        with redeem_tracked(4) show ?thesis unfolding covered_def by (simp; blast)
      next
        case False
        with q redeem_tracked(2) r(2) [of j q] have "fmlookup (records (s_requests s)) j = Some q" by simp
        with q show ?thesis using mono [OF old(1)] redeem_tracked(2) by simp
      qed
    qed
  next
    case (redeem_done uuid dn hdid hid i pid now)
    have new: "fmlookup (ic_records (s_issued s')) (credential_urn uuid) = Some (minted_record pid hid hdid dn uuid now i)"
      using redeem_done(2) by (simp add: issued_insert_def)
    have keep: "fmlookup (ic_records (s_issued s')) c = Some r" if "fmlookup (ic_records (s_issued s)) c = Some r" for c r
      using that fresh_cid(1) [OF cids redeem_done(5)] redeem_done(2) by (auto simp: issued_insert_def)
    have mono: "covered (s_issued s) (t # us) q \<Longrightarrow> covered (s_issued s') (t' # us) q" for q
    proof (erule covered_mono)
      fix dn' hdid' hid' n assume "RedeemRecorded dn' hdid' hid' n (p_id q) \<in> set (t # us)"
      then show "RedeemRecorded dn' hdid' hid' n (p_id q) \<in> set (t' # us) \<or>
          (\<exists>c r. fmlookup (ic_records (s_issued s')) c = Some r \<and> c_process_id r = p_id q \<and> c_definition_id r = cd_id dn')"
        using redeem_done(1) new by (fastforce simp del: fmlookup_map)
    qed (use keep in auto)
    show ?thesis
    proof (rule delivered_invI)
      show "fmlookup (records (s_requests s')) i = Some q \<Longrightarrow> p_state q = PDelivered \<Longrightarrow> covered (s_issued s') (t' # us) q" for i q
        using mono [OF old(1), of i q] redeem_done(2) by simp
      show "Closing q PDelivered e \<in> set (t' # us) \<Longrightarrow> covered (s_issued s') (t' # us) q" for q e
        using mono [OF old(2), of q e] redeem_done(4) by simp
    qed
  qed ((rule delivered_inv_same [OF del]; auto simp: issued_allocate_def issued_release_def claim_None
      dest: release_each_records split: prod.splits)+)
qed

inductive_cases env_step_cases [elim!]: "env_step s d s' d' ts"
inductive_cases step_cases: "step w w'"

section \<open>Permits\<close>

lemma permits_out_Cons [simp]:
  "permits_out [] = 0" "permits_out (t # ts) = (if holds_permit t then Suc (permits_out ts) else permits_out ts)"
  "permits_out (ts @ us) = permits_out ts + permits_out us"
  by (simp_all add: permits_out_def)

lemma may_run_room: "permits_out ts < MAX_IN_FLIGHT_DELIVERIES \<Longrightarrow> may_run ts t"
  by (cases t) simp_all

lemma permit_taken: "permits_out ts > 0 \<Longrightarrow> \<exists>k < length ts. holds_permit (ts ! k)"
  by (induction ts) (auto simp: nth_Cons split: nat.splits if_splits)

lemma permits_out_update:
  "k < length ts \<Longrightarrow> permits_out (ts[k := t]) + (if holds_permit (ts ! k) then 1 else 0)
    = permits_out ts + (if holds_permit t then 1 else 0)"
proof (induction ts arbitrary: k)
  case (Cons u ts)
  show ?case
  proof (cases k)
    case (Suc j)
    with Cons.IH [of j] Cons.prems show ?thesis by simp
  qed simp
qed simp

text \<open>Only taking a permit raises the number out, and handlers take none.\<close>

lemma task_step_permit:
  "task_step s d t s' d' t' \<Longrightarrow> holds_permit t' \<Longrightarrow> holds_permit t \<or> (\<exists>i. t = Queued i)"
  by (cases rule: task_step.cases) auto

lemma env_step_permit: "env_step s d s' d' ts \<Longrightarrow> permits_out ts = 0"
  by (erule env_step.cases) (auto simp: permits_out_def filter_empty_conv)

lemma permits_bounded:
  "reachable cap w \<Longrightarrow> permits_out (tasks w) \<le> MAX_IN_FLIGHT_DELIVERIES"
proof (induction rule: reachable.induct)
  case (extend w w')
  from extend(2) show ?case
  proof cases
    case (task i)
    from this show ?thesis
    proof cases
      case (1 s d t)
      from permits_out_update [OF 1(2), of t] task_step_permit [OF 1(4)] 1(3) extend.IH
      show ?thesis unfolding 1(1) by (auto split: if_splits)
    qed
  next
    case (env s d ts)
    with extend.IH env_step_permit [OF env(2)] show ?thesis by simp
  qed
qed (simp add: permits_out_def)

end
