(* ===== verification/Issuance_Safety.thy ===== *)
theory Issuance_Safety
  imports "HOL-Library.Multiset" Issuance
begin

text \<open>
  What holds in every reachable world of the concurrent issuer, whatever the interleaving: the
  invariant, and the guarantees the module documentation promises on top of it.
\<close>

section \<open>Remaining parts of the invariant\<close>

lemma delivered_inv_env:
  assumes st: "env_step s d s' d' ts" and iv: "pids_inv (s_requests s) d us"
    and ok: "\<forall>u \<in> set us. task_ok (s_requests s) u"
    and del: "delivered_inv (s_requests s) (s_issued s) us"
  shows "delivered_inv (s_requests s') (s_issued s') (us @ ts)"
proof -
  from iv have rt: "rt_ok (s_requests s)" by (simp add: pids_inv_def)
  have mono: "covered (s_issued s) us q \<Longrightarrow> covered (s_issued s') (us @ ts) q" for q
    by (erule covered_mono) (use env_records(2) [OF st rt] in auto)
  have ts: "Closing p PDelivered e \<notin> set ts" for p e using st by cases auto
  show ?thesis
  proof (rule delivered_invI)
    fix p e assume "Closing p PDelivered e \<in> set (us @ ts)"
    then have "Closing p PDelivered e \<in> set us" using ts by auto
    with del have "covered (s_issued s) us p" unfolding delivered_inv_def by blast
    then show "covered (s_issued s') (us @ ts) p" by (rule mono)
  next
    fix i p assume p: "fmlookup (records (s_requests s')) i = Some p" "p_state p = PDelivered"
    have "fmlookup (records (s_requests s)) i = Some p"
    proof (cases "i |\<in>| d")
      case True
      from env_process [OF st iv p(1) True] p show ?thesis by auto
    next
      case False
      from st rt show ?thesis
      proof (cases rule: env_requests)
        case (admitted pid q st')
        with p rt_insert_SomeD(1,2) [OF admitted(2) rt] show ?thesis by (cases "i = pid") auto
      qed (use p False iv in \<open>auto simp: decide_lookup pids_inv_def dest: fmdomI split: if_splits\<close>)
    qed
    with del p have "covered (s_issued s) us p" unfolding delivered_inv_def by blast
    then show "covered (s_issued s') (us @ ts) p" by (rule mono)
  qed
qed

lemma pending_ids_iff: "i |\<in>| pending_ids tab \<longleftrightarrow> (\<exists>p. fmlookup (records tab) i = Some p \<and> p_state p = PSubmitted)"
  by (auto simp: pending_ids_def fmdomI split: option.splits)

lemma pending_of_iff:
  "i |\<in>| pending_of tab h \<longleftrightarrow> (\<exists>p. fmlookup (records tab) i = Some p \<and> p_state p = PSubmitted \<and> p_holder_id p = h)"
  by (auto simp: pending_of_def fmdomI split: option.splits)

lemma caps_inv_mono:
  assumes "caps_inv tab"
    and "\<And>i p. fmlookup (records tab') i = Some p \<Longrightarrow> p_state p = PSubmitted \<Longrightarrow> fmlookup (records tab) i = Some p"
  shows "caps_inv tab'"
proof -
  have "pending_ids tab' |\<subseteq>| pending_ids tab" "pending_of tab' h |\<subseteq>| pending_of tab h" for h
    using assms(2) by (auto simp: pending_ids_iff pending_of_iff)
  from this [THEN fcard_mono] assms(1) show ?thesis unfolding caps_inv_def by (meson le_trans)
qed

lemma fcard_finsert_le: "fcard (finsert x A) \<le> Suc (fcard A)"
  by (cases "x |\<in>| A") (auto simp: finsert_absorb fcard_finsert_disjoint)

lemma caps_inv_insert:
  assumes "caps_inv tab" and ins: "rt_insert i p tab = Some tab'" and rt: "rt_ok tab"
    and room: "p_state p = PSubmitted \<Longrightarrow> fcard (pending_of tab (p_holder_id p)) < MAX_PENDING_PROCESSES_PER_HOLDER
         \<and> fcard (pending_ids tab) < MAX_PENDING_PROCESSES"
  shows "caps_inv tab'"
proof (cases "p_state p = PSubmitted")
  case False
  show ?thesis
  proof (rule caps_inv_mono [OF assms(1)])
    show "fmlookup (records tab') j = Some q \<Longrightarrow> p_state q = PSubmitted \<Longrightarrow> fmlookup (records tab) j = Some q" for j q
      using rt_insert_SomeD(1,2) [OF ins rt] False by (cases "j = i") auto
  qed
next
  case True
  have new: "fmlookup (records tab) j = Some q \<or> j = i \<and> q = p" if "fmlookup (records tab') j = Some q" for j q
    using rt_insert_SomeD(1) [OF ins rt] rt_insert_SomeD(2) [OF ins rt that] that by (cases "j = i") auto
  have all: "pending_ids tab' |\<subseteq>| finsert i (pending_ids tab)" using new by (auto simp: pending_ids_iff) blast
  have mine: "pending_of tab' h |\<subseteq>| (if h = p_holder_id p then finsert i (pending_of tab h) else pending_of tab h)" for h
    using new by (auto simp: pending_of_iff) blast+
  have "fcard (pending_ids tab') \<le> Suc (fcard (pending_ids tab))"
    by (rule le_trans [OF fcard_mono [OF all] fcard_finsert_le])
  moreover have "fcard (pending_of tab' h) \<le> MAX_PENDING_PROCESSES_PER_HOLDER" for h
  proof (cases "h = p_holder_id p")
    case h: True
    have "fcard (pending_of tab' h) \<le> Suc (fcard (pending_of tab h))"
      using fcard_mono [OF mine, of h] fcard_finsert_le [of i "pending_of tab h"] h by simp
    with h room [OF True] show ?thesis by simp
  next
    case False
    with fcard_mono [OF mine, of h] have "fcard (pending_of tab' h) \<le> fcard (pending_of tab h)" by simp
    with assms(1) show ?thesis unfolding caps_inv_def by (meson le_trans)
  qed
  ultimately show ?thesis using room [OF True] by (auto simp: caps_inv_def)
qed

lemma caps_inv_task:
  assumes "task_step s d t s' d' t'" and rt: "rt_ok (s_requests s)" and ok: "task_ok (s_requests s) t"
    and caps: "caps_inv (s_requests s)"
  shows "caps_inv (s_requests s')"
  using assms(1)
proof cases
  case (claim_ok pid p tab)
  show ?thesis
    by (rule caps_inv_mono [OF caps]) (use claim_ok in \<open>auto simp: claim_Some rt_modify_lookup split: if_splits\<close>)
next
  case (closed p st e now)
  show ?thesis
    by (rule caps_inv_mono [OF caps]) (use closed ok in \<open>auto simp: close_process_lookup split: if_splits\<close>)
next
  case (redeem_tracked pid hid hdid dn now tab i)
  from caps_inv_insert [OF caps redeem_tracked(6) rt] redeem_tracked(2) show ?thesis by simp
qed (use caps in \<open>simp_all add: claim_None\<close>)

lemma caps_inv_env:
  assumes "env_step s d s' d' ts" and rt: "rt_ok (s_requests s)" and caps: "caps_inv (s_requests s)"
  shows "caps_inv (s_requests s')"
  using assms(1) rt
proof (cases rule: env_requests)
  case same
  with caps show ?thesis by simp
next
  case (admitted pid p st)
  from caps_inv_insert [OF caps admitted(2) rt] admitted(4,12) show ?thesis by simp
next
  case (approved hid now pids)
  show ?thesis unfolding approved(1)
    by (rule caps_inv_mono [OF caps]) (auto simp: decide_lookup split: if_splits)
next
  case (rejected hid now)
  show ?thesis unfolding rejected(1)
    by (rule caps_inv_mono [OF caps]) (auto simp: decide_lookup split: if_splits)
qed

lemma env_catalog_holders:
  assumes "env_step s d s' d' ts" and rt: "rt_ok (s_requests s)"
    and c: "catalog_ok (s_definitions s)" and r: "registry_ok (s_holders s)"
  shows "catalog_ok (s_definitions s') \<and> registry_ok (s_holders s')"
  using assms(1)
proof cases
  case (request_refused pid hid approval now hdid hpid bearer ids e)
  from request_section_Err [OF request_refused(5)] c r show ?thesis by simp
next
  case (request_admitted pid hid approval now hdid hpid bearer ids deliver)
  from request_admitted(5) show ?thesis
    by (rule request_section_Ok) (use c r holder_for_ok in auto)
next
  case (approve hid now h moved pids)
  from decide_holder_Ok(1) [OF approve(3)] c r show ?thesis by (simp add: registry_modify_ok)
next
  case (reject hid now h moved)
  from decide_holder_Ok(1) [OF reject(3)] c r show ?thesis by (simp add: registry_modify_ok)
next
  case (register h h' hs)
  with c r registry_insert_ok show ?thesis by auto
next
  case (rename f hid)
  with c r show ?thesis by (simp add: registry_modify_ok)
next
  case (create inp now dn c')
  with catalog_create_ok [OF c into_definition_valid] r show ?thesis by simp
next
  case (update inp now dn dn' c')
  with catalog_update_ok [OF c into_definition_valid] r show ?thesis by simp
next
  case (delete i r')
  with delete_definition_effect [OF delete(3) rt] c r show ?thesis by (auto simp: catalog_remove_ok)
next
  case (redeem hid i dn approval now hdid hid' hs)
  with c r redeem_holder_ok show ?thesis by auto
qed (use c r in simp_all)

lemma task_catalog_holders:
  "task_step s d t s' d' t' \<Longrightarrow> s_definitions s' = s_definitions s \<and> s_holders s' = s_holders s"
  by (cases rule: task_step.cases) auto

section \<open>The invariant is inductive\<close>

lemma issuer_inv_step:
  assumes "issuer_inv (shared w) (drawn w) (tasks w)" and "step w w'"
  shows "issuer_inv (shared w') (drawn w') (tasks w')"
  using assms(2)
proof cases
  case (task i)
  then obtain s d t where task: "w' = w\<lparr>shared := s, drawn := d, tasks := (tasks w)[i := t]\<rparr>" "i < length (tasks w)"
    "task_step (shared w) (drawn w) (tasks w ! i) s d t" by cases
  let ?ts = "tasks w"
  have split: "?ts = take i ?ts @ ?ts ! i # drop (Suc i) ?ts" using task(2) by (simp add: id_take_nth_drop)
  let ?us = "take i ?ts @ drop (Suc i) ?ts"
  have inv: "issuer_inv (shared w) (drawn w) (?ts ! i # ?us)"
    using assms(1) issuer_inv_rotate split by metis
  note st = task(3)
  from inv have c: "issued_inv (s_issued (shared w)) (?ts ! i # ?us)" "cids_inv (s_issued (shared w)) (drawn w) (?ts ! i # ?us)"
    "pids_inv (s_requests (shared w)) (drawn w) (?ts ! i # ?us)"
    "\<forall>u \<in> set (?ts ! i # ?us). task_ok (s_requests (shared w)) u"
    "procs_inv (catalog_ids (s_definitions (shared w))) (s_requests (shared w)) (?ts ! i # ?us)"
    "records_inv (s_requests (shared w)) (s_issued (shared w)) (drawn w) (?ts ! i # ?us)"
    "delivered_inv (s_requests (shared w)) (s_issued (shared w)) (?ts ! i # ?us)"
    "caps_inv (s_requests (shared w))" "catalog_ok (s_definitions (shared w))" "registry_ok (s_holders (shared w))"
    unfolding issuer_inv_def by blast+
  from c(3) have rt: "rt_ok (s_requests (shared w))" by (simp add: pids_inv_def)
  from c(4) have own: "task_ok (s_requests (shared w)) (?ts ! i)" by simp
  have "issuer_inv s d (t # ?us)"
    unfolding issuer_inv_def
    using issued_inv_task [OF st c(1,2) own] cids_inv_task [OF st c(2)] pids_inv_task [OF st c(3) own]
      tasks_ok_task [OF st c(3,4)] procs_inv_task [OF st c(3) own c(5)]
      records_inv_task [OF st c(3,4,2,6)] delivered_inv_task [OF st c(3,4,2,7)] caps_inv_task [OF st rt own c(8)]
      task_catalog_holders [OF st] c(9,10) by simp
  then have "issuer_inv s d (take i ?ts @ t # drop (Suc i) ?ts)" by (simp add: issuer_inv_rotate)
  with task(1,2) show ?thesis by (simp add: upd_conv_take_nth_drop)
next
  case (env s d ts)
  note st = env(2)
  from assms(1) have c: "issued_inv (s_issued (shared w)) (tasks w)" "cids_inv (s_issued (shared w)) (drawn w) (tasks w)"
    "pids_inv (s_requests (shared w)) (drawn w) (tasks w)"
    "\<forall>u \<in> set (tasks w). task_ok (s_requests (shared w)) u"
    "procs_inv (catalog_ids (s_definitions (shared w))) (s_requests (shared w)) (tasks w)"
    "records_inv (s_requests (shared w)) (s_issued (shared w)) (drawn w) (tasks w)"
    "delivered_inv (s_requests (shared w)) (s_issued (shared w)) (tasks w)"
    "caps_inv (s_requests (shared w))" "catalog_ok (s_definitions (shared w))" "registry_ok (s_holders (shared w))"
    unfolding issuer_inv_def by blast+
  from c(3) have rt: "rt_ok (s_requests (shared w))" by (simp add: pids_inv_def)
  have "issuer_inv s d (tasks w @ ts)"
    unfolding issuer_inv_def
    using issued_inv_env [OF st c(1) rt] cids_inv_env [OF st c(2) rt] pids_inv_env [OF st c(3,5)]
      tasks_ok_env [OF st c(3,5,4)] procs_inv_env [OF st c(3,5)]
      records_inv_env [OF st c(3,4,6)] delivered_inv_env [OF st c(3,4,7)] caps_inv_env [OF st rt c(8)]
      env_catalog_holders [OF st rt c(9,10)] by simp
  with env(1) show ?thesis by simp
qed

lemma issuer_inv_start:
  assumes "catalog_seeded now = Some c"
  shows "issuer_inv \<lparr>s_definitions = c, s_holders = registry_default, s_requests = rt_new cap,
    s_issued = issued_default\<rparr> {||} []"
proof -
  from assms catalog_seeded_Some [of now] have "catalog_ok c" by auto
  then show ?thesis
    using issued_default_ok registry_ok_default
    by (simp add: issuer_inv_def issued_inv_def cids_inv_def pids_inv_def procs_inv_def records_inv_def
        delivered_inv_def caps_inv_def rt_new_def rt_ok_def rt_len_def issued_default_def pending_ids_def pending_of_def)
qed

lemma reachable_inv: "reachable cap w \<Longrightarrow> issuer_inv (shared w) (drawn w) (tasks w)"
  by (induction rule: reachable.induct) (auto simp: issuer_inv_start intro: issuer_inv_step)

lemma reachable_parts:
  assumes "reachable cap w"
  shows "issued_inv (s_issued (shared w)) (tasks w)" and "cids_inv (s_issued (shared w)) (drawn w) (tasks w)"
    and "pids_inv (s_requests (shared w)) (drawn w) (tasks w)"
    and "\<forall>u \<in> set (tasks w). task_ok (s_requests (shared w)) u"
    and "procs_inv (catalog_ids (s_definitions (shared w))) (s_requests (shared w)) (tasks w)"
    and "records_inv (s_requests (shared w)) (s_issued (shared w)) (drawn w) (tasks w)"
    and "delivered_inv (s_requests (shared w)) (s_issued (shared w)) (tasks w)"
    and "caps_inv (s_requests (shared w))"
    and "rt_ok (s_requests (shared w))"
  using reachable_inv [OF assms] unfolding issuer_inv_def pids_inv_def by blast+

lemma procs_invD:
  assumes "procs_inv ids tab ts" and "fmlookup (records tab) i = Some p"
  shows "is_active (p_state p) \<Longrightarrow> set (p_credential_definitions p) \<subseteq> ids"
    and "p_state p = PApproved \<Longrightarrow> \<exists>t \<in> set ts. serves t p"
  using assms unfolding procs_inv_def by blast+

section \<open>Progress\<close>

text \<open>How many sections a task still has to run, at most; the definitions left to mint break ties.\<close>

fun task_rank :: "task \<Rightarrow> nat \<times> nat" where
  "task_rank (Queued _) = (7, 0)"
| "task_rank (Permitted _) = (6, 0)"
| "task_rank (Claimed _) = (5, 0)"
| "task_rank (Minting _ ds _) = (4, length ds)"
| "task_rank (Accepted _ _) = (3, 0)"
| "task_rank (Failing _ _ _) = (3, 0)"
| "task_rank (Closing _ _ _) = (2, 0)"
| "task_rank (Redeeming _ _ _) = (4, 0)"
| "task_rank (RedeemIndexed _ _ _ _) = (3, 0)"
| "task_rank (RedeemRecorded _ _ _ _ _) = (2, 0)"
| "task_rank (RedeemUndo _) = (2, 0)"
| "task_rank (Ended _) = (0, 0)"
| "task_rank RedeemEnded = (0, 0)"

lemma task_rank_decreases: "task_step s d t s' d' t' \<Longrightarrow> (task_rank t', task_rank t) \<in> less_than <*lex*> less_than"
  by (cases rule: task_step.cases) auto

lemma fresh_string: "\<exists>u :: string. u |\<notin>| d"
  using ex_new_if_finite [of "fset d"] infinite_UNIV_listI by auto

lemma allocate_total: "\<exists>i ic'. issued_allocate ic = (i, ic')"
  by (cases "issued_allocate ic") auto

text \<open>
  Every stage has a next section, permits aside: in particular giving indexes back never indexes
  past the bitstring.
\<close>

lemma task_progress:
  assumes iv: "issued_inv (s_issued s) us" and t: "t \<in> set us" and "task_rank t \<noteq> (0, 0)"
  shows "\<exists>s' d' t'. task_step s d t s' d' t'"
proof -
  obtain u where u: "u |\<notin>| d" using fresh_string by blast
  obtain al ic where al: "issued_allocate (s_issued s) = (al, ic)" using allocate_total by blast
  from split_list [OF t] obtain xs ys where us: "us = xs @ t # ys" by blast
  from iv us have ok: "issued_ok (s_issued s) (set (in_flight us))" and d: "distinct (task_indexes t)"
    and sub: "set (task_indexes t) \<subseteq> set (in_flight us)" by (auto simp: issued_inv_def)
  show ?thesis
  proof (cases t)
    case (Queued pid)
    then show ?thesis by (auto intro: acquire)
  next
    case (Permitted pid)
    obtain r tab where "claim pid (s_requests s) = (r, tab)" by fastforce
    with Permitted show ?thesis by (cases r) (auto intro: claim_ok claim_no)
  next
    case (Claimed p)
    then show ?thesis
      by (cases "lookup_definitions (s_definitions s) (p_credential_definitions p)")
        (auto intro: definitions_ok definitions_gone)
  next
    case (Minting p ds rs)
    then show ?thesis by (auto intro: network_failure)
  next
    case (Accepted p rs)
    then show ?thesis by (auto intro: recorded)
  next
    case (Failing p ks e)
    with pool.release_all [OF ok sub d] show ?thesis by (auto intro: released)
  next
    case (Closing p st e)
    then show ?thesis by (auto intro: closed)
  next
    case (Redeeming dn hdid hid)
    with al show ?thesis by (cases al) (auto intro: redeem_index redeem_exhausted)
  next
    case (RedeemIndexed dn hdid hid i)
    have "\<exists>s' d' t'. task_step s d (RedeemIndexed dn hdid hid i) s' d' t'"
    proof (cases "rt_insert u (redeem_process u hid hdid dn 0) (s_requests s)")
      case None
      from redeem_full [OF u None] show ?thesis by blast
    next
      case (Some tab)
      from redeem_tracked [OF u Some] show ?thesis by blast
    qed
    with RedeemIndexed show ?thesis by simp
  next
    case (RedeemRecorded dn hdid hid i pid)
    with redeem_done [OF u] show ?thesis by blast
  next
    case (RedeemUndo i)
    with sub have "i \<in> set (in_flight us)" by simp
    from issued_release_ok [OF ok this] obtain ic' where "issued_release i (s_issued s) = Some ic'" by blast
    with RedeemUndo show ?thesis by (auto intro: redeem_undo)
  qed (use assms(3) in simp_all)
qed

text \<open>A task's section never loses an approved process: it stays so or it ends.\<close>

lemma task_step_approved:
  assumes "task_step s d t s' d' t'" and ok: "task_ok (s_requests s) t" and iv: "pids_inv (s_requests s) d us"
    and p: "fmlookup (records (s_requests s)) i = Some p" "p_state p = PApproved"
  shows "\<exists>q. fmlookup (records (s_requests s')) i = Some q \<and> (p_state q = PApproved \<or> is_terminal (p_state q))"
  using assms(1)
proof cases
  case (redeem_tracked pid hid hdid dn now tab n)
  from iv have rt: "rt_ok (s_requests s)" by (simp add: pids_inv_def)
  from pids_inv_fresh [OF iv redeem_tracked(5)] p have "i \<notin> {pid}" by auto
  from framed_active [OF framed_insert [OF redeem_tracked(6) rt] this p(1)] p(2) redeem_tracked(2) show ?thesis by simp
qed (use p ok in \<open>auto simp: claim_Some claim_None rt_modify_lookup close_process_lookup is_terminal_def\<close>)

definition approved :: "world \<Rightarrow> string \<Rightarrow> bool" where
  "approved w i \<longleftrightarrow> (\<exists>p. fmlookup (records (s_requests (shared w))) i = Some p \<and> p_state p = PApproved)"

definition finished :: "world \<Rightarrow> string \<Rightarrow> bool" where
  "finished w i \<longleftrightarrow> (\<exists>p. fmlookup (records (s_requests (shared w))) i = Some p \<and> is_terminal (p_state p))"

lemma task_move_approved:
  assumes "reachable cap w" and "task_move k w w'" and "approved w i"
  shows "approved w' i \<or> finished w' i"
  using assms(2)
proof cases
  case (1 s d t)
  note parts = reachable_parts [OF assms(1)]
  from parts(4) 1(2) have "task_ok (s_requests (shared w)) (tasks w ! k)" by simp
  from task_step_approved [OF 1(4) this parts(3)] assms(3) 1(1) show ?thesis
    unfolding approved_def finished_def by (simp; blast)
qed

lemma task_move_reachable: "reachable cap w \<Longrightarrow> task_move k w w' \<Longrightarrow> reachable cap w'"
  by (blast intro: extend step.task)

text \<open>Nothing is deadlocked: a task with sections left can run, or waits for the holder of a permit, who can.\<close>

lemma task_move_enabled:
  assumes "reachable cap w" and "k < length (tasks w)" and "task_rank (tasks w ! k) \<noteq> (0, 0)"
    and "may_run (tasks w) (tasks w ! k)"
  shows "\<exists>w'. task_move k w w'"
proof -
  have "tasks w ! k \<in> set (tasks w)" using assms(2) by simp
  from task_progress [OF reachable_parts(1) [OF assms(1)] this assms(3)]
  show ?thesis using assms(2,4) by (blast intro: task_move.intros)
qed

lemma holder_moves:
  assumes "reachable cap w" and "permits_out (tasks w) \<noteq> 0"
  shows "\<exists>k w'. k < length (tasks w) \<and> holds_permit (tasks w ! k) \<and> task_move k w w'"
proof -
  from assms(2) obtain k where k: "k < length (tasks w)" "holds_permit (tasks w ! k)"
    using permit_taken by blast
  from k(2) have "task_rank (tasks w ! k) \<noteq> (0, 0)" "may_run (tasks w) (tasks w ! k)"
    by (cases "tasks w ! k"; simp)+
  from task_move_enabled [OF assms(1) k(1) this] k show ?thesis by blast
qed

lemma no_deadlock:
  assumes "reachable cap w" and "k < length (tasks w)" and "task_rank (tasks w ! k) \<noteq> (0, 0)"
  shows "(\<exists>w'. task_move k w w') \<or> (\<exists>pid. tasks w ! k = Queued pid) \<and> permits_out (tasks w) = MAX_IN_FLIGHT_DELIVERIES
    \<and> (\<exists>j w'. j < length (tasks w) \<and> holds_permit (tasks w ! j) \<and> task_move j w w')"
proof (cases "may_run (tasks w) (tasks w ! k)")
  case True
  with task_move_enabled [OF assms] show ?thesis by blast
next
  case False
  then have "\<exists>pid. tasks w ! k = Queued pid" "permits_out (tasks w) = MAX_IN_FLIGHT_DELIVERIES"
    using permits_bounded [OF assms(1)] by (cases "tasks w ! k"; simp)+
  with holder_moves [OF assms(1)] show ?thesis by (simp add: MAX_IN_FLIGHT_DELIVERIES_def)
qed

lemma approved_moves:
  assumes "reachable cap w" and "approved w i"
  shows "\<exists>k w'. task_move k w w'"
proof -
  from assms(2) obtain p where "fmlookup (records (s_requests (shared w))) i = Some p" "p_state p = PApproved"
    unfolding approved_def by blast
  from procs_invD(2) [OF reachable_parts(5) [OF assms(1)] this] obtain k where k: "k < length (tasks w)" "serves (tasks w ! k) p"
    by (auto simp: in_set_conv_nth)
  from k(2) have "task_rank (tasks w ! k) \<noteq> (0, 0)" by (cases "tasks w ! k") auto
  from no_deadlock [OF assms(1) k(1) this] show ?thesis by blast
qed

text \<open>Without new work the tasks come to rest: each move lowers one task's rank and leaves the others.\<close>

definition rank_less :: "((nat \<times> nat) \<times> nat \<times> nat) set" where
  "rank_less = less_than <*lex*> less_than"

definition ranks :: "world \<Rightarrow> (nat \<times> nat) multiset" where
  "ranks w = image_mset task_rank (mset (tasks w))"

lemma task_move_ranks: "task_move k w w' \<Longrightarrow> (ranks w', ranks w) \<in> mult rank_less"
proof (erule task_move.cases)
  fix j v s d t
  assume eq: "k = j" "w = v" "w' = v\<lparr>shared := s, drawn := d, tasks := (tasks v)[j := t]\<rparr>" "j < length (tasks v)"
    and st: "task_step (shared v) (drawn v) (tasks v ! j) s d t"
  let ?r = "image_mset task_rank (mset (tasks v) - {#tasks v ! j#})"
  have "tasks v ! j \<in># mset (tasks v)" using eq(4) by simp
  then have "mset (tasks v) = add_mset (tasks v ! j) (mset (tasks v) - {#tasks v ! j#})" by simp
  then have "ranks w = ?r + {#task_rank (tasks v ! j)#}" unfolding ranks_def eq(2)
    by (metis add_mset_add_single image_mset_add_mset)
  moreover have "ranks w' = ?r + {#task_rank t#}" by (simp add: ranks_def eq mset_update)
  ultimately show ?thesis
    using one_step_implies_mult [of "{#task_rank (tasks v ! j)#}" "{#task_rank t#}" rank_less ?r]
      task_rank_decreases [OF st] by (simp add: rank_less_def)
qed

lemma wf_ranks: "wf (inv_image (mult rank_less) ranks)"
  unfolding rank_less_def by (intro wf_inv_image wf_mult wf_lex_prod wf_less_than)

lemma task_moves_end: "\<not> (\<exists>f. f 0 = w \<and> (\<forall>n. \<exists>k. task_move k (f n) (f (Suc n))))"
proof
  assume "\<exists>f. f 0 = w \<and> (\<forall>n. \<exists>k. task_move k (f n) (f (Suc n)))"
  then obtain f where "\<forall>n. \<exists>k. task_move k (f n) (f (Suc n))" by blast
  then have "\<forall>n. (f (Suc n), f n) \<in> inv_image (mult rank_less) ranks"
    using task_move_ranks unfolding in_inv_image by blast
  with wf_ranks show False unfolding wf_iff_no_infinite_down_chain by blast
qed

text \<open>Whoever gets the permits, an approved process ends before the tasks come to rest.\<close>

lemma delivery_terminates:
  assumes "reachable cap w" and "approved w i"
  shows "\<exists>w'. (\<lambda>v v'. \<exists>k. task_move k v v')\<^sup>*\<^sup>* w w' \<and> finished w' i"
  using assms
proof (induction w rule: wf_induct_rule [OF wf_ranks])
  case (1 w)
  from approved_moves [OF 1(2,3)] obtain k w' where w': "task_move k w w'" by blast
  have "\<exists>v. (\<lambda>v v'. \<exists>k. task_move k v v')\<^sup>*\<^sup>* w' v \<and> finished v i"
    using task_move_approved [OF 1(2) w' 1(3)]
  proof
    assume "approved w' i"
    with 1(1) [OF _ task_move_reachable [OF 1(2) w']] task_move_ranks [OF w'] show ?thesis by (simp add: in_inv_image)
  qed blast
  with w' show ?case by (blast intro: converse_rtranclp_into_rtranclp)
qed

lemma moves_reachable: "(\<lambda>v v'. \<exists>k. task_move k v v')\<^sup>*\<^sup>* w w' \<Longrightarrow> reachable cap w \<Longrightarrow> reachable cap w'"
  by (induction rule: rtranclp_induct) (blast intro: task_move_reachable)+

lemma moves_steps: "(\<lambda>v v'. \<exists>k. task_move k v v')\<^sup>*\<^sup>* w w' \<Longrightarrow> step\<^sup>*\<^sup>* w w'"
  by (erule rtranclp_mono [THEN predicate2D, rotated]) (blast intro: step.task)

lemma at_rest:
  assumes "reachable cap w" and "\<not> (\<exists>k w'. task_move k w w')"
  shows "(\<forall>t \<in> set (tasks w). task_rank t = (0, 0))
    \<and> (\<forall>j q. fmlookup (records (s_requests (shared w))) j = Some q \<longrightarrow> p_state q \<noteq> PApproved)"
  using no_deadlock [OF assms(1)] approved_moves [OF assms(1)] assms(2)
  by (auto simp: in_set_conv_nth approved_def) metis+

section \<open>The capacity\<close>

text \<open>The table keeps the capacity it was created with.\<close>

lemma rt_insert_capacity: "rt_insert i p tab = Some tab' \<Longrightarrow> rt_capacity tab' = rt_capacity tab"
  by (auto simp: rt_insert_def split: option.splits)

lemma rt_modify_capacity [simp]: "rt_capacity (rt_modify i f tab) = rt_capacity tab"
  "rt_capacity (rt_modify_all P f tab) = rt_capacity tab"
  by (simp_all add: rt_modify_def rt_modify_all_def split: option.splits)

lemma task_step_capacity: "task_step s d t s' d' t' \<Longrightarrow> rt_capacity (s_requests s') = rt_capacity (s_requests s)"
  by (cases rule: task_step.cases)
    (auto simp: claim_def close_process_def rt_insert_capacity split: option.splits if_splits)

lemma env_step_capacity:
  assumes "env_step s d s' d' ts" and "rt_ok (s_requests s)"
  shows "rt_capacity (s_requests s') = rt_capacity (s_requests s)"
  using assms by (cases rule: env_requests) (auto dest: rt_insert_capacity)

lemma reachable_capacity: "reachable cap w \<Longrightarrow> rt_capacity (s_requests (shared w)) = cap"
proof (induction rule: reachable.induct)
  case (extend w w')
  from extend(2) show ?case
  proof cases
    case (task i)
    then show ?thesis using extend.IH by cases (simp add: task_step_capacity)
  next
    case (env s d ts)
    with extend.IH env_step_capacity [OF env(2) reachable_parts(9) [OF extend(1)]] show ?thesis by simp
  qed
qed (simp add: rt_new_def)

section \<open>A run\<close>

text \<open>
  One complete delivery, as a source of concrete worlds: a first request under automatic approval is
  admitted, claimed, minted, accepted by the holder's storage, recorded and closed.
\<close>

lemma lone_task_runs: "may_run [t] t"
  by (cases t) (simp_all add: MAX_IN_FLIGHT_DELIVERIES_def)

lemma run_task:
  assumes "reachable cap \<lparr>shared = s, tasks = [t], drawn = d\<rparr>" and "task_step s d t s' d' t'"
  shows "reachable cap \<lparr>shared = s', tasks = [t'], drawn = d'\<rparr>"
proof -
  let ?w = "\<lparr>shared = s, tasks = [t], drawn = d\<rparr>"
  have "task_move 0 ?w (?w\<lparr>shared := s', drawn := d', tasks := (tasks ?w)[0 := t']\<rparr>)"
    by (rule task_move.intros) (use assms(2) lone_task_runs in simp_all)
  then have "step ?w (?w\<lparr>shared := s', drawn := d', tasks := (tasks ?w)[0 := t']\<rparr>)" by (rule step.task)
  from extend [OF assms(1) this] show ?thesis by simp
qed

lemma run_env:
  assumes "reachable cap \<lparr>shared = s, tasks = ts, drawn = d\<rparr>" and "env_step s d s' d' us"
  shows "reachable cap \<lparr>shared = s', tasks = ts @ us, drawn = d'\<rparr>"
proof -
  let ?w = "\<lparr>shared = s, tasks = ts, drawn = d\<rparr>"
  have "step ?w (?w\<lparr>shared := s', drawn := d', tasks := tasks ?w @ us\<rparr>)"
    by (rule step.env) (use assms(2) in simp_all)
  from extend [OF assms(1) this] show ?thesis by simp
qed

definition sample_catalog :: definition_catalog where
  "sample_catalog = \<lparr>definitions = [\<lparr>cd_id = ''membership-credential'', cd_credential_type = ''MembershipCredential'',
     cd_format = FORMAT_VC1_0_JWT, cd_validity = 3600, cd_json_schema_url = None, cd_json_schema = None,
     cd_mappings = [], cd_rules = [], cd_attestations = [], cd_created_at = 7\<rparr>]\<rparr>"

definition sample_holder :: holder where
  "sample_holder = \<lparr>holder_id = ''h'', did = ''did:web:holder.example'', name = None, properties = [],
     status = Approved, created_at = 7\<rparr>"

definition admitted_process :: issuance_process where
  "admitted_process = new_process ''p'' PApproved sample_holder ''did:web:holder.example'' ''hp''
     [''membership-credential''] 7 None"

lemma sample_seeded: "catalog_seeded 7 = Some sample_catalog"
proof -
  have "trim (in_id seed_input) \<noteq> []" "valid_credential_type (in_credential_type seed_input)" by code_simp+
  then show ?thesis
    by (simp add: catalog_seeded_def into_definition_def sample_catalog_def)
      (simp add: seed_input_def unwrap_or_def DEFAULT_VALIDITY_SECS_def FORMAT_VC1_0_JWT_def)
qed

lemma run_start:
  "reachable 2 \<lparr>shared = \<lparr>s_definitions = sample_catalog, s_holders = registry_default,
      s_requests = rt_new 2, s_issued = issued_default\<rparr>, tasks = [], drawn = {||}\<rparr>"
  by (rule start [OF sample_seeded])

lemma run_queued:
  "\<exists>hs. reachable 2 \<lparr>shared = \<lparr>s_definitions = sample_catalog, s_holders = hs,
      s_requests = \<lparr>records = fmupd ''p'' admitted_process fmempty, rt_order = [''p''], rt_capacity = 2\<rparr>,
      s_issued = issued_default\<rparr>, tasks = [Queued ''p''], drawn = {|''h'', ''p''|}\<rparr>"
proof -
  let ?s = "\<lparr>s_definitions = sample_catalog, s_holders = registry_default,
      s_requests = rt_new 2, s_issued = issued_default\<rparr>"
  have "by_did registry_default ''did:web:holder.example'' = None"
    by (simp add: by_did_def registry_default_def)
  then obtain hs where hf: "holder_for Auto ''h'' 7 ''did:web:holder.example'' registry_default = (Ok sample_holder, hs)"
    by (simp add: holder_for_def registry_insert_def registry_default_def registry_len_def MAX_HOLDERS_def
        by_did_def Let_def initial_status_def sample_holder_def)
  have ids: "dedup_ids [] [''membership-credential''] = [''membership-credential'']"
    by (simp add: MAX_REQUEST_CREDENTIALS_def)
  have "request_section Auto ''p'' ''h'' 7 ''did:web:holder.example'' ''hp'' None (dedup_ids [] [''membership-credential'']) ?s
    = (Ok True, ?s\<lparr>s_holders := hs,
        s_requests := \<lparr>records = fmupd ''p'' admitted_process fmempty, rt_order = [''p''], rt_capacity = 2\<rparr>\<rparr>)"
    unfolding ids request_section_def
    by (simp add: hf MAX_REQUEST_CREDENTIALS_def catalog_get_def sample_catalog_def sample_holder_def Let_def
        pending_counts_def rt_insert_def rt_new_def rt_make_room.simps admitted_process_def)
  from request_admitted [OF _ _ this, of "{||}"] have "env_step ?s {||} (?s\<lparr>s_holders := hs,
        s_requests := \<lparr>records = fmupd ''p'' admitted_process fmempty, rt_order = [''p''], rt_capacity = 2\<rparr>\<rparr>)
        {|''h'', ''p''|} [Queued ''p'']" by (simp del: dedup_ids.simps)
  from run_env [OF run_start this] show ?thesis by auto
qed

lemma run_permitted:
  "\<exists>hs. reachable 2 \<lparr>shared = \<lparr>s_definitions = sample_catalog, s_holders = hs,
      s_requests = \<lparr>records = fmupd ''p'' admitted_process fmempty, rt_order = [''p''], rt_capacity = 2\<rparr>,
      s_issued = issued_default\<rparr>, tasks = [Permitted ''p''], drawn = {|''h'', ''p''|}\<rparr>"
  using run_queued run_task [OF _ acquire] by blast

text \<open>The rest of the run, given the shared state of the claim.\<close>

lemma run_claimed:
  "\<exists>hs tab. reachable 2 \<lparr>shared = \<lparr>s_definitions = sample_catalog, s_holders = hs, s_requests = tab,
      s_issued = issued_default\<rparr>, tasks = [Claimed (admitted_process\<lparr>p_delivery_started := True\<rparr>)],
      drawn = {|''h'', ''p''|}\<rparr>"
proof -
  let ?tab = "\<lparr>records = fmupd ''p'' admitted_process fmempty, rt_order = [''p''], rt_capacity = 2\<rparr>"
  from run_permitted obtain hs where r: "reachable 2 \<lparr>shared = \<lparr>s_definitions = sample_catalog, s_holders = hs,
      s_requests = ?tab, s_issued = issued_default\<rparr>, tasks = [Permitted ''p''], drawn = {|''h'', ''p''|}\<rparr>" ..
  let ?s = "\<lparr>s_definitions = sample_catalog, s_holders = hs, s_requests = ?tab, s_issued = issued_default\<rparr>"
  obtain tab where "claim ''p'' (s_requests ?s) = (Some (admitted_process\<lparr>p_delivery_started := True\<rparr>), tab)"
    by (simp add: claim_def rt_get_def admitted_process_def)
  from run_task [OF r claim_ok [OF this]] show ?thesis by auto
qed

lemma run_closed:
  "\<exists>w q r. reachable 2 w \<and> tasks w = [Ended ''p''] \<and> fmlookup (records (s_requests (shared w))) ''p'' = Some q
     \<and> p_state q = PDelivered \<and> p_credential_definitions q = [''membership-credential'']
     \<and> fmlookup (ic_records (s_issued (shared w))) (credential_urn ''c'') = Some r
     \<and> c_process_id r = ''p''"
proof -
  let ?p = "admitted_process\<lparr>p_delivery_started := True\<rparr>"
  let ?d = "{|''h'', ''p''|}"
  from run_claimed obtain hs tab where r: "reachable 2 \<lparr>shared = \<lparr>s_definitions = sample_catalog, s_holders = hs,
      s_requests = tab, s_issued = issued_default\<rparr>, tasks = [Claimed ?p], drawn = ?d\<rparr>" by blast
  let ?s = "\<lambda>t ic. \<lparr>s_definitions = sample_catalog, s_holders = hs, s_requests = t, s_issued = ic\<rparr>"
  obtain dn where "lookup_definitions (s_definitions (?s tab issued_default)) (p_credential_definitions ?p) = Ok [dn]"
    by (simp add: sample_catalog_def admitted_process_def catalog_get_def)
  note r1 = run_task [OF r definitions_ok [OF this]]
  obtain ic where al: "issued_allocate (s_issued (?s tab issued_default)) = (Some 0, ic)"
    by (simp add: issued_allocate_def sl_allocate_def issued_default_def status_list_default_def STATUS_LIST_BITS_def)
  define c where "c = minted_record (p_id ?p) (p_holder_id ?p) (p_holder_did ?p) dn ''c'' 9 0"
  have "''c'' |\<notin>| ?d" by simp
  note r2 = run_task [OF r1 mint [OF al this c_def]]
  note r3 = run_task [OF r2 posted]
  note r4 = run_task [OF r3 recorded]
  note r5 = run_task [OF r4 closed [of _ _ _ PDelivered None 11]]
  from reachable_parts(4) [OF r4] have own: "owned tab ?p" by simp
  have id: "p_id ?p = ''p''" by (simp add: admitted_process_def)
  have "fmlookup (records (close_process (p_id ?p) PDelivered None 11 tab)) ''p''
      = Some ((transition PDelivered 11 ?p)\<lparr>p_error_detail := None\<rparr>)"
    using own id by (simp add: close_process_lookup owned_def)
  moreover have "fmlookup (ic_records (record_issued [c] ic)) (credential_urn ''c'') = Some c"
    by (simp add: issued_insert_def c_def)
  ultimately show ?thesis using r5 id
    by (intro exI [of _ "\<lparr>shared = ?s (close_process (p_id ?p) PDelivered None 11 tab) (record_issued [c] ic),
          tasks = [Ended (p_id ?p)], drawn = finsert ''c'' ?d\<rparr>"] exI [of _ "(transition PDelivered 11 ?p)\<lparr>p_error_detail := None\<rparr>"]
        exI [of _ c] conjI) (simp_all add: c_def admitted_process_def)
qed

section \<open>Guarantees\<close>

text \<open>The lifecycle of a process, as one step of the system may move it.\<close>

fun lifecycle :: "process_state \<Rightarrow> bool \<Rightarrow> process_state \<Rightarrow> bool \<Rightarrow> bool" where
  "lifecycle PSubmitted False PApproved False = True"
| "lifecycle PSubmitted False PRejected False = True"
| "lifecycle PApproved False PApproved True = True"
| "lifecycle PApproved False PRejected False = True"
| "lifecycle PApproved True PDelivered True = True"
| "lifecycle PApproved True PErrored True = True"
| "lifecycle _ _ _ _ = False"

lemma task_lifecycle:
  assumes "task_step s d t s' d' t'" and "rt_ok (s_requests s)" and "task_ok (s_requests s) t"
    and "fmlookup (records (s_requests s')) i = Some p" and "i |\<in>| d"
  shows "\<exists>q. fmlookup (records (s_requests s)) i = Some q
    \<and> p_holder_did p = p_holder_did q \<and> p_credential_definitions p = p_credential_definitions q
    \<and> (p = q \<or> lifecycle (p_state q) (p_delivery_started q) (p_state p) (p_delivery_started p))"
  using assms(1)
proof cases
  case (claim_ok pid q tab)
  with assms(3,4) show ?thesis by (auto simp: claim_Some rt_modify_lookup split: if_splits)
next
  case (closed q st e now)
  show ?thesis
  proof (cases "i = p_id q")
    case True
    with closed assms(3) have own: "fmlookup (records (s_requests s)) i = Some q" "p_state q = PApproved" "p_delivery_started q"
      and st: "st = PDelivered \<or> st = PErrored"
      by (auto simp: owned_def)
    with True closed assms(4) have "p = (transition st now q)\<lparr>p_error_detail := e\<rparr>" by (simp add: close_process_lookup)
    with own st show ?thesis by (auto simp: transition_def)
  next
    case False
    with closed assms(4) show ?thesis by (simp add: close_process_lookup)
  qed
next
  case (redeem_tracked pid hid hdid dn now tab n)
  with assms(4,5) rt_insert_SomeD(2) [OF redeem_tracked(6) assms(2), of i p] show ?thesis by auto
qed (use assms in \<open>auto simp: claim_None\<close>)

lemma env_lifecycle:
  assumes "env_step s d s' d' ts" and rt: "rt_ok (s_requests s)" and procs: "procs_inv ids (s_requests s) us"
    and p: "fmlookup (records (s_requests s')) i = Some p" and "i |\<in>| d"
  shows "\<exists>q. fmlookup (records (s_requests s)) i = Some q
    \<and> p_holder_did p = p_holder_did q \<and> p_credential_definitions p = p_credential_definitions q
    \<and> (p = q \<or> lifecycle (p_state q) (p_delivery_started q) (p_state p) (p_delivery_started p))"
  using assms(1) rt
proof (cases rule: env_requests)
  case same
  with p show ?thesis by simp
next
  case (admitted pid q st)
  with assms(5) p rt_insert_SomeD(2) [OF admitted(2) rt, of i p] show ?thesis by auto
next
  case (approved hid now pids)
  from p obtain q where q: "fmlookup (records (s_requests s)) i = Some q"
    "p = (if decided_by hid PApproved q then transition PApproved now q else q)"
    unfolding approved(1) decide_lookup by blast
  with procs have "p_state q = PSubmitted \<Longrightarrow> \<not> p_delivery_started q" by (simp add: procs_inv_def)
  with q show ?thesis by (cases "decided_by hid PApproved q") (auto simp: decided_by_def transition_def)
next
  case (rejected hid now)
  from p obtain q where q: "fmlookup (records (s_requests s)) i = Some q"
    "p = (if decided_by hid PRejected q then transition PRejected now q else q)"
    unfolding rejected(1) decide_lookup by blast
  with procs have "p_state q = PSubmitted \<Longrightarrow> \<not> p_delivery_started q" by (simp add: procs_inv_def)
  with q show ?thesis by (cases "decided_by hid PRejected q") (auto simp: decided_by_def transition_def)
qed

text \<open>
  C1. In every interleaving, one step moves a known issuance process only along the documented
  lifecycle: submitted to approved or rejected; approved and unclaimed to claimed or rejected;
  claimed to delivered or errored. A terminal process never changes again, whom it is for and what
  it asks for never change, and an identifier that left the table never comes back.
\<close>

theorem process_lifecycle:
  assumes "reachable cap w" and "step w w'" and "fmlookup (records (s_requests (shared w'))) i = Some p"
    and "i |\<in>| drawn w"
  shows "\<exists>q. fmlookup (records (s_requests (shared w))) i = Some q
    \<and> p_holder_did p = p_holder_did q \<and> p_credential_definitions p = p_credential_definitions q
    \<and> (p = q \<or> lifecycle (p_state q) (p_delivery_started q) (p_state p) (p_delivery_started p))
    \<and> (is_terminal (p_state q) \<longrightarrow> p = q)"
proof -
  note parts = reachable_parts [OF assms(1)]
  have "\<exists>q. fmlookup (records (s_requests (shared w))) i = Some q
    \<and> p_holder_did p = p_holder_did q \<and> p_credential_definitions p = p_credential_definitions q
    \<and> (p = q \<or> lifecycle (p_state q) (p_delivery_started q) (p_state p) (p_delivery_started p))"
    using assms(2)
  proof cases
    case (task k)
    then obtain s d t where task: "w' = w\<lparr>shared := s, drawn := d, tasks := (tasks w)[k := t]\<rparr>" "k < length (tasks w)"
      "task_step (shared w) (drawn w) (tasks w ! k) s d t" by cases
    with parts(4) have "task_ok (s_requests (shared w)) (tasks w ! k)" by simp
    from task_lifecycle [OF task(3) parts(9) this _ assms(4)] task(1) assms(3) show ?thesis by simp
  next
    case (env s d ts)
    from env_lifecycle [OF env(2) parts(9,5) _ assms(4)] env(1) assms(3) show ?thesis by simp
  qed
  moreover have "\<not> is_terminal st" if "lifecycle st b st' b'" for st b st' b'
    using that by (cases "(st, b, st', b')" rule: lifecycle.cases) (auto simp: is_terminal_def)
  ultimately show ?thesis by blast
qed

theorem process_lifecycle_witness:
  "\<exists>w w' q p. reachable 2 w \<and> step w w' \<and> fmlookup (records (s_requests (shared w))) ''p'' = Some q
     \<and> p_state q = PApproved \<and> fmlookup (records (s_requests (shared w'))) ''p'' = Some p \<and> p_delivery_started p"
proof -
  let ?tab = "\<lparr>records = fmupd ''p'' admitted_process fmempty, rt_order = [''p''], rt_capacity = 2\<rparr>"
  from run_permitted obtain hs where r: "reachable 2 \<lparr>shared = \<lparr>s_definitions = sample_catalog, s_holders = hs,
      s_requests = ?tab, s_issued = issued_default\<rparr>, tasks = [Permitted ''p''], drawn = {|''h'', ''p''|}\<rparr>"
      (is "reachable 2 ?w") ..
  let ?p = "admitted_process\<lparr>p_delivery_started := True\<rparr>"
  obtain tab where cl: "claim ''p'' ?tab = (Some ?p, tab)" "fmlookup (records tab) ''p'' = Some ?p"
    by (simp add: claim_def rt_get_def admitted_process_def rt_modify_def)
  have "task_step (shared ?w) (drawn ?w) (tasks ?w ! 0) ((shared ?w)\<lparr>s_requests := tab\<rparr>) (drawn ?w) (Claimed ?p)"
    using claim_ok [of "''p''" "shared ?w" ?p tab "drawn ?w"] cl(1) by simp
  then have "task_move 0 ?w (?w\<lparr>shared := (shared ?w)\<lparr>s_requests := tab\<rparr>, drawn := drawn ?w, tasks := (tasks ?w)[0 := Claimed ?p]\<rparr>)"
    (is "task_move 0 ?w ?w'") by (rule task_move.intros [rotated 2]) simp_all
  then have st: "step ?w ?w'" by (rule step.task)
  have lk: "fmlookup (records (s_requests (shared ?w'))) ''p'' = Some ?p" using cl(2) by simp
  have "''p'' |\<in>| drawn ?w" by simp
  from process_lifecycle [OF r st lk this] obtain q where
    q: "fmlookup (records (s_requests (shared ?w))) ''p'' = Some q" by blast
  then have "q = admitted_process" by simp
  then have "p_state q = PApproved" by (simp add: admitted_process_def)
  moreover have "p_delivery_started ?p" by simp
  ultimately show ?thesis using r st q lk by blast
qed

text \<open>
  C4. A delivery never fails because its definition is gone: from the moment a process is admitted
  until it ends, deleting a definition it names is refused, so the lookup of a claimed process always
  succeeds and yields the requested definitions in order; an approved process is always carried by
  exactly one task.
\<close>

theorem delivery_never_orphaned:
  assumes "reachable cap w"
  shows "(\<forall>p. Claimed p \<in> set (tasks w) \<longrightarrow> (\<exists>ds. lookup_definitions (s_definitions (shared w)) (p_credential_definitions p)
        = Ok ds \<and> map cd_id ds = p_credential_definitions p))
    \<and> (\<forall>i p. fmlookup (records (s_requests (shared w))) i = Some p \<and> p_state p = PApproved \<longrightarrow>
        length (filter (\<lambda>t. i \<in> set (task_pids t)) (tasks w)) = 1)"
proof (intro conjI allI impI)
  note parts = reachable_parts [OF assms]
  fix p assume "Claimed p \<in> set (tasks w)"
  with parts(4) have "owned (s_requests (shared w)) p" by fastforce
  then have "set (p_credential_definitions p) \<subseteq> catalog_ids (s_definitions (shared w))"
    using procs_invD(1) [OF parts(5), of "p_id p" p] by (simp add: owned_def)
  from lookup_definitions_total [OF this]
  show "\<exists>ds. lookup_definitions (s_definitions (shared w)) (p_credential_definitions p) = Ok ds
      \<and> map cd_id ds = p_credential_definitions p"
    by (cases "lookup_definitions (s_definitions (shared w)) (p_credential_definitions p)")
      (auto dest: lookup_definitions_Ok)
next
  note parts = reachable_parts [OF assms]
  fix i p assume p: "fmlookup (records (s_requests (shared w))) i = Some p \<and> p_state p = PApproved"
  then obtain t where t: "t \<in> set (tasks w)" "serves t p" using procs_invD(2) [OF parts(5)] by blast
  from p parts(9) have "p_id p = i" by (simp add: rt_ok_def)
  with t(2) have i: "i \<in> set (task_pids t)" by (cases t) auto
  from split_list [OF t(1)] obtain xs ys where ts: "tasks w = xs @ t # ys" by blast
  from parts(3) ts i have "\<forall>u \<in> set (xs @ ys). i \<notin> set (task_pids u)" by (auto simp: pids_inv_def)
  then have "filter (\<lambda>t. i \<in> set (task_pids t)) xs = []" "filter (\<lambda>t. i \<in> set (task_pids t)) ys = []"
    by (simp_all add: filter_empty_conv)
  with ts i show "length (filter (\<lambda>t. i \<in> set (task_pids t)) (tasks w)) = 1" by simp
qed

theorem delivery_never_orphaned_witness:
  "\<exists>w p. reachable 2 w \<and> Claimed p \<in> set (tasks w)
     \<and> is_ok (lookup_definitions (s_definitions (shared w)) (p_credential_definitions p))"
proof -
  from run_claimed obtain hs tab where r: "reachable 2 \<lparr>shared = \<lparr>s_definitions = sample_catalog, s_holders = hs,
      s_requests = tab, s_issued = issued_default\<rparr>, tasks = [Claimed (admitted_process\<lparr>p_delivery_started := True\<rparr>)],
      drawn = {|''h'', ''p''|}\<rparr>" (is "reachable 2 ?w") by blast
  have "Claimed (admitted_process\<lparr>p_delivery_started := True\<rparr>) \<in> set (tasks ?w)" by simp
  with delivery_never_orphaned [OF r] r show ?thesis by fastforce
qed

text \<open>
  C2. Credentials and processes agree in every reachable world: the process an issued record names
  is delivered, or its delivery was accepted and is being closed - never waiting, rejected or errored;
  and a delivered process has an issued, hence revocable, record for each definition it asked for,
  except while an OID4VCI redemption is between its last two sections.
\<close>

theorem issued_iff_delivered:
  assumes "reachable cap w"
  shows "(\<forall>c r p. fmlookup (ic_records (s_issued (shared w))) c = Some r
        \<and> fmlookup (records (s_requests (shared w))) (c_process_id r) = Some p \<longrightarrow>
        p_state p = PDelivered \<or> p_state p = PApproved \<and> Closing p PDelivered None \<in> set (tasks w))
    \<and> (\<forall>i p x. fmlookup (records (s_requests (shared w))) i = Some p \<and> p_state p = PDelivered
        \<and> x \<in> set (p_credential_definitions p) \<longrightarrow>
        (\<exists>c r. fmlookup (ic_records (s_issued (shared w))) c = Some r \<and> c_process_id r = i \<and> c_definition_id r = x)
        \<or> (\<exists>dn hdid hid n. RedeemRecorded dn hdid hid n i \<in> set (tasks w) \<and> cd_id dn = x))"
proof (intro conjI allI impI)
  note parts = reachable_parts [OF assms]
  fix c r p assume a: "fmlookup (ic_records (s_issued (shared w))) c = Some r
        \<and> fmlookup (records (s_requests (shared w))) (c_process_id r) = Some p"
  with parts(6) have "p_state p = PDelivered \<or> Closing p PDelivered None \<in> set (tasks w)"
    unfolding records_inv_def by blast
  with parts(4) show "p_state p = PDelivered \<or> p_state p = PApproved \<and> Closing p PDelivered None \<in> set (tasks w)"
    by (fastforce simp: owned_def)
next
  note parts = reachable_parts [OF assms]
  fix i p x assume a: "fmlookup (records (s_requests (shared w))) i = Some p \<and> p_state p = PDelivered
        \<and> x \<in> set (p_credential_definitions p)"
  with parts(9) have "p_id p = i" by (simp add: rt_ok_def)
  moreover from parts(7) a have "covered (s_issued (shared w)) (tasks w) p" unfolding delivered_inv_def by blast
  ultimately show "(\<exists>c r. fmlookup (ic_records (s_issued (shared w))) c = Some r \<and> c_process_id r = i \<and> c_definition_id r = x)
        \<or> (\<exists>dn hdid hid n. RedeemRecorded dn hdid hid n i \<in> set (tasks w) \<and> cd_id dn = x)"
    using a unfolding covered_def by blast
qed

theorem issued_iff_delivered_witness:
  "\<exists>w r p. reachable 2 w \<and> fmlookup (ic_records (s_issued (shared w))) (credential_urn ''c'') = Some r
     \<and> fmlookup (records (s_requests (shared w))) (c_process_id r) = Some p \<and> p_state p = PDelivered
     \<and> (\<exists>c r. fmlookup (ic_records (s_issued (shared w))) c = Some r \<and> c_definition_id r = ''membership-credential'')"
proof -
  from run_closed obtain w q r where w: "reachable 2 w" "tasks w = [Ended ''p'']"
    "fmlookup (records (s_requests (shared w))) ''p'' = Some q" "p_state q = PDelivered"
    "p_credential_definitions q = [''membership-credential'']"
    "fmlookup (ic_records (s_issued (shared w))) (credential_urn ''c'') = Some r" "c_process_id r = ''p''" by blast
  from issued_iff_delivered [OF w(1)] w(2-5) have
    "\<exists>c r. fmlookup (ic_records (s_issued (shared w))) c = Some r \<and> c_definition_id r = ''membership-credential''"
    by fastforce
  moreover have "fmlookup (records (s_requests (shared w))) (c_process_id r) = Some q" using w(3,7) by simp
  ultimately show ?thesis using w(1,4,6) by blast
qed

text \<open>
  C3. Status-list indexes are never shared and never leak, whatever fails in between: in every
  reachable world two issued credentials have different indexes, a bit is set exactly for a revoked
  credential, and once no delivery or redemption is under way the indexes handed out and not free
  are exactly those of issued credentials.
\<close>

theorem status_indexes_accounted:
  assumes "reachable cap w"
  shows "(\<forall>i j r q. fmlookup (ic_records (s_issued (shared w))) i = Some r
        \<and> fmlookup (ic_records (s_issued (shared w))) j = Some q \<and> i \<noteq> j \<longrightarrow> c_index r \<noteq> c_index q)
    \<and> (\<forall>n. sl_bit (ic_list (s_issued (shared w))) n \<longleftrightarrow>
        (\<exists>i r. fmlookup (ic_records (s_issued (shared w))) i = Some r \<and> c_index r = n \<and> c_status r = RRevoked))
    \<and> (in_flight (tasks w) = [] \<longrightarrow> record_indexes (s_issued (shared w))
        = {..<next_index (ic_list (s_issued (shared w)))} - fset (free (ic_list (s_issued (shared w)))))"
proof -
  from reachable_parts(1) [OF assms]
  have ok: "issued_ok (s_issued (shared w)) (set (in_flight (tasks w)))" by (simp add: issued_inv_def)
  have "\<forall>i j r q. fmlookup (ic_records (s_issued (shared w))) i = Some r
        \<and> fmlookup (ic_records (s_issued (shared w))) j = Some q \<and> i \<noteq> j \<longrightarrow> c_index r \<noteq> c_index q"
    using ok unfolding issued_ok_def by blast
  moreover have "in_flight (tasks w) = [] \<Longrightarrow> record_indexes (s_issued (shared w))
        = {..<next_index (ic_list (s_issued (shared w)))} - fset (free (ic_list (s_issued (shared w))))"
    using issued_ok_partition [OF ok] by auto
  ultimately show ?thesis using issued_ok_bit [OF ok] by blast
qed

theorem status_indexes_accounted_witness:
  "\<exists>w. reachable 2 w \<and> in_flight (tasks w) = [] \<and> record_indexes (s_issued (shared w)) \<noteq> {}
     \<and> fset (free (ic_list (s_issued (shared w)))) \<subset> {..<next_index (ic_list (s_issued (shared w)))}"
proof -
  from run_closed obtain w q r where w: "reachable 2 w" "tasks w = [Ended ''p'']"
    "fmlookup (ic_records (s_issued (shared w))) (credential_urn ''c'') = Some r" by blast
  from record_indexesI [OF w(3)] have "record_indexes (s_issued (shared w)) \<noteq> {}" by blast
  moreover have "fset (free (ic_list (s_issued (shared w)))) \<subseteq> {..<next_index (ic_list (s_issued (shared w)))}"
    using reachable_parts(1) [OF w(1)] issued_ok_partition(1) unfolding issued_inv_def by blast
  ultimately show ?thesis using status_indexes_accounted [OF w(1)] w(1,2) by (intro exI [of _ w]) auto
qed

text \<open>
  C6. The issuer stays within its documented bounds in every reachable world: at most
  \<open>MAX_PENDING_PROCESSES\<close> processes wait for approval, at most \<open>MAX_PENDING_PROCESSES_PER_HOLDER\<close> of one
  holder, the process table holds no more records than the capacity it was created with, the catalog
  and the holder registry keep to theirs, and at most \<open>MAX_IN_FLIGHT_DELIVERIES\<close> deliveries are past
  the semaphore.
\<close>

theorem issuer_bounds:
  assumes "reachable cap w"
  shows "fcard (pending_ids (s_requests (shared w))) \<le> MAX_PENDING_PROCESSES
    \<and> (\<forall>h. fcard (pending_of (s_requests (shared w)) h) \<le> MAX_PENDING_PROCESSES_PER_HOLDER)
    \<and> rt_len (s_requests (shared w)) \<le> cap
    \<and> length (definitions (s_definitions (shared w))) \<le> MAX_CREDENTIAL_DEFINITIONS
    \<and> registry_len (s_holders (shared w)) \<le> MAX_HOLDERS
    \<and> permits_out (tasks w) \<le> MAX_IN_FLIGHT_DELIVERIES"
  using reachable_inv [OF assms] reachable_capacity [OF assms] permits_bounded [OF assms]
  by (auto simp: issuer_inv_def caps_inv_def pids_inv_def rt_ok_def catalog_ok_def registry_ok_def)

theorem issuer_bounds_witness:
  "\<exists>w. reachable 2 w \<and> rt_len (s_requests (shared w)) = 1 \<and> rt_len (s_requests (shared w)) \<le> 2
     \<and> permits_out (tasks w) = 1 \<and> permits_out (tasks w) \<le> MAX_IN_FLIGHT_DELIVERIES"
proof -
  from run_permitted obtain hs where r: "reachable 2 \<lparr>shared = \<lparr>s_definitions = sample_catalog, s_holders = hs,
      s_requests = \<lparr>records = fmupd ''p'' admitted_process fmempty, rt_order = [''p''], rt_capacity = 2\<rparr>,
      s_issued = issued_default\<rparr>, tasks = [Permitted ''p''], drawn = {|''h'', ''p''|}\<rparr>" (is "reachable 2 ?w") ..
  have "rt_len (s_requests (shared ?w)) = 1" "permits_out (tasks ?w) = 1" by (simp_all add: rt_len_def fcard_finsert_disjoint)
  with issuer_bounds [OF r] r show ?thesis by blast
qed

text \<open>
  C5. An approved process always finishes, whichever waiting delivery gets the next permit. From every
  reachable world the tasks alone can bring it to a terminal state. No task with sections left is
  stuck: it can run, or it waits on the semaphore with every permit out, and then a task that holds
  one can run. Tasks alone never run for ever; and when none can run any more, no process is left
  approved and every task has ended.
\<close>

theorem delivery_completes:
  assumes "reachable cap w" and p: "fmlookup (records (s_requests (shared w))) i = Some p" and "p_state p = PApproved"
  shows "(\<exists>w' q. (\<lambda>v v'. \<exists>k. task_move k v v')\<^sup>*\<^sup>* w w' \<and> fmlookup (records (s_requests (shared w'))) i = Some q
        \<and> is_terminal (p_state q))
    \<and> (\<forall>k < length (tasks w). task_rank (tasks w ! k) \<noteq> (0, 0) \<longrightarrow> (\<exists>w'. task_move k w w')
        \<or> (\<exists>pid. tasks w ! k = Queued pid) \<and> permits_out (tasks w) = MAX_IN_FLIGHT_DELIVERIES
          \<and> (\<exists>j w'. j < length (tasks w) \<and> holds_permit (tasks w ! j) \<and> task_move j w w'))
    \<and> \<not> (\<exists>f. f 0 = w \<and> (\<forall>n. \<exists>k. task_move k (f n) (f (Suc n))))
    \<and> (\<forall>w'. (\<lambda>v v'. \<exists>k. task_move k v v')\<^sup>*\<^sup>* w w' \<and> \<not> (\<exists>k w''. task_move k w' w'') \<longrightarrow>
        (\<forall>t \<in> set (tasks w'). task_rank t = (0, 0))
        \<and> (\<forall>j q. fmlookup (records (s_requests (shared w'))) j = Some q \<longrightarrow> p_state q \<noteq> PApproved))"
proof (intro conjI)
  from p assms(3) have "approved w i" by (simp add: approved_def)
  from delivery_terminates [OF assms(1) this]
  show "\<exists>w' q. (\<lambda>v v'. \<exists>k. task_move k v v')\<^sup>*\<^sup>* w w' \<and> fmlookup (records (s_requests (shared w'))) i = Some q
      \<and> is_terminal (p_state q)" unfolding finished_def by blast
  show "\<forall>k < length (tasks w). task_rank (tasks w ! k) \<noteq> (0, 0) \<longrightarrow> (\<exists>w'. task_move k w w')
        \<or> (\<exists>pid. tasks w ! k = Queued pid) \<and> permits_out (tasks w) = MAX_IN_FLIGHT_DELIVERIES
          \<and> (\<exists>j w'. j < length (tasks w) \<and> holds_permit (tasks w ! j) \<and> task_move j w w')"
    using no_deadlock [OF assms(1)] by blast
  show "\<forall>w'. (\<lambda>v v'. \<exists>k. task_move k v v')\<^sup>*\<^sup>* w w' \<and> \<not> (\<exists>k w''. task_move k w' w'') \<longrightarrow>
        (\<forall>t \<in> set (tasks w'). task_rank t = (0, 0))
        \<and> (\<forall>j q. fmlookup (records (s_requests (shared w'))) j = Some q \<longrightarrow> p_state q \<noteq> PApproved)"
    using at_rest [OF moves_reachable [OF _ assms(1)]] by blast
qed (rule task_moves_end)

theorem delivery_completes_witness:
  "\<exists>w w' p q. reachable 2 w \<and> fmlookup (records (s_requests (shared w))) ''p'' = Some p \<and> p_state p = PApproved
     \<and> step\<^sup>*\<^sup>* w w' \<and> fmlookup (records (s_requests (shared w'))) ''p'' = Some q \<and> is_terminal (p_state q)"
proof -
  from run_queued obtain hs where r: "reachable 2 \<lparr>shared = \<lparr>s_definitions = sample_catalog, s_holders = hs,
      s_requests = \<lparr>records = fmupd ''p'' admitted_process fmempty, rt_order = [''p''], rt_capacity = 2\<rparr>,
      s_issued = issued_default\<rparr>, tasks = [Queued ''p''], drawn = {|''h'', ''p''|}\<rparr>" (is "reachable 2 ?w") ..
  have p: "fmlookup (records (s_requests (shared ?w))) ''p'' = Some admitted_process" "p_state admitted_process = PApproved"
    by (simp_all add: admitted_process_def)
  from delivery_completes [OF r p, THEN conjunct1] obtain w' q where
    m: "(\<lambda>v v'. \<exists>k. task_move k v v')\<^sup>*\<^sup>* ?w w'"
    "fmlookup (records (s_requests (shared w'))) ''p'' = Some q" "is_terminal (p_state q)" by (elim exE conjE)
  show ?thesis
    by (intro exI conjI; (rule r p moves_steps [OF m(1)] m(2,3))?)
qed

end
