(* ===== verification/Admin.thy ===== *)
theory Admin
  imports Query_Spec Service Issuance_Safety
begin

text \<open>
  The Issuer Admin API (admin.rs): the bearer-token gate in front of every request, the participant
  context of the path, and one handler per endpoint on the issuer's shared state. A handler is one
  step: it answers, may change the state, and may spawn deliveries; \<open>None\<close> is a panic. Body parsing,
  base64 and the percent decoding of path segments are parameters, as is the text axum gives a path it
  cannot decode.
\<close>

section \<open>Third-party code\<close>

record holder_registration =
  reg_holder_id :: "string option"
  reg_holder_did :: string
  reg_name :: "string option"
  reg_properties :: "(string \<times> json) list option"

record holder_update =
  upd_holder_id :: string
  upd_name :: "string option"
  upd_properties :: "(string \<times> json) list option"

datatype base64_engine = STANDARD | URL_SAFE | STANDARD_NO_PAD | URL_SAFE_NO_PAD

record admin_codec =
  parse_query :: "string \<Rightarrow> (query_spec, string) result"
  parse_definition :: "string \<Rightarrow> (credential_definition_input, string) result"
  parse_registration :: "string \<Rightarrow> (holder_registration, string) result"
  parse_update :: "string \<Rightarrow> (holder_update, string) result"
  base64_decode :: "base64_engine \<Rightarrow> string \<Rightarrow> string option"
  percent_decode :: "string \<Rightarrow> string option"
  path_rejection :: "string list \<Rightarrow> string"
  number_format :: numbers

section \<open>Records as JSON\<close>

abbreviation jnat :: "nat \<Rightarrow> json" where
  "jnat n \<equiv> JNum (PosInt n)"

definition definition_json :: "credential_definition \<Rightarrow> json" where
  "definition_json d = json_obj
     [(''id'', JStr (cd_id d)), (''credentialType'', JStr (cd_credential_type d)),
      (''format'', JStr (cd_format d)), (''validity'', jnat (cd_validity d)),
      (''jsonSchemaUrl'', opt_json JStr (cd_json_schema_url d)),
      (''jsonSchema'', opt_json id (cd_json_schema d)),
      (''mappings'', JArr (cd_mappings d)), (''rules'', JArr (cd_rules d)),
      (''attestations'', JArr (cd_attestations d)), (''createdAt'', jnat (cd_created_at d))]"

fun holder_status_str :: "holder_status \<Rightarrow> string" where
  "holder_status_str Pending = ''pending''"
| "holder_status_str Approved = ''approved''"
| "holder_status_str Rejected = ''rejected''"

definition holder_json :: "holder \<Rightarrow> json" where
  "holder_json h = json_obj
     [(''holderId'', JStr (holder_id h)), (''did'', JStr (did h)), (''name'', opt_json JStr (name h)),
      (''properties'', JObj (properties h)), (''status'', JStr (holder_status_str (status h))),
      (''createdAt'', jnat (created_at h))]"

fun process_state_str :: "process_state \<Rightarrow> string" where
  "process_state_str PSubmitted = ''SUBMITTED''"
| "process_state_str PApproved = ''APPROVED''"
| "process_state_str PDelivered = ''DELIVERED''"
| "process_state_str PErrored = ''ERRORED''"
| "process_state_str PRejected = ''REJECTED''"

text \<open>The delivery bearer and the started flag are not serialized.\<close>

definition process_json :: "issuance_process \<Rightarrow> json" where
  "process_json p = json_obj
     [(''id'', JStr (p_id p)), (''state'', JStr (process_state_str (p_state p))),
      (''holderId'', JStr (p_holder_id p)), (''holderDid'', JStr (p_holder_did p)),
      (''holderPid'', JStr (p_holder_pid p)),
      (''credentialDefinitions'', JArr (map JStr (p_credential_definitions p))),
      (''errorDetail'', opt_json JStr (p_error_detail p)),
      (''createdAt'', jnat (p_created_at p)), (''stateTimestamp'', jnat (p_state_timestamp p))]"

fun record_status_str :: "record_status \<Rightarrow> string" where
  "record_status_str RActive = ''active''"
| "record_status_str RRevoked = ''revoked''"

definition issued_json :: "issued_credential \<Rightarrow> json" where
  "issued_json c = json_obj
     [(''id'', JStr (c_id c)), (''credentialType'', JStr (c_type c)),
      (''credentialDefinitionId'', JStr (c_definition_id c)), (''holderId'', JStr (c_holder_id c)),
      (''holderDid'', JStr (c_holder_did c)), (''issuanceProcessId'', JStr (c_process_id c)),
      (''format'', JStr (c_format c)), (''issuedAt'', jnat (c_issued_at c)),
      (''expiresAt'', jnat (c_expires_at c)), (''status'', JStr (record_status_str (c_status c))),
      (''statusListIndex'', jnat (c_index c))]"

section \<open>Answers\<close>

definition admin_error :: "nat \<Rightarrow> string \<Rightarrow> response" where
  "admin_error st m = resp_json st (json_obj [(''error'', JStr m)])"

fun issuer_error_response :: "issuer_error \<Rightarrow> response" where
  "issuer_error_response (Invalid m) = admin_error 400 m"
| "issuer_error_response (NotFound m) = admin_error 404 m"
| "issuer_error_response (Conflict m) = admin_error 409 m"
| "issuer_error_response (Full m) = admin_error 503 m"

definition parse_body :: "(string \<Rightarrow> ('a, string) result) \<Rightarrow> string \<Rightarrow> ('a, issuer_error) result" where
  "parse_body parse body = map_err (\<lambda>e. Invalid (''invalid request body: '' @ e)) (parse body)"

definition is_ascii_whitespace :: "char \<Rightarrow> bool" where
  "is_ascii_whitespace c \<longleftrightarrow> byte c \<in> {9, 10, 12, 13, 32}"

definition run_query :: "admin_codec \<Rightarrow> string \<Rightarrow> json list \<Rightarrow> response" where
  "run_query C body items =
     (case (if list_all is_ascii_whitespace body then Ok query_default else parse_body (parse_query C) body) of
        Inl e \<Rightarrow> issuer_error_response e
      | Inr q \<Rightarrow> (case query_apply (number_format C) q items of
          Inr page \<Rightarrow> resp_json 200 (JArr page)
        | Inl m \<Rightarrow> admin_error 400 m))"

section \<open>The gate\<close>

definition bearer_token :: "string \<Rightarrow> string option" where
  "bearer_token v =
     (case split_once v '' '' of
        None \<Rightarrow> None
      | Some (auth_scheme, token) \<Rightarrow>
          if eq_ignore_ascii_case auth_scheme ''bearer''
          then Some (dropWhile (\<lambda>c. c = CHR '' '') token) else None)"

text \<open>\<open>None\<close> lets the request through.\<close>

definition require_admin_token :: "config \<Rightarrow> string option \<Rightarrow> response option" where
  "require_admin_token c hdr =
     (case admin_token c of
        None \<Rightarrow> Some (admin_error 401 ''admin API is disabled'')
      | Some expected \<Rightarrow>
          if expected = [] then Some (admin_error 401 ''admin API is disabled'')
          else case Option.bind hdr bearer_token of
            Some token \<Rightarrow>
              if constant_time_eq (map byte_word token) (map byte_word expected) then None
              else Some (admin_error 401 ''invalid admin token'')
          | None \<Rightarrow> Some (admin_error 401 ''missing admin bearer token''))"

text \<open>\<open>String::from_utf8\<close> accepts exactly the well-formed byte sequences of Unicode.\<close>

definition utf8_second :: "nat \<Rightarrow> nat \<Rightarrow> bool" where
  "utf8_second lead b \<longleftrightarrow>
     (if lead = 224 then 160 \<le> b \<and> b \<le> 191 else if lead = 237 then 128 \<le> b \<and> b \<le> 159
      else if lead = 240 then 144 \<le> b \<and> b \<le> 191 else if lead = 244 then 128 \<le> b \<and> b \<le> 143
      else 128 \<le> b \<and> b \<le> 191)"

fun utf8_valid :: "string \<Rightarrow> bool" where
  "utf8_valid [] = True"
| "utf8_valid (c # cs) =
     (byte c < 128 \<and> utf8_valid cs
      \<or> 194 \<le> byte c \<and> byte c \<le> 244
        \<and> length (take (utf8_tail_len c) cs) = utf8_tail_len c
        \<and> utf8_second (byte c) (byte (hd cs))
        \<and> list_all (\<lambda>d. 128 \<le> byte d \<and> byte d \<le> 191) (take (utf8_tail_len c) cs)
        \<and> utf8_valid (drop (utf8_tail_len c) cs))"

definition decode_participant_context :: "admin_codec \<Rightarrow> string \<Rightarrow> string option" where
  "decode_participant_context C encoded =
     (case List.find (\<lambda>b. b \<noteq> None)
             (map (\<lambda>e. base64_decode C e encoded) [STANDARD, URL_SAFE, STANDARD_NO_PAD, URL_SAFE_NO_PAD]) of
        Some (Some bytes) \<Rightarrow> if utf8_valid bytes then Some bytes else None
      | _ \<Rightarrow> None)"

definition check_participant_context :: "admin_codec \<Rightarrow> config \<Rightarrow> string \<Rightarrow> response option" where
  "check_participant_context C c pc =
     (if decode_participant_context C pc = Some (participant_context_id c) then None
      else Some (admin_error 404 ''unknown participant context''))"

section \<open>Handlers\<close>

type_synonym admin_result = "(response \<times> issuer_state \<times> string fset) option"

text \<open>A handler that answers without changing anything, and one that changes the state.\<close>

definition unchanged :: "response \<Rightarrow> issuer_state \<Rightarrow> admin_result" where
  "unchanged r s = Some (r, s, {||})"

definition changed :: "response \<Rightarrow> issuer_state \<Rightarrow> admin_result" where
  "changed r s' = Some (r, s', {||})"

definition participant :: "'k app \<Rightarrow> response" where
  "participant a = resp_json 200 (json_obj
     [(''participantContextId'', JStr (participant_context_id (a_config a))),
      (''did'', JStr (own_did (a_identity a))), (''state'', JStr ''ACTIVATED'')])"

definition create_definition :: "admin_codec \<Rightarrow> string \<Rightarrow> u64 \<Rightarrow> issuer_state \<Rightarrow> admin_result" where
  "create_definition C body now s =
     (case parse_body (parse_definition C) body of
        Inl e \<Rightarrow> unchanged (issuer_error_response e) s
      | Inr inp \<Rightarrow> (case into_definition inp now of
          Inl e \<Rightarrow> unchanged (issuer_error_response e) s
        | Inr d \<Rightarrow> (case catalog_create d (s_definitions s) of
            Inl e \<Rightarrow> unchanged (issuer_error_response e) s
          | Inr c \<Rightarrow> changed (resp_json 201 (definition_json d)) (s\<lparr>s_definitions := c\<rparr>))))"

definition update_definition :: "admin_codec \<Rightarrow> string \<Rightarrow> u64 \<Rightarrow> issuer_state \<Rightarrow> admin_result" where
  "update_definition C body now s =
     (case parse_body (parse_definition C) body of
        Inl e \<Rightarrow> unchanged (issuer_error_response e) s
      | Inr inp \<Rightarrow> (case into_definition inp now of
          Inl e \<Rightarrow> unchanged (issuer_error_response e) s
        | Inr d \<Rightarrow> (case catalog_update d (s_definitions s) of
            Inl e \<Rightarrow> unchanged (issuer_error_response e) s
          | Inr (updated, c) \<Rightarrow> changed (resp_json 200 (definition_json updated)) (s\<lparr>s_definitions := c\<rparr>))))"

definition get_definition :: "string \<Rightarrow> issuer_state \<Rightarrow> response" where
  "get_definition i s =
     (case catalog_get (s_definitions s) i of
        Some d \<Rightarrow> resp_json 200 (definition_json d)
      | None \<Rightarrow> admin_error 404 (''no credential definition '' @ quoted i))"

definition query_definitions :: "admin_codec \<Rightarrow> string \<Rightarrow> issuer_state \<Rightarrow> response" where
  "query_definitions C body s = run_query C body (map definition_json (definitions (s_definitions s)))"

definition register_holder :: "admin_codec \<Rightarrow> string \<Rightarrow> string \<Rightarrow> u64 \<Rightarrow> issuer_state \<Rightarrow> admin_result" where
  "register_holder C body uuid now s =
     (case parse_body (parse_registration C) body of
        Inl e \<Rightarrow> unchanged (issuer_error_response e) s
      | Inr reg \<Rightarrow>
          if \<not> starts_with (reg_holder_did reg) ''did:''
          then unchanged (admin_error 400 ''did must be a DID (did:...)'') s
          else if (case reg_holder_id reg of None \<Rightarrow> False | Some i \<Rightarrow> trim i = [])
          then unchanged (admin_error 400 ''holderId must not be empty'') s
          else
            let h = \<lparr>holder_id = unwrap_or (reg_holder_id reg) uuid, did = reg_holder_did reg,
                     name = reg_name reg, properties = unwrap_or (reg_properties reg) [],
                     status = Approved, created_at = now\<rparr>
            in case registry_insert h (s_holders s) of
                 Inl e \<Rightarrow> unchanged (issuer_error_response e) s
               | Inr (h', hs) \<Rightarrow> changed (resp_json 201 (holder_json h')) (s\<lparr>s_holders := hs\<rparr>))"

definition update_fields :: "holder_update \<Rightarrow> holder \<Rightarrow> holder" where
  "update_fields u h =
     (let h1 = (if upd_name u \<noteq> None then h\<lparr>name := upd_name u\<rparr> else h)
      in case upd_properties u of None \<Rightarrow> h1 | Some ps \<Rightarrow> h1\<lparr>properties := ps\<rparr>)"

definition update_holder :: "admin_codec \<Rightarrow> string \<Rightarrow> issuer_state \<Rightarrow> admin_result" where
  "update_holder C body s =
     (case parse_body (parse_update C) body of
        Inl e \<Rightarrow> unchanged (issuer_error_response e) s
      | Inr u \<Rightarrow> (case registry_get (s_holders s) (upd_holder_id u) of
          None \<Rightarrow> unchanged (admin_error 404 (''no holder '' @ quoted (upd_holder_id u))) s
        | Some h \<Rightarrow> changed (resp_json 200 (holder_json (update_fields u h)))
            (s\<lparr>s_holders := registry_modify (upd_holder_id u) (update_fields u) (s_holders s)\<rparr>)))"

definition get_holder :: "string \<Rightarrow> issuer_state \<Rightarrow> response" where
  "get_holder i s =
     (case registry_get (s_holders s) i of
        Some h \<Rightarrow> resp_json 200 (holder_json h)
      | None \<Rightarrow> admin_error 404 (''no holder '' @ quoted i))"

definition query_holders :: "admin_codec \<Rightarrow> string \<Rightarrow> issuer_state \<Rightarrow> response" where
  "query_holders C body s = run_query C body (map holder_json (registry_all (s_holders s)))"

definition approve_holder :: "string \<Rightarrow> u64 \<Rightarrow> issuer_state \<Rightarrow> admin_result" where
  "approve_holder i now s =
     (case decide_holder i Approved PApproved now s of
        (Inr (h, moved), s') \<Rightarrow> Some (resp_json 200 (holder_json h), s', moved)
      | (Inl e, s') \<Rightarrow> unchanged (issuer_error_response e) s')"

definition reject_holder :: "string \<Rightarrow> u64 \<Rightarrow> issuer_state \<Rightarrow> admin_result" where
  "reject_holder i now s =
     (case decide_holder i Rejected PRejected now s of
        (Inr (h, moved), s') \<Rightarrow> changed (resp_json 200 (holder_json h)) s'
      | (Inl e, s') \<Rightarrow> unchanged (issuer_error_response e) s')"

definition get_process :: "string \<Rightarrow> issuer_state \<Rightarrow> response" where
  "get_process i s =
     (case rt_get (s_requests s) i of
        Some p \<Rightarrow> resp_json 200 (process_json p)
      | None \<Rightarrow> admin_error 404 (''no issuance process '' @ quoted i))"

definition query_processes :: "admin_codec \<Rightarrow> string \<Rightarrow> issuer_state \<Rightarrow> response" where
  "query_processes C body s = run_query C body (map process_json (rt_iter (s_requests s)))"

definition query_credentials :: "admin_codec \<Rightarrow> string \<Rightarrow> issuer_state \<Rightarrow> response" where
  "query_credentials C body s = run_query C body (map issued_json (issued_all (s_issued s)))"

definition credential_status :: "string \<Rightarrow> issuer_state \<Rightarrow> response" where
  "credential_status i s =
     (case issued_get (s_issued s) i of
        Some c \<Rightarrow> resp_json 200 (json_obj [(''status'', JStr (record_status_str (c_status c)))])
      | None \<Rightarrow> admin_error 404 (''no issued credential '' @ quoted i))"

definition revoke_credential :: "string \<Rightarrow> issuer_state \<Rightarrow> admin_result" where
  "revoke_credential i s =
     (case issued_revoke i (s_issued s) of
        None \<Rightarrow> None
      | Some (Some c, ic) \<Rightarrow> changed (resp_json 200 (issued_json c)) (s\<lparr>s_issued := ic\<rparr>)
      | Some (None, ic) \<Rightarrow> changed (admin_error 404 (''no issued credential '' @ quoted i)) (s\<lparr>s_issued := ic\<rparr>))"

section \<open>Routing\<close>

datatype endpoint =
    Participant
  | CreateDefinition | UpdateDefinition | QueryDefinitions | GetDefinition string | DeleteDefinition string
  | RegisterHolder | UpdateHolder | QueryHolders | GetHolder string | ApproveHolder string | RejectHolder string
  | QueryProcesses | GetProcess string
  | QueryCredentials | CredentialStatus string | RevokeCredential string

datatype routed = Matched string endpoint | NoRoute | NoMethod

definition by_method :: "string \<Rightarrow> string \<Rightarrow> (string \<times> endpoint) list \<Rightarrow> routed" where
  "by_method m pc eps =
     (case map_of eps (if m = ''HEAD'' then ''GET'' else m) of None \<Rightarrow> NoMethod | Some e \<Rightarrow> Matched pc e)"

text \<open>
  The route table. A path is the list of its segments; a literal segment wins over a captured one,
  a captured segment is not empty, and \<open>HEAD\<close> is served by the handler of \<open>GET\<close>.
\<close>

definition admin_resource :: "string \<Rightarrow> string \<Rightarrow> string list \<Rightarrow> routed" where
  "admin_resource m pc rest =
     (case rest of
        [] \<Rightarrow> by_method m pc [(''GET'', Participant)]
      | [c] \<Rightarrow>
          if c = ''credentialdefinitions'' then by_method m pc [(''POST'', CreateDefinition), (''PUT'', UpdateDefinition)]
          else if c = ''holders'' then by_method m pc [(''POST'', RegisterHolder), (''PUT'', UpdateHolder)]
          else NoRoute
      | [c, i] \<Rightarrow>
          if i = [] then NoRoute
          else if c = ''credentialdefinitions'' then
            (if i = ''query'' then by_method m pc [(''POST'', QueryDefinitions)]
             else by_method m pc [(''GET'', GetDefinition i), (''DELETE'', DeleteDefinition i)])
          else if c = ''holders'' then
            (if i = ''query'' then by_method m pc [(''POST'', QueryHolders)] else by_method m pc [(''GET'', GetHolder i)])
          else if c = ''issuanceprocesses'' then
            (if i = ''query'' then by_method m pc [(''POST'', QueryProcesses)] else by_method m pc [(''GET'', GetProcess i)])
          else if c = ''credentials'' \<and> i = ''query'' then by_method m pc [(''POST'', QueryCredentials)]
          else NoRoute
      | [c, i, act] \<Rightarrow>
          if i = [] then NoRoute
          else if c = ''holders'' \<and> act = ''approve'' then by_method m pc [(''POST'', ApproveHolder i)]
          else if c = ''holders'' \<and> act = ''reject'' then by_method m pc [(''POST'', RejectHolder i)]
          else if c = ''credentials'' \<and> act = ''status'' then by_method m pc [(''GET'', CredentialStatus i)]
          else if c = ''credentials'' \<and> act = ''revoke'' then by_method m pc [(''POST'', RevokeCredential i)]
          else NoRoute
      | _ \<Rightarrow> NoRoute)"

definition admin_route :: "string \<Rightarrow> string list \<Rightarrow> routed" where
  "admin_route m segments =
     (case segments of
        v # ps # pc # rest \<Rightarrow>
          if v = ''v1alpha'' \<and> ps = ''participants'' \<and> pc \<noteq> [] then admin_resource m pc rest else NoRoute
      | _ \<Rightarrow> NoRoute)"

text \<open>The captured segments of a route, percent-decoded; one that cannot be decoded refuses the path.\<close>

fun decode_endpoint :: "(string \<Rightarrow> string option) \<Rightarrow> endpoint \<Rightarrow> endpoint option" where
  "decode_endpoint dec (GetDefinition i) = map_option GetDefinition (dec i)"
| "decode_endpoint dec (DeleteDefinition i) = map_option DeleteDefinition (dec i)"
| "decode_endpoint dec (GetHolder i) = map_option GetHolder (dec i)"
| "decode_endpoint dec (ApproveHolder i) = map_option ApproveHolder (dec i)"
| "decode_endpoint dec (RejectHolder i) = map_option RejectHolder (dec i)"
| "decode_endpoint dec (GetProcess i) = map_option GetProcess (dec i)"
| "decode_endpoint dec (CredentialStatus i) = map_option CredentialStatus (dec i)"
| "decode_endpoint dec (RevokeCredential i) = map_option RevokeCredential (dec i)"
| "decode_endpoint dec e = Some e"

fun admin_handler ::
    "admin_codec \<Rightarrow> 'k app \<Rightarrow> string \<Rightarrow> string \<Rightarrow> u64 \<Rightarrow> endpoint \<Rightarrow> issuer_state \<Rightarrow> admin_result" where
  "admin_handler C a body uuid now Participant s = unchanged (participant a) s"
| "admin_handler C a body uuid now CreateDefinition s = create_definition C body now s"
| "admin_handler C a body uuid now UpdateDefinition s = update_definition C body now s"
| "admin_handler C a body uuid now QueryDefinitions s = unchanged (query_definitions C body s) s"
| "admin_handler C a body uuid now (GetDefinition i) s = unchanged (get_definition i s) s"
| "admin_handler C a body uuid now (DeleteDefinition i) s = (case delete_definition i s of (r, s') \<Rightarrow> changed r s')"
| "admin_handler C a body uuid now RegisterHolder s = register_holder C body uuid now s"
| "admin_handler C a body uuid now UpdateHolder s = update_holder C body s"
| "admin_handler C a body uuid now QueryHolders s = unchanged (query_holders C body s) s"
| "admin_handler C a body uuid now (GetHolder i) s = unchanged (get_holder i s) s"
| "admin_handler C a body uuid now (ApproveHolder i) s = approve_holder i now s"
| "admin_handler C a body uuid now (RejectHolder i) s = reject_holder i now s"
| "admin_handler C a body uuid now QueryProcesses s = unchanged (query_processes C body s) s"
| "admin_handler C a body uuid now (GetProcess i) s = unchanged (get_process i s) s"
| "admin_handler C a body uuid now QueryCredentials s = unchanged (query_credentials C body s) s"
| "admin_handler C a body uuid now (CredentialStatus i) s = unchanged (credential_status i s) s"
| "admin_handler C a body uuid now (RevokeCredential i) s = revoke_credential i s"

record admin_request =
  req_method :: string
  req_path :: "string list"
  req_authorization :: "string option"
  req_body :: string

text \<open>The router: the token first, then the route, then the participant context, then the handler.\<close>

definition admin_router ::
    "admin_codec \<Rightarrow> 'k app \<Rightarrow> admin_request \<Rightarrow> string \<Rightarrow> u64 \<Rightarrow> issuer_state \<Rightarrow> admin_result" where
  "admin_router C a req uuid now s =
     (case require_admin_token (a_config a) (req_authorization req) of
        Some r \<Rightarrow> unchanged r s
      | None \<Rightarrow> (case admin_route (req_method req) (req_path req) of
          NoRoute \<Rightarrow> unchanged (admin_error 404 ''no such admin endpoint'') s
        | NoMethod \<Rightarrow> unchanged (admin_error 405 ''method not allowed on this admin endpoint'') s
        | Matched pc e \<Rightarrow> (case (percent_decode C pc, decode_endpoint (percent_decode C) e) of
            (Some pc', Some e') \<Rightarrow> (case check_participant_context C (a_config a) pc' of
              Some r \<Rightarrow> unchanged r s
            | None \<Rightarrow> admin_handler C a (req_body req) uuid now e' s)
          | _ \<Rightarrow> unchanged (admin_error 400 (path_rejection C (req_path req))) s)))"

text \<open>Whether there is an admin router at all.\<close>

definition build_admin :: "'k app \<Rightarrow> bool" where
  "build_admin a \<longleftrightarrow> cfg_mode (a_config a) = IssuerService
     \<and> (case admin_token (a_config a) of None \<Rightarrow> False | Some t \<Rightarrow> t \<noteq> [])"

section \<open>Handlers as steps of the issuer\<close>

text \<open>serde reads a \<open>validity\<close> as an \<open>i64\<close>.\<close>

definition parses_i64 :: "admin_codec \<Rightarrow> bool" where
  "parses_i64 C \<longleftrightarrow> (\<forall>body inp. parse_definition C body = Ok inp \<longrightarrow> input_in_range inp)"

text \<open>A run that fails changes nothing; one that succeeds is a section of the issuer's state machine.\<close>

definition issuer_run :: "string set \<Rightarrow> string fset \<Rightarrow> issuer_state \<Rightarrow> admin_result \<Rightarrow> bool" where
  "issuer_run ids d s run \<longleftrightarrow>
     (\<exists>r s' spawned. run = Some (r, s', spawned)
        \<and> (s' = s \<and> spawned = {||}
           \<or> is_success (r_status r)
             \<and> (\<exists>d' pids. distinct pids \<and> set pids = fset spawned \<and> env_step s d s' d' (map Queued pids)
                  \<and> fset d' \<subseteq> fset d \<union> ids)))"

text \<open>The id under which a registration enters its holder.\<close>

definition registered_ids :: "admin_codec \<Rightarrow> string \<Rightarrow> string \<Rightarrow> string set" where
  "registered_ids C body uuid =
     (case parse_registration C body of Inl e \<Rightarrow> {} | Inr reg \<Rightarrow> {unwrap_or (reg_holder_id reg) uuid})"

lemma issuer_run_unchanged [simp]: "issuer_run ids d s (unchanged r s)"
  by (simp add: issuer_run_def unchanged_def)

lemma issuer_runI:
  "env_step s d s' d' (map Queued pids) \<Longrightarrow> is_success (r_status r) \<Longrightarrow> distinct pids
   \<Longrightarrow> set pids = fset spawned \<Longrightarrow> fset d' \<subseteq> fset d \<union> ids \<Longrightarrow> issuer_run ids d s (Some (r, s', spawned))"
  unfolding issuer_run_def by (intro exI conjI disjI2) (rule refl | assumption)+

lemma issuer_run_changed:
  "env_step s d s' d' [] \<Longrightarrow> is_success (r_status r) \<Longrightarrow> fset d' \<subseteq> fset d \<union> ids \<Longrightarrow> issuer_run ids d s (changed r s')"
  unfolding changed_def by (rule issuer_runI [of s d s' d' "[]"]) simp_all

lemma issuer_runE:
  assumes "issuer_run ids d s run"
  obtains (same) r where "run = Some (r, s, {||})"
  | (changes) r s' spawned d' pids where "run = Some (r, s', spawned)" "is_success (r_status r)" "distinct pids"
      "set pids = fset spawned" "env_step s d s' d' (map Queued pids)" "fset d' \<subseteq> fset d \<union> ids"
  using assms unfolding issuer_run_def
  by (elim exE conjE disjE) (simp add: same, rule changes, assumption+)

lemma create_definition_run:
  assumes "parses_i64 C"
  shows "issuer_run ids d s (create_definition C body now s)"
  using assms unfolding create_definition_def parse_body_def
  by (auto simp: parses_i64_def is_success_def split: sum.splits intro!: issuer_run_changed dest!: map_err_Ok [THEN iffD1]
      intro: env_step.create)

lemma update_definition_run:
  assumes "parses_i64 C"
  shows "issuer_run ids d s (update_definition C body now s)"
  using assms unfolding update_definition_def parse_body_def
  by (auto simp: parses_i64_def is_success_def split: sum.splits prod.splits intro!: issuer_run_changed
      intro: env_step.update)

lemma register_holder_run: "issuer_run (registered_ids C body uuid) d s (register_holder C body uuid now s)"
  unfolding register_holder_def parse_body_def
  by (auto simp: Let_def is_success_def registered_ids_def split: sum.splits prod.splits intro!: issuer_run_changed
      intro: env_step.register)

lemma update_fields_keeps [simp]:
  "holder_id (update_fields u h) = holder_id h" "did (update_fields u h) = did h"
  "status (update_fields u h) = status h"
  by (simp_all add: update_fields_def Let_def split: option.splits)

lemma update_holder_run: "issuer_run ids d s (update_holder C body s)"
  unfolding update_holder_def
  by (auto simp: is_success_def split: sum.splits option.splits intro!: issuer_run_changed env_step.rename)

lemma delete_definition_run: "issuer_run ids d s (case delete_definition i s of (r, s') \<Rightarrow> changed r s')"
proof -
  obtain r s' where del: "delete_definition i s = (r, s')" by fastforce
  show ?thesis
  proof (cases "s' = s")
    case True
    then show ?thesis by (simp add: del issuer_run_def changed_def)
  next
    case False
    then have "r_status r = 204" using del by (auto simp: delete_definition_def split: if_splits)
    then show ?thesis using issuer_run_changed [OF env_step.delete [OF del], of r d]
      by (simp add: del is_success_def)
  qed
qed

lemma decide_holder_Err: "decide_holder i st next now s = (Inl e, s') \<Longrightarrow> s' = s"
  by (auto simp: decide_holder_def split: option.splits)

lemma approve_holder_run: "issuer_run ids d s (approve_holder i now s)"
proof (cases "decide_holder i Approved PApproved now s")
  case (Pair res s')
  show ?thesis
  proof (cases res)
    case (Inl e)
    with Pair decide_holder_Err [of i Approved PApproved now s e s'] show ?thesis
      by (simp add: approve_holder_def)
  next
    case (Inr hm)
    obtain h moved where hm: "hm = (h, moved)" by fastforce
    obtain pids where pids: "distinct pids" "set pids = fset moved"
      using finite_distinct_list [OF finite_fset [of moved]] by auto
    then have "env_step s d s' d (map Queued pids)"
      using env_step.approve [of i now s h moved s' pids d] Pair Inr hm by simp
    from issuer_runI [OF this _ pids] show ?thesis
      by (simp add: approve_holder_def Pair Inr hm is_success_def)
  qed
qed

lemma reject_holder_run: "issuer_run ids d s (reject_holder i now s)"
proof (cases "decide_holder i Rejected PRejected now s")
  case (Pair res s')
  show ?thesis
  proof (cases res)
    case (Inl e)
    with Pair decide_holder_Err [of i Rejected PRejected now s e s'] show ?thesis
      by (simp add: reject_holder_def)
  next
    case (Inr hm)
    obtain h moved where "hm = (h, moved)" by fastforce
    with Pair Inr show ?thesis
      by (simp add: reject_holder_def is_success_def issuer_run_changed [OF env_step.reject])
  qed
qed

lemma revoke_credential_run:
  assumes "issued_ok (s_issued s) F"
  shows "issuer_run ids d s (revoke_credential i s)"
proof -
  obtain r ic where rev: "issued_revoke i (s_issued s) = Some (r, ic)"
    using issued_revoke_ok [OF assms, of i] by blast
  show ?thesis
  proof (cases r)
    case None
    then have "ic = s_issued s" using rev by (auto simp: issued_revoke_def Let_def split: option.splits)
    then show ?thesis by (simp add: revoke_credential_def rev None issuer_run_def changed_def)
  next
    case (Some c)
    then show ?thesis using issuer_run_changed [OF env_step.revoke [OF rev], of "resp_json 200 (issued_json c)" d]
      by (simp add: revoke_credential_def rev is_success_def)
  qed
qed

lemmas handler_runs = register_holder_run update_holder_run delete_definition_run approve_holder_run
  reject_holder_run

lemma admin_handler_run:
  assumes "parses_i64 C" "issued_ok (s_issued s) F"
  shows "issuer_run (registered_ids C body uuid) d s (admin_handler C a body uuid now e s)"
  using assms by (cases e) (simp_all only: admin_handler.simps issuer_run_unchanged handler_runs
      create_definition_run update_definition_run revoke_credential_run)

lemma admin_router_run:
  assumes "parses_i64 C" "issued_ok (s_issued s) F"
  shows "issuer_run (registered_ids C (req_body req) uuid) d s (admin_router C a req uuid now s)"
  unfolding admin_router_def
  by (simp add: admin_handler_run [OF assms] split: option.splits routed.splits)


section \<open>The gate\<close>

lemma split_once_space_Cons:
  "split_once (c # v) '' '' = (if c = CHR '' '' then Some ([], v) else map_option (apfst (Cons c)) (split_once v '' ''))"
  by (auto simp: split_once_def starts_with_def split: option.splits)

lemma split_once_space: "split_once v '' '' = Some (a, b) \<Longrightarrow> v = a @ CHR '' '' # b"
proof (induction v arbitrary: a)
  case Nil
  then show ?case by (simp add: split_once_def)
next
  case (Cons c v)
  then show ?case by (auto simp: split_once_space_Cons split: if_splits)
qed

lemma dropWhile_replicate: "\<exists>n. xs = replicate n c @ dropWhile (\<lambda>x. x = c) xs"
proof (induction xs)
  case (Cons x xs)
  then obtain n where "xs = replicate n c @ dropWhile (\<lambda>x. x = c) xs" ..
  then have "x = c \<Longrightarrow> x # xs = replicate (Suc n) c @ dropWhile (\<lambda>x. x = c) (x # xs)" by simp
  moreover have "x \<noteq> c \<Longrightarrow> x # xs = replicate 0 c @ dropWhile (\<lambda>x. x = c) (x # xs)" by simp
  ultimately show ?case by blast
qed simp

text \<open>The credentials of a bearer header: the scheme in any case, then spaces, then the token.\<close>

definition bearer_header :: "string \<Rightarrow> string \<Rightarrow> bool" where
  "bearer_header t v \<longleftrightarrow>
     (\<exists>sch n. v = sch @ replicate (Suc n) (CHR '' '') @ t \<and> eq_ignore_ascii_case sch ''bearer'')"

lemma bearer_token_Some:
  assumes "bearer_token v = Some t"
  shows "bearer_header t v"
proof -
  obtain sch rest where s: "split_once v '' '' = Some (sch, rest)" "eq_ignore_ascii_case sch ''bearer''"
    "t = dropWhile (\<lambda>c. c = CHR '' '') rest"
    using assms by (auto simp: bearer_token_def split: option.splits if_splits prod.splits)
  obtain n where "rest = replicate n (CHR '' '') @ t"
    using dropWhile_replicate [of rest "CHR '' ''"] s(3) by auto
  with split_once_space [OF s(1)] s(2) show ?thesis
    unfolding bearer_header_def by (intro exI [of _ sch] exI [of _ n]) simp
qed

lemma require_admin_token_None:
  "require_admin_token c hdr = None \<Longrightarrow>
     \<exists>t v. admin_token c = Some t \<and> t \<noteq> [] \<and> hdr = Some v \<and> bearer_header t v"
  by (auto simp: require_admin_token_def bytes_eq_iff bind_eq_Some_conv bearer_token_Some
      split: option.splits if_splits)

lemma require_admin_token_Some: "require_admin_token c hdr = Some r \<Longrightarrow> r_status r = 401"
  by (auto simp: require_admin_token_def admin_error_def split: option.splits if_splits)

fun routed_under :: "string \<Rightarrow> routed \<Rightarrow> bool" where
  "routed_under pc (Matched pc' e) = (pc' = pc)"
| "routed_under pc _ = True"

lemma routed_under_by_method [simp]: "routed_under pc (by_method m pc eps)"
  by (simp add: by_method_def split: option.splits)

lemma routed_under_resource: "routed_under pc (admin_resource m pc rest)"
  by (simp add: admin_resource_def split: list.split)

lemma admin_route_Matched:
  assumes "admin_route m segments = Matched pc e"
  shows "\<exists>rest. segments = ''v1alpha'' # ''participants'' # pc # rest"
proof -
  obtain pc' rest where "segments = ''v1alpha'' # ''participants'' # pc' # rest"
    "admin_resource m pc' rest = Matched pc e"
    using assms unfolding admin_route_def by (simp split: list.splits if_splits)
  with routed_under_resource [of pc' m rest] show ?thesis by simp
qed

text \<open>A request past the token reaches a handler, under the hub's own context, or is refused.\<close>

lemma admin_router_refusals:
  assumes "require_admin_token (a_config a) (req_authorization req) = None"
  shows "(\<exists>st m. admin_router C a req uuid now s = unchanged (admin_error st m) s \<and> st \<in> {400, 404, 405})
    \<or> (\<exists>raw e pc. admin_route (req_method req) (req_path req) = Matched raw e
        \<and> percent_decode C raw = Some pc \<and> check_participant_context C (a_config a) pc = None)"
proof (cases "admin_route (req_method req) (req_path req)")
  case (Matched raw e)
  show ?thesis
  proof (cases "percent_decode C raw")
    case (Some pc)
    show ?thesis
    proof (cases "decode_endpoint (percent_decode C) e")
      case (Some e')
      with Matched \<open>percent_decode C raw = Some pc\<close> assms show ?thesis
        by (cases "check_participant_context C (a_config a) pc")
          (auto simp: admin_router_def check_participant_context_def split: if_splits)
    qed (auto simp: admin_router_def assms Matched Some)
  qed (auto simp: admin_router_def assms Matched)
qed (auto simp: admin_router_def assms)

text \<open>
  C31. Nothing in the admin API happens without the operator's token. A request whose header does not
  carry the configured token, or any request when none is configured, is answered 401 whatever its
  method and path, and leaves the state alone. A request that succeeds, changes the state or starts a
  delivery carried the non-empty configured token as its bearer credentials, and named the hub's own
  participant context.
\<close>

theorem admin_gate:
  assumes run: "admin_router C a req uuid now s = Some (r, s', spawned)"
  shows "((\<nexists>t v. admin_token (a_config a) = Some t \<and> t \<noteq> [] \<and> req_authorization req = Some v \<and> bearer_header t v)
      \<longrightarrow> r_status r = 401 \<and> s' = s \<and> spawned = {||})
    \<and> (is_success (r_status r) \<or> s' \<noteq> s \<or> spawned \<noteq> {||} \<longrightarrow>
      (\<exists>t v. admin_token (a_config a) = Some t \<and> t \<noteq> [] \<and> req_authorization req = Some v \<and> bearer_header t v)
      \<and> (\<exists>raw pc rest. req_path req = ''v1alpha'' # ''participants'' # raw # rest
           \<and> percent_decode C raw = Some pc
           \<and> decode_participant_context C pc = Some (participant_context_id (a_config a))))"
proof (rule conjI)
  let ?auth = "\<exists>t v. admin_token (a_config a) = Some t \<and> t \<noteq> [] \<and> req_authorization req = Some v \<and> bearer_header t v"
  let ?gate = "require_admin_token (a_config a) (req_authorization req)"
  have no: "r_status r = 401 \<and> s' = s \<and> spawned = {||}" if "?gate = Some resp" for resp
    using run that require_admin_token_Some [OF that] by (simp add: admin_router_def unchanged_def)
  have yes: ?auth if "?gate = None" using require_admin_token_None [OF that] .
  show "\<not> ?auth \<longrightarrow> r_status r = 401 \<and> s' = s \<and> spawned = {||}"
    using no yes by (cases ?gate) auto
  show "is_success (r_status r) \<or> s' \<noteq> s \<or> spawned \<noteq> {||} \<longrightarrow> ?auth
      \<and> (\<exists>raw pc rest. req_path req = ''v1alpha'' # ''participants'' # raw # rest
           \<and> percent_decode C raw = Some pc
           \<and> decode_participant_context C pc = Some (participant_context_id (a_config a)))"
  proof
    assume act: "is_success (r_status r) \<or> s' \<noteq> s \<or> spawned \<noteq> {||}"
    then have gate: "?gate = None" using no by (cases ?gate) (auto simp: is_success_def)
    have "\<exists>raw e pc. admin_route (req_method req) (req_path req) = Matched raw e
        \<and> percent_decode C raw = Some pc \<and> check_participant_context C (a_config a) pc = None"
      using admin_router_refusals [OF gate, of C uuid now s] act run
      by (auto simp: unchanged_def admin_error_def is_success_def)
    then show "?auth \<and> (\<exists>raw pc rest. req_path req = ''v1alpha'' # ''participants'' # raw # rest
           \<and> percent_decode C raw = Some pc
           \<and> decode_participant_context C pc = Some (participant_context_id (a_config a)))"
      using yes [OF gate] admin_route_Matched by (auto simp: check_participant_context_def split: if_splits) blast
  qed
qed


section \<open>Guarantees\<close>

text \<open>
  C32. Every request to the admin API, whatever it carries, is answered: no handler panics in a state the
  issuer can reach. A request that is not answered with success changes nothing; one that is leaves
  the issuer as it was or takes it to a state its state machine can reach in one step, with exactly
  the spawned deliveries added to the running tasks. All that is proved of reachable states
  therefore holds across admin traffic.
\<close>

theorem admin_refines_issuer:
  assumes "parses_i64 C" and reach: "reachable cap w"
  shows "\<exists>r s' spawned w' pids. admin_router C a req uuid now (shared w) = Some (r, s', spawned)
    \<and> reachable cap w' \<and> (w' = w \<or> step w w') \<and> (\<not> is_success (r_status r) \<longrightarrow> w' = w)
    \<and> shared w' = s' \<and> tasks w' = tasks w @ map Queued pids \<and> distinct pids \<and> set pids = fset spawned"
proof -
  have "issued_ok (s_issued (shared w)) (set (in_flight (tasks w)))"
    using reachable_parts(1) [OF reach] by (simp add: issued_inv_def)
  from admin_router_run [OF assms(1) this, where d = "drawn w" and a = a and req = req and uuid = uuid and now = now]
  show ?thesis
  proof (cases rule: issuer_runE)
    case (same r)
    with reach show ?thesis by (intro exI [of _ r] exI [of _ "shared w"] exI [of _ "{||}"] exI [of _ w] exI [of _ "[]"]) simp
  next
    case (changes r s' spawned d' pids)
    let ?w = "w\<lparr>shared := s', drawn := d', tasks := tasks w @ map Queued pids\<rparr>"
    have "step w ?w" using changes(5) by (rule step.env)
    with extend [OF reach this] changes show ?thesis
      by (intro exI [of _ r] exI [of _ s'] exI [of _ spawned] exI [of _ ?w] exI [of _ pids] conjI) simp_all
  qed
qed

text \<open>The same state without the bearer tokens that holders gave for their deliveries.\<close>

definition erase :: "issuance_process \<Rightarrow> issuance_process" where
  "erase p = p\<lparr>p_delivery_bearer := None\<rparr>"

definition without_bearers :: "issuer_state \<Rightarrow> issuer_state" where
  "without_bearers s = s\<lparr>s_requests := rt_modify_all (\<lambda>_. True) erase (s_requests s)\<rparr>"

lemma erase_simps [simp]:
  "process_json (erase p) = process_json p" "p_state (erase p) = p_state p"
  "p_credential_definitions (erase p) = p_credential_definitions p"
  "decided_by i st (erase p) = decided_by i st p"
  "transition st now (erase p) = erase (transition st now p)"
  by (simp_all add: erase_def process_json_def decided_by_def transition_def)

lemma without_bearers_simps [simp]:
  "s_definitions (without_bearers s) = s_definitions s" "s_holders (without_bearers s) = s_holders s"
  "s_issued (without_bearers s) = s_issued s"
  "s_requests (without_bearers s) = rt_modify_all (\<lambda>_. True) erase (s_requests s)"
  "without_bearers (s\<lparr>s_definitions := c\<rparr>) = (without_bearers s)\<lparr>s_definitions := c\<rparr>"
  "without_bearers (s\<lparr>s_holders := hs\<rparr>) = (without_bearers s)\<lparr>s_holders := hs\<rparr>"
  "without_bearers (s\<lparr>s_issued := ic\<rparr>) = (without_bearers s)\<lparr>s_issued := ic\<rparr>"
  by (simp_all add: without_bearers_def)

lemma erased_get [simp]: "rt_get (rt_modify_all (\<lambda>_. True) erase t) i = map_option erase (rt_get t i)"
  by (simp add: rt_get_def rt_modify_all_def)

lemma erased_iter [simp]: "rt_iter (rt_modify_all (\<lambda>_. True) erase t) = map erase (rt_iter t)"
  by (auto simp: rt_iter_def rt_modify_all_def List.map_filter_def)

lemma erased_in_use [simp]: "definition_in_use i (rt_modify_all (\<lambda>_. True) erase t) = definition_in_use i t"
  by (simp add: definition_in_use_def list_ex_iff)

lemma erased_moved [simp]: "moved_ids i st (rt_modify_all (\<lambda>_. True) erase t) = moved_ids i st t"
  by (rule fset_eqI) (auto simp: moved_ids_iff rt_modify_all_def)

lemma erased_decide [simp]:
  "rt_modify_all (decided_by i st) (transition st now) (rt_modify_all (\<lambda>_. True) erase t)
   = rt_modify_all (\<lambda>_. True) erase (rt_modify_all (decided_by i st) (transition st now) t)"
  by (cases t) (auto simp: rt_modify_all_def option.map_comp comp_def intro!: fmap_ext option.map_cong0)

definition run_without_bearers :: "admin_result \<Rightarrow> admin_result" where
  "run_without_bearers run = map_option (\<lambda>(r, s, spawned). (r, without_bearers s, spawned)) run"

lemma run_without_bearers_simps [simp]:
  "run_without_bearers (unchanged r s) = unchanged r (without_bearers s)"
  "run_without_bearers (changed r s) = changed r (without_bearers s)"
  by (simp_all add: run_without_bearers_def unchanged_def changed_def)

lemma decide_holder_without_bearers:
  "decide_holder i st ps now (without_bearers s) = (case decide_holder i st ps now s of (r, s') \<Rightarrow> (r, without_bearers s'))"
  by (cases s) (simp add: decide_holder_def without_bearers_def split: option.splits)

lemma delete_definition_without_bearers:
  "delete_definition i (without_bearers s) = (case delete_definition i s of (r, s') \<Rightarrow> (r, without_bearers s'))"
  by (simp add: delete_definition_def)

lemma admin_handler_without_bearers:
  "admin_handler C a body uuid now e (without_bearers s)
   = run_without_bearers (admin_handler C a body uuid now e s)"
proof (cases e)
  case (ApproveHolder i)
  then show ?thesis
    by (auto simp: approve_holder_def decide_holder_without_bearers run_without_bearers_def unchanged_def
        split: prod.splits sum.splits)
next
  case (RejectHolder i)
  then show ?thesis
    by (auto simp: reject_holder_def decide_holder_without_bearers split: prod.splits sum.splits)
next
  case (DeleteDefinition i)
  then show ?thesis by (simp add: delete_definition_without_bearers split: prod.splits)
next
  case (GetProcess i)
  then show ?thesis by (cases "rt_get (s_requests s) i") (simp_all add: get_process_def)
next
  case (RevokeCredential i)
  then show ?thesis by (auto simp: revoke_credential_def run_without_bearers_def changed_def split: option.splits)
next
  case RegisterHolder
  then show ?thesis
    by (simp add: register_holder_def Let_def split: sum.splits prod.splits option.splits)
qed (simp_all add: create_definition_def update_definition_def update_holder_def query_definitions_def
    get_definition_def query_holders_def get_holder_def query_processes_def query_credentials_def
    credential_status_def comp_def split: sum.splits option.splits prod.splits)

text \<open>
  C33. The admin API never discloses the bearer token a holder gave for its delivery. What a request
  answers, what it changes and which deliveries it starts are the same with every stored bearer token
  removed: no sequence of admin requests can tell the two apart.
\<close>

theorem admin_hides_bearers:
  "admin_router C a req uuid now (without_bearers s) = run_without_bearers (admin_router C a req uuid now s)"
  unfolding admin_router_def
  by (simp add: admin_handler_without_bearers split: option.splits routed.splits)


section \<open>Witnesses\<close>

definition sample_codec :: admin_codec where
  "sample_codec = \<lparr>parse_query = (\<lambda>_. Err ''EOF''), parse_definition = (\<lambda>_. Ok seed_input),
     parse_registration = (\<lambda>_. Err ''EOF''), parse_update = (\<lambda>_. Err ''EOF''),
     base64_decode = (\<lambda>e s. if e = URL_SAFE then Some s else None), percent_decode = Some,
     path_rejection = (\<lambda>_. []), number_format = sample_numbers\<rparr>"

definition sample_admin_request :: admin_request where
  "sample_admin_request = \<lparr>req_method = ''GET'', req_path = [''v1alpha'', ''participants'', ''issuer''],
     req_authorization = Some ''BEARER  t'', req_body = []\<rparr>"

lemma sample_gate_open: "require_admin_token (sample_config md) (Some ''BEARER  t'') = None"
proof -
  have "bearer_token ''BEARER  t'' = Some ''t''" by code_simp
  then show ?thesis by (simp add: require_admin_token_def sample_config_def constant_time_eq_iff)
qed

lemma sample_admin_run:
  "admin_router sample_codec (sample_app D (sample_config md)) sample_admin_request uuid now s
   = unchanged (participant (sample_app D (sample_config md))) s"
proof -
  have "utf8_valid ''issuer''" by code_simp
  then have "decode_participant_context sample_codec ''issuer'' = Some (participant_context_id (sample_config md))"
    by (simp add: decode_participant_context_def sample_codec_def sample_config_def)
  moreover have "percent_decode sample_codec = Some" by (simp add: sample_codec_def)
  ultimately show ?thesis
    by (simp add: admin_router_def sample_admin_request_def sample_gate_open admin_route_def admin_resource_def
        by_method_def check_participant_context_def)
qed

theorem admin_gate_witness:
  "let a = sample_app (sample_dcp (\<lambda>_. Err [])) (sample_config IssuerService);
       s = \<lparr>s_definitions = sample_catalog, s_holders = registry_default, s_requests = rt_new 2, s_issued = issued_default\<rparr>
   in \<exists>r. admin_router sample_codec a sample_admin_request ''u'' 7 s = Some (r, s, {||}) \<and> is_success (r_status r)
     \<and> (\<exists>t v. admin_token (a_config a) = Some t \<and> t \<noteq> [] \<and> req_authorization sample_admin_request = Some v \<and> bearer_header t v)"
proof -
  let ?a = "sample_app (sample_dcp (\<lambda>_. Err [])) (sample_config IssuerService)"
  let ?s = "\<lparr>s_definitions = sample_catalog, s_holders = registry_default, s_requests = rt_new 2, s_issued = issued_default\<rparr>"
  have run: "admin_router sample_codec ?a sample_admin_request ''u'' 7 ?s = Some (participant ?a, ?s, {||})"
    by (simp add: sample_admin_run unchanged_def)
  moreover have "is_success (r_status (participant ?a))" by (simp add: participant_def is_success_def)
  ultimately show ?thesis using admin_gate [OF run] unfolding Let_def by blast
qed

theorem admin_refines_issuer_witness:
  "parses_i64 sample_codec \<and> (\<exists>w w'. reachable 2 w \<and> (w' = w \<or> step w w') \<and> reachable 2 w'
     \<and> (\<exists>r sp. admin_router sample_codec (sample_app (sample_dcp (\<lambda>_. Err [])) (sample_config IssuerService))
          sample_admin_request ''u'' 7 (shared w) = Some (r, shared w', sp)))"
proof -
  have p: "parses_i64 sample_codec"
    by (simp add: parses_i64_def sample_codec_def input_in_range_def seed_input_def)
  let ?w = "\<lparr>shared = \<lparr>s_definitions = sample_catalog, s_holders = registry_default,
      s_requests = rt_new 2, s_issued = issued_default\<rparr>, tasks = [], drawn = {||}\<rparr>"
  from admin_refines_issuer [OF p run_start,
      of "sample_app (sample_dcp (\<lambda>_. Err [])) (sample_config IssuerService)" sample_admin_request "''u''" 7]
  obtain r sp w' where "admin_router sample_codec (sample_app (sample_dcp (\<lambda>_. Err [])) (sample_config IssuerService))
      sample_admin_request ''u'' 7 (shared ?w) = Some (r, shared w', sp)" "reachable 2 w'" "w' = ?w \<or> step ?w w'"
    by (elim exE conjE) (rule that, simp_all)
  with p run_start show ?thesis by (intro conjI exI [of _ ?w] exI [of _ w'] exI [of _ r] exI [of _ sp]) assumption+
qed

end
