(* ===== verification/Credential_Service.thy ===== *)
theory Credential_Service
  imports Service
begin

text \<open>
  The Credential Service's handlers (handlers.rs): DID hosting and the token endpoint, which both modes
  serve, the Resolution API, the Storage API and the Credential Offer API.
\<close>

section \<open>DID hosting and the token endpoint\<close>

definition did_document ::
    "('k \<Rightarrow> string \<times> string) \<Rightarrow> 'k app \<Rightarrow> string \<Rightarrow> response" where
  "did_document public_xy a segment =
     (if segment = did_path_segment (a_identity a) then
        resp_json 200 (did_document_json public_xy (a_identity a)
          [(case cfg_mode (a_config a) of CredentialService \<Rightarrow> ''CredentialService'' | IssuerService \<Rightarrow> ''IssuerService'',
            base_url_of a)])
      else if segment = did_path_segment (a_sts_party a) then resp_json 200 (did_document_json public_xy (a_sts_party a) [])
      else resp 404 NoBody)"

record sts_form_body =
  sf_grant_type :: string
  sf_client_id :: string
  sf_client_secret :: string
  sf_audience :: string
  sf_bearer_access_scope :: "string option"

definition sts_response_json :: "sts_token_response \<Rightarrow> json" where
  "sts_response_json r = json_obj [(''access_token'', JStr (access_token r)),
     (''expires_in'', JNum (PosInt (expires_in r))), (''token_type'', JStr (token_type r))]"

definition sts_token ::
    "('d, 'k) dcp \<Rightarrow> 'k app \<Rightarrow> sts_form_body \<Rightarrow> u64 \<Rightarrow> string \<Rightarrow> string \<Rightarrow> response" where
  "sts_token D a body now jti nested_jti =
     (case issue_token D (a_sts_config a) (a_sts_party a)
             \<lparr>grant_type = sf_grant_type body, client_id = sf_client_id body, client_secret = sf_client_secret body,
              audience = sf_audience body, bearer_access_scope = sf_bearer_access_scope body,
              own_service_did = own_did (a_identity a)\<rparr> now jti nested_jti of
        Inr r \<Rightarrow> resp_json 200 (sts_response_json r)
      | Inl e \<Rightarrow> resp_json 400 (json_obj [(''error'', JStr ''invalid_client''),
                  (''error_description'', JStr (sts_message e))]))"

section \<open>Resolution API\<close>

definition granted_credential_types ::
    "('d, 'k) dcp \<Rightarrow> 'k app \<Rightarrow> json \<Rightarrow> string \<Rightarrow> u64 \<Rightarrow> (string list, auth_error) result" where
  "granted_credential_types D a claims outer_sub now =
     (case get_str claims ''token'' of
        None \<Rightarrow> Ok []
      | Some nested \<Rightarrow>
          (case verify_nested_access_token D nested outer_sub (a_sts_party a) now of
             Inl e \<Rightarrow> Err e
           | Inr payload \<Rightarrow> Ok (credential_types (a_scope_matcher a) (split_scope_string (str_claim payload ''scope'')))))"

text \<open>First occurrences by printed payload, and of those the ones inside their validity window.\<close>

fun first_by :: "('a \<Rightarrow> 'b) \<Rightarrow> 'b list \<Rightarrow> 'a list \<Rightarrow> 'a list" where
  "first_by key acc [] = []"
| "first_by key acc (x # xs) =
     (if key x \<in> set acc then first_by key acc xs else x # first_by key (key x # acc) xs)"

definition presentable :: "('d, 'k) dcp \<Rightarrow> serde \<Rightarrow> u64 \<Rightarrow> credential_container list \<Rightarrow> credential_container list" where
  "presentable D S now cs = filter (\<lambda>c.
     case as_str (cc_payload c) of
       None \<Rightarrow> True
     | Some jws \<Rightarrow> (case decode_jws_unverified D jws of Inl e \<Rightarrow> True | Inr (header, payload) \<Rightarrow> is_within_validity payload now))
     (first_by (\<lambda>c. serde_print S (cc_payload c)) [] cs)"

definition presentation_payload :: "'k app \<Rightarrow> string \<Rightarrow> credential_container list \<Rightarrow> u64 \<Rightarrow> string \<Rightarrow> json" where
  "presentation_payload a aud cs now jti = json_obj [
     (''iss'', JStr (own_did (a_identity a))), (''sub'', JStr (own_did (a_identity a))), (''aud'', JStr aud),
     (''vp'', json_obj [(''@context'', JArr [JStr VC_CONTEXT]), (''type'', JArr [JStr ''VerifiablePresentation'']),
        (''holder'', JStr (own_did (a_identity a))), (''verifiableCredential'', JArr (map cc_payload cs))]),
     (''iat'', JNum (PosInt now)), (''exp'', JNum (PosInt (u64_add now 300))), (''jti'', JStr jti)]"

definition build_presentation ::
    "('d, 'k) dcp \<Rightarrow> 'k app \<Rightarrow> string \<Rightarrow> credential_container list \<Rightarrow> u64 \<Rightarrow> string \<Rightarrow> string" where
  "build_presentation D a aud cs now jti = sign_jws D (presentation_payload a aud cs now jti)
     (own_key (a_identity a)) (own_key_id (a_identity a))"

definition presentation_response_json :: "presentation_response_message \<Rightarrow> json" where
  "presentation_response_json m = json_obj ([(''@context'', JArr (map JStr (pr_context m))), (''type'', JStr (pr_type m)),
     (''presentation'', JArr (map JStr (pr_presentation m)))]
     @ (case pr_submission m of None \<Rightarrow> [] | Some v \<Rightarrow> [(''presentationSubmission'', v)]))"

text \<open>What a query may ask for: a scope, and no Presentation Definition.\<close>

definition query_shape :: "presentation_query_message \<Rightarrow> (unit, response) result" where
  "query_shape msg =
     (let has_scope = pq_scope msg \<noteq> [];
          has_definition = (case pq_definition msg of Some (JObj m) \<Rightarrow> m \<noteq> [] | _ \<Rightarrow> False) in
      if pq_definition msg \<noteq> None \<and> \<not> has_definition
      then Err (resp_text 400 ''presentationDefinition must be a non-empty object'')
      else if has_scope \<and> has_definition
      then Err (resp_text 400 ''PresentationQueryMessage must not set both scope and presentationDefinition'')
      else if has_definition then Err (resp 501 NoBody)
      else if \<not> has_scope
      then Err (resp_text 400 ''PresentationQueryMessage must set a non-empty scope or a presentationDefinition'')
      else Ok ())"

definition presentation_query ::
    "('d, 'k) dcp \<Rightarrow> 'd network \<Rightarrow> serde
     \<Rightarrow> ((rdf_term \<times> rdf_term \<times> rdf_term) list \<Rightarrow> (rdf_term \<times> rdf_term \<times> rdf_term) list)
     \<Rightarrow> 'k app \<Rightarrow> string option \<Rightarrow> presentation_query_message \<Rightarrow> (nat \<Rightarrow> u64) \<Rightarrow> string
     \<Rightarrow> ('l hub_state, response, response) sio" where
  "presentation_query D N S arrange a hdr msg clock jti =
     sio_bind (authenticate D N a hdr clock) (\<lambda>claims.
     sio_bind (sio_return (query_shape msg)) (\<lambda>_.
     sio_bind (sio_return (map_err auth_error_response
        (granted_credential_types D a claims (str_claim claims ''iss'') (clock 3)))) (\<lambda>allowed_types.
     \<lambda>s. (let effective = filter (\<lambda>t. t \<in> set allowed_types) (credential_types (a_scope_matcher a) (pq_scope msg));
              matched = presentable D S (clock 4) (credentials_of_types S arrange (h_store s) effective);
              vp = build_presentation D a (str_claim claims ''iss'') matched (clock 5) jti in
          sio_return (Ok (resp_json 200 (presentation_response_json (presentation_response_new [vp])))) s))))"

section \<open>Storage API\<close>

text \<open>With a registry, each credential's own issuer is held to it for the type it is labelled with.\<close>

definition trust_container ::
    "('d, 'k) dcp \<Rightarrow> 'd network \<Rightarrow> ('l, 'k) trust_core \<Rightarrow> 'k app \<Rightarrow> (nat \<Rightarrow> u64) \<Rightarrow> credential_container
     \<Rightarrow> ('l hub_state, unit, response) sio" where
  "trust_container D N T a clock c =
     (case credential_issuer D c of
        None \<Rightarrow> sio_return (Err (auth_error_response (UntrustedIssuer [])))
      | Some iss \<Rightarrow> trust_issuer D N T a clock iss [cc_type c])"

text \<open>The handler up to the write.\<close>

definition storage_checks ::
    "('d, 'k) dcp \<Rightarrow> 'd network \<Rightarrow> ('l, 'k) trust_core \<Rightarrow> 'k app \<Rightarrow> string option \<Rightarrow> credential_message
     \<Rightarrow> (nat \<Rightarrow> u64) \<Rightarrow> ('l hub_state, unit, response) sio" where
  "storage_checks D N T a hdr msg clock =
     sio_bind (authenticate D N a hdr clock) (\<lambda>claims.
     sio_bind (trust_issuer D N T a (\<lambda>k. clock (3 + k)) (caller claims) (map cc_type (cm_credentials msg))) (\<lambda>_.
     sio_bind (sio_return (map_err validation_error_response (validate_status (cm_status msg)))) (\<lambda>_.
     sio_bind (sio_return (map_err validation_error_response
        (check_known_holder_pid (cm_holder_pid msg) (known_holder_pids (a_config a))))) (\<lambda>_.
     sio_bind (sio_lift (io_map_err validation_error_response
        (verify_credential_proofs D N (cm_credentials msg) (insecure_http (a_config a)) (a_outbound a)))) (\<lambda>_.
     sio_bind (if registry_configured a then sio_each (\<lambda>(i, c). trust_container D N T a (\<lambda>k. clock (5 + 2 * i + k)) c)
                 (enumerate 0 (cm_credentials msg))
               else sio_return (Ok ())) (\<lambda>_.
     sio_return (map_err validation_error_response
        (check_credential_claims D (cm_credentials msg) (own_did (a_identity a))
           (if registry_configured a then None else Some (trusted_issuer_dids (a_config a)))
           (clock (5 + 2 * length (cm_credentials msg)))))))))))"

definition message_batch :: "credential_message \<Rightarrow> stored_credential_batch" where
  "message_batch msg = \<lparr>sb_issuer_pid = cm_issuer_pid msg, sb_holder_pid = Some (cm_holder_pid msg), sb_status = cm_status msg,
     sb_rejection_reason = cm_rejection_reason msg, sb_credentials = cm_credentials msg\<rparr>"

definition storage_write ::
    "('d, 'k) dcp \<Rightarrow> 'd network \<Rightarrow> ('l, 'k) trust_core \<Rightarrow> serde \<Rightarrow> 'k app \<Rightarrow> string option \<Rightarrow> credential_message
     \<Rightarrow> (nat \<Rightarrow> u64) \<Rightarrow> string \<Rightarrow> ('l hub_state, response, response) sio" where
  "storage_write D N T S a hdr msg clock batch_id =
     sio_bind (storage_checks D N T a hdr msg clock) (\<lambda>_.
     sio_modify (\<lambda>s. s\<lparr>h_store := store_batch S batch_id (message_batch msg) (h_store s)\<rparr>) (resp 200 NoBody))"

section \<open>Credential Offer API\<close>

definition offer_checks ::
    "('d, 'k) dcp \<Rightarrow> 'd network \<Rightarrow> ('l, 'k) trust_core \<Rightarrow> (string \<Rightarrow> (issuer_metadata, string) result) \<Rightarrow> 'k app
     \<Rightarrow> string option \<Rightarrow> credential_offer_message \<Rightarrow> (nat \<Rightarrow> u64) \<Rightarrow> ('l hub_state, unit, response) sio" where
  "offer_checks D N T parse a hdr msg clock =
     sio_bind (authenticate D N a hdr clock) (\<lambda>claims.
     sio_bind (trust_issuer D N T a (\<lambda>k. clock (3 + k)) (caller claims)
        (List.map_filter co_credential_type (of_credentials msg))) (\<lambda>_.
     sio_lift (io_map_err validation_error_response
        (validate_offer_credentials D N parse (of_issuer msg) (of_credentials msg) (insecure_http (a_config a)) (a_outbound a)))))"

definition message_offer :: "credential_offer_message \<Rightarrow> new_accepted_offer" where
  "message_offer msg = \<lparr>no_issuer = of_issuer msg,
     no_credentials = map (\<lambda>c. \<lparr>oc_id = co_id c, oc_type = co_credential_type c\<rparr>) (of_credentials msg)\<rparr>"

definition credential_offer ::
    "('d, 'k) dcp \<Rightarrow> 'd network \<Rightarrow> ('l, 'k) trust_core \<Rightarrow> (string \<Rightarrow> (issuer_metadata, string) result) \<Rightarrow> 'k app
     \<Rightarrow> string option \<Rightarrow> credential_offer_message \<Rightarrow> (nat \<Rightarrow> u64) \<Rightarrow> string \<Rightarrow> ('l hub_state, response, response) sio" where
  "credential_offer D N T parse a hdr msg clock offer_id =
     sio_bind (offer_checks D N T parse a hdr msg clock) (\<lambda>_.
     sio_modify (\<lambda>s. s\<lparr>h_store := snd (add_offer offer_id (message_offer msg) (h_store s))\<rparr>) (resp 200 NoBody))"

section \<open>Presentations\<close>

lemma set_first_by: "set (first_by key acc xs) \<subseteq> set xs"
  by (induction xs arbitrary: acc) auto

lemma distinct_first_by: "distinct (map key (first_by key acc xs)) \<and> set (map key (first_by key acc xs)) \<inter> set acc = {}"
proof (induction xs arbitrary: acc)
  case (Cons x xs)
  from Cons.IH [of acc] Cons.IH [of "key x # acc"] show ?case by auto
qed simp

lemma first_by_keys: "key ` set (first_by key acc xs) = key ` set xs - set acc"
proof (induction xs arbitrary: acc)
  case (Cons x xs)
  from Cons.IH [of acc] Cons.IH [of "key x # acc"] show ?case by auto
qed simp

lemma query_shape_Err: "query_shape msg = Inl r \<Longrightarrow> r_status r \<in> {400, 501}"
  by (auto simp: query_shape_def Let_def split: if_splits)

lemma query_shape_Ok: "query_shape msg = Ok u \<Longrightarrow> pq_scope msg \<noteq> [] \<and> pq_definition msg = None"
  by (auto simp: query_shape_def Let_def split: if_splits option.splits json.splits)

lemma granted_types_Ok:
  assumes "granted_credential_types D a claims sub now = Ok types" "t \<in> set types"
  shows "\<exists>nested payload. get_str claims ''token'' = Some nested
     \<and> verify_nested_access_token D nested sub (a_sts_party a) now = Ok payload
     \<and> (\<exists>sc \<in> set (split_scope_string (str_claim payload ''scope'')). a_scope_matcher a sc = Some t)"
  using assms by (auto simp: granted_credential_types_def set_credential_types split: option.splits sum.splits)

lemma stored_of_types:
  assumes "graph_ok S g" "permutes arrange" "c \<in> set (credentials_of_types S arrange g types)"
  shows "cc_type c \<in> set types \<and> (\<exists>b \<in> set (store_all S g). sb_status b = ''ISSUED'' \<and> c \<in> set (sb_credentials b))"
proof -
  have "c \<in># mset (credentials_of_types S arrange g types)" using assms(3) by simp
  then show ?thesis unfolding credentials_of_types_refines [OF assms(1,2)] by (auto split: if_splits)
qed

lemma presentation_query_confined [hub_confined]:
  "resolves_through D N \<Longrightarrow> sconfined D (a_outbound a) (presentation_query D N S arrange a hdr msg clock jti)"
  unfolding presentation_query_def
  by (intro sconfined_bind authenticate_confined sconfined_return) (simp_all add: sconfined_def sio_return_def sio_lift_def)

lemma presentation_query_keeps: "keeps h_store (presentation_query D N S arrange a hdr msg clock jti)"
  unfolding presentation_query_def
  by (intro keeps_bind auth_keeps keeps_simps) (simp add: keeps_def)

text \<open>
  What justifies a credential in a presentation to a caller with these claims: it is stored in an issued
  batch, the query asks for its type, an access token of this hub's own token service for this caller
  grants that type, and it is inside its validity window.
\<close>

definition disclosable ::
    "('d, 'k) dcp \<Rightarrow> serde \<Rightarrow> 'k app \<Rightarrow> graph \<Rightarrow> presentation_query_message \<Rightarrow> json \<Rightarrow> (nat \<Rightarrow> u64) \<Rightarrow> credential_container \<Rightarrow> bool" where
  "disclosable D S a g msg claims clock c \<longleftrightarrow>
     (\<exists>b \<in> set (store_all S g). sb_status b = ''ISSUED'' \<and> c \<in> set (sb_credentials b))
   \<and> (\<exists>sc \<in> set (pq_scope msg). a_scope_matcher a sc = Some (cc_type c))
   \<and> (\<exists>nested payload. get_str claims ''token'' = Some nested
       \<and> verify_nested_access_token D nested (str_claim claims ''iss'') (a_sts_party a) (clock 3) = Ok payload
       \<and> (\<exists>sc \<in> set (split_scope_string (str_claim payload ''scope'')). a_scope_matcher a sc = Some (cc_type c)))
   \<and> (\<forall>jws header payload. cc_payload c = JStr jws \<and> decode_jws_unverified D jws = Ok (header, payload)
       \<longrightarrow> is_within_validity payload (clock 4))"

definition presented ::
    "('d, 'k) dcp \<Rightarrow> serde \<Rightarrow> ((rdf_term \<times> rdf_term \<times> rdf_term) list \<Rightarrow> (rdf_term \<times> rdf_term \<times> rdf_term) list)
     \<Rightarrow> 'k app \<Rightarrow> graph \<Rightarrow> presentation_query_message \<Rightarrow> string list \<Rightarrow> (nat \<Rightarrow> u64) \<Rightarrow> credential_container list" where
  "presented D S arrange a g msg types clock = presentable D S (clock 4) (credentials_of_types S arrange g
     (filter (\<lambda>t. t \<in> set types) (credential_types (a_scope_matcher a) (pq_scope msg))))"

lemma presented_distinct: "distinct (map (\<lambda>c. serde_print S (cc_payload c)) (presented D S arrange a g msg types clock))"
  unfolding presented_def presentable_def
  by (rule distinct_map_filter) (use distinct_first_by [of "\<lambda>c. serde_print S (cc_payload c)" "[]"] in blast)

lemma presented_disclosable:
  assumes "graph_ok S g" "permutes arrange" "granted_credential_types D a claims (str_claim claims ''iss'') (clock 3) = Ok types"
    "c \<in> set (presented D S arrange a g msg types clock)"
  shows "disclosable D S a g msg claims clock c"
proof -
  let ?eff = "filter (\<lambda>t. t \<in> set types) (credential_types (a_scope_matcher a) (pq_scope msg))"
  have "c \<in> set (credentials_of_types S arrange g ?eff)"
    using assms(4) set_first_by [of "\<lambda>c. serde_print S (cc_payload c)" "[]"] by (auto simp: presented_def presentable_def)
  note st = stored_of_types [OF assms(1,2) this]
  then have t: "cc_type c \<in> set types" "cc_type c \<in> set (credential_types (a_scope_matcher a) (pq_scope msg))" by auto
  have "\<forall>jws header payload. cc_payload c = JStr jws \<and> decode_jws_unverified D jws = Ok (header, payload)
       \<longrightarrow> is_within_validity payload (clock 4)"
    using assms(4) by (auto simp: presented_def presentable_def)
  with st granted_types_Ok [OF assms(3) t(1)] t(2) show ?thesis by (auto simp: disclosable_def set_credential_types)
qed

text \<open>A query that answers normally went through these stages.\<close>

lemma presentation_query_Ok:
  assumes "snd (fst (presentation_query D N S arrange a hdr msg clock jti s)) = Ok r"
  obtains claims types where "snd (fst (authenticate D N a hdr clock s)) = Ok claims" "query_shape msg = Ok ()"
    "granted_credential_types D a claims (str_claim claims ''iss'') (clock 3) = Ok types"
    "r = resp_json 200 (presentation_response_json (presentation_response_new [build_presentation D a (str_claim claims ''iss'')
         (presented D S arrange a (h_store s) msg types clock) (clock 5) jti]))"
proof -
  have "h_store (snd (authenticate D N a hdr clock s)) = h_store s" using keepsD [OF auth_keeps(1)] .
  with assms show ?thesis unfolding presentation_query_def sio_bind_Ok by (auto simp: Let_def intro!: that [unfolded presented_def])
qed

lemma presentation_query_refuses: "refuses {400, 401, 501} (presentation_query D N S arrange a hdr msg clock jti)"
  unfolding presentation_query_def
  by (intro refuses_bind) (auto simp: refuses_def Let_def auth_error_response_def dest!: query_shape_Err refusesD [OF auth_refuses(1), rotated 1])

text \<open>
  C27. A presentation discloses only what its caller was granted. When the Resolution API answers 200,
  the caller proved its DID with a valid, unreplayed ID token; the presentation is signed by this
  service and addressed to that DID; and every credential in it was stored in an issued batch, is of a
  type the query asked for and an access token minted by this hub's own token service for this very
  caller grants, is inside its validity window, and appears once. Any other answer is 400, 401 or 501;
  the store is untouched and only allowed hosts are contacted either way.
\<close>

theorem presentation_query_safe:
  fixes D :: "('d, 'k) dcp" and s :: "'l hub_state"
  assumes ok: "graph_ok S (h_store s)" and arr: "permutes arrange" and law: "resolves_through D N"
    and run: "presentation_query D N S arrange a hdr msg clock jti s = (m, s')"
  shows "h_store s' = h_store s \<and> confined D (a_outbound a) m
    \<and> r_status (respond (m, s')) \<in> {200, 400, 401, 501}
    \<and> (r_status (respond (m, s')) = 200 \<longrightarrow> (\<exists>claims cs.
         envelope_valid D N hdr (own_did (a_identity a)) (insecure_http (a_config a)) (a_outbound a)
           (clock 0) (clock 1) (clock 2) claims
       \<and> (\<forall>j. get_str claims ''jti'' = Some j \<longrightarrow> j |\<notin>| seen (h_seen s))
       \<and> respond (m, s') = resp_json 200 (presentation_response_json (presentation_response_new
           [build_presentation D a (str_claim claims ''iss'') cs (clock 5) jti]))
       \<and> distinct (map (\<lambda>c. serde_print S (cc_payload c)) cs)
       \<and> (\<forall>c \<in> set cs. disclosable D S a (h_store s) msg claims clock c)))"
proof -
  have "h_store s' = h_store s" using keepsD [OF presentation_query_keeps] run by (metis snd_conv)
  moreover have "confined D (a_outbound a) m"
    using presentation_query_confined [OF law] run by (metis sconfined_def fst_conv)
  moreover have "r_status r \<in> {400, 401, 501}" if "snd m = Inl r" for r
    using refusesD [OF presentation_query_refuses] that run by (metis fst_conv)
  moreover have "r_status r = 200 \<and> (\<exists>claims cs.
         envelope_valid D N hdr (own_did (a_identity a)) (insecure_http (a_config a)) (a_outbound a)
           (clock 0) (clock 1) (clock 2) claims
       \<and> (\<forall>j. get_str claims ''jti'' = Some j \<longrightarrow> j |\<notin>| seen (h_seen s))
       \<and> r = resp_json 200 (presentation_response_json (presentation_response_new
           [build_presentation D a (str_claim claims ''iss'') cs (clock 5) jti]))
       \<and> distinct (map (\<lambda>c. serde_print S (cc_payload c)) cs)
       \<and> (\<forall>c \<in> set cs. disclosable D S a (h_store s) msg claims clock c))" if "snd m = Ok r" for r
  proof -
    have "snd (fst (presentation_query D N S arrange a hdr msg clock jti s)) = Ok r" using that run by simp
    then show ?thesis
      by (rule presentation_query_Ok)
        (use presented_distinct presented_disclosable [OF ok arr] in \<open>auto simp: authenticate_Ok, blast\<close>)
  qed
  ultimately show ?thesis by (cases "snd m") (auto simp: respond_def)
qed

section \<open>Stored credentials\<close>

text \<open>What is established of each container of a message the Storage API accepts.\<close>

definition container_vetted ::
    "('d, 'k) dcp \<Rightarrow> 'd network \<Rightarrow> ('l, 'k) trust_core \<Rightarrow> 'k app \<Rightarrow> u64 \<Rightarrow> credential_container \<Rightarrow> bool" where
  "container_vetted D N T a now c \<longleftrightarrow>
     (\<exists>jws header payload iss kid doc key. cc_payload c = JStr jws
        \<and> decode_jws_unverified D jws = Ok (header, payload)
        \<and> get_str payload ''iss'' = Some iss \<and> get_str header ''kid'' = Some kid
        \<and> is_ok (check_did D (a_outbound a) iss (insecure_http (a_config a)))
        \<and> snd (resolve_did N iss (insecure_http (a_config a))) = Ok doc
        \<and> find_verifying_key D doc kid = Ok key \<and> verify_jws_signature D jws key = Ok ()
        \<and> has_type payload (cc_type c) \<and> credential_subject payload = Some (own_did (a_identity a))
        \<and> is_within_validity payload now
        \<and> (\<exists>t1 t2 cache. trusted_cache T a cache \<and> snd (fst (check_issuer D N T a t1 t2 iss [cc_type c] cache)) = Ok ()))"

lemma trust_issuer_Ok:
  "snd (fst (trust_issuer D N T a clock iss types s)) = Ok u \<longleftrightarrow>
     snd (fst (check_issuer D N T a (clock 0) (clock 1) iss types (h_registry s))) = Ok ()"
  by (auto simp: trust_issuer_def split: prod.splits)

lemma static_check_issuer:
  "\<not> registry_configured a \<Longrightarrow> snd (fst (check_issuer D N T a t1 t2 iss types cache)) = Ok () \<longleftrightarrow> iss \<in> set (trusted_issuer_dids (a_config a))"
  by (auto simp: registry_configured_def check_issuer_def check_trusted_issuer_def str_claim_def Let_def)

lemma sio_each_Ok:
  assumes "\<And>x s. I s \<Longrightarrow> I (snd (f x s))"
  shows "I s \<Longrightarrow> snd (fst (sio_each f xs s)) = Ok u \<Longrightarrow> x \<in> set xs \<Longrightarrow> \<exists>s'. I s' \<and> snd (fst (f x s')) = Ok ()"
proof (induction xs arbitrary: s)
  case (Cons y ys)
  from Cons.prems(2) obtain v where v: "snd (fst (f y s)) = Ok v" "snd (fst (sio_each f ys (snd (f y s)))) = Ok u"
    by (auto simp: sio_bind_Ok)
  from Cons.prems(3) consider "x = y" | "x \<in> set ys" by auto
  then show ?case
  proof cases
    case 1
    with v Cons.prems(1) show ?thesis by auto
  qed (rule Cons.IH [OF assms [OF Cons.prems(1)] v(2)])
qed simp

lemma trust_issuer_cache: "trusted_cache T a (h_registry s) \<Longrightarrow> trusted_cache T a (h_registry (snd (trust_issuer D N T a clock iss types s)))"
  using check_issuer_cache_ok [of T a "h_registry s" D N "clock 0" "clock 1" iss types] by (auto simp: trust_issuer_def split: prod.splits)

lemma trust_container_cache:
  "trusted_cache T a (h_registry s) \<Longrightarrow> trusted_cache T a (h_registry (snd (trust_container D N T a clock c s)))"
  by (auto simp: trust_container_def intro: trust_issuer_cache split: option.splits)

lemma trust_container_Ok:
  "snd (fst (trust_container D N T a clock c s)) = Ok u \<Longrightarrow>
   \<exists>iss. credential_issuer D c = Some iss \<and> snd (fst (check_issuer D N T a (clock 0) (clock 1) iss [cc_type c] (h_registry s))) = Ok ()"
  by (auto simp: trust_container_def trust_issuer_Ok split: option.splits)

lemma trust_container_confined [hub_confined]:
  "resolves_through D N \<Longrightarrow> sconfined D (a_outbound a) (trust_container D N T a clock c)"
  by (auto simp: trust_container_def intro: trust_issuer_confined split: option.splits)

lemma trust_container_keeps [simp]: "keeps h_store (trust_container D N T a clock c)"
  by (simp add: trust_container_def split: option.splits)

lemma verify_credential_proofs_confined [hub_confined]:
  "resolves_through D N \<Longrightarrow> confined D pol (verify_credential_proofs D N cs insecure pol)"
  unfolding verify_credential_proofs_def by (intro confined_each verify_container_proof_confined)

lemma storage_checks_confined [hub_confined]:
  "resolves_through D N \<Longrightarrow> sconfined D (a_outbound a) (storage_checks D N T a hdr msg clock)"
  unfolding storage_checks_def
  by (intro sconfined_bind authenticate_confined trust_issuer_confined sconfined_return)
    (auto intro!: sconfined_each trust_container_confined verify_credential_proofs_confined split: prod.splits)

lemma storage_checks_keeps: "keeps h_store (storage_checks D N T a hdr msg clock)"
  unfolding storage_checks_def
  by (intro keeps_bind auth_keeps keeps_simps) (auto intro!: keeps_each split: prod.splits)

lemma trust_container_refuses: "401 \<in> codes \<Longrightarrow> refuses codes (trust_container D N T a clock c)"
  by (auto simp: trust_container_def auth_error_response_def split: option.splits)

lemma storage_checks_refuses: "refuses {400, 401} (storage_checks D N T a hdr msg clock)"
  unfolding storage_checks_def
  by (intro refuses_bind)
    (auto intro!: refuses_each trust_container_refuses simp: validation_error_response_def split: prod.splits)

lemma container_vettedI:
  assumes "snd (verify_container_proof D N (insecure_http (a_config a)) (a_outbound a) c) = Ok ()"
    "check_container D (own_did (a_identity a)) (if registry_configured a then None else Some (trusted_issuer_dids (a_config a))) now c = Ok ()"
    "registry_configured a \<Longrightarrow> trusted_cache T a (h_registry s) \<and> snd (fst (trust_container D N T a clock c s)) = Ok ()"
  shows "container_vetted D N T a now c"
proof -
  from assms(1) obtain jws header payload iss kid doc key where p: "cc_payload c = JStr jws"
    "decode_jws_unverified D jws = Ok (header, payload)" "get_str payload ''iss'' = Some iss" "get_str header ''kid'' = Some kid"
    "is_ok (check_did D (a_outbound a) iss (insecure_http (a_config a)))" "snd (resolve_did N iss (insecure_http (a_config a))) = Ok doc"
    "find_verifying_key D doc kid = Ok key" "verify_jws_signature D jws key = Ok ()"
    unfolding verify_container_proof_Ok by blast
  with assms(2) have c: "has_type payload (cc_type c)" "credential_subject payload = Some (own_did (a_identity a))"
    "is_within_validity payload now" "\<not> registry_configured a \<Longrightarrow> iss \<in> set (trusted_issuer_dids (a_config a))"
    unfolding check_container_Ok by (auto simp: str_claim_def split: if_splits)
  have "\<exists>t1 t2 cache. trusted_cache T a cache \<and> snd (fst (check_issuer D N T a t1 t2 iss [cc_type c] cache)) = Ok ()"
  proof (cases "registry_configured a")
    case True
    from trust_container_Ok [OF conjunct2 [OF assms(3) [OF True]]] assms(3) [OF True] p(1,2,3) show ?thesis
      by (auto simp: credential_issuer_def)
  next
    case False
    then have "trusted_cache T a None" by (auto simp: trusted_cache_def registry_configured_def)
    with c(4) False show ?thesis by (auto simp: static_check_issuer)
  qed
  with p c show ?thesis unfolding container_vetted_def by blast
qed

lemma storage_checks_Ok:
  assumes run: "snd (fst (storage_checks D N T a hdr msg clock s)) = Ok u" and cache: "trusted_cache T a (h_registry s)"
  shows "\<exists>claims. snd (fst (authenticate D N a hdr clock s)) = Ok claims
     \<and> snd (fst (check_issuer D N T a (clock 3) (clock 4) (caller claims) (map cc_type (cm_credentials msg)) (h_registry s))) = Ok ()
     \<and> cm_status msg \<in> {''ISSUED'', ''REJECTED''}
     \<and> (known_holder_pids (a_config a) = [] \<or> cm_holder_pid msg \<in> set (known_holder_pids (a_config a)))
     \<and> (\<forall>c \<in> set (cm_credentials msg). container_vetted D N T a (clock (5 + 2 * length (cm_credentials msg))) c)"
proof -
  let ?each = "\<lambda>(i, c). trust_container D N T a (\<lambda>k. clock (5 + 2 * i + k)) c"
  let ?s1 = "snd (authenticate D N a hdr clock s)"
  have r1: "h_registry ?s1 = h_registry s" by (rule keepsD [OF auth_keeps(3)])
  from run obtain claims where c: "snd (fst (authenticate D N a hdr clock s)) = Ok claims"
    "snd (fst (trust_issuer D N T a (\<lambda>k. clock (3 + k)) (caller claims) (map cc_type (cm_credentials msg)) ?s1)) = Ok ()"
    "validate_status (cm_status msg) = Ok ()" "check_known_holder_pid (cm_holder_pid msg) (known_holder_pids (a_config a)) = Ok ()"
    "snd (verify_credential_proofs D N (cm_credentials msg) (insecure_http (a_config a)) (a_outbound a)) = Ok ()"
    "check_credential_claims D (cm_credentials msg) (own_did (a_identity a))
         (if registry_configured a then None else Some (trusted_issuer_dids (a_config a)))
         (clock (5 + 2 * length (cm_credentials msg))) = Ok ()"
    and reg: "registry_configured a \<longrightarrow> snd (fst (sio_each ?each (enumerate 0 (cm_credentials msg))
         (snd (trust_issuer D N T a (\<lambda>k. clock (3 + k)) (caller claims) (map cc_type (cm_credentials msg)) ?s1)))) = Ok ()"
    unfolding storage_checks_def sio_bind_Ok by (auto split: if_splits)
  have cache': "trusted_cache T a (h_registry (snd (trust_issuer D N T a (\<lambda>k. clock (3 + k)) (caller claims) (map cc_type (cm_credentials msg)) ?s1)))"
    by (rule trust_issuer_cache) (simp add: r1 cache)
  have inv: "trusted_cache T a (h_registry s') \<Longrightarrow> trusted_cache T a (h_registry (snd (?each x s')))" for x s'
    by (cases x) (simp add: trust_container_cache)
  have "container_vetted D N T a (clock (5 + 2 * length (cm_credentials msg))) cr" if cr: "cr \<in> set (cm_credentials msg)" for cr
  proof -
    from cr obtain i where "i < length (cm_credentials msg)" "cm_credentials msg ! i = cr"
      by (auto simp: in_set_conv_nth)
    then have i: "(i, cr) \<in> set (enumerate 0 (cm_credentials msg))" by (simp add: in_set_enumerate_eq)
    have t: "\<exists>clock s2. trusted_cache T a (h_registry s2) \<and> snd (fst (trust_container D N T a clock cr s2)) = Ok ()"
      if "registry_configured a"
      using sio_each_Ok [of "\<lambda>s. trusted_cache T a (h_registry s)" ?each, OF inv cache' _ i] reg that by auto
    from c(5,6) cr have "snd (verify_container_proof D N (insecure_http (a_config a)) (a_outbound a) cr) = Ok ()"
      "check_container D (own_did (a_identity a)) (if registry_configured a then None else Some (trusted_issuer_dids (a_config a)))
         (clock (5 + 2 * length (cm_credentials msg))) cr = Ok ()"
      unfolding verify_credential_proofs_def io_each_Ok check_credential_claims_def try_each_Ok by blast+
    with t show ?thesis by (metis container_vettedI)
  qed
  moreover have "cm_status msg \<in> {''ISSUED'', ''REJECTED''}"
    "known_holder_pids (a_config a) = [] \<or> cm_holder_pid msg \<in> set (known_holder_pids (a_config a))"
    using c(3,4) by (auto simp: validate_status_def check_known_holder_pid_def split: if_splits)
  ultimately show ?thesis using c(1) c(2) [unfolded trust_issuer_Ok r1] by (intro exI conjI ballI) auto
qed

text \<open>
  C28. The Storage API lets in only vetted credentials. A message is stored, as the newest batch, exactly when the answer is 200; then its sender proved its DID and is
  trusted for every type delivered, the status is a known one and the correlation id an expected one,
  and every credential is signed by a key of its own issuer's DID document, is labelled with one of its
  own types, is about this service, is inside its validity window and comes from an issuer trusted for
  that type. Otherwise the answer is 400 or 401 and the store is unchanged. Only allowed hosts are
  contacted.
\<close>

theorem storage_write_correct:
  fixes D :: "('d, 'k) dcp" and s :: "'l hub_state"
  assumes ok: "graph_ok S (h_store s)" and room: "next_order (h_store s) + 1 < u64_limit"
    and exact: "\<forall>jws. payload_exact S (JStr jws)" and law: "resolves_through D N" and cache: "trusted_cache T a (h_registry s)"
    and run: "storage_write D N T S a hdr msg clock batch_id s = (m, s')"
  shows "confined D (a_outbound a) m \<and> graph_ok S (h_store s')
    \<and> r_status (respond (m, s')) \<in> {200, 400, 401}
    \<and> (if r_status (respond (m, s')) = 200
       then store_all S (h_store s') = push MAX_CREDENTIAL_BATCHES (message_batch msg) (store_all S (h_store s))
         \<and> cm_status msg \<in> {''ISSUED'', ''REJECTED''}
         \<and> (known_holder_pids (a_config a) = [] \<or> cm_holder_pid msg \<in> set (known_holder_pids (a_config a)))
         \<and> (\<exists>claims. envelope_valid D N hdr (own_did (a_identity a)) (insecure_http (a_config a)) (a_outbound a)
               (clock 0) (clock 1) (clock 2) claims
             \<and> snd (fst (check_issuer D N T a (clock 3) (clock 4) (caller claims) (map cc_type (cm_credentials msg)) (h_registry s))) = Ok ())
         \<and> (\<forall>c \<in> set (cm_credentials msg). container_vetted D N T a (clock (5 + 2 * length (cm_credentials msg))) c)
       else h_store s' = h_store s)"
proof -
  have "sconfined D (a_outbound a) (storage_write D N T S a hdr msg clock batch_id)"
    unfolding storage_write_def by (intro sconfined_bind storage_checks_confined [OF law] sconfined_modify)
  then have conf: "confined D (a_outbound a) m"
    unfolding sconfined_def using run by (metis fst_conv)
  have same: "h_store (snd (storage_checks D N T a hdr msg clock s)) = h_store s" by (rule keepsD [OF storage_checks_keeps])
  show ?thesis
  proof (cases "snd (fst (storage_checks D N T a hdr msg clock s))")
    case (Inl r)
    with run have m: "snd m = Inl r" "s' = snd (storage_checks D N T a hdr msg clock s)"
      unfolding storage_write_def by (auto simp: sio_bind_def split: prod.splits)
    moreover have "r_status r \<in> {400, 401}" using refusesD [OF storage_checks_refuses Inl] .
    ultimately show ?thesis using conf same ok by (auto simp: respond_def)
  next
    case (Inr u)
    then have m: "snd m = Ok (resp 200 NoBody)" "h_store s' = store_batch S batch_id (message_batch msg) (h_store s)"
      using run same unfolding storage_write_def by (auto simp: sio_bind_def sio_modify_def io_pure_def split: prod.splits)
    note ch = storage_checks_Ok [OF Inr cache]
    then have "\<forall>c \<in> set (cm_credentials msg). \<exists>jws. cc_payload c = JStr jws" unfolding container_vetted_def by blast
    then have "batch_exact S (message_batch msg)" using exact by (auto simp: batch_exact_def message_batch_def)
    note st = store_batch_refines [OF ok room this, of batch_id]
    from ch conf m st show ?thesis unfolding authenticate_Ok by (auto simp: respond_def)
  qed
qed

text \<open>A service that holds one key, trusts the sample caller, and can read its token and its credential.\<close>

definition sample_decode :: "string \<Rightarrow> (json \<times> json, string) result" where
  "sample_decode t = (if t = ''k1.token'' then Ok (json_obj [(''kid'', JStr ''k1'')], sample_payload)
     else if t = ''k1.vc'' then Ok (json_obj [(''kid'', JStr ''k1'')], sample_vc) else Err ''not a JWS'')"

definition sample_hub :: "string app" where
  "sample_hub = (sample_app (sample_dcp sample_decode) (sample_config CredentialService))
     \<lparr>a_identity := \<lparr>own_did = ''did:web:hub'', own_key_id = ''did:web:hub#k'', own_key = ''k1'',
        did_path_segment = ''credential-service''\<rparr>\<rparr>"

definition sample_hub_state :: "nat hub_state" where
  "sample_hub_state = \<lparr>h_seen = seen_new 4, h_store = store_batch sample_serde ''b1'' sample_batch store_new, h_registry = None,
     h_issuer = \<lparr>s_definitions = \<lparr>definitions = []\<rparr>, s_holders = registry_default, s_requests = rt_new 4, s_issued = issued_default\<rparr>\<rparr>"

lemma sample_hub_simps [simp]:
  "own_did (a_identity sample_hub) = ''did:web:hub''"
  "insecure_http (a_config sample_hub) = True" "a_scope_matcher sample_hub = default_pattern_type"
  "trusted_issuer_dids (a_config sample_hub) = [''did:web:caller.example'']" "cfg_registry (a_config sample_hub) = None"
  "known_holder_pids (a_config sample_hub) = []"
  by (simp_all add: sample_hub_def sample_config_def)

lemma sample_hub_allowed:
  "allowed (sample_dcp sample_decode) (a_outbound sample_hub) ''http://caller.example/.well-known/did.json''"
  unfolding sample_hub_def by (simp, code_simp)

lemma sample_graph:
  "graph_ok sample_serde (h_store sample_hub_state)" "next_order (h_store sample_hub_state) + 1 < u64_limit"
  "store_all sample_serde (h_store sample_hub_state) = [sample_batch]"
proof -
  have room: "next_order store_new + 1 < u64_limit" by (simp add: store_new_def graph_open_def u64_limit_def)
  have ex: "batch_exact sample_serde sample_batch"
    by (simp add: batch_exact_def payload_exact_def sample_batch_def sample_serde_def)
  have ok: "graph_ok sample_serde store_new" by (simp add: store_new_def graph_ok_open)
  have empty: "store_all sample_serde store_new = []" by code_simp
  from store_batch_refines [OF ok room ex, of "''b1''"] empty
  show "graph_ok sample_serde (h_store sample_hub_state)" "store_all sample_serde (h_store sample_hub_state) = [sample_batch]"
    by (simp_all add: sample_hub_state_def push_def MAX_CREDENTIAL_BATCHES_def)
  show "next_order (h_store sample_hub_state) + 1 < u64_limit"
    by (simp add: sample_hub_state_def store_batch_def add_batch_def Let_def store_new_def graph_open_def u64_add_def u64_limit_def)
qed

lemma sample_authenticates:
  "snd (fst (authenticate (sample_dcp sample_decode) sample_network sample_hub (Some ''Bearer k1.token'') (\<lambda>_. 1010) sample_hub_state))
     = Ok sample_payload"
  unfolding authenticate_Ok
  using sample_envelope_valid_under [of sample_decode "a_outbound sample_hub", OF _ sample_hub_allowed]
  by (simp add: sample_decode_def sample_hub_state_def seen_new_def)

theorem presentation_query_safe_witness:
  "let query = \<lparr>pq_context = [], pq_type = ''PresentationQueryMessage'', pq_scope = [SCOPE_ALIAS @ ''T''], pq_definition = None\<rparr>
   in respond (presentation_query (sample_dcp sample_decode) sample_network sample_serde rev sample_hub
        (Some ''Bearer k1.token'') query (\<lambda>_. 1010) ''vp1'' sample_hub_state)
      = resp_json 200 (presentation_response_json (presentation_response_new
          [build_presentation (sample_dcp sample_decode) sample_hub ''did:web:caller.example'' [] 1010 ''vp1'']))"
proof -
  define query where "query = \<lparr>pq_context = [], pq_type = ''PresentationQueryMessage'', pq_scope = [SCOPE_ALIAS @ ''T''], pq_definition = None\<rparr>"
  let ?D = "sample_dcp sample_decode"
  let ?run = "presentation_query ?D sample_network sample_serde rev sample_hub (Some ''Bearer k1.token'') query (\<lambda>_. 1010) ''vp1'' sample_hub_state"
  have perm: "permutes rev" by (simp add: permutes_def)
  have run: "?run = (fst ?run, snd ?run)" by simp
  note c = presentation_query_safe [OF sample_graph(1) perm sample_resolves run]
  have shape: "query_shape query = Ok ()" by (simp add: query_def query_shape_def)
  have tok: "get_str sample_payload ''token'' = None" by (simp add: sample_payload_def)
  then have "granted_credential_types ?D sample_hub sample_payload iss t = Ok []" for iss t
    by (simp add: granted_credential_types_def)
  then have "is_ok (snd (fst ?run))"
    unfolding presentation_query_def sio_bind_result using sample_authenticates shape by (simp add: Let_def)
  then obtain r where r: "snd (fst ?run) = Ok r" by (cases "snd (fst ?run)") auto
  then have "r_status (respond ?run) = 200" by (rule presentation_query_Ok) (simp add: respond_def r)
  with c obtain claims cs where env: "envelope_valid ?D sample_network (Some ''Bearer k1.token'') ''did:web:hub'' True (a_outbound sample_hub) 1010 1010 1010 claims"
    and resp: "respond ?run = resp_json 200 (presentation_response_json (presentation_response_new
           [build_presentation ?D sample_hub (str_claim claims ''iss'') cs 1010 ''vp1'']))"
    and each: "\<forall>c \<in> set cs. disclosable ?D sample_serde sample_hub (h_store sample_hub_state) query claims (\<lambda>_. 1010) c"
    unfolding prod.collapse sample_hub_simps by blast
  from env have "claims = sample_payload"
    unfolding envelope_valid_def by (auto simp: sample_dcp_def sample_decode_def split: if_splits)
  with each tok have "cs = []" "str_claim claims ''iss'' = ''did:web:caller.example''"
    by (auto simp: disclosable_def sample_payload_def str_claim_def)
  with resp show ?thesis by (simp add: query_def)
qed

definition sample_message :: credential_message where
  "sample_message = \<lparr>cm_context = [], cm_type = ''CredentialMessage'', cm_issuer_pid = ''i1'', cm_holder_pid = ''h1'',
     cm_status = ''ISSUED'', cm_credentials = [sample_container], cm_rejection_reason = None\<rparr>"

lemma sample_container_passes:
  "snd (verify_container_proof (sample_dcp sample_decode) sample_network True (a_outbound sample_hub) sample_container) = Ok ()"
  "check_container (sample_dcp sample_decode) ''did:web:hub'' (Some [''did:web:caller.example'']) 1010 sample_container = Ok ()"
proof -
  let ?D = "sample_dcp sample_decode"
  have f: "contains_str (to_lowercase (unicode_lowercase ?D) (trim (cc_format sample_container))) ''jwt''"
    unfolding sample_container_def by code_simp
  have d: "cc_payload sample_container = JStr ''k1.vc''" "decode_jws_unverified ?D ''k1.vc'' = Ok (json_obj [(''kid'', JStr ''k1'')], sample_vc)"
    by (simp_all add: sample_container_def sample_dcp_def sample_decode_def)
  have u: "did_web_to_url ?D ''did:web:caller.example'' True = Ok ''http://caller.example/.well-known/did.json''"
    by (simp add: sample_dcp_def strip_prefix_def starts_with_def)
  have did: "is_ok (check_did ?D (a_outbound sample_hub) ''did:web:caller.example'' True)"
    using sample_hub_allowed u by (simp add: is_ok_check_did check_did_Ok)
  have k: "snd (resolve_did sample_network ''did:web:caller.example'' True) = Ok [''k1'']"
    "find_verifying_key ?D [''k1''] ''k1'' = Ok ''k1''" "verify_jws_signature ?D ''k1.vc'' ''k1'' = Ok ()"
    by (simp_all add: sample_network_def sample_dcp_def strip_prefix_def starts_with_def)
  have i: "get_str sample_vc ''iss'' = Some ''did:web:caller.example''" by (simp add: sample_vc_def)
  show "snd (verify_container_proof ?D sample_network True (a_outbound sample_hub) sample_container) = Ok ()"
    unfolding verify_container_proof_Ok using f d did k i by (intro conjI exI) auto
  show "check_container ?D ''did:web:hub'' (Some [''did:web:caller.example'']) 1010 sample_container = Ok ()"
    unfolding check_container_Ok using d
    by (intro exI conjI) (auto simp: sample_container_def sample_vc_def has_type_def credential_subject_def is_within_validity_def
        CLOCK_SKEW_SECS_def u64_add_def u64_limit_def str_claim_def)
qed

theorem storage_write_correct_witness:
  "let run = storage_write (sample_dcp sample_decode) sample_network sample_trust sample_serde sample_hub
       (Some ''Bearer k1.token'') sample_message (\<lambda>_. 1010) ''b2'' sample_hub_state
   in r_status (respond run) = 200
    \<and> store_all sample_serde (h_store (snd run)) = [sample_batch, message_batch sample_message]"
proof -
  let ?D = "sample_dcp sample_decode"
  let ?run = "storage_write ?D sample_network sample_trust sample_serde sample_hub
       (Some ''Bearer k1.token'') sample_message (\<lambda>_. 1010) ''b2'' sample_hub_state"
  have exact: "\<forall>jws. payload_exact sample_serde (JStr jws)" by (simp add: payload_exact_def sample_serde_def)
  have run: "?run = (fst ?run, snd ?run)" by simp
  have cache: "trusted_cache sample_trust sample_hub (h_registry sample_hub_state)" by (simp add: trusted_cache_def)
  note c = storage_write_correct [OF sample_graph(1,2) exact sample_resolves cache run]
  have reg: "\<not> registry_configured sample_hub" by (simp add: registry_configured_def)
  have iss: "caller sample_payload = ''did:web:caller.example''" by (simp add: caller_def sample_payload_def str_claim_def)
  have trusted: "snd (fst (trust_issuer ?D sample_network sample_trust sample_hub cl ''did:web:caller.example'' ts st)) = Ok ()" for cl ts st
    by (simp add: trust_issuer_Ok static_check_issuer [OF reg])
  have "is_ok (snd (fst ?run))"
    unfolding storage_write_def storage_checks_def sio_bind_result
    using sample_authenticates sample_container_passes reg iss trusted
    by (simp add: sample_message_def validate_status_def check_known_holder_pid_def verify_credential_proofs_def
        check_credential_claims_def snd_io_bind)
  then obtain r where r: "snd (fst ?run) = Ok r" by (cases "snd (fst ?run)") auto
  then have "r_status (respond ?run) = 200" by (auto simp: storage_write_def sio_bind_result respond_def split: sum.splits)
  with c show ?thesis by (simp add: Let_def sample_graph(3) push_def MAX_CREDENTIAL_BATCHES_def)
qed

section \<open>Offers\<close>

lemma offer_checks_confined [hub_confined]:
  "resolves_through D N \<Longrightarrow> sconfined D (a_outbound a) (offer_checks D N T parse a hdr msg clock)"
  unfolding offer_checks_def
  by (intro sconfined_bind authenticate_confined trust_issuer_confined) (simp_all add: validate_offer_confined)

lemma offer_checks_keeps: "keeps h_store (offer_checks D N T parse a hdr msg clock)"
  unfolding offer_checks_def by (intro keeps_bind auth_keeps keeps_simps)

lemma offer_checks_refuses: "refuses {400, 401} (offer_checks D N T parse a hdr msg clock)"
  unfolding offer_checks_def by (intro refuses_bind) (auto simp: validation_error_response_def)

lemma offer_checks_Ok:
  "snd (fst (offer_checks D N T parse a hdr msg clock s)) = Ok u \<Longrightarrow>
   \<exists>claims. snd (fst (authenticate D N a hdr clock s)) = Ok claims
     \<and> snd (fst (check_issuer D N T a (clock 3) (clock 4) (caller claims)
          (List.map_filter co_credential_type (of_credentials msg)) (h_registry s))) = Ok ()
     \<and> is_ok (snd (validate_offer_credentials D N parse (of_issuer msg) (of_credentials msg) (insecure_http (a_config a)) (a_outbound a)))"
  unfolding offer_checks_def sio_bind_Ok by (auto simp: trust_issuer_Ok keepsD [OF auth_keeps(3)])

text \<open>
  An offer is recorded, as the newest one, exactly when the answer is 200; then its sender proved its
  DID and passed the trust step, and the offer names credentials its issuer really has. The types the
  trust step looks at are only those the offer spells out, so an offer given by ids alone asks the
  registry for no type at all. Otherwise the answer is 400 or 401 and the graph is unchanged; stored
  credentials are never touched.
\<close>

theorem credential_offer_correct:
  fixes D :: "('d, 'k) dcp" and s :: "'l hub_state"
  assumes ok: "graph_ok S (h_store s)" and room: "next_order (h_store s) + 1 < u64_limit" and law: "resolves_through D N"
    and run: "credential_offer D N T parse a hdr msg clock i s = (m, s')"
  shows "confined D (a_outbound a) m \<and> graph_ok S (h_store s') \<and> store_all S (h_store s') = store_all S (h_store s)
    \<and> r_status (respond (m, s')) \<in> {200, 400, 401}
    \<and> (if r_status (respond (m, s')) = 200
       then offers (h_store s') = push MAX_ACCEPTED_OFFERS (read_offer i (message_offer msg)) (offers (h_store s))
         \<and> (\<exists>claims. envelope_valid D N hdr (own_did (a_identity a)) (insecure_http (a_config a)) (a_outbound a)
               (clock 0) (clock 1) (clock 2) claims
             \<and> snd (fst (check_issuer D N T a (clock 3) (clock 4) (caller claims)
                  (List.map_filter co_credential_type (of_credentials msg)) (h_registry s))) = Ok ()
             \<and> ((\<forall>c \<in> set (of_credentials msg). co_credential_type c = None) \<longrightarrow>
                  snd (fst (check_issuer D N T a (clock 3) (clock 4) (caller claims) [] (h_registry s))) = Ok ()))
         \<and> is_ok (snd (validate_offer_credentials D N parse (of_issuer msg) (of_credentials msg) (insecure_http (a_config a)) (a_outbound a)))
       else h_store s' = h_store s)"
proof -
  have "sconfined D (a_outbound a) (credential_offer D N T parse a hdr msg clock i)"
    unfolding credential_offer_def by (intro sconfined_bind offer_checks_confined [OF law] sconfined_modify)
  then have conf: "confined D (a_outbound a) m" unfolding sconfined_def using run by (metis fst_conv)
  have same: "h_store (snd (offer_checks D N T parse a hdr msg clock s)) = h_store s" by (rule keepsD [OF offer_checks_keeps])
  show ?thesis
  proof (cases "snd (fst (offer_checks D N T parse a hdr msg clock s))")
    case (Inl r)
    with run have m: "snd m = Inl r" "s' = snd (offer_checks D N T parse a hdr msg clock s)"
      unfolding credential_offer_def by (auto simp: sio_bind_def split: prod.splits)
    moreover have "r_status r \<in> {400, 401}" using refusesD [OF offer_checks_refuses Inl] .
    ultimately show ?thesis using conf same ok by (auto simp: respond_def)
  next
    case (Inr u)
    then have m: "snd m = Ok (resp 200 NoBody)" "h_store s' = snd (add_offer i (message_offer msg) (h_store s))"
      using run same unfolding credential_offer_def by (auto simp: sio_bind_def sio_modify_def io_pure_def split: prod.splits)
    have sparse: "List.map_filter co_credential_type cs = []" if "\<forall>c \<in> set cs. co_credential_type c = None" for cs
      using that by (simp add: List.map_filter_def filter_empty_conv)
    note st = add_offer_refines [OF ok room, of i "message_offer msg"]
    from offer_checks_Ok [OF Inr] conf m st sparse [of "of_credentials msg"] show ?thesis
      unfolding authenticate_Ok by (auto simp: respond_def store_all_def)
  qed
qed

theorem credential_offer_correct_witness:
  "let msg = \<lparr>of_context = [], of_type = ''CredentialOfferMessage'', of_issuer = ''did:web:caller.example'', of_credentials = []\<rparr>;
       run = credential_offer (sample_dcp sample_decode) sample_network sample_trust (\<lambda>_. Err []) sample_hub
         (Some ''Bearer k1.token'') msg (\<lambda>_. 1010) ''o1'' sample_hub_state
   in r_status (respond run) = 400 \<and> h_store (snd run) = h_store sample_hub_state"
proof -
  define msg where "msg = \<lparr>of_context = [], of_type = ''CredentialOfferMessage'', of_issuer = ''did:web:caller.example'', of_credentials = []\<rparr>"
  let ?run = "credential_offer (sample_dcp sample_decode) sample_network sample_trust (\<lambda>_. Err []) sample_hub
         (Some ''Bearer k1.token'') msg (\<lambda>_. 1010) ''o1'' sample_hub_state"
  have run: "?run = (fst ?run, snd ?run)" by simp
  note c = credential_offer_correct [OF sample_graph(1,2) sample_resolves run]
  have reg: "\<not> registry_configured sample_hub" by (simp add: registry_configured_def)
  have iss: "caller sample_payload = ''did:web:caller.example''" by (simp add: caller_def sample_payload_def str_claim_def)
  have trusted: "snd (fst (trust_issuer (sample_dcp sample_decode) sample_network sample_trust sample_hub cl ''did:web:caller.example'' ts st)) = Ok ()" for cl ts st
    by (simp add: trust_issuer_Ok static_check_issuer [OF reg])
  have "snd (fst ?run) = Inl (validation_error_response EmptyCredentials)"
    unfolding credential_offer_def offer_checks_def sio_bind_result using sample_authenticates iss trusted
    by (simp add: msg_def validate_offer_credentials_def)
  then have "r_status (respond ?run) = 400" by (simp add: respond_def validation_error_response_def)
  with c show ?thesis by (simp add: Let_def msg_def)
qed

section \<open>The token endpoint\<close>

text \<open>
  The token endpoint answers 200 exactly when the token service grants the request, and 400
  otherwise; but the OAuth error code in the body is \<open>invalid_client\<close> whatever went wrong, an
  unsupported grant type and an empty audience included.
\<close>

theorem sts_token_answers:
  "(r_status (sts_token D a body now jti nested_jti) = 200 \<longleftrightarrow>
      sf_grant_type body = ''client_credentials'' \<and> sf_client_id body = sts_client_id (a_sts_config a)
      \<and> sf_client_secret body = sts_client_secret (a_sts_config a) \<and> trim (sf_audience body) \<noteq> [])
   \<and> (r_status (sts_token D a body now jti nested_jti) \<noteq> 200 \<longrightarrow>
      r_status (sts_token D a body now jti nested_jti) = 400
      \<and> (\<exists>j. r_body (sts_token D a body now jti nested_jti) = JsonBody j \<and> get_str j ''error'' = Some ''invalid_client''
           \<and> get_str j ''error_description'' = Some (sts_message
               (if sf_grant_type body \<noteq> ''client_credentials'' then UnsupportedGrantType
                else if sf_client_id body \<noteq> sts_client_id (a_sts_config a) \<or> sf_client_secret body \<noteq> sts_client_secret (a_sts_config a)
                then InvalidClient else InvalidRequest ''audience must not be empty''))))"
  by (auto simp: sts_token_def issue_token_def bytes_eq_iff split: sum.splits if_splits)

theorem sts_token_answers_witness:
  "let body = \<lparr>sf_grant_type = ''refresh_token'', sf_client_id = ''c'', sf_client_secret = ''s'', sf_audience = ''x'', sf_bearer_access_scope = None\<rparr>
   in \<exists>j. r_body (sts_token (sample_dcp sample_decode) sample_hub body 1010 ''a'' ''b'') = JsonBody j \<and> get_str j ''error'' = Some ''invalid_client''"
  using sts_token_answers [of "sample_dcp sample_decode" sample_hub
    "\<lparr>sf_grant_type = ''refresh_token'', sf_client_id = ''c'', sf_client_secret = ''s'', sf_audience = ''x'', sf_bearer_access_scope = None\<rparr>" 1010 "''a''" "''b''"]
  by (auto simp: Let_def)

end
