(* ===== verification/Issuer_Service.thy ===== *)
theory Issuer_Service
  imports Admin Credential_Service
begin

text \<open>
  The Issuer Service's public handlers (handlers.rs): the Credential Request API with its
  authentication, the asynchronous delivery of a process as one run (signing the credentials, the
  request to the holder's Storage API, the bookkeeping on either outcome), the status API, issuer
  metadata and the published status list. chrono, gzip and base64 are parameters.
\<close>

definition STATUS_LIST_CONTEXT :: string where
  "STATUS_LIST_CONTEXT = ''https://w3id.org/vc/status-list/2021/v1''"

definition STATUS_LIST_PATH :: string where
  "STATUS_LIST_PATH = ''/statuslist/revocation''"

section \<open>Credential Request API\<close>

text \<open>The answer and the delivery the request starts, if any.\<close>

definition credential_request ::
    "('d, 'k) dcp \<Rightarrow> 'd network \<Rightarrow> 'k app \<Rightarrow> string option \<Rightarrow> credential_request_message \<Rightarrow> (nat \<Rightarrow> u64)
     \<Rightarrow> string \<Rightarrow> string \<Rightarrow> ('l hub_state, response \<times> string list, response) sio" where
  "credential_request D N a hdr msg clock process_id new_holder_id =
     sio_bind (authenticate D N a hdr clock) (\<lambda>claims.
     sio_bind (sio_return (ok_or (get_str claims ''sub'') (resp_text 400 ''token has no sub claim''))) (\<lambda>holder_did s.
       case request_section (cfg_holder_approval (a_config a)) process_id new_holder_id (clock 3) holder_did
              (rq_holder_pid msg) (get_str claims ''token'') (dedup_ids [] (rq_credentials msg)) (h_issuer s) of
         (Inl r, i) \<Rightarrow> (io_pure (Err r), s\<lparr>h_issuer := i\<rparr>)
       | (Inr deliver_now, i) \<Rightarrow>
           (io_pure (Ok (with_header ''location'' (''/requests/'' @ process_id) (resp 201 NoBody),
              if deliver_now then [process_id] else [])), s\<lparr>h_issuer := i\<rparr>)))"

section \<open>Minting\<close>

record 't chrono =
  from_timestamp :: "int \<Rightarrow> 't option"
  max_utc :: 't
  to_rfc3339 :: "'t \<Rightarrow> string"

definition xsd_date_time :: "'t chrono \<Rightarrow> u64 \<Rightarrow> string" where
  "xsd_date_time X secs =
     to_rfc3339 X (case (if secs < 2 ^ 63 then from_timestamp X (int secs) else None) of
       None \<Rightarrow> max_utc X | Some t \<Rightarrow> t)"

definition status_list_url :: "'k app \<Rightarrow> string" where
  "status_list_url a = base_url_of a @ STATUS_LIST_PATH"

record minted_credential =
  mc_id :: string
  mc_jws :: string
  mc_issued_at :: u64
  mc_expires_at :: u64

definition credential_status_entry :: "string \<Rightarrow> nat \<Rightarrow> json" where
  "credential_status_entry list_url i = json_obj
     [(''id'', JStr (list_url @ ''#'' @ nat_to_string i)), (''type'', JStr ''StatusList2021Entry''),
      (''statusPurpose'', JStr ''revocation''), (''statusListIndex'', JStr (nat_to_string i)),
      (''statusListCredential'', JStr list_url)]"

definition minted_vc ::
    "'t chrono \<Rightarrow> 'k app \<Rightarrow> credential_definition \<Rightarrow> string \<Rightarrow> nat option \<Rightarrow> u64 \<Rightarrow> u64 \<Rightarrow> string \<Rightarrow> json" where
  "minted_vc X a d holder_did status_index issued_at expires_at vc_id =
     (let vc = json_obj
        [(''@context'', JArr [JStr VC_CONTEXT]), (''id'', JStr vc_id),
         (''type'', JArr [JStr ''VerifiableCredential'', JStr (cd_credential_type d)]),
         (''issuer'', JStr (own_did (a_identity a))),
         (''issuanceDate'', JStr (xsd_date_time X issued_at)),
         (''expirationDate'', JStr (xsd_date_time X expires_at)),
         (''credentialSubject'', json_obj [(''id'', JStr holder_did)])]
      in case status_index of
           None \<Rightarrow> vc
         | Some i \<Rightarrow> json_set ''credentialStatus'' (credential_status_entry (status_list_url a) i)
             (json_set ''@context'' (JArr [JStr VC_CONTEXT, JStr STATUS_LIST_CONTEXT]) vc))"

definition minted_payload ::
    "'t chrono \<Rightarrow> 'k app \<Rightarrow> credential_definition \<Rightarrow> string \<Rightarrow> nat option \<Rightarrow> u64 \<Rightarrow> string \<Rightarrow> json" where
  "minted_payload X a d holder_did status_index issued_at vc_id =
     (let expires_at = u64_add issued_at (cd_validity d) in
      json_obj
       [(''iss'', JStr (own_did (a_identity a))), (''sub'', JStr holder_did),
        (''vc'', minted_vc X a d holder_did status_index issued_at expires_at vc_id),
        (''iat'', jnat issued_at), (''nbf'', jnat issued_at), (''exp'', jnat expires_at), (''jti'', JStr vc_id)])"

definition mint_credential ::
    "('d, 'k) dcp \<Rightarrow> 't chrono \<Rightarrow> 'k app \<Rightarrow> credential_definition \<Rightarrow> string \<Rightarrow> nat option \<Rightarrow> u64 \<Rightarrow> string
     \<Rightarrow> minted_credential" where
  "mint_credential D X a d holder_did status_index now uuid =
     (let vc_id = credential_urn uuid in
      \<lparr>mc_id = vc_id,
       mc_jws = sign_jws D (minted_payload X a d holder_did status_index now vc_id)
                  (own_key (a_identity a)) (own_key_id (a_identity a)),
       mc_issued_at = now, mc_expires_at = u64_add now (cd_validity d)\<rparr>)"

section \<open>Delivery\<close>

record delivery_job =
  dj_process_id :: string
  dj_holder_id :: string
  dj_holder_pid :: string
  dj_holder_did :: string
  dj_delivery_bearer :: "string option"
  dj_definitions :: "credential_definition list"

definition job_of :: "issuance_process \<Rightarrow> credential_definition list \<Rightarrow> delivery_job" where
  "job_of p defs = \<lparr>dj_process_id = p_id p, dj_holder_id = p_holder_id p, dj_holder_pid = p_holder_pid p,
     dj_holder_did = p_holder_did p, dj_delivery_bearer = p_delivery_bearer p, dj_definitions = defs\<rparr>"

definition minted_container :: "credential_definition \<Rightarrow> minted_credential \<Rightarrow> credential_container" where
  "minted_container d minted = \<lparr>cc_type = cd_credential_type d, cc_payload = JStr (mc_jws minted), cc_format = ''jwt''\<rparr>"

definition issued_record :: "delivery_job \<Rightarrow> credential_definition \<Rightarrow> minted_credential \<Rightarrow> nat \<Rightarrow> issued_credential" where
  "issued_record job d minted i =
     \<lparr>c_id = mc_id minted, c_type = cd_credential_type d, c_definition_id = cd_id d,
      c_holder_id = dj_holder_id job, c_holder_did = dj_holder_did job, c_process_id = dj_process_id job,
      c_format = cd_format d, c_issued_at = mc_issued_at minted, c_expires_at = mc_expires_at minted,
      c_status = RActive, c_index = i\<rparr>"

text \<open>
  The loop over the definitions. Its state is the indexes taken so far and the issued credentials; the
  \<open>k\<close>-th round reads the clock and draws a UUID.
\<close>

fun mint_each ::
    "('d, 'k) dcp \<Rightarrow> 't chrono \<Rightarrow> 'k app \<Rightarrow> delivery_job \<Rightarrow> (nat \<Rightarrow> u64) \<Rightarrow> (nat \<Rightarrow> string) \<Rightarrow> nat \<Rightarrow> credential_definition list
     \<Rightarrow> (nat list \<times> issued_credentials, (credential_container \<times> issued_credential) list, string) sio" where
  "mint_each D X a job clock uuid k [] = sio_return (Ok [])"
| "mint_each D X a job clock uuid k (d # defs) =
     sio_bind (\<lambda>(allocated, ic).
        case issued_allocate ic of
          (None, ic') \<Rightarrow>
            (io_pure (Err ''the revocation status list is exhausted; no further credentials can be issued''), (allocated, ic'))
        | (Some i, ic') \<Rightarrow> (io_pure (Ok i), (allocated @ [i], ic'))) (\<lambda>i.
     sio_bind (mint_each D X a job clock uuid (Suc k) defs) (\<lambda>rest.
       let minted = mint_credential D X a d (dj_holder_did job) (Some i) (clock k) (uuid k) in
       sio_return (Ok ((minted_container d minted, issued_record job d minted i) # rest))))"

definition container_json :: "credential_container \<Rightarrow> json" where
  "container_json c = json_obj [(''credentialType'', JStr (cc_type c)), (''payload'', cc_payload c), (''format'', JStr (cc_format c))]"

definition credential_message_json :: "credential_message \<Rightarrow> json" where
  "credential_message_json m = json_obj
     [(''@context'', JArr (map JStr (cm_context m))), (''type'', JStr (cm_type m)),
      (''issuerPid'', JStr (cm_issuer_pid m)), (''holderPid'', JStr (cm_holder_pid m)), (''status'', JStr (cm_status m)),
      (''credentials'', JArr (map container_json (cm_credentials m))),
      (''rejectionReason'', opt_json JStr (cm_rejection_reason m))]"

definition delivery_message :: "delivery_job \<Rightarrow> credential_container list \<Rightarrow> credential_message" where
  "delivery_message job containers =
     \<lparr>cm_context = [DCP_CONTEXT], cm_type = ''CredentialMessage'', cm_issuer_pid = dj_process_id job,
      cm_holder_pid = dj_holder_pid job, cm_status = ''ISSUED'', cm_credentials = containers, cm_rejection_reason = None\<rparr>"

definition delivery_token_payload :: "'k app \<Rightarrow> delivery_job \<Rightarrow> u64 \<Rightarrow> string \<Rightarrow> json" where
  "delivery_token_payload a job now jti =
     (let payload = json_obj
        [(''iss'', JStr (own_did (a_identity a))), (''sub'', JStr (own_did (a_identity a))),
         (''aud'', JStr (dj_holder_did job)), (''iat'', jnat now), (''nbf'', jnat now),
         (''exp'', jnat (u64_add now 300)), (''jti'', JStr jti)]
      in case dj_delivery_bearer job of None \<Rightarrow> payload | Some token \<Rightarrow> json_set ''token'' (JStr token) payload)"

text \<open>The HTTP client refuses a URL it cannot parse before it contacts anything.\<close>

definition post_json ::
    "('d, 'k) dcp \<Rightarrow> 'd network \<Rightarrow> string \<Rightarrow> string \<Rightarrow> json \<Rightarrow> (nat \<times> string, string) io" where
  "post_json D N url bearer body =
     (let r = http_post N url (Some (''Bearer '' @ bearer)) (JsonBody body)
      in if is_ok (url_parse D url) then io_contact url r else io_pure r)"

definition try_deliver_issued_credential ::
    "('d, 'k) dcp \<Rightarrow> 'd network \<Rightarrow> 't chrono \<Rightarrow> 'k app \<Rightarrow> delivery_job \<Rightarrow> (nat \<Rightarrow> u64) \<Rightarrow> (nat \<Rightarrow> string)
     \<Rightarrow> (nat list \<times> issued_credentials, issued_credential list, string) sio" where
  "try_deliver_issued_credential D N X a job clock uuid =
     sio_bind (sio_return (map_err outbound_message (check_did D (a_outbound a) (dj_holder_did job) (insecure_http (a_config a))))) (\<lambda>_.
     sio_bind (sio_lift (resolve_did N (dj_holder_did job) (insecure_http (a_config a)))) (\<lambda>holder_doc.
     sio_bind (sio_return (service_endpoint_url D holder_doc ''CredentialService'')) (\<lambda>endpoint.
     sio_bind (sio_return (map_err outbound_message (check_url D (a_outbound a) endpoint))) (\<lambda>_.
     sio_bind (mint_each D X a job clock uuid 0 (dj_definitions job)) (\<lambda>minted.
     let n = length (dj_definitions job);
         message = delivery_message job (map fst minted);
         si_token = sign_jws D (delivery_token_payload a job (clock n) (uuid n)) (own_key (a_identity a)) (own_key_id (a_identity a)) in
     sio_bind (sio_lift (post_json D N (endpoint @ ''/credentials'') si_token (credential_message_json message))) (\<lambda>(st, body).
     sio_return (if is_success st then Ok (map snd minted)
                 else Err (''Storage API returned HTTP '' @ status_display D st))))))))"

text \<open>One delivery from claim to close, without interference; the trace is of the URLs it contacted.\<close>

definition deliver_issued_credential ::
    "('d, 'k) dcp \<Rightarrow> 'd network \<Rightarrow> 't chrono \<Rightarrow> 'k app \<Rightarrow> string \<Rightarrow> (nat \<Rightarrow> u64) \<Rightarrow> (nat \<Rightarrow> string) \<Rightarrow> u64 \<Rightarrow> issuer_state
     \<Rightarrow> (string list \<times> issuer_state) option" where
  "deliver_issued_credential D N X a process_id clock uuid now s =
     (case claim process_id (s_requests s) of
        (None, t) \<Rightarrow> Some ([], s\<lparr>s_requests := t\<rparr>)
      | (Some p, t) \<Rightarrow>
          let finish = (\<lambda>st err ic. s\<lparr>s_requests := close_process process_id st err now t, s_issued := ic\<rparr>) in
          case lookup_definitions (s_definitions s) (p_credential_definitions p) of
            Inl e \<Rightarrow> Some ([], finish PErrored (Some e) (s_issued s))
          | Inr defs \<Rightarrow>
              (case try_deliver_issued_credential D N X a (job_of p defs) clock uuid ([], s_issued s) of
                 ((tr, Inl e), (allocated, ic)) \<Rightarrow>
                   map_option (\<lambda>ic'. (tr, finish PErrored (Some e) ic')) (release_each issued_release allocated ic)
               | ((tr, Inr rs), (allocated, ic)) \<Rightarrow> Some (tr, finish PDelivered None (record_issued rs ic))))"

section \<open>Status, metadata and the status list\<close>

definition credential_status_json :: "credential_status_message \<Rightarrow> json" where
  "credential_status_json m = json_obj
     [(''@context'', JArr (map JStr (cs_context m))), (''type'', JStr (cs_type m)),
      (''issuerPid'', JStr (cs_issuer_pid m)), (''holderPid'', JStr (cs_holder_pid m)), (''status'', JStr (cs_status m))]"

definition request_status :: "string \<Rightarrow> issuer_state \<Rightarrow> response" where
  "request_status i s =
     (case rt_get (s_requests s) i of
        Some p \<Rightarrow> resp_json 200 (credential_status_json (credential_status_new (p_id p) (p_holder_pid p) (dcp_status (p_state p))))
      | None \<Rightarrow> resp 404 NoBody)"

definition catalog_object :: "credential_definition \<Rightarrow> credential_object" where
  "catalog_object d =
     \<lparr>co_context = None, co_id = cd_id d, co_object_type = ''CredentialObject'',
      co_credential_type = Some (cd_credential_type d), co_binding_methods = Some [''did:web''],
      co_credential_schema = None, co_profile = Some ''vc10-sl2021/jwt'', co_issuance_policy = None,
      co_offer_reason = None\<rparr>"

definition issuer_metadata_handler :: "'k app \<Rightarrow> issuer_state \<Rightarrow> issuer_metadata" where
  "issuer_metadata_handler a s = issuer_metadata_new (own_did (a_identity a)) (map catalog_object (definitions (s_definitions s)))"

text \<open>\<open>encode\<close> is gzip and unpadded base64url of the bit string.\<close>

definition status_list_payload :: "(8 word list \<Rightarrow> string) \<Rightarrow> 'k app \<Rightarrow> status_list \<Rightarrow> u64 \<Rightarrow> json" where
  "status_list_payload encode a sl now =
     (let list_url = status_list_url a in json_obj
       [(''iss'', JStr (own_did (a_identity a))), (''sub'', JStr list_url), (''iat'', jnat now), (''nbf'', jnat now),
        (''vc'', json_obj
           [(''@context'', JArr [JStr VC_CONTEXT, JStr STATUS_LIST_CONTEXT]), (''id'', JStr list_url),
            (''type'', JArr [JStr ''VerifiableCredential'', JStr ''StatusList2021Credential'']),
            (''issuer'', JStr (own_did (a_identity a))),
            (''credentialSubject'', json_obj
               [(''id'', JStr (list_url @ ''#list'')), (''type'', JStr ''StatusList2021''),
                (''statusPurpose'', JStr ''revocation''), (''encodedList'', JStr (encode (bits sl)))])])])"

definition status_list_jwt :: "('d, 'k) dcp \<Rightarrow> (8 word list \<Rightarrow> string) \<Rightarrow> 'k app \<Rightarrow> status_list \<Rightarrow> u64 \<Rightarrow> string" where
  "status_list_jwt D encode a sl now =
     sign_jws D (status_list_payload encode a sl now) (own_key (a_identity a)) (own_key_id (a_identity a))"

definition serve_status_list ::
    "('d, 'k) dcp \<Rightarrow> (8 word list \<Rightarrow> string) \<Rightarrow> 'k app \<Rightarrow> u64 \<Rightarrow> issued_credentials \<Rightarrow> string \<times> issued_credentials" where
  "serve_status_list D encode a now ic =
     (case cached_jwt (ic_list ic) of
        Some jwt \<Rightarrow> (jwt, ic)
      | None \<Rightarrow>
          let jwt = status_list_jwt D encode a (ic_list ic) now
          in (jwt, ic\<lparr>ic_list := (ic_list ic)\<lparr>cached_jwt := Some jwt\<rparr>\<rparr>))"

definition status_list_response :: "string \<Rightarrow> response" where
  "status_list_response jwt = with_header ''content-type'' ''application/vc+jwt'' (resp 200 (TextBody jwt))"


section \<open>A delivery is a path of its task\<close>

inductive task_steps :: "issuer_state \<Rightarrow> string fset \<Rightarrow> task \<Rightarrow> issuer_state \<Rightarrow> string fset \<Rightarrow> task \<Rightarrow> bool" where
  stay: "task_steps s d t s d t"
| move: "task_step s d t s1 d1 t1 \<Longrightarrow> task_steps s1 d1 t1 s' d' t' \<Longrightarrow> task_steps s d t s' d' t'"

lemma task_steps_trans:
  "task_steps s d t s1 d1 t1 \<Longrightarrow> task_steps s1 d1 t1 s2 d2 t2 \<Longrightarrow> task_steps s d t s2 d2 t2"
  by (induction rule: task_steps.induct) (auto intro: task_steps.intros)

lemma task_steps_one: "task_step s d t s' d' t' \<Longrightarrow> task_steps s d t s' d' t'"
  by (rule move [OF _ stay])

text \<open>Only its first section, that takes the permit, can keep a task waiting.\<close>

lemma task_step_runs_on: "task_step s d t s' d' t' \<Longrightarrow> may_run ts t'"
  by (cases rule: task_step.cases) auto

lemma task_steps_tasks:
  assumes "task_steps s d t s' d' t'" "i < length (tasks w)" "shared w = s" "drawn w = d" "tasks w ! i = t"
    and "may_run (tasks w) t"
  shows "step\<^sup>*\<^sup>* w (w\<lparr>shared := s', drawn := d', tasks := (tasks w)[i := t']\<rparr>)"
  using assms
proof (induction arbitrary: w rule: task_steps.induct)
  case (stay s d t)
  then have "(tasks w)[i := t] = tasks w" by auto
  with stay show ?case by (cases w) simp
next
  case (move s d t s1 d1 t1 s' d' t')
  let ?w = "w\<lparr>shared := s1, drawn := d1, tasks := (tasks w)[i := t1]\<rparr>"
  have "task_move i w ?w" using task_move.intros [of i w s1 d1 t1] move.hyps(1) move.prems by simp
  then have "step w ?w" by (rule step.task)
  moreover have "step\<^sup>*\<^sup>* ?w (?w\<lparr>shared := s', drawn := d', tasks := (tasks ?w)[i := t']\<rparr>)"
    by (rule move.IH) (use move.prems(1) task_step_runs_on [OF move.hyps(1)] in simp_all)
  ultimately show ?case by (simp add: converse_rtranclp_into_rtranclp)
qed

lemma mint_each_Cons:
  "mint_each D X a job clock uuid k (dn # defs) (al, ic) =
     (case issued_allocate ic of
        (None, ic') \<Rightarrow> (([], Inl ''the revocation status list is exhausted; no further credentials can be issued''), (al, ic'))
      | (Some i, ic') \<Rightarrow>
          (case mint_each D X a job clock uuid (Suc k) defs (al @ [i], ic') of
             ((tr, Inl e), st) \<Rightarrow> ((tr, Inl e), st)
           | ((tr, Inr rest), st) \<Rightarrow>
               (let minted = mint_credential D X a dn (dj_holder_did job) (Some i) (clock k) (uuid k) in
                ((tr, Inr ((minted_container dn minted, issued_record job dn minted i) # rest)), st))))"
  by (simp add: sio_bind_def io_pure_def sio_return_def sio_lift_def Let_def split: prod.splits option.splits sum.splits)

lemma mint_each_Nil [simp]: "mint_each D X a job clock uuid k [] st = (([], Inr []), st)"
  by (simp add: sio_return_def sio_lift_def io_pure_def)

declare mint_each.simps [simp del]

text \<open>The loop contacts nobody and takes indexes that were not in use.\<close>

lemma mint_each_pool:
  assumes "mint_each D X a job clock uuid k defs (al, ic) = ((tr, res), (al', ic'))" "issued_ok ic F"
  shows "tr = [] \<and> (\<exists>new. al' = al @ new \<and> distinct new \<and> set new \<inter> F = {} \<and> issued_ok ic' (F \<union> set new)
    \<and> (\<forall>minted. res = Ok minted \<longrightarrow> map (c_index \<circ> snd) minted = new))"
  using assms
proof (induction defs arbitrary: k al ic F res)
  case (Cons dn defs)
  obtain al1 ic1 where alloc: "issued_allocate ic = (al1, ic1)" by fastforce
  show ?case
  proof (cases al1)
    case None
    with alloc pool.alloc_full [of ic ic1] Cons.prems show ?thesis by (auto simp: mint_each_Cons)
  next
    case (Some i)
    obtain tr1 res1 st1 where rec: "mint_each D X a job clock uuid (Suc k) defs (al @ [i], ic1) = ((tr1, res1), st1)"
      by (metis prod.collapse)
    have st: "tr1 = tr" "st1 = (al', ic')" "\<And>m. res = Ok m \<Longrightarrow> \<exists>c r rest. m = (c, r) # rest \<and> res1 = Ok rest \<and> c_index r = i"
      using Cons.prems(1) by (auto simp: mint_each_Cons alloc Some rec Let_def issued_record_def split: sum.splits)
    from pool.alloc_fresh [of ic F i ic1] alloc Some Cons.prems(2) have i: "i \<notin> F" "issued_ok ic1 (insert i F)" by auto
    from Cons.IH [OF rec [unfolded st] i(2)] obtain new where new: "tr = []" "al' = (al @ [i]) @ new" "distinct new"
      "set new \<inter> insert i F = {}" "issued_ok ic' (insert i F \<union> set new)"
      "\<forall>minted. res1 = Ok minted \<longrightarrow> map (c_index \<circ> snd) minted = new" by blast
    have "insert i F \<union> set new = F \<union> set (i # new)" by auto
    with new i st(3) show ?thesis by (intro conjI exI [of _ "i # new"]) auto
  qed
qed auto

text \<open>Its rounds are the minting steps of the task.\<close>

lemma issued_record_minted:
  "issued_record (job_of p defs) dn (mint_credential D X a dn h i' now uuid) i
   = minted_record (p_id p) (p_holder_id p) (p_holder_did p) dn uuid now i"
  by (simp add: issued_record_def job_of_def mint_credential_def minted_record_def Let_def)

lemma mint_each_steps:
  assumes "mint_each D X a (job_of p all) clock uuid k defs (map c_index rs, ic) = ((tr, res), (al', ic'))"
    and "inj_on uuid {k..<k + length defs}" "uuid ` {k..<k + length defs} \<inter> fset d = {}"
  shows "\<exists>d'. fset d' \<subseteq> fset d \<union> uuid ` {k..<k + length defs} \<and> (case res of
      Inl e \<Rightarrow> task_steps (s\<lparr>s_issued := ic\<rparr>) d (Minting p defs rs) (s\<lparr>s_issued := ic'\<rparr>) d' (Failing p al' e)
    | Inr minted \<Rightarrow> task_steps (s\<lparr>s_issued := ic\<rparr>) d (Minting p defs rs) (s\<lparr>s_issued := ic'\<rparr>) d' (Minting p [] (rs @ map snd minted)))"
  using assms
proof (induction defs arbitrary: k rs ic d res)
  case Nil
  then show ?case by (auto intro!: exI [of _ d] stay)
next
  case (Cons dn defs)
  obtain al1 ic1 where alloc: "issued_allocate ic = (al1, ic1)" by fastforce
  have range: "{k..<k + length (dn # defs)} = insert k {Suc k..<Suc k + length defs}" by auto
  show ?case
  proof (cases al1)
    case None
    have "task_step (s\<lparr>s_issued := ic\<rparr>) d (Minting p (dn # defs) rs) ((s\<lparr>s_issued := ic\<rparr>)\<lparr>s_issued := ic1\<rparr>) d
        (Failing p (map c_index rs) ''the revocation status list is exhausted; no further credentials can be issued'')"
      by (rule exhausted) (use alloc None in simp)
    moreover have "res = Err ''the revocation status list is exhausted; no further credentials can be issued''"
      "ic' = ic1" "al' = map c_index rs"
      using Cons.prems(1) alloc None by (simp_all add: mint_each_Cons)
    ultimately show ?thesis using task_steps_one by (intro exI [of _ d]) simp
  next
    case (Some i)
    let ?r = "minted_record (p_id p) (p_holder_id p) (p_holder_did p) dn (uuid k) (clock k) i"
    have fresh: "uuid k |\<notin>| d" using Cons.prems(3) unfolding range by blast
    have st: "task_step (s\<lparr>s_issued := ic\<rparr>) d (Minting p (dn # defs) rs) ((s\<lparr>s_issued := ic\<rparr>)\<lparr>s_issued := ic1\<rparr>)
        (finsert (uuid k) d) (Minting p defs (rs @ [?r]))"
      by (rule mint [OF _ fresh refl]) (use alloc Some in simp)
    obtain tr1 res1 st1 where rec: "mint_each D X a (job_of p all) clock uuid (Suc k) defs (map c_index rs @ [i], ic1) = ((tr1, res1), st1)"
      by (metis prod.collapse)
    then have rec': "mint_each D X a (job_of p all) clock uuid (Suc k) defs (map c_index (rs @ [?r]), ic1) = ((tr, res1), (al', ic'))"
      and res: "\<And>m. res = Ok m \<Longrightarrow> \<exists>c rest. m = (c, ?r) # rest \<and> res1 = Ok rest" "\<And>e. res = Err e \<Longrightarrow> res1 = Err e"
      using Cons.prems(1) by (auto simp: mint_each_Cons alloc Some Let_def issued_record_minted split: sum.splits)
    have "inj_on uuid {Suc k..<Suc k + length defs}" using Cons.prems(2) unfolding range by simp
    moreover have "uuid ` {Suc k..<Suc k + length defs} \<inter> fset (finsert (uuid k) d) = {}"
      using Cons.prems(2,3) unfolding range by simp
    ultimately obtain d' where d': "fset d' \<subseteq> fset (finsert (uuid k) d) \<union> uuid ` {Suc k..<Suc k + length defs}"
      and steps: "case res1 of
        Inl e \<Rightarrow> task_steps (s\<lparr>s_issued := ic1\<rparr>) (finsert (uuid k) d) (Minting p defs (rs @ [?r])) (s\<lparr>s_issued := ic'\<rparr>) d' (Failing p al' e)
      | Inr minted \<Rightarrow> task_steps (s\<lparr>s_issued := ic1\<rparr>) (finsert (uuid k) d) (Minting p defs (rs @ [?r])) (s\<lparr>s_issued := ic'\<rparr>) d'
            (Minting p [] ((rs @ [?r]) @ map snd minted))"
      using Cons.IH [OF rec', of "finsert (uuid k) d"] by (elim meta_impE exE conjE) (assumption | rule that)+
    have "fset d' \<subseteq> fset d \<union> uuid ` {k..<k + length (dn # defs)}" using d' unfolding range by auto
    moreover have "case res of
        Inl e \<Rightarrow> task_steps (s\<lparr>s_issued := ic\<rparr>) d (Minting p (dn # defs) rs) (s\<lparr>s_issued := ic'\<rparr>) d' (Failing p al' e)
      | Inr minted \<Rightarrow> task_steps (s\<lparr>s_issued := ic\<rparr>) d (Minting p (dn # defs) rs) (s\<lparr>s_issued := ic'\<rparr>) d'
            (Minting p [] (rs @ map snd minted))"
    proof (cases res)
      case (Inl e)
      from move [OF st [simplified]] steps res(2) [OF Inl] show ?thesis by (simp add: Inl)
    next
      case (Inr m)
      from res(1) [OF Inr] obtain c rest where "m = (c, ?r) # rest" "res1 = Ok rest" by blast
      with move [OF st [simplified]] steps show ?thesis by (simp add: Inr)
    qed
    ultimately show ?thesis by blast
  qed
qed

section \<open>Confinement and refinement of a delivery\<close>

text \<open>
  What the delivery relies on of the URL parser: an \<open>http\<close> or \<open>https\<close> URL with a host keeps both when
  a segment is appended to it, if the result is a URL at all.
\<close>

definition suffix_keeps_host :: "('d, 'k) dcp \<Rightarrow> bool" where
  "suffix_keeps_host D \<longleftrightarrow> (\<forall>u p scheme host r. (scheme = ''http'' \<or> scheme = ''https'')
     \<and> url_parse D u = Ok (scheme, Some host) \<and> url_parse D (u @ ''/'' @ p) = Ok r \<longrightarrow> r = (scheme, Some host))"

lemma sconfined_bind_cond:
  assumes "sconfined D pol m" "\<And>v s. snd (fst (m s)) = Ok v \<Longrightarrow> sconfined D pol (f v)"
  shows "sconfined D pol (sio_bind m f)"
proof -
  have "confined D pol (fst (sio_bind m f s))" for s
  proof -
    obtain tr r s' where m: "m s = ((tr, r), s')" by (metis prod.collapse)
    have tr: "confined D pol (tr, r)" using assms(1) m by (metis sconfined_def fst_conv)
    show ?thesis
    proof (cases r)
      case (Inr v)
      obtain tr' r' s'' where f: "f v s' = ((tr', r'), s'')" by (metis prod.collapse)
      have "confined D pol (tr', r')" using assms(2) [of s v] m Inr f by (metis sconfined_def fst_conv snd_conv)
      with tr show ?thesis by (simp add: sio_bind_def m Inr f confined_def) blast
    qed (use tr in \<open>simp add: sio_bind_def m confined_def\<close>)
  qed
  then show ?thesis by (simp add: sconfined_def)
qed

lemma post_json_confined:
  assumes "suffix_keeps_host D" "allowed D pol u"
  shows "confined D pol (post_json D N (u @ ''/'' @ p) bearer body)"
proof (cases "url_parse D (u @ ''/'' @ p)")
  case (Inr r')
  obtain scheme host where r: "url_parse D u = Ok (scheme, Some host)" "scheme = ''http'' \<or> scheme = ''https''"
    using assms(2) by (auto simp: allowed_def check_url_def split: sum.splits if_splits option.splits)
  with Inr assms(1) have "r' = (scheme, Some host)" unfolding suffix_keeps_host_def by blast
  with r Inr assms(2) have "allowed D pol (u @ ''/'' @ p)"
    by (auto simp: allowed_def check_url_def split: if_splits option.splits prod.splits)
  then show ?thesis by (simp add: post_json_def Let_def Inr)
qed (simp add: post_json_def Let_def)

lemma mint_each_confined: "sconfined D pol (mint_each D X a job clock uuid k defs)"
proof (induction defs arbitrary: k)
  case (Cons dn defs)
  then have "confined D pol (fst (mint_each D X a job clock uuid (Suc k) defs st))" for st
    unfolding sconfined_def by blast
  then show ?case
    unfolding sconfined_def
    by (auto simp: mint_each_Cons confined_def Let_def split: prod.splits option.splits sum.splits) (metis fst_conv)+
qed (simp add: sconfined_def confined_def)

lemma try_deliver_confined:
  assumes "resolves_through D N" "suffix_keeps_host D"
  shows "sconfined D (a_outbound a) (try_deliver_issued_credential D N X a job clock uuid)"
  unfolding try_deliver_issued_credential_def Let_def
proof (intro sconfined_bind_cond sconfined_return mint_each_confined)
  fix v :: unit and s :: "nat list \<times> issued_credentials"
  assume "snd (fst (sio_return (map_err outbound_message (check_did D (a_outbound a) (dj_holder_did job) (insecure_http (a_config a)))) s)) = Ok v"
  then show "sconfined D (a_outbound a) (sio_lift (resolve_did N (dj_holder_did job) (insecure_http (a_config a))))"
    using confined_resolve [OF assms(1)] by simp
next
  fix endpoint and v :: unit and s :: "nat list \<times> issued_credentials" and bearer body
  assume "snd (fst (sio_return (map_err outbound_message (check_url D (a_outbound a) endpoint)) s)) = Ok v"
  then have "allowed D (a_outbound a) endpoint" by (simp add: allowed_def)
  from post_json_confined [OF assms(2) this, of N "''credentials''"]
  show "sconfined D (a_outbound a) (sio_lift (post_json D N (endpoint @ ''/credentials'') bearer body))" by simp
qed (auto split: prod.splits)


text \<open>The ways an attempt can end: before anything is minted, while minting, or with the holder's answer.\<close>

lemma try_deliver_cases:
  assumes "try_deliver_issued_credential D N X a job clock uuid ([], ic) = ((tr, res), (al', ic'))"
  obtains e where "res = Err e" "al' = []" "ic' = ic"
  | e trm where "res = Err e" "mint_each D X a job clock uuid 0 (dj_definitions job) ([], ic) = ((trm, Err e), (al', ic'))"
  | e trm minted where "res = Err e"
      "mint_each D X a job clock uuid 0 (dj_definitions job) ([], ic) = ((trm, Ok minted), (al', ic'))"
  | trm minted endpoint bearer st body where "res = Ok (map snd minted)"
      "mint_each D X a job clock uuid 0 (dj_definitions job) ([], ic) = ((trm, Ok minted), (al', ic'))"
      "http_post N (endpoint @ ''/credentials'') (Some (''Bearer '' @ bearer))
         (JsonBody (credential_message_json (delivery_message job (map fst minted)))) = Ok (st, body)" "is_success st"
      "allowed D (a_outbound a) endpoint"
proof -
  let ?mint = "mint_each D X a job clock uuid 0 (dj_definitions job)"
  obtain trm resm al1 ic1 where m: "?mint ([], ic) = ((trm, resm), (al1, ic1))" by (metis prod.collapse)
  show ?thesis
  proof (cases "\<exists>doc endpoint. check_did D (a_outbound a) (dj_holder_did job) (insecure_http (a_config a)) = Ok ()
      \<and> snd (resolve_did N (dj_holder_did job) (insecure_http (a_config a))) = Ok doc
      \<and> service_endpoint_url D doc ''CredentialService'' = Ok endpoint \<and> check_url D (a_outbound a) endpoint = Ok ()")
    case False
    then have "\<exists>e. res = Err e \<and> al' = [] \<and> ic' = ic"
      using assms unfolding try_deliver_issued_credential_def Let_def
      by (auto simp: sio_bind_def sio_return_def sio_lift_def io_pure_def split: prod.splits sum.splits)
    then show ?thesis using that(1) by blast
  next
    case True
    then obtain doc endpoint where pre: "check_did D (a_outbound a) (dj_holder_did job) (insecure_http (a_config a)) = Ok ()"
      "snd (resolve_did N (dj_holder_did job) (insecure_http (a_config a))) = Ok doc"
      "service_endpoint_url D doc ''CredentialService'' = Ok endpoint" "check_url D (a_outbound a) endpoint = Ok ()" by blast
    obtain trr where rs: "resolve_did N (dj_holder_did job) (insecure_http (a_config a)) = (trr, Ok doc)"
      using pre(2) by (metis prod.collapse)
    define post where "post minted = post_json D N (endpoint @ ''/credentials'')
      (sign_jws D (delivery_token_payload a job (clock (length (dj_definitions job))) (uuid (length (dj_definitions job))))
        (own_key (a_identity a)) (own_key_id (a_identity a)))
      (credential_message_json (delivery_message job (map fst minted)))" for minted :: "(credential_container \<times> issued_credential) list"
    have run: "al' = al1 \<and> ic' = ic1 \<and> (case resm of Inl e \<Rightarrow> res = Err e
      | Inr minted \<Rightarrow> (case snd (post minted) of Inl e \<Rightarrow> res = Err e
          | Inr (st, body) \<Rightarrow> res = (if is_success st then Ok (map snd minted) else Err (''Storage API returned HTTP '' @ status_display D st))))"
      using assms unfolding try_deliver_issued_credential_def Let_def post_def
      by (auto simp: sio_bind_def sio_return_def sio_lift_def io_pure_def pre rs m split: prod.splits sum.splits)
    show ?thesis
    proof (cases resm)
      case (Inl e)
      with run m show ?thesis by (intro that(2)) auto
    next
      case (Inr minted)
      show ?thesis
      proof (cases "\<exists>st body. snd (post minted) = Ok (st, body) \<and> is_success st")
        case True
        then obtain st body where p: "snd (post minted) = Ok (st, body)" "is_success st" by blast
        from p(1) have "http_post N (endpoint @ ''/credentials'') (Some (''Bearer '' @ sign_jws D
            (delivery_token_payload a job (clock (length (dj_definitions job))) (uuid (length (dj_definitions job))))
            (own_key (a_identity a)) (own_key_id (a_identity a))))
          (JsonBody (credential_message_json (delivery_message job (map fst minted)))) = Ok (st, body)"
          by (auto simp: post_def post_json_def Let_def split: if_splits)
        from that(4) [OF _ _ this p(2)] p run m Inr pre(4) show ?thesis by (simp add: allowed_def)
      next
        case False
        with run Inr have "\<exists>e. res = Err e" by (auto split: sum.splits prod.splits if_splits)
        with run m Inr show ?thesis using that(3) by blast
      qed
    qed
  qed
qed

lemma try_deliver_pool:
  assumes "try_deliver_issued_credential D N X a job clock uuid ([], ic) = ((tr, res), (al', ic'))" "issued_ok ic F"
  shows "distinct al' \<and> set al' \<inter> F = {} \<and> issued_ok ic' (F \<union> set al')"
  using assms(1)
proof (cases rule: try_deliver_cases)
  case (2 e trm)
  from mint_each_pool [OF this(2) assms(2)] show ?thesis by auto
next
  case (3 e trm minted)
  from mint_each_pool [OF this(2) assms(2)] show ?thesis by auto
next
  case (4 trm minted endpoint bearer st body)
  from mint_each_pool [OF this(2) assms(2)] show ?thesis by auto
qed (use assms(2) in auto)

lemma try_deliver_steps:
  assumes run: "try_deliver_issued_credential D N X a (job_of p defs) clock uuid ([], ic) = ((tr, res), (al', ic'))"
    and "inj uuid" "range uuid \<inter> fset d = {}" "issued_ok ic F"
  shows "\<exists>d'. fset d' \<subseteq> fset d \<union> range uuid \<and> (case res of
      Inl e \<Rightarrow> task_steps (s\<lparr>s_issued := ic\<rparr>) d (Minting p defs []) (s\<lparr>s_issued := ic'\<rparr>) d' (Failing p al' e)
    | Inr rs \<Rightarrow> task_steps (s\<lparr>s_issued := ic\<rparr>) d (Minting p defs []) (s\<lparr>s_issued := ic'\<rparr>) d' (Accepted p rs))"
proof -
  have fresh: "inj_on uuid {0..<0 + length defs}" "uuid ` {0..<0 + length defs} \<inter> fset d = {}"
    using assms(2,3) by (auto intro: inj_on_subset)
  have defs: "dj_definitions (job_of p defs) = defs" by (simp add: job_of_def)
  have within: "fset d' \<subseteq> fset d \<union> uuid ` {0..<0 + length defs} \<Longrightarrow> fset d' \<subseteq> fset d \<union> range uuid" for d' by blast
  note mint = mint_each_steps [of D X a p defs clock uuid 0 defs "[]" ic _ _ al' ic' d s, OF _ fresh, simplified list.map append_Nil]
  from run show ?thesis
  proof (cases rule: try_deliver_cases)
    case (1 e)
    with network_failure [of "s\<lparr>s_issued := ic\<rparr>" d p defs "[]" e] show ?thesis
      by (intro exI [of _ d]) (simp add: task_steps_one)
  next
    case (2 e trm)
    from mint [OF this(2) [unfolded defs]] obtain d' where "fset d' \<subseteq> fset d \<union> uuid ` {0..<0 + length defs}"
      "task_steps (s\<lparr>s_issued := ic\<rparr>) d (Minting p defs []) (s\<lparr>s_issued := ic'\<rparr>) d' (Failing p al' e)"
      by auto
    with within show ?thesis by (simp only: 2(1) sum.case) blast
  next
    case (3 e trm minted)
    from mint [OF this(2) [unfolded defs]] obtain d' where new: "fset d' \<subseteq> fset d \<union> uuid ` {0..<0 + length defs}"
      and steps: "task_steps (s\<lparr>s_issued := ic\<rparr>) d (Minting p defs []) (s\<lparr>s_issued := ic'\<rparr>) d' (Minting p [] (map snd minted))"
      by auto
    from task_steps_trans [OF steps task_steps_one [OF network_failure]]
    have "task_steps (s\<lparr>s_issued := ic\<rparr>) d (Minting p defs []) (s\<lparr>s_issued := ic'\<rparr>) d' (Failing p (map c_index (map snd minted)) e)" .
    moreover have "al' = map c_index (map snd minted)"
      using mint_each_pool [OF 3(2) assms(4)] by auto
    ultimately show ?thesis using within [OF new] by (simp only: 3(1) sum.case) blast
  next
    case (4 trm minted endpoint bearer st body)
    from mint [OF this(2) [unfolded defs]] obtain d' where new: "fset d' \<subseteq> fset d \<union> uuid ` {0..<0 + length defs}"
      and steps: "task_steps (s\<lparr>s_issued := ic\<rparr>) d (Minting p defs []) (s\<lparr>s_issued := ic'\<rparr>) d' (Minting p [] (map snd minted))"
      by auto
    from task_steps_trans [OF steps task_steps_one [OF posted]] within [OF new] show ?thesis by (simp only: 4(1) sum.case) blast
  qed
qed

definition answered :: "'d network \<Rightarrow> issuance_process \<Rightarrow> bool" where
  "answered N p \<longleftrightarrow> (\<exists>endpoint bearer containers st body.
     http_post N (endpoint @ ''/credentials'') (Some (''Bearer '' @ bearer))
       (JsonBody (credential_message_json (delivery_message (job_of p []) containers))) = Ok (st, body) \<and> is_success st)"

definition ends_with :: "'d network \<Rightarrow> issuance_process option \<Rightarrow> issuance_process option \<Rightarrow> bool" where
  "ends_with N claimed final \<longleftrightarrow> (\<forall>p. claimed = Some p \<longrightarrow>
     (\<exists>q. final = Some q \<and> p_state q \<in> {PDelivered, PErrored} \<and> (p_state q = PDelivered \<longrightarrow> answered N p)))"

lemma closing_steps:
  assumes "p_id p = pid"
  shows "task_steps (s\<lparr>s_requests := t, s_issued := ic\<rparr>) d (Closing p st e)
    (s\<lparr>s_requests := close_process pid st e now t, s_issued := ic\<rparr>) d (Ended pid)"
  using task_steps_one [OF closed [of "s\<lparr>s_requests := t, s_issued := ic\<rparr>" d p st e now]] assms
  by (cases s) simp

lemma failing_steps:
  assumes "p_id p = pid" "release_each issued_release al ic = Some ic'"
  shows "task_steps (s\<lparr>s_requests := t, s_issued := ic\<rparr>) d (Failing p al e)
    (s\<lparr>s_requests := close_process pid PErrored (Some e) now t, s_issued := ic'\<rparr>) d (Ended pid)"
proof -
  have "task_step (s\<lparr>s_requests := t, s_issued := ic\<rparr>) d (Failing p al e)
      ((s\<lparr>s_requests := t, s_issued := ic\<rparr>)\<lparr>s_issued := ic'\<rparr>) d (Closing p PErrored (Some e))"
    by (rule released) (use assms(2) in simp)
  from move [OF this [simplified] closing_steps [OF assms(1), where s = s and t = t and ic = ic' and d = d]] show ?thesis .
qed

lemma closed_state:
  assumes "fmlookup (records t) pid = Some q"
  shows "\<exists>r. fmlookup (records (close_process pid st e now t)) pid = Some r \<and> p_state r = st"
  using assms by (simp add: close_process_lookup)

text \<open>The run of a delivery that claimed its process.\<close>

lemma deliver_claimed_steps:
  assumes c: "claim pid (s_requests s) = (Some p, t)" and pid: "p_id p = pid"
    and ok: "issued_ok (s_issued s) F" and fresh: "inj uuid" "range uuid \<inter> fset d = {}"
  shows "\<exists>tr s' d'. deliver_issued_credential D N X a pid clock uuid now s = Some (tr, s')
    \<and> task_steps (s\<lparr>s_requests := t\<rparr>) d (Claimed p) s' d' (Ended pid) \<and> fset d' \<subseteq> fset d \<union> range uuid
    \<and> ends_with N (Some p) (fmlookup (records (s_requests s')) pid)"
proof -
  let ?s = "s\<lparr>s_requests := t\<rparr>"
  obtain q where q: "fmlookup (records t) pid = Some q"
    using c by (auto simp: claim_Some rt_modify_lookup)
  note ended = closed_state [OF q, of _ _ now]
  show ?thesis
  proof (cases "lookup_definitions (s_definitions s) (p_credential_definitions p)")
    case (Inl e)
    have "task_step ?s d (Claimed p) ?s d (Failing p [] e)" by (rule definitions_gone) (use Inl in simp)
    from move [OF this] failing_steps [OF pid, where al = "[]" and ic = "s_issued s" and ic' = "s_issued s" and s = s and t = t and d = d and e = e and now = now]
    have "task_steps ?s d (Claimed p) (s\<lparr>s_requests := close_process pid PErrored (Some e) now t, s_issued := s_issued s\<rparr>) d (Ended pid)"
      by simp
    then show ?thesis using ended [of PErrored "Some e"]
      by (intro exI [of _ "[]"] exI [of _ "s\<lparr>s_requests := close_process pid PErrored (Some e) now t, s_issued := s_issued s\<rparr>"] exI [of _ d])
        (auto simp: deliver_issued_credential_def c Inl Let_def ends_with_def)
  next
    case (Inr defs)
    obtain tr res al ic where run: "try_deliver_issued_credential D N X a (job_of p defs) clock uuid ([], s_issued s) = ((tr, res), (al, ic))"
      by (metis prod.collapse)
    have st: "task_step ?s d (Claimed p) ?s d (Minting p defs [])" by (rule definitions_ok) (use Inr in simp)
    from try_deliver_steps [OF run fresh ok, of ?s] obtain d' where new: "fset d' \<subseteq> fset d \<union> range uuid" and steps: "case res of
        Inl e \<Rightarrow> task_steps (?s\<lparr>s_issued := s_issued s\<rparr>) d (Minting p defs []) (?s\<lparr>s_issued := ic\<rparr>) d' (Failing p al e)
      | Inr rs \<Rightarrow> task_steps (?s\<lparr>s_issued := s_issued s\<rparr>) d (Minting p defs []) (?s\<lparr>s_issued := ic\<rparr>) d' (Accepted p rs)" by blast
    have same: "?s\<lparr>s_issued := s_issued s\<rparr> = ?s" by simp
    note steps = steps [unfolded same]
    show ?thesis
    proof (cases res)
      case (Inl e)
      from try_deliver_pool [OF run ok] pool.release_all [of ic "F \<union> set al" al]
      obtain ic' where rel: "release_each issued_release al ic = Some ic'" by auto
      have "task_steps ?s d (Claimed p) (s\<lparr>s_requests := close_process pid PErrored (Some e) now t, s_issued := ic'\<rparr>) d' (Ended pid)"
        using move [OF st task_steps_trans [OF _ failing_steps [OF pid rel, where s = s and t = t and d = d' and e = e and now = now]]] steps by (simp add: Inl)
      moreover have "deliver_issued_credential D N X a pid clock uuid now s
          = Some (tr, s\<lparr>s_requests := close_process pid PErrored (Some e) now t, s_issued := ic'\<rparr>)"
        by (simp add: deliver_issued_credential_def c Inr Let_def run Inl rel)
      ultimately show ?thesis using ended [of PErrored "Some e"]
        by (intro exI conjI) (assumption, assumption, rule new, auto simp: ends_with_def)
    next
      case (Inr rs)
      have "task_step (?s\<lparr>s_issued := ic\<rparr>) d' (Accepted p rs)
          ((?s\<lparr>s_issued := ic\<rparr>)\<lparr>s_issued := record_issued rs (s_issued (?s\<lparr>s_issued := ic\<rparr>))\<rparr>) d' (Closing p PDelivered None)"
        by (rule recorded)
      from move [OF this [simplified] closing_steps [OF pid, where s = s and t = t and ic = "record_issued rs ic" and d = d' and st = PDelivered and e = None and now = now]]
      have "task_steps (?s\<lparr>s_issued := ic\<rparr>) d' (Accepted p rs)
          (s\<lparr>s_requests := close_process pid PDelivered None now t, s_issued := record_issued rs ic\<rparr>) d' (Ended pid)" .
      from move [OF st task_steps_trans [OF _ this]] steps
      have "task_steps ?s d (Claimed p) (s\<lparr>s_requests := close_process pid PDelivered None now t, s_issued := record_issued rs ic\<rparr>) d' (Ended pid)"
        by (simp add: Inr)
      moreover have "deliver_issued_credential D N X a pid clock uuid now s
          = Some (tr, s\<lparr>s_requests := close_process pid PDelivered None now t, s_issued := record_issued rs ic\<rparr>)"
        by (simp add: deliver_issued_credential_def c \<open>lookup_definitions _ _ = _\<close> Let_def run Inr)
      moreover have "answered N p"
        using run
      proof (cases rule: try_deliver_cases)
        case (4 trm minted endpoint bearer st body)
        then have "http_post N (endpoint @ ''/credentials'') (Some (''Bearer '' @ bearer))
          (JsonBody (credential_message_json (delivery_message (job_of p []) (map fst minted)))) = Ok (st, body)"
          by (simp add: delivery_message_def job_of_def)
        with 4(4) show ?thesis unfolding answered_def by blast
      qed (simp_all add: Inr)
      ultimately show ?thesis using ended [of PDelivered None]
        by (intro exI conjI) (assumption, assumption, rule new, auto simp: ends_with_def)
    qed
  qed
qed

text \<open>The run of a queued delivery.\<close>

lemma delivery_steps:
  assumes reach: "reachable cap w" and fresh: "inj uuid" "range uuid \<inter> fset (drawn w) = {}"
    and c: "claim pid (s_requests (shared w)) = (r, t)"
  obtains tr s' d' where "deliver_issued_credential D N X a pid clock uuid now (shared w) = Some (tr, s')"
    "task_steps (shared w) (drawn w) (Queued pid) s' d' (Ended pid)" "fset d' \<subseteq> fset (drawn w) \<union> range uuid"
    "ends_with N r (fmlookup (records (s_requests s')) pid)"
proof (cases r)
  case None
  have "task_step (shared w) (drawn w) (Permitted pid) ((shared w)\<lparr>s_requests := t\<rparr>) (drawn w) (Ended pid)"
    by (rule claim_no) (use c None in simp)
  from move [OF acquire task_steps_one [OF this]] show ?thesis
    by (rule that [of "[]", rotated 1]) (simp_all add: deliver_issued_credential_def c None ends_with_def)
next
  case (Some p)
  note parts = reachable_parts [OF reach]
  have ok: "issued_ok (s_issued (shared w)) (set (in_flight (tasks w)))" using parts(1) by (simp add: issued_inv_def)
  have "p_id p = pid" using c Some parts(9) by (auto simp: claim_Some rt_ok_def)
  from deliver_claimed_steps [OF c [unfolded Some] this ok fresh, of D N X a clock now] obtain tr s' d' where
    run: "deliver_issued_credential D N X a pid clock uuid now (shared w) = Some (tr, s')"
    and steps: "task_steps ((shared w)\<lparr>s_requests := t\<rparr>) (drawn w) (Claimed p) s' d' (Ended pid)"
    and fin: "fset d' \<subseteq> fset (drawn w) \<union> range uuid" "ends_with N (Some p) (fmlookup (records (s_requests s')) pid)" by blast
  have "task_step (shared w) (drawn w) (Permitted pid) ((shared w)\<lparr>s_requests := t\<rparr>) (drawn w) (Claimed p)"
    by (rule claim_ok) (use c Some in simp)
  from move [OF acquire move [OF this steps]] run fin show ?thesis using that Some by blast
qed

text \<open>
  C37. Once the semaphore has a permit left, delivering an issuance process, from the permit to its
  close, is a run of its task in the issuer's state machine: the delivery never panics, ends the task,
  and takes the issuer to a state it can reach. It contacts only hosts the outbound policy allows, although both the holder's DID and the
  delivery address are the requester's to choose. A process that was still approved ends up delivered
  or errored, and delivered only if the holder's Storage API answered its message with success.
\<close>

theorem delivery_run_correct:
  assumes laws: "resolves_through D N" "suffix_keeps_host D"
    and reach: "reachable cap w" and i: "i < length (tasks w)" "tasks w ! i = Queued pid"
    and permit: "permits_out (tasks w) < MAX_IN_FLIGHT_DELIVERIES"
    and fresh: "inj uuid" "range uuid \<inter> fset (drawn w) = {}"
  shows "\<exists>tr s' d'. deliver_issued_credential D N X a pid clock uuid now (shared w) = Some (tr, s')
    \<and> (\<forall>url \<in> set tr. allowed D (a_outbound a) url)
    \<and> step\<^sup>*\<^sup>* w (w\<lparr>shared := s', drawn := d', tasks := (tasks w)[i := Ended pid]\<rparr>)
    \<and> (\<forall>p. fmlookup (records (s_requests (shared w))) pid = Some p \<and> p_state p = PApproved \<longrightarrow>
         (\<exists>q. fmlookup (records (s_requests s')) pid = Some q \<and> p_state q \<in> {PDelivered, PErrored}
            \<and> (p_state q = PDelivered \<longrightarrow> (\<exists>endpoint bearer containers st body.
                 http_post N (endpoint @ ''/credentials'') (Some (''Bearer '' @ bearer))
                   (JsonBody (credential_message_json (delivery_message (job_of p []) containers))) = Ok (st, body)
                 \<and> is_success st))))"
proof -
  let ?s = "shared w"
  obtain r t where c: "claim pid (s_requests ?s) = (r, t)" by fastforce
  from reach fresh c obtain tr s' d' where run: "deliver_issued_credential D N X a pid clock uuid now ?s = Some (tr, s')"
    and steps: "task_steps ?s (drawn w) (Queued pid) s' d' (Ended pid)"
    and fin: "ends_with N r (fmlookup (records (s_requests s')) pid)" by (rule delivery_steps)
  have conf: "\<forall>url \<in> set tr. allowed D (a_outbound a) url"
  proof -
    have "confined D (a_outbound a) (fst (try_deliver_issued_credential D N X a job clock uuid st))" for job st
      using try_deliver_confined [OF laws] unfolding sconfined_def by blast
    then show ?thesis using run
      by (auto simp: deliver_issued_credential_def Let_def confined_def split: prod.splits option.splits sum.splits) (metis fst_conv)+
  qed
  have fin': "\<exists>q. fmlookup (records (s_requests s')) pid = Some q \<and> p_state q \<in> {PDelivered, PErrored}
      \<and> (p_state q = PDelivered \<longrightarrow> answered N p)"
    if "fmlookup (records (s_requests ?s)) pid = Some p" "p_state p = PApproved" for p
  proof -
    have "r = Some (p\<lparr>p_delivery_started := True\<rparr>)" using c that by (simp add: claim_def rt_get_def)
    with fin show ?thesis by (auto simp: ends_with_def answered_def job_of_def delivery_message_def)
  qed
  from run conf task_steps_tasks [OF steps i(1) refl refl i(2) may_run_room [OF permit]] fin' show ?thesis
    unfolding answered_def by (intro exI [of _ tr] exI [of _ s'] exI [of _ d'] conjI allI impI) auto
qed


section \<open>Minted credentials\<close>

lemma jwt_format: "contains_str (to_lowercase uni (trim ''jwt'')) ''jwt''"
proof -
  have "trim ''jwt'' = ''jwt''" "is_ascii ''jwt''" by code_simp+
  moreover have "contains_str (to_ascii_lowercase ''jwt'') ''jwt''" by code_simp
  ultimately show ?thesis by (simp add: to_lowercase_def)
qed

lemma minted_payload_claims:
  "str_claim (minted_payload X a d h st now vid) ''iss'' = own_did (a_identity a)"
  "get_str (minted_payload X a d h st now vid) ''iss'' = Some (own_did (a_identity a))"
  "credential_subject (minted_payload X a d h st now vid) = Some h"
  "get_u64 (minted_payload X a d h st now vid) ''nbf'' = Some now"
  "get_u64 (minted_payload X a d h st now vid) ''exp'' = Some (u64_add now (cd_validity d))"
  "json_get (minted_payload X a d h st now vid) ''vc''
    = Some (minted_vc X a d h st now (u64_add now (cd_validity d)) vid)"
  by (simp_all add: minted_payload_def Let_def str_claim_def credential_subject_def)

lemma minted_vc_fields:
  "json_get (minted_vc X a d h st i e vid) ''type'' = Some (JArr [JStr ''VerifiableCredential'', JStr (cd_credential_type d)])"
  "json_get (minted_vc X a d h (Some k) i e vid) ''credentialStatus'' = Some (credential_status_entry (status_list_url a) k)"
proof -
  have "\<exists>m. json_set k x (json_obj kvs) = JObj m \<and> map_of m = (\<lambda>k'. if k' = k then Some x else map_of (rev kvs) k')" for k x kvs
  proof -
    obtain m where m: "json_set k x (json_obj kvs) = JObj m" using json_set_obj_is_obj by blast
    have "map_of m k' = (if k' = k then Some x else map_of (rev kvs) k')" for k'
      using json_get_set_json_obj [of k x kvs k'] by (simp add: m del: json_get_set_json_obj)
    with m show ?thesis by blast
  qed
  then have get: "json_get (json_set k2 y (json_set k x (json_obj kvs))) k'
      = (if k' = k2 then Some y else if k' = k then Some x else map_of (rev kvs) k')" for k2 y k x kvs k'
    by (metis json_get.simps(1) json_get_set_obj)
  show "json_get (minted_vc X a d h st i e vid) ''type'' = Some (JArr [JStr ''VerifiableCredential'', JStr (cd_credential_type d)])"
    by (cases st) (simp_all add: minted_vc_def get)
  show "json_get (minted_vc X a d h (Some k) i e vid) ''credentialStatus'' = Some (credential_status_entry (status_list_url a) k)"
    by (simp add: minted_vc_def get)
qed

lemma minted_payload_canonical [simp]:
  "canonical_json (credential_status_entry u i)" "canonical_json (minted_vc X a d h st i e vid)"
  "canonical_json (minted_payload X a d h st now vid)"
  by (simp_all add: credential_status_entry_def minted_vc_def minted_payload_def Let_def split: option.split)

text \<open>
  C38. A credential this issuer mints is one a hub like it accepts: whoever the definition and the holder,
  the claims check of the Storage API passes exactly for the holder it was minted for, when the issuer
  is trusted and the clock is inside the validity the definition gives it; its proof verifies against
  the issuer's DID document whenever that document carries the issuer's key; and its status entry
  names the published list and the index its record holds.
\<close>

theorem minted_credential_accepted:
  assumes law: "jws_roundtrip D" and "now + cd_validity d < u64_limit" "later + CLOCK_SKEW_SECS < u64_limit"
  shows "let minted = mint_credential D X a d h (Some i) now uuid; c = minted_container d minted in
    (check_container D me trusted later c = Ok () \<longleftrightarrow>
       me = h \<and> (\<forall>ts. trusted = Some ts \<longrightarrow> own_did (a_identity a) \<in> set ts)
       \<and> now \<le> later + CLOCK_SKEW_SECS \<and> later < now + cd_validity d)
    \<and> (\<forall>N pol insecure doc. is_ok (check_did D pol (own_did (a_identity a)) insecure)
         \<and> snd (resolve_did N (own_did (a_identity a)) insecure) = Ok doc
         \<and> find_verifying_key D doc (own_key_id (a_identity a)) = Ok (own_key (a_identity a))
         \<longrightarrow> snd (verify_container_proof D N insecure pol c) = Ok ())
    \<and> (\<exists>header payload. decode_jws_unverified D (mc_jws minted) = Ok (header, payload)
         \<and> json_pointer payload [''vc'', ''credentialStatus''] = Some (credential_status_entry (status_list_url a) i)
         \<and> mc_expires_at minted = now + cd_validity d)"
proof -
  let ?m = "mint_credential D X a d h (Some i) now uuid" and ?p = "minted_payload X a d h (Some i) now (credential_urn uuid)"
  have jws: "mc_jws ?m = sign_jws D ?p (own_key (a_identity a)) (own_key_id (a_identity a))"
    by (simp add: mint_credential_def Let_def)
  obtain header where dec: "decode_jws_unverified D (mc_jws ?m) = Ok (header, ?p)"
    and kid: "get_str header ''kid'' = Some (own_key_id (a_identity a))"
    and ver: "verify_jws_signature D (mc_jws ?m) (own_key (a_identity a)) = Ok ()"
    by (rule jws_roundtripE [OF law minted_payload_canonical(3), of X a d h "Some i" now "credential_urn uuid" "own_key (a_identity a)"
        "own_key_id (a_identity a)", folded jws])
  have ty: "has_type ?p (cd_credential_type d)"
    by (simp add: has_type_def minted_payload_claims minted_vc_fields)
  have window: "is_within_validity ?p later \<longleftrightarrow> now \<le> later + CLOCK_SKEW_SECS \<and> later < now + cd_validity d"
    using assms(2,3) by (simp add: is_within_validity_def minted_payload_claims)
  have "check_container D me trusted later (minted_container d ?m) = Ok () \<longleftrightarrow>
       me = h \<and> (\<forall>ts. trusted = Some ts \<longrightarrow> own_did (a_identity a) \<in> set ts)
       \<and> now \<le> later + CLOCK_SKEW_SECS \<and> later < now + cd_validity d"
    unfolding check_container_Ok by (auto simp: minted_container_def dec ty window minted_payload_claims)
  moreover have "snd (verify_container_proof D N insecure pol (minted_container d ?m)) = Ok ()"
    if "is_ok (check_did D pol (own_did (a_identity a)) insecure)" "snd (resolve_did N (own_did (a_identity a)) insecure) = Ok doc"
      "find_verifying_key D doc (own_key_id (a_identity a)) = Ok (own_key (a_identity a))" for N pol insecure doc
    unfolding verify_container_proof_Ok
    using that by (auto simp: minted_container_def jwt_format dec kid ver minted_payload_claims(2))
  moreover have "json_pointer ?p [''vc'', ''credentialStatus''] = Some (credential_status_entry (status_list_url a) i)"
    by (simp add: minted_payload_claims minted_vc_fields)
  moreover have "mc_expires_at ?m = now + cd_validity d"
    using assms(2) by (simp add: mint_credential_def Let_def)
  ultimately show ?thesis unfolding Let_def using dec by blast
qed

section \<open>The published status list\<close>

text \<open>Everything the program does to the issued credentials, in any order.\<close>

datatype list_op = Allocate | Release nat | Record issued_credential | Revoke string | Serve u64

fun run_op :: "('d, 'k) dcp \<Rightarrow> (8 word list \<Rightarrow> string) \<Rightarrow> 'k app \<Rightarrow> list_op \<Rightarrow> issued_credentials \<Rightarrow> issued_credentials option" where
  "run_op D encode a Allocate ic = Some (snd (issued_allocate ic))"
| "run_op D encode a (Release i) ic = issued_release i ic"
| "run_op D encode a (Record r) ic = Some (issued_insert r ic)"
| "run_op D encode a (Revoke i) ic = map_option snd (issued_revoke i ic)"
| "run_op D encode a (Serve now) ic = Some (snd (serve_status_list D encode a now ic))"

fun list_ops :: "('d, 'k) dcp \<Rightarrow> (8 word list \<Rightarrow> string) \<Rightarrow> 'k app \<Rightarrow> list_op list \<Rightarrow> issued_credentials \<Rightarrow> issued_credentials option" where
  "list_ops D encode a [] ic = Some ic"
| "list_ops D encode a (x # xs) ic = Option.bind (run_op D encode a x ic) (list_ops D encode a xs)"

definition cache_current :: "('d, 'k) dcp \<Rightarrow> (8 word list \<Rightarrow> string) \<Rightarrow> 'k app \<Rightarrow> issued_credentials \<Rightarrow> bool" where
  "cache_current D encode a ic \<longleftrightarrow>
     (\<forall>j. cached_jwt (ic_list ic) = Some j \<longrightarrow> (\<exists>t. j = status_list_jwt D encode a (ic_list ic) t))"

lemma status_list_jwt_bits: "bits sl' = bits sl \<Longrightarrow> status_list_jwt D encode a sl' t = status_list_jwt D encode a sl t"
  by (simp add: status_list_jwt_def status_list_payload_def)

lemma cache_current_same_bits:
  "cache_current D encode a ic \<Longrightarrow> bits (ic_list ic') = bits (ic_list ic) \<Longrightarrow> cached_jwt (ic_list ic') = cached_jwt (ic_list ic)
   \<Longrightarrow> cache_current D encode a ic'"
  by (auto simp: cache_current_def status_list_jwt_bits [of "ic_list ic'" "ic_list ic"])

lemma sl_set_cache: "sl_set i sl = Some sl' \<Longrightarrow> cached_jwt sl' = None \<or> sl' = sl"
  by (auto simp: sl_set_def split: if_splits)

lemma list_op_current:
  assumes "cache_current D encode a ic" "run_op D encode a x ic = Some ic'"
  shows "cache_current D encode a ic'"
proof (cases x)
  case Allocate
  with assms show ?thesis
    by (auto simp: issued_allocate_def sl_allocate_def Let_def split: prod.splits if_splits intro: cache_current_same_bits)
next
  case (Release i)
  with assms show ?thesis
    by (auto simp: issued_release_def sl_release_def split: if_splits intro: cache_current_same_bits)
next
  case (Record r)
  with assms show ?thesis by (auto simp: issued_insert_def intro: cache_current_same_bits)
next
  case (Revoke i)
  with assms show ?thesis
    by (auto simp: issued_revoke_def Let_def cache_current_def split: option.splits dest!: sl_set_cache)
next
  case (Serve now)
  with assms show ?thesis
    by (auto simp: serve_status_list_def cache_current_def Let_def split: option.splits intro!: exI [of _ now] status_list_jwt_bits)
qed

lemma list_ops_current:
  "cache_current D encode a ic \<Longrightarrow> list_ops D encode a xs ic = Some ic' \<Longrightarrow> cache_current D encode a ic'"
  by (induction xs arbitrary: ic) (auto simp: bind_eq_Some_conv dest: list_op_current)

lemma status_list_canonical: "canonical_json (status_list_payload encode a sl now)"
  by (simp add: status_list_payload_def Let_def)

text \<open>
  The published status list is never stale. After any sequence of allocations, releases, recordings,
  revocations and earlier publications, the JWT served is signed by the issuer and its encoded list
  is the encoding of the current bits, although it is cached between revocations.
\<close>

theorem status_list_current:
  assumes law: "jws_roundtrip D" and ops: "list_ops D encode a xs issued_default = Some ic"
  shows "\<exists>header payload. decode_jws_unverified D (fst (serve_status_list D encode a now ic)) = Ok (header, payload)
    \<and> str_claim payload ''iss'' = own_did (a_identity a)
    \<and> verify_jws_signature D (fst (serve_status_list D encode a now ic)) (own_key (a_identity a)) = Ok ()
    \<and> json_pointer payload [''vc'', ''credentialSubject'', ''encodedList''] = Some (JStr (encode (bits (ic_list ic))))"
proof -
  have "cache_current D encode a issued_default"
    by (simp add: cache_current_def issued_default_def status_list_default_def)
  from list_ops_current [OF this ops] obtain t where
    jwt: "fst (serve_status_list D encode a now ic) = status_list_jwt D encode a (ic_list ic) t"
    by (cases "cached_jwt (ic_list ic)") (auto simp: serve_status_list_def cache_current_def Let_def)
  obtain header where "decode_jws_unverified D (fst (serve_status_list D encode a now ic))
      = Ok (header, status_list_payload encode a (ic_list ic) t)"
    "verify_jws_signature D (fst (serve_status_list D encode a now ic)) (own_key (a_identity a)) = Ok ()"
    by (rule jws_roundtripE [OF law status_list_canonical, of encode a "ic_list ic" t "own_key (a_identity a)" "own_key_id (a_identity a)",
        folded status_list_jwt_def, folded jwt]) (rule that)
  then show ?thesis
    by (intro exI [of _ header] exI [of _ "status_list_payload encode a (ic_list ic) t"])
      (simp add: status_list_payload_def Let_def str_claim_def)
qed


section \<open>Requests\<close>

lemma dedup_ids_distinct: "distinct acc \<Longrightarrow> distinct (dedup_ids acc xs)"
  by (induction acc xs rule: dedup_ids.induct) auto

lemma dedup_ids_set:
  "length (dedup_ids acc xs) \<le> MAX_REQUEST_CREDENTIALS \<Longrightarrow> set (dedup_ids acc xs) = set acc \<union> set xs"
  by (induction acc xs rule: dedup_ids.induct) (auto split: if_splits)

lemma request_section_codes:
  "request_section ap pid hid now hdid hpid b ids s = (Err r, s') \<Longrightarrow> r_status r \<in> {400, 403, 503}"
  unfolding request_section_def
  by (auto simp: Let_def split: if_splits option.splits prod.splits sum.splits)

lemma credential_request_result:
  "credential_request D N a hdr msg clock pid hid s =
     (case authenticate D N a hdr clock s of
        ((tr, Inl r), s1) \<Rightarrow> ((tr, Inl r), s1)
      | ((tr, Inr claims), s1) \<Rightarrow>
          (case get_str claims ''sub'' of
             None \<Rightarrow> ((tr, Inl (resp_text 400 ''token has no sub claim'')), s1)
           | Some holder_did \<Rightarrow>
               (case request_section (cfg_holder_approval (a_config a)) pid hid (clock 3) holder_did
                      (rq_holder_pid msg) (get_str claims ''token'') (dedup_ids [] (rq_credentials msg)) (h_issuer s1) of
                  (Inl r, i) \<Rightarrow> ((tr, Inl r), s1\<lparr>h_issuer := i\<rparr>)
                | (Inr now, i) \<Rightarrow> ((tr, Inr (with_header ''location'' (''/requests/'' @ pid) (resp 201 NoBody), if now then [pid] else [])),
                     s1\<lparr>h_issuer := i\<rparr>))))"
  by (simp add: credential_request_def sio_bind_def sio_return_def sio_lift_def io_pure_def ok_or_def
      split: prod.splits sum.splits option.splits)

lemma request_inserted:
  assumes sec: "request_section ap pid hid now hdid hpid b ids s = (Ok deliver, s')"
    and new: "fmlookup (records (s_requests s)) pid = None"
  shows "\<exists>p. fmlookup (records (s_requests s')) pid = Some p \<and> p_holder_did p = hdid \<and> p_holder_pid p = hpid
    \<and> p_credential_definitions p = ids \<and> p_delivery_bearer p = b
    \<and> p_state p = (if deliver then PApproved else PSubmitted)"
  using sec
proof (rule request_section_Ok)
  fix h hs st t
  assume t: "rt_insert pid (new_process pid st h hdid hpid ids now b) (s_requests s) = Some t"
    and s': "s' = s\<lparr>s_holders := hs, s_requests := t\<rparr>" and d: "deliver = (st = PApproved)"
    and st: "st = (if status h = Pending then PSubmitted else PApproved)"
  have "fmlookup (records t) pid = Some (new_process pid st h hdid hpid ids now b)"
    using t by (auto simp: rt_insert_def split: option.splits prod.splits)
  with s' d st show ?thesis by (auto simp: new_process_def)
qed

text \<open>A section that admits a request is a step of the issuer, and this is the process it leaves.\<close>

lemma section_admits:
  assumes reach: "reachable cap w" and fresh: "pid |\<notin>| drawn w" "hid |\<notin>| finsert pid (drawn w)"
    and sec: "request_section approval pid hid now holder_did holder_pid bearer (dedup_ids [] ids) (shared w) = (Inr deliver, i)"
  obtains p where "fmlookup (records (s_requests i)) pid = Some p"
    "p_holder_did p = holder_did \<and> p_delivery_bearer p = bearer
      \<and> distinct (p_credential_definitions p) \<and> set (p_credential_definitions p) = set ids
      \<and> set ids \<subseteq> catalog_ids (s_definitions (shared w))
      \<and> length (p_credential_definitions p) \<le> MAX_REQUEST_CREDENTIALS
      \<and> p_state p \<in> {PSubmitted, PApproved}
      \<and> (if deliver then [pid] else []) = (if p_state p = PApproved then [pid] else [])"
    "step w (w\<lparr>shared := i, drawn := finsert hid (finsert pid (drawn w)),
        tasks := tasks w @ map Queued (if deliver then [pid] else [])\<rparr>)"
proof -
  have new: "fmlookup (records (s_requests (shared w))) pid = None"
    by (rule pids_inv_fresh [OF reachable_parts(3) [OF reach] fresh(1)])
  from request_inserted [OF sec new] obtain p where
    p: "fmlookup (records (s_requests i)) pid = Some p" "p_holder_did p = holder_did" "p_credential_definitions p = dedup_ids [] ids"
      "p_delivery_bearer p = bearer" "p_state p = (if deliver then PApproved else PSubmitted)" by blast
  have known: "set (dedup_ids [] ids) \<subseteq> catalog_ids (s_definitions (shared w))" "length (dedup_ids [] ids) \<le> MAX_REQUEST_CREDENTIALS"
    using sec by (auto elim: request_section_Ok)
  have "env_step (shared w) (drawn w) i (finsert hid (finsert pid (drawn w))) (if deliver then [Queued pid] else [])"
    by (rule request_admitted [OF fresh sec])
  from step.env [OF this] have st: "step w (w\<lparr>shared := i, drawn := finsert hid (finsert pid (drawn w)),
      tasks := tasks w @ map Queued (if deliver then [pid] else [])\<rparr>)" by (cases deliver) simp_all
  have "distinct (dedup_ids [] ids)" "set (dedup_ids [] ids) = set ids"
    using dedup_ids_distinct [of "[]"] dedup_ids_set [OF known(2)] by simp_all
  with p known show ?thesis by (intro that [OF p(1) _ st]) simp
qed

text \<open>
  C36. The Credential Request API admits a request exactly as one step of the issuer, and only for an
  authenticated holder. When it answers 201 the caller's token was valid, and a new process waits
  under the id of the \<open>Location\<close> header for the holder the token names, with the requested ids without
  repetitions, all in the catalog and at most \<open>MAX_REQUEST_CREDENTIALS\<close> of them; its delivery is
  started at once exactly when it is approved. Any other answer is 400, 401, 403 or 503 and leaves
  processes, definitions and issued credentials as they were. Only allowed hosts are contacted.
\<close>

theorem credential_request_correct:
  assumes law: "resolves_through D N" and reach: "reachable cap w" and here: "h_issuer s = shared w"
    and fresh: "pid |\<notin>| drawn w" "hid |\<notin>| finsert pid (drawn w)"
    and run: "credential_request D N a hdr msg clock pid hid s = ((tr, res), s')"
  shows "(\<forall>url \<in> set tr. allowed D (a_outbound a) url) \<and> (case res of
      Inl r \<Rightarrow> r_status r \<in> {400, 401, 403, 503} \<and> s_requests (h_issuer s') = s_requests (shared w)
        \<and> s_definitions (h_issuer s') = s_definitions (shared w) \<and> s_issued (h_issuer s') = s_issued (shared w)
    | Inr (r, spawned) \<Rightarrow> r_status r = 201 \<and> (''location'', ''/requests/'' @ pid) \<in> set (r_headers r)
        \<and> (\<exists>claims holder p. envelope_valid D N hdr (own_did (a_identity a)) (insecure_http (a_config a)) (a_outbound a)
              (clock 0) (clock 1) (clock 2) claims \<and> get_str claims ''sub'' = Some holder
            \<and> fmlookup (records (s_requests (h_issuer s'))) pid = Some p
            \<and> p_holder_did p = holder \<and> p_delivery_bearer p = get_str claims ''token''
            \<and> distinct (p_credential_definitions p) \<and> set (p_credential_definitions p) = set (rq_credentials msg)
            \<and> set (rq_credentials msg) \<subseteq> catalog_ids (s_definitions (shared w))
            \<and> length (p_credential_definitions p) \<le> MAX_REQUEST_CREDENTIALS
            \<and> p_state p \<in> {PSubmitted, PApproved} \<and> spawned = (if p_state p = PApproved then [pid] else []))
        \<and> step w (w\<lparr>shared := h_issuer s', drawn := finsert hid (finsert pid (drawn w)), tasks := tasks w @ map Queued spawned\<rparr>))"
proof -
  obtain tr1 r1 s1 where auth: "authenticate D N a hdr clock s = ((tr1, r1), s1)" by (metis prod.collapse)
  have tr: "tr = tr1" using run by (auto simp: credential_request_result auth split: sum.splits option.splits prod.splits)
  have "confined D (a_outbound a) (fst (authenticate D N a hdr clock s))"
    using authenticate_confined [OF law] unfolding sconfined_def by blast
  then have conf: "\<forall>url \<in> set tr. allowed D (a_outbound a) url" by (simp add: auth tr confined_def)
  have s1: "h_issuer s1 = shared w" using keepsD [OF auth_keeps(2), of D N a hdr clock s] here auth by simp
  show ?thesis
  proof (cases r1)
    case (Inl r)
    have "r_status r \<in> {401}" by (rule refusesD [OF auth_refuses(1), of _ D N a hdr clock s]) (simp_all add: auth Inl)
    with conf run s1 show ?thesis by (auto simp: credential_request_result auth Inl)
  next
    case (Inr claims)
    have env: "envelope_valid D N hdr (own_did (a_identity a)) (insecure_http (a_config a)) (a_outbound a)
        (clock 0) (clock 1) (clock 2) claims"
      using authenticate_Ok [of D N a hdr clock s claims] by (simp add: auth Inr)
    show ?thesis
    proof (cases "get_str claims ''sub''")
      case None
      with conf run s1 show ?thesis by (auto simp: credential_request_result auth Inr)
    next
      case (Some holder)
      let ?ids = "dedup_ids [] (rq_credentials msg)"
      obtain out i where sec: "request_section (cfg_holder_approval (a_config a)) pid hid (clock 3) holder
          (rq_holder_pid msg) (get_str claims ''token'') ?ids (shared w) = (out, i)" by fastforce
      show ?thesis
      proof (cases out)
        case (Inl r)
        have "res = Inl r" "h_issuer s' = i"
          using run by (auto simp: credential_request_result auth \<open>r1 = Inr claims\<close> Some s1 sec Inl)
        with conf request_section_Err [OF sec [unfolded Inl]] request_section_codes [OF sec [unfolded Inl]]
        show ?thesis by auto
      next
        case (Inr deliver)
        have out: "res = Inr (with_header ''location'' (''/requests/'' @ pid) (resp 201 NoBody), if deliver then [pid] else [])"
          "h_issuer s' = i"
          using run by (auto simp: credential_request_result auth \<open>r1 = Inr claims\<close> Some s1 sec Inr)
        from section_admits [OF reach fresh sec [unfolded Inr]] obtain p where
          p: "fmlookup (records (s_requests i)) pid = Some p"
            "p_holder_did p = holder \<and> p_delivery_bearer p = get_str claims ''token''
            \<and> distinct (p_credential_definitions p) \<and> set (p_credential_definitions p) = set (rq_credentials msg)
            \<and> set (rq_credentials msg) \<subseteq> catalog_ids (s_definitions (shared w))
            \<and> length (p_credential_definitions p) \<le> MAX_REQUEST_CREDENTIALS
            \<and> p_state p \<in> {PSubmitted, PApproved}
            \<and> (if deliver then [pid] else []) = (if p_state p = PApproved then [pid] else [])"
          and st: "step w (w\<lparr>shared := i, drawn := finsert hid (finsert pid (drawn w)),
            tasks := tasks w @ map Queued (if deliver then [pid] else [])\<rparr>)" .
        with conf env Some p st show ?thesis
          unfolding out by (simp only: sum.case prod.case) (auto simp: with_header_def resp_def)
      qed
    qed
  qed
qed


section \<open>Witnesses\<close>

lemma starts_with_length: "starts_with s p \<Longrightarrow> length p \<le> length s"
  by (auto simp: starts_with_iff)

lemma find_str_length: "find_str s p = Some n \<Longrightarrow> n + length p \<le> length s"
  by (induction s p arbitrary: n rule: find_str.induct) (auto dest: starts_with_length split: if_splits)

lemma find_str_append: "find_str s p = Some n \<Longrightarrow> find_str (s @ x) p = Some n"
proof (induction s p arbitrary: n rule: find_str.induct)
  case (1 p)
  then show ?case by (cases x) (auto simp: starts_with_def split: if_splits)
next
  case (2 c s p)
  show ?case
  proof (cases "starts_with (c # s) p")
    case True
    then have "starts_with (c # s @ x) p" by (metis append_Cons append_assoc starts_with_iff)
    with 2 True show ?thesis by simp
  next
    case False
    with 2 obtain m where m: "find_str s p = Some m" "n = Suc m" by auto
    then have "\<not> starts_with (c # s @ x) p" using find_str_length [OF m(1)] False
      by (cases p) (auto simp: starts_with_def)
    with m 2(1) [OF False m(1)] show ?thesis by simp
  qed
qed

lemma sample_suffix: "suffix_keeps_host (sample_dcp decode)"
proof -
  have "takeWhile (\<lambda>c. c \<noteq> CHR ''/'') (xs @ CHR ''/'' # ys) = takeWhile (\<lambda>c. c \<noteq> CHR ''/'') xs" for xs ys
    by (induction xs) auto
  moreover have "split_once (u @ x) p = Some (a, b @ x)" if "split_once u p = Some (a, b)" for u x p a b
    using that find_str_append [of u p _ x] find_str_length [of u p] by (auto simp: split_once_def split: option.splits)
  ultimately show ?thesis
    unfolding suffix_keeps_host_def by (fastforce simp: sample_dcp_def split: option.splits prod.splits)
qed

definition sample_uuid :: "nat \<Rightarrow> string" where
  "sample_uuid k = replicate (k + 2) CHR ''c''"

lemma sample_uuid_fresh: "inj sample_uuid" "range sample_uuid \<inter> fset {|''h'', ''p''|} = {}"
proof -
  have len: "length (sample_uuid k) = k + 2" for k by (simp add: sample_uuid_def)
  show "inj sample_uuid" by (rule injI) (metis add_right_cancel len)
  show "range sample_uuid \<inter> fset {|''h'', ''p''|} = {}"
    using len by (auto dest: arg_cong [of _ _ length])
qed

definition sample_chrono :: "int chrono" where
  "sample_chrono = \<lparr>from_timestamp = Some, max_utc = 0, to_rfc3339 = (\<lambda>t. nat_to_string (nat t))\<rparr>"

theorem delivery_run_correct_witness:
  "\<exists>w tr s' w'. reachable 2 w \<and> deliver_issued_credential (sample_dcp sample_decode) sample_network sample_chrono
      sample_hub ''p'' (\<lambda>_. 9) sample_uuid 11 (shared w) = Some (tr, s') \<and> step\<^sup>*\<^sup>* w w' \<and> shared w' = s'
      \<and> (\<forall>url \<in> set tr. allowed (sample_dcp sample_decode) (a_outbound sample_hub) url)"
proof -
  from run_queued obtain hs where r: "reachable 2 \<lparr>shared = \<lparr>s_definitions = sample_catalog, s_holders = hs,
      s_requests = \<lparr>records = fmupd ''p'' admitted_process fmempty, rt_order = [''p''], rt_capacity = 2\<rparr>,
      s_issued = issued_default\<rparr>, tasks = [Queued ''p''], drawn = {|''h'', ''p''|}\<rparr>" (is "reachable 2 ?w") ..
  have i: "0 < length (tasks ?w)" "tasks ?w ! 0 = Queued ''p''" by simp_all
  have permit: "permits_out (tasks ?w) < MAX_IN_FLIGHT_DELIVERIES" by (simp add: MAX_IN_FLIGHT_DELIVERIES_def)
  have f: "range sample_uuid \<inter> fset (drawn ?w) = {}" using sample_uuid_fresh(2) by simp
  from delivery_run_correct [OF sample_resolves sample_suffix r i permit sample_uuid_fresh(1) f,
      of sample_decode sample_chrono sample_hub "\<lambda>_. 9" 11]
  obtain tr s' d' where run: "deliver_issued_credential (sample_dcp sample_decode) sample_network sample_chrono
      sample_hub ''p'' (\<lambda>_. 9) sample_uuid 11 (shared ?w) = Some (tr, s')"
    and conf: "\<forall>url \<in> set tr. allowed (sample_dcp sample_decode) (a_outbound sample_hub) url"
    and st: "step\<^sup>*\<^sup>* ?w (?w\<lparr>shared := s', drawn := d', tasks := (tasks ?w)[0 := Ended ''p'']\<rparr>)"
    by (elim exE conjE) (rule that)
  from r run conf st show ?thesis
    by (intro exI [of _ ?w] exI [of _ tr] exI [of _ s'] exI [of _ "?w\<lparr>shared := s', drawn := d', tasks := (tasks ?w)[0 := Ended ''p'']\<rparr>"])
      simp
qed

definition sample_issuer :: "unit app" where
  "sample_issuer = \<lparr>a_config = sample_config IssuerService, a_identity = sample_party, a_sts_party = sample_party,
     a_sts_config = \<lparr>sts_client_id = ''c'', sts_client_secret = ''s''\<rparr>, a_scope_matcher = default_pattern_type,
     a_outbound = policy_new roundtrip_dcp []\<rparr>"

theorem minted_credential_accepted_witness:
  "let d = hd (definitions sample_catalog);
       c = minted_container d (mint_credential roundtrip_dcp sample_chrono sample_issuer d ''did:web:holder.example'' (Some 0) 1000 ''u'')
   in check_container roundtrip_dcp ''did:web:holder.example'' (Some [own_did sample_party]) 1010 c = Ok ()
    \<and> check_container roundtrip_dcp ''did:web:other.example'' (Some [own_did sample_party]) 1010 c \<noteq> Ok ()
    \<and> check_container roundtrip_dcp ''did:web:holder.example'' (Some [own_did sample_party]) 4600 c \<noteq> Ok ()"
proof -
  let ?d = "hd (definitions sample_catalog)"
  have v: "cd_validity ?d = 3600" by (simp add: sample_catalog_def)
  have b: "1000 + cd_validity ?d < u64_limit" "1010 + CLOCK_SKEW_SECS < u64_limit" "4600 + CLOCK_SKEW_SECS < u64_limit"
    unfolding v by (simp_all add: u64_limit_def CLOCK_SKEW_SECS_def)
  have did: "own_did (a_identity sample_issuer) = own_did sample_party" by (simp add: sample_issuer_def)
  note acc = minted_credential_accepted [OF roundtrip_dcp_law b(1), where a = sample_issuer and X = sample_chrono
      and h = "''did:web:holder.example''" and i = 0 and uuid = "''u''" and trusted = "Some [own_did sample_party]"]
  from acc [OF b(2), of "''did:web:holder.example''"] acc [OF b(2), of "''did:web:other.example''"]
    acc [OF b(3), of "''did:web:holder.example''"]
  show ?thesis unfolding Let_def did v by (simp add: CLOCK_SKEW_SECS_def)
qed

theorem status_list_current_witness:
  "\<exists>ic header payload. list_ops roundtrip_dcp (\<lambda>bs. nat_to_string (length bs)) sample_issuer [Allocate, Serve 5] issued_default = Some ic
    \<and> cached_jwt (ic_list ic) \<noteq> None
    \<and> decode_jws_unverified roundtrip_dcp (fst (serve_status_list roundtrip_dcp (\<lambda>bs. nat_to_string (length bs)) sample_issuer 9 ic)) = Ok (header, payload)
    \<and> json_pointer payload [''vc'', ''credentialSubject'', ''encodedList''] = Some (JStr (nat_to_string (length (bits (ic_list ic)))))"
proof -
  obtain ic where ic: "list_ops roundtrip_dcp (\<lambda>bs. nat_to_string (length bs)) sample_issuer [Allocate, Serve 5] issued_default = Some ic"
    by simp
  then have "cached_jwt (ic_list ic) \<noteq> None"
    by (auto simp: serve_status_list_def Let_def split: option.splits)
  with ic status_list_current [OF roundtrip_dcp_law ic, of 9] show ?thesis by blast
qed


definition sample_request :: credential_request_message where
  "sample_request = \<lparr>rq_context = [], rq_type = ''CredentialRequestMessage'', rq_holder_pid = ''hp'',
     rq_credentials = [''membership-credential'', ''membership-credential'']\<rparr>"

lemma sample_request_section:
  assumes "0 < n"
  shows "\<exists>s'. request_section Auto pid hid now ''did:web:caller.example'' ''hp'' None
      (dedup_ids [] [''membership-credential'', ''membership-credential''])
      \<lparr>s_definitions = sample_catalog, s_holders = registry_default, s_requests = rt_new n, s_issued = issued_default\<rparr>
    = (Ok True, s')"
proof -
  obtain h hs where hf: "holder_for Auto hid now ''did:web:caller.example'' registry_default = (Ok h, hs)" "status h = Approved"
    by (simp add: holder_for_def registry_insert_def registry_default_def registry_len_def MAX_HOLDERS_def
        by_did_def Let_def initial_status_def)
  have ids: "dedup_ids [] [''membership-credential'', ''membership-credential''] = [''membership-credential'']"
    by (simp add: MAX_REQUEST_CREDENTIALS_def)
  show ?thesis unfolding ids request_section_def
    by (simp add: hf MAX_REQUEST_CREDENTIALS_def catalog_get_def sample_catalog_def Let_def
        pending_counts_def rt_insert_def rt_new_def rt_make_room.simps assms)
qed

theorem credential_request_correct_witness:
  "let s = sample_hub_state\<lparr>h_issuer := \<lparr>s_definitions = sample_catalog, s_holders = registry_default,
        s_requests = rt_new 2, s_issued = issued_default\<rparr>\<rparr>;
       run = credential_request (sample_dcp sample_decode) sample_network sample_hub (Some ''Bearer k1.token'') sample_request
        (\<lambda>_. 1010) ''p'' ''h'' s
   in \<exists>r p. snd (fst run) = Ok (r, [''p'']) \<and> r_status r = 201
      \<and> fmlookup (records (s_requests (h_issuer (snd run)))) ''p'' = Some p \<and> p_holder_did p = ''did:web:caller.example''
      \<and> distinct (p_credential_definitions p)"
proof -
  let ?i = "\<lparr>s_definitions = sample_catalog, s_holders = registry_default, s_requests = rt_new 2, s_issued = issued_default\<rparr>"
  let ?w = "\<lparr>shared = ?i, tasks = [], drawn = {||}\<rparr>"
  let ?s = "sample_hub_state\<lparr>h_issuer := ?i\<rparr>"
  let ?D = "sample_dcp sample_decode"
  let ?run = "credential_request ?D sample_network sample_hub (Some ''Bearer k1.token'') sample_request (\<lambda>_. 1010) ''p'' ''h'' ?s"
  have auth: "snd (fst (authenticate ?D sample_network sample_hub (Some ''Bearer k1.token'') (\<lambda>_. 1010) ?s)) = Ok sample_payload"
    using sample_authenticates unfolding authenticate_Ok by simp
  obtain tr s1 where a: "authenticate ?D sample_network sample_hub (Some ''Bearer k1.token'') (\<lambda>_. 1010) ?s = ((tr, Ok sample_payload), s1)"
    using auth by (metis prod.collapse)
  have s1: "h_issuer s1 = ?i" using keepsD [OF auth_keeps(2), of ?D sample_network sample_hub "Some ''Bearer k1.token''" "\<lambda>_. 1010" ?s] a by simp
  have claims: "get_str sample_payload ''sub'' = Some ''did:web:caller.example''" "get_str sample_payload ''token'' = None"
    by (simp_all add: sample_payload_def)
  have appr: "cfg_holder_approval (a_config sample_hub) = Auto" by (simp add: sample_hub_def sample_config_def)
  from sample_request_section [of 2 "''p''" "''h''" 1010] obtain i' where sec: "request_section Auto ''p'' ''h'' 1010 ''did:web:caller.example'' ''hp'' None
      (dedup_ids [] [''membership-credential'', ''membership-credential'']) ?i = (Ok True, i')" by auto
  have run: "?run = ((tr, Ok (with_header ''location'' (''/requests/'' @ ''p'') (resp 201 NoBody), [''p''])), s1\<lparr>h_issuer := i'\<rparr>)"
    unfolding credential_request_result a using claims appr sec by (simp add: s1 sample_request_def del: dedup_ids.simps)
  have fresh: "''p'' |\<notin>| drawn ?w" "''h'' |\<notin>| finsert ''p'' (drawn ?w)" by simp_all
  have here: "h_issuer ?s = shared ?w" by simp
  have hi: "h_issuer (s1\<lparr>h_issuer := i'\<rparr>) = i'" by simp
  from credential_request_correct [OF sample_resolves run_start here fresh run, unfolded sum.case prod.case hi]
  obtain claims holder p where
    "envelope_valid ?D sample_network (Some ''Bearer k1.token'') (own_did (a_identity sample_hub)) (insecure_http (a_config sample_hub))
       (a_outbound sample_hub) 1010 1010 1010 claims"
    "get_str claims ''sub'' = Some holder" "fmlookup (records (s_requests i')) ''p'' = Some p" "p_holder_did p = holder"
    "distinct (p_credential_definitions p)"
    by (elim conjE exE) (rule that)
  moreover from this(1) have "claims = sample_payload"
    unfolding envelope_valid_def by (auto simp: sample_dcp_def sample_decode_def split: if_splits)
  ultimately show ?thesis unfolding Let_def run using claims by simp
qed

end
