(* ===== verification/Oid4vci_Core.thy ===== *)
theory Oid4vci_Core
  imports Issuer_Service
begin

text \<open>
  The network-free part of OID4VCI (identity-hub-core, oid4vci.rs): the message types, the well-known
  URLs, the JWTs a wallet signs, and the checks on a key proof. Base64, SHA-256, ECDSA, the reader of
  a bare public key and the JSON printer are fields of the record \<open>jose\<close>.
\<close>

section \<open>Third-party code\<close>

record 'k jose =
  b64_encode :: "string \<Rightarrow> string"
  sha256 :: "string \<Rightarrow> string"
  json_text :: "json \<Rightarrow> string"
  es256_sign :: "'k \<Rightarrow> string \<Rightarrow> string"
  public_xy :: "'k \<Rightarrow> string \<times> string"
  jwk_to_verifying_key :: "string \<Rightarrow> string \<Rightarrow> ('k, string) result"

section \<open>Constants\<close>

definition PRE_AUTHORIZED_CODE_GRANT :: string where
  "PRE_AUTHORIZED_CODE_GRANT = ''urn:ietf:params:oauth:grant-type:pre-authorized_code''"

definition FORMAT_JWT_VC_JSON :: string where
  "FORMAT_JWT_VC_JSON = ''jwt_vc_json''"

definition PROOF_JWT_TYP :: string where
  "PROOF_JWT_TYP = ''openid4vci-proof+jwt''"

definition CREDENTIAL_OFFER_SCHEME :: string where
  "CREDENTIAL_OFFER_SCHEME = ''openid-credential-offer://''"

definition CREDENTIAL_ISSUER_WELL_KNOWN :: string where
  "CREDENTIAL_ISSUER_WELL_KNOWN = ''openid-credential-issuer''"

definition AUTHORIZATION_SERVER_WELL_KNOWN :: string where
  "AUTHORIZATION_SERVER_WELL_KNOWN = ''oauth-authorization-server''"

definition DPOP_JWT_TYP :: string where
  "DPOP_JWT_TYP = ''dpop+jwt''"

definition CLIENT_ASSERTION_TYPE_JWT_BEARER :: string where
  "CLIENT_ASSERTION_TYPE_JWT_BEARER = ''urn:ietf:params:oauth:client-assertion-type:jwt-bearer''"

definition PROOF_MAX_AGE_SECS :: u64 where
  "PROOF_MAX_AGE_SECS = 300"

definition PROOF_IAT_LEEWAY_SECS :: u64 where
  "PROOF_IAT_LEEWAY_SECS = 30"

section \<open>Messages\<close>

record tx_code_description =
  tx_input_mode :: "string option"
  tx_length :: "nat option"
  tx_description :: "string option"

record pre_authorized_code_grant =
  pg_code :: string
  pg_tx_code :: "tx_code_description option"
  pg_authorization_server :: "string option"

record offer_grants =
  og_pre_authorized_code :: "pre_authorized_code_grant option"

record oid_offer =
  oo_credential_issuer :: string
  oo_configuration_ids :: "string list"
  oo_grants :: "offer_grants option"

record credential_configuration =
  conf_format :: string
  conf_scope :: "string option"
  conf_binding_methods :: "string list"
  conf_signing_algs :: "json list"
  conf_proof_types :: "json option"
  conf_types :: "string list option"

record credential_issuer_metadata =
  md_credential_issuer :: string
  md_authorization_servers :: "string list"
  md_credential_endpoint :: string
  md_nonce_endpoint :: "string option"
  md_configurations :: "(string \<times> credential_configuration) list"

record authorization_server_metadata =
  as_issuer :: string
  as_token_endpoint :: string
  as_grant_types :: "string list"
  as_anonymous_access :: "bool option"
  as_dpop_algs :: "string list"

record token_authorization_detail =
  ad_type :: string
  ad_configuration_id :: "string option"
  ad_identifiers :: "string list"

record oid_token_response =
  tr_access_token :: string
  tr_token_type :: string
  tr_expires_in :: u64
  tr_authorization_details :: "token_authorization_detail list"

record single_proof =
  sp_type :: string
  sp_jwt :: "string option"

record oid_credential_request =
  cr_configuration_id :: "string option"
  cr_identifier :: "string option"
  cr_proofs :: "string list option"
  cr_proof :: "single_proof option"

record oid_credential_response =
  rs_credentials :: "json list"
  rs_credential :: "json option"
  rs_transaction_id :: "string option"

definition credential_identifiers_for :: "oid_token_response \<Rightarrow> string \<Rightarrow> string list" where
  "credential_identifiers_for tok i =
     concat (map ad_identifiers
       (filter (\<lambda>d. ad_type d = ''openid_credential'' \<and> ad_configuration_id d = Some i) (tr_authorization_details tok)))"

definition jwt_proofs :: "oid_credential_request \<Rightarrow> string list" where
  "jwt_proofs r =
     (case cr_proofs r of None \<Rightarrow> [] | Some jwts \<Rightarrow> jwts)
     @ (case cr_proof r of
          Some single \<Rightarrow> if sp_type single = ''jwt'' then (case sp_jwt single of Some j \<Rightarrow> [j] | None \<Rightarrow> []) else []
        | None \<Rightarrow> [])"

section \<open>Well-known URLs\<close>

definition well_known_url :: "string \<Rightarrow> string \<Rightarrow> (string, string) result" where
  "well_known_url issuer nm =
     (case split_once (trim_end_matches CHR ''/'' issuer) ''://'' of
        None \<Rightarrow> Err (''issuer identifier '' @ quoted issuer @ '' is not an absolute URL'')
      | Some (sch, rest) \<Rightarrow>
          let authority = takeWhile (\<lambda>c. c \<noteq> CHR ''/'') rest;
              path = dropWhile (\<lambda>c. c \<noteq> CHR ''/'') rest in
          if authority = [] then Err (''issuer identifier '' @ quoted issuer @ '' has no host'')
          else Ok (sch @ ''://'' @ authority @ ''/.well-known/'' @ nm @ path
                   @ (if nm = CREDENTIAL_ISSUER_WELL_KNOWN \<and> path \<noteq> [] \<and> ends_with_char issuer CHR ''/'' then ''/'' else [])))"

section \<open>JWTs a wallet signs\<close>

definition sign_jws_with_header :: "'k jose \<Rightarrow> json \<Rightarrow> json \<Rightarrow> 'k \<Rightarrow> string" where
  "sign_jws_with_header J header payload key =
     (let signing_input = b64_encode J (json_text J (json_set ''alg'' (JStr ''ES256'') header))
            @ ''.'' @ b64_encode J (json_text J payload)
      in signing_input @ ''.'' @ b64_encode J (es256_sign J key signing_input))"

definition public_jwk :: "'k jose \<Rightarrow> 'k \<Rightarrow> json" where
  "public_jwk J key = json_obj
     [(''kty'', JStr ''EC''), (''crv'', JStr ''P-256''),
      (''x'', JStr (b64_encode J (fst (public_xy J key)))), (''y'', JStr (b64_encode J (snd (public_xy J key))))]"

datatype proof_key_ref = RefDidUrl | RefJwk

definition for_binding_methods :: "string list \<Rightarrow> proof_key_ref" where
  "for_binding_methods methods =
     (if methods = [] \<or> list_ex (\<lambda>m. m = ''did'' \<or> starts_with m ''did:'') methods then RefDidUrl else RefJwk)"

definition proof_payload :: "string \<Rightarrow> string option \<Rightarrow> string option \<Rightarrow> u64 \<Rightarrow> json" where
  "proof_payload issuer nonce client now =
     (let p = json_obj [(''aud'', JStr issuer), (''iat'', jnat now)];
          p = (case nonce of None \<Rightarrow> p | Some n \<Rightarrow> json_set ''nonce'' (JStr n) p)
      in case client of None \<Rightarrow> p | Some c \<Rightarrow> json_set ''iss'' (JStr c) p)"

definition build_jwt_proof_for_client ::
    "'k jose \<Rightarrow> 'k service_identity \<Rightarrow> string \<Rightarrow> string option \<Rightarrow> string option \<Rightarrow> proof_key_ref \<Rightarrow> u64 \<Rightarrow> string" where
  "build_jwt_proof_for_client J me issuer nonce client ref now =
     sign_jws_with_header J
       (case ref of
          RefDidUrl \<Rightarrow> json_obj [(''typ'', JStr PROOF_JWT_TYP), (''kid'', JStr (own_key_id me))]
        | RefJwk \<Rightarrow> json_obj [(''typ'', JStr PROOF_JWT_TYP), (''jwk'', public_jwk J (own_key me))])
       (proof_payload issuer nonce client now) (own_key me)"

definition build_jwt_proof :: "'k jose \<Rightarrow> 'k service_identity \<Rightarrow> string \<Rightarrow> string option \<Rightarrow> u64 \<Rightarrow> string" where
  "build_jwt_proof J me issuer nonce now = build_jwt_proof_for_client J me issuer nonce None RefDidUrl now"

definition build_dpop_proof ::
    "'k jose \<Rightarrow> 'k service_identity \<Rightarrow> string \<Rightarrow> string \<Rightarrow> string option \<Rightarrow> string option \<Rightarrow> u64 \<Rightarrow> string \<Rightarrow> string" where
  "build_dpop_proof J me htm htu nonce token now jti =
     (let p = json_obj
            [(''jti'', JStr jti), (''htm'', JStr htm),
             (''htu'', JStr (takeWhile (\<lambda>c. c \<notin> {CHR ''?'', CHR ''#''}) htu)), (''iat'', jnat now)];
          p = (case nonce of None \<Rightarrow> p | Some n \<Rightarrow> json_set ''nonce'' (JStr n) p);
          p = (case token of None \<Rightarrow> p | Some t \<Rightarrow> json_set ''ath'' (JStr (b64_encode J (sha256 J t))) p)
      in sign_jws_with_header J (json_obj [(''typ'', JStr DPOP_JWT_TYP), (''jwk'', public_jwk J (own_key me))]) p (own_key me))"

definition build_client_assertion :: "'k jose \<Rightarrow> 'k service_identity \<Rightarrow> string \<Rightarrow> string \<Rightarrow> u64 \<Rightarrow> string \<Rightarrow> string" where
  "build_client_assertion J me client aud now jti =
     sign_jws_with_header J (json_obj [(''typ'', JStr ''JWT''), (''kid'', JStr (own_key_id me))])
       (json_obj [(''iss'', JStr client), (''sub'', JStr client), (''aud'', JStr aud), (''jti'', JStr jti),
                  (''iat'', jnat now), (''exp'', jnat (u64_add now 60))]) (own_key me)"

section \<open>Checks on a key proof\<close>

datatype proof_key = DidUrl string string | JwkKey string string string

fun holder_did :: "proof_key \<Rightarrow> string" where
  "holder_did (DidUrl kid d) = d"
| "holder_did (JwkKey x y d) = d"

datatype proof_error = Malformed_Proof string | WrongType | WrongAlgorithm | NoKey | WrongProofAudience | StaleOrFutureIat | MissingNonce

fun proof_message :: "proof_error \<Rightarrow> string" where
  "proof_message (Malformed_Proof e) = ''proof is not a decodable JWS: '' @ e"
| "proof_message WrongType = ''proof typ must be '' @ quoted PROOF_JWT_TYP"
| "proof_message WrongAlgorithm = ''proof alg must be ES256''"
| "proof_message NoKey = ''proof header must carry exactly one of kid (a DID URL) or jwk (a P-256 key)''"
| "proof_message WrongProofAudience = ''proof aud does not name this Credential Issuer''"
| "proof_message StaleOrFutureIat = ''proof iat is missing, in the future, or too old''"
| "proof_message MissingNonce = ''proof carries no nonce, or not the one this issuer handed out''"

definition bare_jwk :: "string \<Rightarrow> string \<Rightarrow> json" where
  "bare_jwk x y = json_obj [(''kty'', JStr ''EC''), (''crv'', JStr ''P-256''), (''x'', JStr x), (''y'', JStr y)]"

definition did_jwk :: "'k jose \<Rightarrow> string \<Rightarrow> string \<Rightarrow> string" where
  "did_jwk J x y = ''did:jwk:'' @ b64_encode J (json_text J (bare_jwk x y))"

definition header_key :: "'k jose \<Rightarrow> json \<Rightarrow> (proof_key, proof_error) result" where
  "header_key J header =
     (case (json_get header ''kid'', json_get header ''jwk'') of
        (Some (JStr kid), None) \<Rightarrow>
          if starts_with kid ''did:'' then Ok (DidUrl kid (takeWhile (\<lambda>c. c \<noteq> CHR ''#'') kid)) else Err NoKey
      | (None, Some (JObj m)) \<Rightarrow>
          if get_str (JObj m) ''kty'' \<noteq> Some ''EC'' \<or> get_str (JObj m) ''crv'' \<noteq> Some ''P-256'' \<or> map_of m ''d'' \<noteq> None
          then Err NoKey
          else (case (get_str (JObj m) ''x'', get_str (JObj m) ''y'') of
                  (Some x, Some y) \<Rightarrow> Ok (JwkKey x y (did_jwk J x y))
                | _ \<Rightarrow> Err NoKey)
      | _ \<Rightarrow> Err NoKey)"

definition aud_names :: "json \<Rightarrow> string \<Rightarrow> bool" where
  "aud_names payload issuer =
     (case json_get payload ''aud'' of
        Some (JStr aud) \<Rightarrow> aud = issuer
      | Some (JArr auds) \<Rightarrow> list_ex (\<lambda>a. as_str a = Some issuer) auds
      | _ \<Rightarrow> False)"

definition iat_fresh :: "json \<Rightarrow> u64 \<Rightarrow> bool" where
  "iat_fresh payload now =
     (case get_u64 payload ''iat'' of
        Some iat \<Rightarrow> iat \<le> u64_add now PROOF_IAT_LEEWAY_SECS \<and> u64_add iat PROOF_MAX_AGE_SECS \<ge> now
      | None \<Rightarrow> False)"

definition inspect_jwt_proof ::
    "('d, 'k) dcp \<Rightarrow> 'k jose \<Rightarrow> string \<Rightarrow> string \<Rightarrow> u64 \<Rightarrow> (proof_key \<times> string option, proof_error) result" where
  "inspect_jwt_proof D J jws issuer now =
     (case decode_jws_unverified D jws of
        Inl e \<Rightarrow> Err (Malformed_Proof e)
      | Inr (header, payload) \<Rightarrow>
          if get_str header ''typ'' \<noteq> Some PROOF_JWT_TYP then Err WrongType
          else if get_str header ''alg'' \<noteq> Some ''ES256'' then Err WrongAlgorithm
          else (case header_key J header of
            Inl e \<Rightarrow> Err e
          | Inr key \<Rightarrow>
              if \<not> aud_names payload issuer then Err WrongProofAudience
              else if \<not> iat_fresh payload now then Err StaleOrFutureIat
              else Ok (key, get_str payload ''nonce'')))"


section \<open>Well-known URLs, by parts\<close>

lemma split_once_scheme:
  "CHR '':'' \<notin> set sch \<Longrightarrow> split_once (sch @ ''://'' @ r) ''://'' = Some (sch, r)"
proof (induction sch)
  case Nil
  then show ?case by (cases r) (simp_all add: split_once_def starts_with_def)
next
  case (Cons c sch)
  then show ?case by (auto simp: split_once_def starts_with_def split: option.splits)
qed

lemma trim_end_replicate:
  "xs \<noteq> [] \<Longrightarrow> last xs \<noteq> c \<Longrightarrow> trim_end_matches c (xs @ replicate n c) = xs"
proof -
  assume "xs \<noteq> []" "last xs \<noteq> c"
  then obtain ys y where xs: "xs = ys @ [y]" "y \<noteq> c" by (cases xs rule: rev_cases) auto
  have "dropWhile (\<lambda>x. x = c) (replicate n c @ y # rev ys) = y # rev ys" using xs(2) by (induction n) auto
  with xs show ?thesis by (simp add: trim_end_matches_def)
qed

text \<open>
  The well-known URL of an issuer is the one the specifications construct from its parts: for every
  absolute identifier, made of a scheme, an authority, a path and trailing slashes, the well-known
  segment stands between authority and path, RFC 8414 drops the trailing slashes and OID4VCI keeps one
  after a path. An identifier without a scheme or a host has none.
\<close>

theorem well_known_url_correct:
  assumes "CHR '':'' \<notin> set sch" "authority \<noteq> []" "CHR ''/'' \<notin> set authority"
    and "path = [] \<or> (\<exists>p. path = CHR ''/'' # p) \<and> last path \<noteq> CHR ''/''"
  shows "well_known_url (sch @ ''://'' @ authority @ path @ replicate n CHR ''/'') nm
    = Ok (sch @ ''://'' @ authority @ ''/.well-known/'' @ nm @ path
          @ (if nm = CREDENTIAL_ISSUER_WELL_KNOWN \<and> path \<noteq> [] \<and> 0 < n then ''/'' else []))
    \<and> \<not> is_ok (well_known_url (sch @ ''://'' @ replicate n CHR ''/'') nm) \<and> \<not> is_ok (well_known_url sch nm)"
proof (intro conjI)
  let ?s = "sch @ ''://'' @ authority @ path"
  have last: "last ?s \<noteq> CHR ''/''"
  proof (cases "path = []")
    case True
    then have "last ?s = last authority" "last authority \<in> set authority" using assms(2) by simp_all
    with assms(3) show ?thesis by metis
  next
    case False
    with assms(4) show ?thesis by (simp add: last_append)
  qed
  have trimmed: "trim_end_matches CHR ''/'' (sch @ ''://'' @ authority @ path @ replicate n CHR ''/'') = ?s"
    using trim_end_replicate [OF _ last, of n] by simp
  have split: "split_once ?s ''://'' = Some (sch, authority @ path)" by (rule split_once_scheme [OF assms(1)])
  have parts: "takeWhile (\<lambda>c. c \<noteq> CHR ''/'') (authority @ path) = authority" "dropWhile (\<lambda>c. c \<noteq> CHR ''/'') (authority @ path) = path"
    using assms(3,4) by (induction authority) auto
  have ends: "ends_with_char (?s @ replicate n CHR ''/'') CHR ''/'' \<longleftrightarrow> 0 < n"
    using last by (cases n) (auto simp: ends_with_char_def last_append)
  show "well_known_url (sch @ ''://'' @ authority @ path @ replicate n CHR ''/'') nm
    = Ok (sch @ ''://'' @ authority @ ''/.well-known/'' @ nm @ path
          @ (if nm = CREDENTIAL_ISSUER_WELL_KNOWN \<and> path \<noteq> [] \<and> 0 < n then ''/'' else []))"
    using assms(2) ends unfolding well_known_url_def trimmed split by (simp add: parts Let_def)
  have no: "split_once s ''://'' = None" if "CHR '':'' \<notin> set s" for s
    using that by (induction s) (auto simp: split_once_def starts_with_def split: option.splits)
  have tr: "set (trim_end_matches CHR ''/'' s) \<subseteq> set s" for s
    unfolding trim_end_matches_def by (metis set_dropWhileD set_rev subsetI)
  show "\<not> is_ok (well_known_url sch nm)"
    using no [of "trim_end_matches CHR ''/'' sch", OF contra_subsetD [OF tr assms(1)]] by (simp add: well_known_url_def)
  have "trim_end_matches CHR ''/'' ((sch @ '':'') @ replicate (n + 2) CHR ''/'') = sch @ '':''"
    by (rule trim_end_replicate) simp_all
  moreover have "split_once (sch @ '':'') ''://'' = None"
    using assms(1) by (induction sch) (auto simp: split_once_def starts_with_def split: option.splits)
  ultimately show "\<not> is_ok (well_known_url (sch @ ''://'' @ replicate n CHR ''/'') nm)"
    by (simp add: well_known_url_def)
qed

theorem well_known_url_correct_witness:
  "well_known_url ''https://h:8080/tenant/'' CREDENTIAL_ISSUER_WELL_KNOWN = Ok ''https://h:8080/.well-known/openid-credential-issuer/tenant/''
   \<and> well_known_url ''https://h:8080/tenant/'' AUTHORIZATION_SERVER_WELL_KNOWN = Ok ''https://h:8080/.well-known/oauth-authorization-server/tenant''"
proof -
  have "CHR '':'' \<notin> set ''https''" "''h:8080'' \<noteq> []" "CHR ''/'' \<notin> set ''h:8080''"
    "''/tenant'' = [] \<or> (\<exists>p. ''/tenant'' = CHR ''/'' # p) \<and> last ''/tenant'' \<noteq> CHR ''/''" by simp_all
  note wk = well_known_url_correct [OF this, of 1]
  from wk [of CREDENTIAL_ISSUER_WELL_KNOWN] wk [of AUTHORIZATION_SERVER_WELL_KNOWN] show ?thesis
    by (simp add: CREDENTIAL_ISSUER_WELL_KNOWN_def AUTHORIZATION_SERVER_WELL_KNOWN_def)
qed


lemma takeWhile_to: "c \<notin> set xs \<Longrightarrow> takeWhile (\<lambda>x. x \<noteq> c) (xs @ c # ys) = xs"
  by (induction xs) auto

section \<open>A proof the wallet builds is one the issuer accepts\<close>

text \<open>
  What the hub relies on of the JWS and JSON libraries: a header and a payload without fractions come
  back from the compact form they were signed in, and the signature verifies with the signing key.
\<close>

fun plain_json :: "json \<Rightarrow> bool" where
  "plain_json (JNum (PosInt n)) \<longleftrightarrow> n < u64_limit"
| "plain_json (JNum (NegInt i)) \<longleftrightarrow> False"
| "plain_json (JNum (Float r)) \<longleftrightarrow> False"
| "plain_json (JArr xs) \<longleftrightarrow> (\<forall>x \<in> set xs. plain_json x)"
| "plain_json (JObj m) \<longleftrightarrow> sorted_wrt (\<lambda>x y. str_less (fst x) (fst y)) m \<and> (\<forall>x \<in> set m. plain_json (snd x))"
| "plain_json v \<longleftrightarrow> True"

definition compact_roundtrip :: "('d, 'k) dcp \<Rightarrow> 'k jose \<Rightarrow> bool" where
  "compact_roundtrip D J \<longleftrightarrow> (\<forall>header payload key. plain_json header \<longrightarrow> plain_json payload \<longrightarrow>
     decode_jws_unverified D (sign_jws_with_header J header payload key) = Ok (json_set ''alg'' (JStr ''ES256'') header, payload)
     \<and> verify_jws_signature D (sign_jws_with_header J header payload key) key = Ok ())"

definition proof_header :: "'k jose \<Rightarrow> 'k service_identity \<Rightarrow> proof_key_ref \<Rightarrow> json" where
  "proof_header J me ref =
     (case ref of
        RefDidUrl \<Rightarrow> json_obj [(''typ'', JStr PROOF_JWT_TYP), (''kid'', JStr (own_key_id me))]
      | RefJwk \<Rightarrow> json_obj [(''typ'', JStr PROOF_JWT_TYP), (''jwk'', public_jwk J (own_key me))])"

definition proof_key_of :: "'k jose \<Rightarrow> 'k service_identity \<Rightarrow> proof_key_ref \<Rightarrow> proof_key" where
  "proof_key_of J me ref =
     (case ref of
        RefDidUrl \<Rightarrow> DidUrl (own_key_id me) (own_did me)
      | RefJwk \<Rightarrow>
          (let x = b64_encode J (fst (public_xy J (own_key me))); y = b64_encode J (snd (public_xy J (own_key me)))
           in JwkKey x y (did_jwk J x y)))"

lemma proof_header_plain: "plain_json (proof_header J me ref)"
  by (cases ref) (simp_all add: proof_header_def public_jwk_def json_obj_def byte_def)

lemma proof_payload_plain: "t < u64_limit \<Longrightarrow> plain_json (proof_payload issuer nonce client t)"
  by (cases nonce; cases client) (simp_all add: proof_payload_def json_obj_def byte_def Let_def)

lemma proof_payload_claims:
  "json_get (proof_payload issuer nonce client t) ''aud'' = Some (JStr issuer)"
  "get_u64 (proof_payload issuer nonce client t) ''iat'' = Some t"
  "get_str (proof_payload issuer nonce client t) ''nonce'' = nonce"
  by (cases nonce; cases client; simp add: proof_payload_def json_obj_def Let_def get_u64_def get_str_def)+

lemma header_key_proof_header:
  assumes "own_key_id me = own_did me @ ''#'' @ frag" "CHR ''#'' \<notin> set (own_did me)" "starts_with (own_did me) ''did:''"
  shows "header_key J (json_set ''alg'' (JStr ''ES256'') (proof_header J me ref)) = Ok (proof_key_of J me ref)"
proof (cases ref)
  case RefDidUrl
  have "takeWhile (\<lambda>c. c \<noteq> CHR ''#'') (own_key_id me) = own_did me"
    using assms(1,2) takeWhile_to [of "CHR ''#''" "own_did me" frag] by simp
  moreover have "starts_with (own_key_id me) ''did:''" 
    using starts_with_length [OF assms(3)] assms(1,3) by (simp add: starts_with_def)
  ultimately show ?thesis using RefDidUrl by (simp add: header_key_def proof_header_def proof_key_of_def)
next
  case RefJwk
  then show ?thesis
    by (simp add: header_key_def proof_header_def proof_key_of_def public_jwk_def json_obj_def get_str_def Let_def)
qed

text \<open>
  C23. A key proof the wallet builds passes the issuer's checks and names the wallet: for either way of
  naming the key, the issuer it is addressed to decodes it from 30 seconds before to 300 seconds after
  its issue, to the wallet's key, the wallet's DID (or the DID of the bare key) and the nonce it was
  built with, and its signature verifies with that key. Any other issuer, and any other moment, rejects
  it.
\<close>

theorem key_proof_roundtrip:
  assumes law: "compact_roundtrip D J"
    and id: "own_key_id me = own_did me @ ''#'' @ frag" "CHR ''#'' \<notin> set (own_did me)" "starts_with (own_did me) ''did:''"
    and clock: "t + PROOF_MAX_AGE_SECS < u64_limit" "now + PROOF_IAT_LEEWAY_SECS < u64_limit"
  shows "let jws = build_jwt_proof_for_client J me issuer nonce client ref t in
    inspect_jwt_proof D J jws verifier now =
      (if verifier \<noteq> issuer then Err WrongProofAudience
       else if t \<le> now + 30 \<and> now \<le> t + 300 then Ok (proof_key_of J me ref, nonce)
       else Err StaleOrFutureIat)
    \<and> holder_did (proof_key_of J me ref) = (case ref of RefDidUrl \<Rightarrow> own_did me
        | RefJwk \<Rightarrow> did_jwk J (b64_encode J (fst (public_xy J (own_key me)))) (b64_encode J (snd (public_xy J (own_key me)))))
    \<and> verify_jws_signature D jws (own_key me) = Ok ()"
proof -
  let ?h = "proof_header J me ref" and ?p = "proof_payload issuer nonce client t"
  have t: "t < u64_limit" using clock(1) by simp
  have jws: "build_jwt_proof_for_client J me issuer nonce client ref t = sign_jws_with_header J ?h ?p (own_key me)"
    by (simp add: build_jwt_proof_for_client_def proof_header_def)
  note dec = law [unfolded compact_roundtrip_def, rule_format, OF proof_header_plain proof_payload_plain [OF t]]
  let ?h' = "json_set ''alg'' (JStr ''ES256'') ?h"
  have h: "get_str ?h' ''typ'' = Some PROOF_JWT_TYP" "get_str ?h' ''alg'' = Some ''ES256''"
    by (cases ref; simp add: proof_header_def get_str_def)+
  have fresh: "iat_fresh ?p now \<longleftrightarrow> t \<le> now + 30 \<and> now \<le> t + 300"
    using clock by (simp add: iat_fresh_def proof_payload_claims u64_add_def PROOF_MAX_AGE_SECS_def PROOF_IAT_LEEWAY_SECS_def)
  have aud: "aud_names ?p verifier \<longleftrightarrow> verifier = issuer" by (auto simp: aud_names_def proof_payload_claims)
  have "inspect_jwt_proof D J (sign_jws_with_header J ?h ?p (own_key me)) verifier now =
      (if verifier \<noteq> issuer then Err WrongProofAudience
       else if t \<le> now + 30 \<and> now \<le> t + 300 then Ok (proof_key_of J me ref, nonce)
       else Err StaleOrFutureIat)"
    by (simp add: inspect_jwt_proof_def dec h header_key_proof_header [OF id] fresh aud proof_payload_claims)
  moreover have "holder_did (proof_key_of J me ref) = (case ref of RefDidUrl \<Rightarrow> own_did me
        | RefJwk \<Rightarrow> did_jwk J (b64_encode J (fst (public_xy J (own_key me)))) (b64_encode J (snd (public_xy J (own_key me)))))"
    by (cases ref) (simp_all add: proof_key_of_def Let_def)
  ultimately show ?thesis using dec unfolding jws Let_def by blast
qed


text \<open>Libraries that satisfy the law: a JSON value prints as its code in unary.\<close>

definition sample_jose :: "unit jose" where
  "sample_jose = \<lparr>b64_encode = (\<lambda>s. s), sha256 = (\<lambda>s. s), json_text = (\<lambda>j. replicate (to_nat j) CHR ''x''),
     es256_sign = (\<lambda>k s. ''s''), public_xy = (\<lambda>k. (''x'', ''y'')),
     jwk_to_verifying_key = (\<lambda>x y. Ok ())\<rparr>"

definition sample_jose_dcp :: "(string list, unit) dcp" where
  "sample_jose_dcp = roundtrip_dcp\<lparr>decode_jws_unverified := (\<lambda>t.
     Ok (from_nat (length (takeWhile (\<lambda>c. c \<noteq> CHR ''.'') t)),
         from_nat (length (takeWhile (\<lambda>c. c \<noteq> CHR ''.'') (drop 1 (dropWhile (\<lambda>c. c \<noteq> CHR ''.'') t))))))\<rparr>"

lemma while_unary:
  "takeWhile (\<lambda>c. c \<noteq> CHR ''.'') (replicate n CHR ''x'' @ CHR ''.'' # r) = replicate n CHR ''x''"
  "dropWhile (\<lambda>c. c \<noteq> CHR ''.'') (replicate n CHR ''x'' @ CHR ''.'' # r) = CHR ''.'' # r"
  by (induction n) auto

lemma sample_compact_roundtrip: "compact_roundtrip sample_jose_dcp sample_jose"
  by (simp add: compact_roundtrip_def sign_jws_with_header_def sample_jose_dcp_def sample_jose_def roundtrip_dcp_def Let_def while_unary)

theorem key_proof_roundtrip_witness:
  "inspect_jwt_proof sample_jose_dcp sample_jose
      (build_jwt_proof_for_client sample_jose sample_party ''https://i'' (Some ''n'') None RefDidUrl 1000) ''https://i'' 1200
    = Ok (DidUrl ''did:web:hub:sts-party#k'' ''did:web:hub:sts-party'', Some ''n'')
   \<and> \<not> is_ok (inspect_jwt_proof sample_jose_dcp sample_jose
      (build_jwt_proof_for_client sample_jose sample_party ''https://i'' (Some ''n'') None RefJwk 1000) ''https://i'' 1301)"
proof -
  have id: "own_key_id sample_party = own_did sample_party @ ''#'' @ ''k''" "CHR ''#'' \<notin> set (own_did sample_party)"
    "starts_with (own_did sample_party) ''did:''" by (simp_all add: sample_party_def starts_with_def)
  have clock: "1000 + PROOF_MAX_AGE_SECS < u64_limit" "1200 + PROOF_IAT_LEEWAY_SECS < u64_limit" "1301 + PROOF_IAT_LEEWAY_SECS < u64_limit"
    by (simp_all add: PROOF_MAX_AGE_SECS_def PROOF_IAT_LEEWAY_SECS_def u64_limit_def)
  note k = key_proof_roundtrip [OF sample_compact_roundtrip id, of 1000, where issuer = "''https://i''" and verifier = "''https://i''"
      and nonce = "Some ''n''" and client = None]
  from k [where now = 1200 and ref = RefDidUrl] k [where now = 1301 and ref = RefJwk] clock show ?thesis
    by (simp add: Let_def proof_key_of_def sample_party_def)
qed

end
