(* ===== verification/Oid4vci_Issuer.thy ===== *)
theory Oid4vci_Issuer
  imports Oid4vci_Core
begin

text \<open>
  The Credential Issuer of OID4VCI (identity-hub-http, oid4vci.rs): the four expiring tables, the
  operator's offers, the token, nonce and credential endpoints, and the issuance they record. A handler
  that panics has no response; a panic under the lock of the pre-authorized codes poisons it.
\<close>

section \<open>Limits and state\<close>

definition MAX_OID4VCI_ENTRIES :: nat where
  "MAX_OID4VCI_ENTRIES = 2048"

definition OFFER_TTL_SECS :: u64 where
  "OFFER_TTL_SECS = 600"

definition ACCESS_TOKEN_TTL_SECS :: u64 where
  "ACCESS_TOKEN_TTL_SECS = 300"

definition NONCE_TTL_SECS :: u64 where
  "NONCE_TTL_SECS = 300"

definition MAX_TX_CODE_ATTEMPTS :: nat where
  "MAX_TX_CODE_ATTEMPTS = 3"

definition TX_CODE_LENGTH :: nat where
  "TX_CODE_LENGTH = 6"

record pre_authorized_grant =
  ga_configuration_ids :: "string list"
  ga_tx_code :: "string option"
  ga_failed_attempts :: nat

record access_grant =
  ac_configuration_ids :: "string list"

record oid_state =
  oi_offers :: "oid_offer expiring_table"
  oi_codes :: "pre_authorized_grant expiring_table"
  oi_access_tokens :: "access_grant expiring_table"
  oi_nonces :: "unit expiring_table"
  oi_codes_poisoned :: bool

definition oid_state_default :: oid_state where
  "oid_state_default =
     \<lparr>oi_offers = et_new MAX_OID4VCI_ENTRIES, oi_codes = et_new MAX_OID4VCI_ENTRIES,
      oi_access_tokens = et_new MAX_OID4VCI_ENTRIES, oi_nonces = et_new MAX_OID4VCI_ENTRIES,
      oi_codes_poisoned = False\<rparr>"

text \<open>What the issuer process keeps: the issuer's tables and those of OID4VCI.\<close>

record issuer_process =
  ip_issuer :: issuer_state
  ip_oid :: oid_state

text \<open>The parsers of request bodies and URLs, beside those of the admin API.\<close>

record oid_codec = admin_codec +
  request_of_value :: "json \<Rightarrow> (oid_credential_request, string) result"
  url_with_params :: "string \<Rightarrow> (string \<times> string) list \<Rightarrow> string option"

section \<open>Messages as JSON\<close>

text \<open>Fields that are skipped when absent or empty.\<close>

abbreviation field :: "string \<Rightarrow> json \<Rightarrow> (string \<times> json) list" where
  "field k v \<equiv> [(k, v)]"

definition opt_field :: "string \<Rightarrow> ('a \<Rightarrow> json) \<Rightarrow> 'a option \<Rightarrow> (string \<times> json) list" where
  "opt_field k f x = (case x of None \<Rightarrow> [] | Some v \<Rightarrow> [(k, f v)])"

definition list_field :: "string \<Rightarrow> ('a \<Rightarrow> json) \<Rightarrow> 'a list \<Rightarrow> (string \<times> json) list" where
  "list_field k f xs = (if xs = [] then [] else [(k, JArr (map f xs))])"

definition tx_code_json :: "tx_code_description \<Rightarrow> json" where
  "tx_code_json t = json_obj (opt_field ''input_mode'' JStr (tx_input_mode t) @ opt_field ''length'' jnat (tx_length t)
     @ opt_field ''description'' JStr (tx_description t))"

definition grant_json :: "pre_authorized_code_grant \<Rightarrow> json" where
  "grant_json g = json_obj (field ''pre-authorized_code'' (JStr (pg_code g)) @ opt_field ''tx_code'' tx_code_json (pg_tx_code g)
     @ opt_field ''authorization_server'' JStr (pg_authorization_server g))"

definition grants_json :: "offer_grants \<Rightarrow> json" where
  "grants_json g = json_obj (opt_field PRE_AUTHORIZED_CODE_GRANT grant_json (og_pre_authorized_code g))"

definition offer_json :: "oid_offer \<Rightarrow> json" where
  "offer_json f = json_obj (field ''credential_issuer'' (JStr (oo_credential_issuer f))
     @ field ''credential_configuration_ids'' (JArr (map JStr (oo_configuration_ids f)))
     @ opt_field ''grants'' grants_json (oo_grants f))"

definition configuration_json :: "credential_configuration \<Rightarrow> json" where
  "configuration_json c = json_obj (field ''format'' (JStr (conf_format c)) @ opt_field ''scope'' JStr (conf_scope c)
     @ list_field ''cryptographic_binding_methods_supported'' JStr (conf_binding_methods c)
     @ list_field ''credential_signing_alg_values_supported'' id (conf_signing_algs c)
     @ opt_field ''proof_types_supported'' id (conf_proof_types c)
     @ opt_field ''credential_definition'' (\<lambda>ts. json_obj [(''type'', JArr (map JStr ts))]) (conf_types c))"

definition issuer_metadata_json :: "credential_issuer_metadata \<Rightarrow> json" where
  "issuer_metadata_json m = json_obj (field ''credential_issuer'' (JStr (md_credential_issuer m))
     @ list_field ''authorization_servers'' JStr (md_authorization_servers m)
     @ field ''credential_endpoint'' (JStr (md_credential_endpoint m))
     @ opt_field ''nonce_endpoint'' JStr (md_nonce_endpoint m)
     @ field ''credential_configurations_supported'' (JObj (map (\<lambda>(k, c). (k, configuration_json c)) (md_configurations m))))"

definition as_metadata_json :: "authorization_server_metadata \<Rightarrow> json" where
  "as_metadata_json m = json_obj (field ''issuer'' (JStr (as_issuer m)) @ field ''token_endpoint'' (JStr (as_token_endpoint m))
     @ list_field ''grant_types_supported'' JStr (as_grant_types m)
     @ opt_field ''pre-authorized_grant_anonymous_access_supported'' JBool (as_anonymous_access m)
     @ list_field ''dpop_signing_alg_values_supported'' JStr (as_dpop_algs m))"

definition authorization_detail_json :: "token_authorization_detail \<Rightarrow> json" where
  "authorization_detail_json d = json_obj (field ''type'' (JStr (ad_type d))
     @ opt_field ''credential_configuration_id'' JStr (ad_configuration_id d)
     @ list_field ''credential_identifiers'' JStr (ad_identifiers d))"

definition token_response_json :: "oid_token_response \<Rightarrow> json" where
  "token_response_json t = json_obj (field ''access_token'' (JStr (tr_access_token t)) @ field ''token_type'' (JStr (tr_token_type t))
     @ field ''expires_in'' (jnat (tr_expires_in t))
     @ list_field ''authorization_details'' authorization_detail_json (tr_authorization_details t))"

definition credential_response_json :: "oid_credential_response \<Rightarrow> json" where
  "credential_response_json r = json_obj
     (field ''credentials'' (JArr (map (\<lambda>c. json_obj [(''credential'', c)]) (rs_credentials r)))
     @ opt_field ''credential'' id (rs_credential r) @ opt_field ''transaction_id'' JStr (rs_transaction_id r))"

definition error_response_json :: "string \<Rightarrow> string option \<Rightarrow> json" where
  "error_response_json err desc = json_obj (field ''error'' (JStr err) @ opt_field ''error_description'' JStr desc)"

section \<open>Shared helpers\<close>

text \<open>The tokens a handler draws are its arguments; of a transaction code, the 128 bits of a UUID are.\<close>

definition random_tx_code :: "nat \<Rightarrow> string" where
  "random_tx_code n =
     (let digits = nat_to_string (n mod 10 ^ TX_CODE_LENGTH)
      in replicate (TX_CODE_LENGTH - length digits) CHR ''0'' @ digits)"

text \<open>\<open>headers_mut().insert\<close> replaces the header.\<close>

definition set_header :: "string \<Rightarrow> string \<Rightarrow> response \<Rightarrow> response" where
  "set_header k v r = r\<lparr>r_headers := filter (\<lambda>h. fst h \<noteq> k) (r_headers r) @ [(k, v)]\<rparr>"

definition no_store :: "response \<Rightarrow> response" where
  "no_store r = set_header ''cache-control'' ''no-store'' r"

definition oauth_error :: "nat \<Rightarrow> string \<Rightarrow> string \<Rightarrow> response" where
  "oauth_error st err desc =
     (let r = resp_json st (error_response_json err (Some desc));
          r = (if st = 401 then set_header ''www-authenticate'' (''Bearer error='' @ [CHR 34] @ err @ [CHR 34]) r else r)
      in no_store r)"

definition operator_authorized :: "'x oid_codec_scheme \<Rightarrow> 'k app \<Rightarrow> string option \<Rightarrow> bool" where
  "operator_authorized C a hdr =
     (case Option.bind (Option.bind hdr (\<lambda>v. strip_prefix v ''Basic '')) (base64_decode C STANDARD) of
        None \<Rightarrow> False
      | Some bytes \<Rightarrow> utf8_valid bytes
          \<and> (case split_once bytes '':'' of
               None \<Rightarrow> False
             | Some (i, secret) \<Rightarrow>
                 constant_time_eq (map byte_word i) (map byte_word (cfg_sts_client_id (a_config a)))
                 \<and> constant_time_eq (map byte_word secret) (map byte_word (cfg_sts_client_secret (a_config a)))))"

definition operator_rejection :: "'x oid_codec_scheme \<Rightarrow> 'k app \<Rightarrow> string option \<Rightarrow> response option" where
  "operator_rejection C a hdr =
     (if operator_authorized C a hdr then None
      else Some (set_header ''www-authenticate'' ''Basic''
        (oauth_error 401 ''invalid_client'' ''operator endpoint requires HTTP Basic client credentials'')))"

section \<open>Metadata\<close>

definition credential_issuer_id :: "'k app \<Rightarrow> string" where
  "credential_issuer_id a = base_url_of a"

definition supported_configuration :: "credential_definition \<Rightarrow> credential_configuration" where
  "supported_configuration d =
     \<lparr>conf_format = FORMAT_JWT_VC_JSON, conf_scope = Some (cd_credential_type d),
      conf_binding_methods = [''did:web'', ''jwk''], conf_signing_algs = [JStr ''ES256''],
      conf_proof_types = Some (json_obj [(''jwt'', json_obj [(''proof_signing_alg_values_supported'', JArr [JStr ''ES256''])])]),
      conf_types = Some [''VerifiableCredential'', cd_credential_type d]\<rparr>"

definition configurations_supported :: "issuer_state \<Rightarrow> (string \<times> credential_configuration) list" where
  "configurations_supported s =
     fold (\<lambda>d m. bt_insert (cd_id d) (supported_configuration d) m) (definitions (s_definitions s)) []"

definition issuer_metadata_of :: "'k app \<Rightarrow> issuer_state \<Rightarrow> credential_issuer_metadata" where
  "issuer_metadata_of a s =
     (let base = credential_issuer_id a in
      \<lparr>md_credential_issuer = base, md_authorization_servers = [],
       md_credential_endpoint = base @ ''/oid4vci/credential'', md_nonce_endpoint = Some (base @ ''/oid4vci/nonce''),
       md_configurations = configurations_supported s\<rparr>)"

definition credential_issuer_metadata_endpoint :: "'k app \<Rightarrow> issuer_state \<Rightarrow> response" where
  "credential_issuer_metadata_endpoint a s = resp_json 200 (issuer_metadata_json (issuer_metadata_of a s))"

definition as_metadata_of :: "'k app \<Rightarrow> authorization_server_metadata" where
  "as_metadata_of a =
     (let base = credential_issuer_id a in
      \<lparr>as_issuer = base, as_token_endpoint = base @ ''/oid4vci/token'', as_grant_types = [PRE_AUTHORIZED_CODE_GRANT],
       as_anonymous_access = Some True, as_dpop_algs = []\<rparr>)"

definition authorization_server_metadata_endpoint :: "'k app \<Rightarrow> response" where
  "authorization_server_metadata_endpoint a = resp_json 200 (as_metadata_json (as_metadata_of a))"


section \<open>Offers\<close>

record create_offer_body =
  cb_configuration_ids :: "string list option"
  cb_tx_code :: bool

definition create_offer_default :: create_offer_body where
  "create_offer_default = \<lparr>cb_configuration_ids = None, cb_tx_code = False\<rparr>"

definition new_offer :: "'k app \<Rightarrow> string list \<Rightarrow> string \<Rightarrow> string option \<Rightarrow> oid_offer" where
  "new_offer a ids code tx_code =
     \<lparr>oo_credential_issuer = credential_issuer_id a, oo_configuration_ids = ids,
      oo_grants = Some \<lparr>og_pre_authorized_code = Some
        \<lparr>pg_code = code,
         pg_tx_code = map_option (\<lambda>_. \<lparr>tx_input_mode = Some ''numeric'', tx_length = Some TX_CODE_LENGTH,
           tx_description = Some ''Transaction code delivered by the issuer''\<rparr>) tx_code,
         pg_authorization_server = None\<rparr>\<rparr>\<rparr>"

definition create_offer_json :: "oid_offer \<Rightarrow> string \<Rightarrow> string \<Rightarrow> string option \<Rightarrow> json" where
  "create_offer_json offer credential_offer_uri offer_uri tx_code = json_obj
     (field ''credential_offer'' (offer_json offer) @ field ''credential_offer_uri'' (JStr credential_offer_uri)
      @ field ''offer_uri'' (JStr offer_uri) @ opt_field ''tx_code'' JStr tx_code)"

text \<open>What one request draws: a token, the bits of a transaction code and an offer id.\<close>

record offer_draws =
  od_code :: string
  od_bits :: nat
  od_offer_id :: string

text \<open>The checks of the request: the configurations to offer, and whether a transaction code is wanted.\<close>

definition offer_request ::
    "'x oid_codec_scheme \<Rightarrow> 'k app \<Rightarrow> string option \<Rightarrow> create_offer_body option \<Rightarrow> issuer_state
     \<Rightarrow> (string list \<times> bool, response) result" where
  "offer_request C a hdr body s =
     (case operator_rejection C a hdr of
        Some r \<Rightarrow> Err r
      | None \<Rightarrow>
          let body = (case body of None \<Rightarrow> create_offer_default | Some b \<Rightarrow> b);
              supported = configurations_supported s;
              ids = (case cb_configuration_ids body of None \<Rightarrow> map fst supported | Some ids \<Rightarrow> ids) in
          if ids = [] then Err (oauth_error 400 ''invalid_request'' ''credential_configuration_ids must not be empty'')
          else (case List.find (\<lambda>i. map_of supported i = None) ids of
            Some unknown \<Rightarrow>
              Err (oauth_error 400 ''unknown_credential_configuration'' (quoted unknown @ '' is not offered by this issuer''))
          | None \<Rightarrow> Ok (ids, cb_tx_code body)))"

definition create_offer ::
    "'x oid_codec_scheme \<Rightarrow> 'k app \<Rightarrow> (nat \<Rightarrow> u64) \<Rightarrow> offer_draws \<Rightarrow> string option \<Rightarrow> create_offer_body option
     \<Rightarrow> issuer_process \<Rightarrow> response option \<times> issuer_process" where
  "create_offer C a clock dr hdr body s =
     (case offer_request C a hdr body (ip_issuer s) of
        Inl r \<Rightarrow> (Some r, s)
      | Inr (ids, wants_tx_code) \<Rightarrow>
          if oi_codes_poisoned (ip_oid s) then (None, s)
          else
            let code = od_code dr;
                tx_code = (if wants_tx_code then Some (random_tx_code (od_bits dr)) else None);
                offer = new_offer a ids code tx_code;
                codes = et_insert (clock 0) code OFFER_TTL_SECS
                  \<lparr>ga_configuration_ids = ids, ga_tx_code = tx_code, ga_failed_attempts = 0\<rparr> (oi_codes (ip_oid s));
                offer_table = et_insert (clock 1) (od_offer_id dr) OFFER_TTL_SECS offer (oi_offers (ip_oid s));
                credential_offer_uri = credential_issuer_id a @ ''/oid4vci/offers/'' @ od_offer_id dr;
                offer_uri = (case url_with_params C CREDENTIAL_OFFER_SCHEME [(''credential_offer_uri'', credential_offer_uri)] of
                   Some u \<Rightarrow> u | None \<Rightarrow> CREDENTIAL_OFFER_SCHEME @ ''?credential_offer_uri='' @ credential_offer_uri)
            in (Some (no_store (resp_json 201 (create_offer_json offer credential_offer_uri offer_uri tx_code))),
                s\<lparr>ip_oid := (ip_oid s)\<lparr>oi_codes := codes, oi_offers := offer_table\<rparr>\<rparr>))"

definition offer_by_reference :: "u64 \<Rightarrow> string \<Rightarrow> issuer_process \<Rightarrow> response \<times> issuer_process" where
  "offer_by_reference now i s =
     (case et_take now i (oi_offers (ip_oid s)) of
        (found, offer_table) \<Rightarrow>
          (case found of Some offer \<Rightarrow> no_store (resp_json 200 (offer_json offer)) | None \<Rightarrow> resp 404 NoBody,
           s\<lparr>ip_oid := (ip_oid s)\<lparr>oi_offers := offer_table\<rparr>\<rparr>))"

section \<open>Token and nonce endpoints\<close>

text \<open>
  The section under the lock of the codes: \<open>get_mut\<close> and \<open>take\<close> each read the clock. The error is the
  response, or nothing when the second reading finds the code expired and \<open>expect\<close> panics.
\<close>

definition redeem_code ::
    "(nat \<Rightarrow> u64) \<Rightarrow> string \<Rightarrow> string option \<Rightarrow> pre_authorized_grant expiring_table
     \<Rightarrow> (string list, response option) result \<times> pre_authorized_grant expiring_table" where
  "redeem_code clock code given codes =
     (case et_get_mut (clock 0) code codes of
        (None, codes) \<Rightarrow>
          (Err (Some (oauth_error 400 ''invalid_grant'' ''pre-authorized_code is unknown, expired, or already used'')), codes)
      | (Some grant, codes) \<Rightarrow>
          (case (ga_tx_code grant, given) of
             (None, Some _) \<Rightarrow> (Err (Some (oauth_error 400 ''invalid_request'' ''this offer does not use a tx_code'')), codes)
           | (Some _, None) \<Rightarrow> (Err (Some (oauth_error 400 ''invalid_request'' ''tx_code is required for this offer'')), codes)
           | (expected, given) \<Rightarrow>
               if expected \<noteq> given then
                 let grant = grant\<lparr>ga_failed_attempts := ga_failed_attempts grant + 1\<rparr>;
                     codes = et_write code grant codes in
                 (Err (Some (oauth_error 400 ''invalid_grant'' ''wrong tx_code'')),
                  if ga_failed_attempts grant \<ge> MAX_TX_CODE_ATTEMPTS then snd (et_take (clock 1) code codes) else codes)
               else
                 (case et_take (clock 1) code codes of
                    (None, codes) \<Rightarrow> (Err None, codes)
                  | (Some grant, codes) \<Rightarrow> (Ok (ga_configuration_ids grant), codes))))"

definition token_endpoint ::
    "(nat \<Rightarrow> u64) \<Rightarrow> string \<Rightarrow> (string \<rightharpoonup> string) \<Rightarrow> issuer_process \<Rightarrow> response option \<times> issuer_process" where
  "token_endpoint clock fresh form s =
     (if form ''grant_type'' \<noteq> Some PRE_AUTHORIZED_CODE_GRANT
      then (Some (oauth_error 400 ''unsupported_grant_type'' ''only the pre-authorized_code grant is supported''), s)
      else (case form ''pre-authorized_code'' of
        None \<Rightarrow> (Some (oauth_error 400 ''invalid_request'' ''pre-authorized_code is required''), s)
      | Some code \<Rightarrow>
          if oi_codes_poisoned (ip_oid s) then (None, s)
          else (case redeem_code clock code (form ''tx_code'') (oi_codes (ip_oid s)) of
            (Inl (Some r), codes) \<Rightarrow> (Some r, s\<lparr>ip_oid := (ip_oid s)\<lparr>oi_codes := codes\<rparr>\<rparr>)
          | (Inl None, codes) \<Rightarrow> (None, s\<lparr>ip_oid := (ip_oid s)\<lparr>oi_codes := codes, oi_codes_poisoned := True\<rparr>\<rparr>)
          | (Inr ids, codes) \<Rightarrow>
              (Some (no_store (resp_json 200 (token_response_json
                 \<lparr>tr_access_token = fresh, tr_token_type = ''Bearer'', tr_expires_in = ACCESS_TOKEN_TTL_SECS,
                  tr_authorization_details = []\<rparr>))),
               s\<lparr>ip_oid := (ip_oid s)\<lparr>oi_codes := codes, oi_access_tokens :=
                 et_insert (clock 2) fresh ACCESS_TOKEN_TTL_SECS \<lparr>ac_configuration_ids = ids\<rparr> (oi_access_tokens (ip_oid s))\<rparr>\<rparr>))))"

definition nonce_endpoint :: "u64 \<Rightarrow> string \<Rightarrow> issuer_process \<Rightarrow> response \<times> issuer_process" where
  "nonce_endpoint now c_nonce s =
     (no_store (resp_json 200 (json_obj [(''c_nonce'', JStr c_nonce)])),
      s\<lparr>ip_oid := (ip_oid s)\<lparr>oi_nonces := et_insert now c_nonce NONCE_TTL_SECS () (oi_nonces (ip_oid s))\<rparr>\<rparr>)"

section \<open>The credential endpoint\<close>

definition verify_proof_signature ::
    "('d, 'k) dcp \<Rightarrow> 'd network \<Rightarrow> 'k jose \<Rightarrow> 'k app \<Rightarrow> string \<Rightarrow> proof_key \<Rightarrow> (unit, string) io" where
  "verify_proof_signature D N J a jws key =
     io_bind (case key of
         JwkKey x y _ \<Rightarrow> io_pure (jwk_to_verifying_key J x y)
       | DidUrl kid hdid \<Rightarrow>
           if \<not> starts_with hdid ''did:web:'' then io_pure (Err (''unsupported DID method in kid '' @ quoted kid))
           else io_bind (io_pure (map_err outbound_message (check_did D (a_outbound a) hdid (insecure_http (a_config a))))) (\<lambda>_.
                io_bind (resolve_did N hdid (insecure_http (a_config a))) (\<lambda>doc. io_pure (find_verifying_key D doc kid))))
       (\<lambda>k. io_pure (verify_jws_signature D jws k))"

definition redeemed_record ::
    "string \<Rightarrow> string \<Rightarrow> string \<Rightarrow> credential_definition \<Rightarrow> minted_credential \<Rightarrow> nat \<Rightarrow> issued_credential" where
  "redeemed_record pid hid hdid d minted i =
     \<lparr>c_id = mc_id minted, c_type = cd_credential_type d, c_definition_id = cd_id d, c_holder_id = hid, c_holder_did = hdid,
      c_process_id = pid, c_format = cd_format d, c_issued_at = mc_issued_at minted, c_expires_at = mc_expires_at minted,
      c_status = RActive, c_index = i\<rparr>"

definition record_and_mint ::
    "('d, 'k) dcp \<Rightarrow> 't chrono \<Rightarrow> 'k app \<Rightarrow> credential_definition \<Rightarrow> string \<Rightarrow> u64 \<Rightarrow> u64 \<Rightarrow> (nat \<Rightarrow> string) \<Rightarrow> issuer_state
     \<Rightarrow> ((string, nat \<times> string) result \<times> issuer_state) option" where
  "record_and_mint D X a d hdid now mint_now uuid s =
     (case redeem_holder (cfg_holder_approval (a_config a)) (uuid 0) now hdid (s_holders s) of
        (Inl e, hs) \<Rightarrow> Some (Err e, s\<lparr>s_holders := hs\<rparr>)
      | (Inr hid, hs) \<Rightarrow>
          (case issued_allocate (s_issued s) of
             (None, ic) \<Rightarrow> Some (Err (503, ''the revocation status list is exhausted''), s\<lparr>s_holders := hs, s_issued := ic\<rparr>)
           | (Some i, ic) \<Rightarrow>
               (case rt_insert (uuid 1) (redeem_process (uuid 1) hid hdid d now) (s_requests s) of
                  None \<Rightarrow> map_option (\<lambda>ic'. (Err (503, ''too many credential requests in flight''), s\<lparr>s_holders := hs, s_issued := ic'\<rparr>))
                            (issued_release i ic)
                | Some t \<Rightarrow>
                    let minted = mint_credential D X a d hdid (Some i) mint_now (uuid 2) in
                    Some (Ok (mc_jws minted),
                      s\<lparr>s_holders := hs, s_requests := t,
                        s_issued := issued_insert (redeemed_record (uuid 1) hid hdid d minted i) ic\<rparr>))))"

text \<open>A handler ends with a rejection or, which the code rules out, a panic.\<close>

datatype abort = Rejection response | Panicked

definition credential_checks ::
    "'x oid_codec_scheme \<Rightarrow> ('d, 'k) dcp \<Rightarrow> 'k jose \<Rightarrow> 'k app \<Rightarrow> (nat \<Rightarrow> u64) \<Rightarrow> string option \<Rightarrow> json
     \<Rightarrow> (issuer_process, string \<times> string \<times> proof_key \<times> string option, abort) sio" where
  "credential_checks C D J a clock hdr body =
     sio_bind (\<lambda>s. case Option.bind hdr (\<lambda>v. strip_prefix v ''Bearer '') of
         None \<Rightarrow> (io_pure (Err (Rejection (oauth_error 401 ''invalid_token'' ''missing, unknown or expired access token''))), s)
       | Some bearer \<Rightarrow>
           (case et_get_mut (clock 0) bearer (oi_access_tokens (ip_oid s)) of
              (grant, tokens) \<Rightarrow>
                (io_pure (case grant of
                   Some g \<Rightarrow> Ok (ac_configuration_ids g)
                 | None \<Rightarrow> Err (Rejection (oauth_error 401 ''invalid_token'' ''missing, unknown or expired access token''))),
                 s\<lparr>ip_oid := (ip_oid s)\<lparr>oi_access_tokens := tokens\<rparr>\<rparr>))) (\<lambda>authorized_ids.
     sio_bind (sio_return (map_err (\<lambda>e. Rejection (oauth_error 400 ''invalid_credential_request'' e)) (request_of_value C body))) (\<lambda>request.
     sio_bind (sio_return (ok_or (cr_configuration_id request) (Rejection (oauth_error 400 ''invalid_credential_request''
         ''credential_configuration_id is required (credential_identifier is not supported)'')))) (\<lambda>config_id s.
     sio_return (
         if map_of (configurations_supported (ip_issuer s)) config_id = None
         then Err (Rejection (oauth_error 400 ''unknown_credential_configuration'' (quoted config_id @ '' is not offered by this issuer'')))
         else if config_id \<notin> set authorized_ids
         then Err (Rejection (oauth_error 400 ''invalid_credential_request'' (''the access token does not cover '' @ quoted config_id)))
         else (case jwt_proofs request of
           [jws] \<Rightarrow>
             (case inspect_jwt_proof D J jws (credential_issuer_id a) (clock 1) of
                Inl e \<Rightarrow> Err (Rejection (oauth_error 400 ''invalid_proof'' (proof_message e)))
              | Inr (key, proof_nonce) \<Rightarrow> Ok (config_id, jws, key, proof_nonce))
         | _ \<Rightarrow> Err (Rejection (oauth_error 400 ''invalid_proof'' ''exactly one jwt key proof is required'')))) s)))"


definition take_nonce :: "u64 \<Rightarrow> string option \<Rightarrow> (issuer_process, unit, abort) sio" where
  "take_nonce now proof_nonce s =
     (let missing = Err (Rejection (oauth_error 400 ''invalid_nonce'' ''the proof must carry an unused c_nonce from the nonce endpoint'')) in
      case proof_nonce of
        None \<Rightarrow> (io_pure missing, s)
      | Some n \<Rightarrow>
          (case et_take now n (oi_nonces (ip_oid s)) of
             (found, nonces) \<Rightarrow> (io_pure (if found = None then missing else Ok ()), s\<lparr>ip_oid := (ip_oid s)\<lparr>oi_nonces := nonces\<rparr>\<rparr>)))"

definition issue_credential ::
    "('d, 'k) dcp \<Rightarrow> 't chrono \<Rightarrow> 'k app \<Rightarrow> (nat \<Rightarrow> u64) \<Rightarrow> (nat \<Rightarrow> string) \<Rightarrow> string \<Rightarrow> proof_key
     \<Rightarrow> (issuer_process, response, abort) sio" where
  "issue_credential D X a clock uuid config_id key s =
     (case catalog_get (s_definitions (ip_issuer s)) config_id of
        None \<Rightarrow> (io_pure (Err (Rejection (oauth_error 400 ''unknown_credential_configuration''
                   (quoted config_id @ '' is not offered by this issuer'')))), s)
      | Some d \<Rightarrow>
          (case record_and_mint D X a d (holder_did key) (clock 3) (clock 4) uuid (ip_issuer s) of
             None \<Rightarrow> (io_pure (Err Panicked), s)
           | Some (Inl (st, desc), i) \<Rightarrow>
               (io_pure (Err (Rejection (oauth_error st ''credential_request_denied'' desc))), s\<lparr>ip_issuer := i\<rparr>)
           | Some (Inr jwt, i) \<Rightarrow>
               (io_pure (Ok (no_store (resp_json 200 (credential_response_json
                  \<lparr>rs_credentials = [JStr jwt], rs_credential = None, rs_transaction_id = None\<rparr>)))), s\<lparr>ip_issuer := i\<rparr>)))"

text \<open>
  The handler. It suspends only while the proof's signature is checked, when other requests run:
  \<open>others\<close> is what they make of the state.
\<close>

definition credential_endpoint ::
    "'x oid_codec_scheme \<Rightarrow> ('d, 'k) dcp \<Rightarrow> 'd network \<Rightarrow> 'k jose \<Rightarrow> 't chrono \<Rightarrow> 'k app \<Rightarrow> (nat \<Rightarrow> u64) \<Rightarrow> (nat \<Rightarrow> string)
     \<Rightarrow> (issuer_process \<Rightarrow> issuer_process) \<Rightarrow> string option \<Rightarrow> json \<Rightarrow> (issuer_process, response, abort) sio" where
  "credential_endpoint C D N J X a clock uuid others hdr body =
     sio_bind (credential_checks C D J a clock hdr body) (\<lambda>(config_id, jws, key, proof_nonce).
     sio_bind (sio_lift (io_map_err (\<lambda>e. Rejection (oauth_error 400 ''invalid_proof'' e)) (verify_proof_signature D N J a jws key))) (\<lambda>_.
     sio_bind (sio_modify others ()) (\<lambda>_.
     sio_bind (take_nonce (clock 2) proof_nonce) (\<lambda>_.
     issue_credential D X a clock uuid config_id key))))"

section \<open>Requests in sequence\<close>

text \<open>
  The routes of the Issuer Service. Each request runs to its end before the next: only the credential
  endpoint suspends, and it touches neither the offers nor the pre-authorized codes.
\<close>

datatype oid_request =
    CreateOffer "nat \<Rightarrow> u64" offer_draws "string option" "create_offer_body option"
  | OfferByReference u64 string
  | Token "nat \<Rightarrow> u64" string "string \<rightharpoonup> string"
  | Nonce u64 string
  | Credential "nat \<Rightarrow> u64" "nat \<Rightarrow> string" "string option" json
  | IssuerMetadata
  | ServerMetadata

text \<open>A handler's answer: nothing after a panic.\<close>

definition answer :: "(response, abort) io \<times> 's \<Rightarrow> response option" where
  "answer run = (case snd (fst run) of Inr r \<Rightarrow> Some r | Inl (Rejection r) \<Rightarrow> Some r | Inl Panicked \<Rightarrow> None)"

fun oid_handle ::
    "'x oid_codec_scheme \<Rightarrow> ('d, 'k) dcp \<Rightarrow> 'd network \<Rightarrow> 'k jose \<Rightarrow> 't chrono \<Rightarrow> 'k app \<Rightarrow> oid_request
     \<Rightarrow> issuer_process \<Rightarrow> response option \<times> issuer_process" where
  "oid_handle C D N J X a (CreateOffer clock dr hdr body) s = create_offer C a clock dr hdr body s"
| "oid_handle C D N J X a (OfferByReference now i) s = map_prod Some id (offer_by_reference now i s)"
| "oid_handle C D N J X a (Token clock fresh form) s = token_endpoint clock fresh form s"
| "oid_handle C D N J X a (Nonce now c_nonce) s = map_prod Some id (nonce_endpoint now c_nonce s)"
| "oid_handle C D N J X a (Credential clock uuid hdr body) s =
     (let run = credential_endpoint C D N J X a clock uuid id hdr body s in (answer run, snd run))"
| "oid_handle C D N J X a IssuerMetadata s = (Some (credential_issuer_metadata_endpoint a (ip_issuer s)), s)"
| "oid_handle C D N J X a ServerMetadata s = (Some (authorization_server_metadata_endpoint a), s)"

text \<open>A sequence of requests: each with its answer, and the state after them.\<close>

fun request_log :: "('e \<Rightarrow> 's \<Rightarrow> 'r \<times> 's) \<Rightarrow> 'e list \<Rightarrow> 's \<Rightarrow> ('e \<times> 'r) list" where
  "request_log h [] s = []"
| "request_log h (e # es) s = (e, fst (h e s)) # request_log h es (snd (h e s))"

definition after :: "('e \<Rightarrow> 's \<Rightarrow> 'r \<times> 's) \<Rightarrow> 'e list \<Rightarrow> 's \<Rightarrow> 's" where
  "after h es s = fold (\<lambda>e s. snd (h e s)) es s"

text \<open>
  Amortised counting: answers that cost are paid for by a potential of the state, which only some
  requests can raise.
\<close>

locale charged =
  fixes h :: "'e \<Rightarrow> 's \<Rightarrow> 'r \<times> 's" and ok :: "'s \<Rightarrow> bool" and cost :: "'e \<times> 'r \<Rightarrow> bool"
    and potential :: "'s \<Rightarrow> nat" and credit :: "'e \<Rightarrow> nat"
  assumes ok_kept: "ok s \<Longrightarrow> ok (snd (h e s))"
    and paid: "ok s \<Longrightarrow> (if cost (e, fst (h e s)) then 1 else 0) + potential (snd (h e s)) \<le> potential s + credit e"
begin

lemma bounded: "ok s \<Longrightarrow> length (filter cost (request_log h es s)) \<le> potential s + sum_list (map credit es)"
proof (induction es arbitrary: s)
  case (Cons e es)
  from Cons.IH [OF ok_kept [OF Cons.prems, of e]] paid [OF Cons.prems, of e] show ?case by (auto split: if_splits)
qed simp

end

section \<open>Guessing a transaction code\<close>

fun drawn_code :: "oid_request \<Rightarrow> string option" where
  "drawn_code (CreateOffer clock dr hdr body) = Some (od_code dr)"
| "drawn_code _ = None"

fun presents :: "string \<Rightarrow> oid_request \<Rightarrow> bool" where
  "presents k (Token clock fresh form) \<longleftrightarrow>
     form ''grant_type'' = Some PRE_AUTHORIZED_CODE_GRANT \<and> form ''pre-authorized_code'' = Some k"
| "presents k _ \<longleftrightarrow> False"

definition wrong_tx_code :: response where
  "wrong_tx_code = oauth_error 400 ''invalid_grant'' ''wrong tx_code''"

definition redeems :: "string \<Rightarrow> oid_request \<times> response option \<Rightarrow> bool" where
  "redeems k x \<longleftrightarrow> presents k (fst x) \<and> (\<exists>r. snd x = Some r \<and> r_status r = 200)"

definition misses :: "string \<Rightarrow> oid_request \<times> response option \<Rightarrow> bool" where
  "misses k x \<longleftrightarrow> presents k (fst x) \<and> snd x = Some wrong_tx_code"

text \<open>A code in the table has attempts left.\<close>

definition attempts_left :: "issuer_process \<Rightarrow> bool" where
  "attempts_left s \<longleftrightarrow>
     (\<forall>k e g. fmlookup (entries (oi_codes (ip_oid s))) k = Some (e, g) \<longrightarrow> ga_failed_attempts g < MAX_TX_CODE_ATTEMPTS)"

definition tries :: "string \<Rightarrow> issuer_process \<Rightarrow> nat" where
  "tries k s = (case fmlookup (entries (oi_codes (ip_oid s))) k of
     None \<Rightarrow> 0 | Some (e, g) \<Rightarrow> MAX_TX_CODE_ATTEMPTS - ga_failed_attempts g)"

definition held :: "string \<Rightarrow> issuer_process \<Rightarrow> nat" where
  "held k s = (if fmlookup (entries (oi_codes (ip_oid s))) k = None then 0 else 1)"

lemma et_evict_lookup: "fmlookup (fst (et_evict cap m ks)) k \<in> {None, fmlookup m k}"
proof (induction ks arbitrary: m)
  case (Cons j ks)
  from Cons.IH [of "fmdrop j m"] show ?case by auto
qed simp

lemma et_insert_lookup:
  "fmlookup (entries (et_insert now j ttl v t)) k \<in> {None, if k = j then Some (u64_add now ttl, v) else fmlookup (entries t) k}"
  using et_evict_lookup [of "et_capacity t" "fmupd j (u64_add now ttl, v) (entries t)"
      "if fmlookup (entries t) j = None then et_order t @ [j] else et_order t" k]
  by (auto simp: et_insert_def Let_def split_beta)

lemma oauth_error_eq [simp]:
  "oauth_error st e desc = oauth_error st' e' desc' \<longleftrightarrow> st = st' \<and> e = e' \<and> desc = desc'"
  by (auto simp: oauth_error_def no_store_def set_header_def Let_def resp_json_def resp_def error_response_json_def
      opt_field_def json_obj_def split: if_splits)

lemma oauth_error_status [simp]: "r_status (oauth_error st e desc) = st"
  by (simp add: oauth_error_def no_store_def set_header_def Let_def)

lemma no_store_simps [simp]: "r_status (no_store r) = r_status r" "r_body (no_store r) = r_body r"
  by (simp_all add: no_store_def set_header_def)


lemma redeem_code_other:
  "redeem_code clock code given t = (res, t') \<Longrightarrow> k \<noteq> code \<Longrightarrow> fmlookup (entries t') k = fmlookup (entries t) k"
  by (auto simp: redeem_code_def et_get_mut_def et_take_def et_write_def Let_def split: prod.splits option.splits if_splits)

text \<open>What presenting a code does to it.\<close>

lemma redeem_code_cases:
  assumes "redeem_code clock code given t = (res, t')"
  obtains
    (redeemed) e g where "fmlookup (entries t) code = Some (e, g)" "clock 0 < e" "clock 1 < e" "ga_tx_code g = given"
      "res = Ok (ga_configuration_ids g)" "fmlookup (entries t') code = None"
  | (raced) e g where "fmlookup (entries t) code = Some (e, g)" "clock 0 < e" "e \<le> clock 1" "ga_tx_code g = given"
      "res = Err None" "fmlookup (entries t') code = None"
  | (missed) e g where "fmlookup (entries t) code = Some (e, g)" "res = Err (Some wrong_tx_code)"
      "fmlookup (entries t') code = (if ga_failed_attempts g + 1 \<ge> MAX_TX_CODE_ATTEMPTS then None
         else Some (e, g\<lparr>ga_failed_attempts := ga_failed_attempts g + 1\<rparr>))"
  | (refused) r where "res = Err (Some r)" "r_status r = 400" "r \<noteq> wrong_tx_code"
      "fmlookup (entries t') code \<in> {None, fmlookup (entries t) code}"
proof (cases "fmlookup (entries t) code")
  case None
  show ?thesis
    by (rule refused [of "oauth_error 400 ''invalid_grant'' ''pre-authorized_code is unknown, expired, or already used''"])
      (use assms None in \<open>auto simp: redeem_code_def et_get_mut_def wrong_tx_code_def\<close>)
next
  case (Some eg)
  obtain e g where eg: "eg = (e, g)" by fastforce
  show ?thesis
  proof (cases "e \<le> clock 0")
    case True
    show ?thesis
      by (rule refused [of "oauth_error 400 ''invalid_grant'' ''pre-authorized_code is unknown, expired, or already used''"])
        (use assms Some eg True in \<open>auto simp: redeem_code_def et_get_mut_def wrong_tx_code_def\<close>)
  next
    case live: False
    show ?thesis
    proof (cases "ga_tx_code g = given")
      case same: True
      show ?thesis
      proof (cases "clock 1 < e")
        case True
        show ?thesis
          by (rule redeemed [of e g]) (use assms Some eg live same True in
            \<open>auto simp: redeem_code_def et_get_mut_def et_take_def split: option.splits\<close>)
      next
        case False
        show ?thesis
          by (rule raced [of e g]) (use assms Some eg live same False in
            \<open>auto simp: redeem_code_def et_get_mut_def et_take_def split: option.splits\<close>)
      qed
    next
      case other: False
      show ?thesis
      proof (cases "ga_tx_code g = None \<or> given = None")
        case True
        show ?thesis
          by (rule refused [of "oauth_error 400 ''invalid_request'' (if given = None then ''tx_code is required for this offer''
              else ''this offer does not use a tx_code'')"]) (use assms Some eg live other True in
            \<open>auto simp: redeem_code_def et_get_mut_def wrong_tx_code_def split: option.splits\<close>)
      next
        case False
        show ?thesis
          by (rule missed [of e g]) (use assms Some eg live other False in
            \<open>auto simp: redeem_code_def et_get_mut_def et_take_def et_write_def wrong_tx_code_def Let_def split: option.splits if_splits\<close>)
      qed
    qed
  qed
qed

text \<open>No other request touches a code, but that storing one may evict another.\<close>

lemma credential_checks_codes: "keeps (oi_codes \<circ> ip_oid) (credential_checks C D J a clock hdr body)"
  unfolding credential_checks_def
  by (intro keeps_bind) (auto simp: keeps_def split: option.splits prod.splits)

lemma credential_endpoint_codes:
  "keeps (oi_codes \<circ> ip_oid) (credential_endpoint C D N J X a clock uuid id hdr body)"
  unfolding credential_endpoint_def
proof (rule keeps_bind [OF credential_checks_codes])
  have n: "keeps (oi_codes \<circ> ip_oid) (take_nonce now n)" for now n
    by (auto simp: keeps_def take_nonce_def Let_def split: option.splits prod.splits)
  have i: "keeps (oi_codes \<circ> ip_oid) (issue_credential D X a clock uuid c key)" for c key
    by (auto simp: keeps_def issue_credential_def split: option.splits prod.splits sum.splits)
  fix v :: "string \<times> string \<times> proof_key \<times> string option"
  show "keeps (oi_codes \<circ> ip_oid) (case v of (config_id, jws, key, proof_nonce) \<Rightarrow>
     sio_bind (sio_lift (io_map_err (\<lambda>e. Rejection (oauth_error 400 ''invalid_proof'' e)) (verify_proof_signature D N J a jws key))) (\<lambda>_.
     sio_bind (sio_modify id ()) (\<lambda>_. sio_bind (take_nonce (clock 2) proof_nonce) (\<lambda>_. issue_credential D X a clock uuid config_id key))))"
    by (cases v) (auto intro!: keeps_bind n i simp: keeps_def [of _ "sio_modify id ()"])
qed

lemma create_offer_codes:
  "\<exists>g. ga_failed_attempts g = 0 \<and> oi_codes (ip_oid (snd (create_offer C a clock dr hdr body s)))
     \<in> {oi_codes (ip_oid s), et_insert (clock 0) (od_code dr) OFFER_TTL_SECS g (oi_codes (ip_oid s))}"
proof (cases "offer_request C a hdr body (ip_issuer s)")
  case (Inr r)
  obtain ids tx where r: "r = (ids, tx)" by fastforce
  let ?g = "\<lparr>ga_configuration_ids = ids, ga_tx_code = if tx then Some (random_tx_code (od_bits dr)) else None, ga_failed_attempts = 0\<rparr>"
  show ?thesis by (rule exI [of _ ?g]) (simp add: create_offer_def Let_def Inr r)
qed (auto simp: create_offer_def intro: exI [of _ "\<lparr>ga_configuration_ids = [], ga_tx_code = None, ga_failed_attempts = 0\<rparr>"])

lemma other_request_codes:
  assumes "\<not> presents k e" "drawn_code e \<noteq> Some k"
  shows "fmlookup (entries (oi_codes (ip_oid (snd (oid_handle C D N J X a e s))))) k
    \<in> {None, fmlookup (entries (oi_codes (ip_oid s))) k}"
proof (cases e)
  case (CreateOffer clock dr hdr body)
  from create_offer_codes [of C a clock dr hdr body s] obtain g where
    "oi_codes (ip_oid (snd (oid_handle C D N J X a e s)))
      \<in> {oi_codes (ip_oid s), et_insert (clock 0) (od_code dr) OFFER_TTL_SECS g (oi_codes (ip_oid s))}"
    unfolding CreateOffer by auto
  with assms CreateOffer show ?thesis
    using et_insert_lookup [of "clock 0" "od_code dr" OFFER_TTL_SECS g "oi_codes (ip_oid s)" k] by auto
next
  case (Token clock fresh form)
  with assms show ?thesis
    by (auto simp: token_endpoint_def split: option.splits if_splits prod.splits sum.splits dest!: redeem_code_other [where k = k])
next
  case (Credential clock uuid hdr body)
  then show ?thesis
    using keepsD [OF credential_endpoint_codes, of C D N J X a clock uuid hdr body s] by (simp add: Let_def)
qed (auto simp: offer_by_reference_def nonce_endpoint_def split: prod.splits)

text \<open>Storing a code, and presenting one.\<close>

lemma drawn_request_codes:
  assumes "drawn_code e = Some k"
  shows "fmlookup (entries (oi_codes (ip_oid (snd (oid_handle C D N J X a e s))))) k
    \<in> {None, fmlookup (entries (oi_codes (ip_oid s))) k}
    \<or> (\<exists>x g. fmlookup (entries (oi_codes (ip_oid (snd (oid_handle C D N J X a e s))))) k = Some (x, g) \<and> ga_failed_attempts g = 0)"
proof -
  from assms obtain clock dr hdr body where e: "e = CreateOffer clock dr hdr body" "od_code dr = k" by (cases e) auto
  from create_offer_codes [of C a clock dr hdr body s] obtain g where g: "ga_failed_attempts g = 0"
    "oi_codes (ip_oid (snd (oid_handle C D N J X a e s)))
      \<in> {oi_codes (ip_oid s), et_insert (clock 0) (od_code dr) OFFER_TTL_SECS g (oi_codes (ip_oid s))}"
    unfolding e by auto
  then show ?thesis
    using et_insert_lookup [of "clock 0" "od_code dr" OFFER_TTL_SECS g "oi_codes (ip_oid s)" k] e by auto
qed

lemma presenting_request:
  assumes "presents k (Token clock fresh form)" "\<not> oi_codes_poisoned (ip_oid s)"
  shows "case redeem_code clock k (form ''tx_code'') (oi_codes (ip_oid s)) of (res, t) \<Rightarrow>
    oi_codes (ip_oid (snd (token_endpoint clock fresh form s))) = t
    \<and> (case res of Inl r \<Rightarrow> fst (token_endpoint clock fresh form s) = r
       | Inr ids \<Rightarrow> \<exists>r. fst (token_endpoint clock fresh form s) = Some r \<and> r_status r = 200)"
  using assms by (auto simp: token_endpoint_def split: prod.splits sum.splits option.splits)


text \<open>What a request does to a code, and what its answer tells.\<close>

lemma code_step:
  defines "code s k \<equiv> fmlookup (entries (oi_codes (ip_oid s))) k"
  assumes "oid_handle C D N J X a e s = (r, s')"
  obtains
    (kept) "code s' k \<in> {None, code s k}" "\<not> redeems k (e, r)" "\<not> misses k (e, r)"
  | (drawn) x g where "drawn_code e = Some k" "code s' k = Some (x, g)" "ga_failed_attempts g = 0"
      "\<not> redeems k (e, r)" "\<not> misses k (e, r)"
  | (redeemed) x g where "code s k = Some (x, g)" "code s' k = None" "\<not> misses k (e, r)"
  | (missed) x g where "code s k = Some (x, g)" "\<not> redeems k (e, r)" "code s' k =
        (if ga_failed_attempts g + 1 \<ge> MAX_TX_CODE_ATTEMPTS then None else Some (x, g\<lparr>ga_failed_attempts := ga_failed_attempts g + 1\<rparr>))"
proof (cases "presents k e")
  case False
  then have no: "\<not> redeems k (e, r)" "\<not> misses k (e, r)" by (simp_all add: redeems_def misses_def)
  show ?thesis
  proof (cases "drawn_code e = Some k")
    case True
    from drawn_request_codes [OF True, of C D N J X a s] assms no show ?thesis by (auto intro: kept drawn [OF True])
  next
    case other: False
    from other_request_codes [OF False other, of C D N J X a s] assms no show ?thesis by (auto intro: kept)
  qed
next
  case True
  then obtain clock fresh form where e: "e = Token clock fresh form" "presents k (Token clock fresh form)" by (cases e) auto
  have tok: "token_endpoint clock fresh form s = (r, s')" using assms(2) e by simp
  show ?thesis
  proof (cases "oi_codes_poisoned (ip_oid s)")
    case True
    with tok e have "r = None" "s' = s" by (auto simp: token_endpoint_def)
    then show ?thesis by (intro kept) (auto simp: redeems_def misses_def)
  next
    case False
    obtain res t where rc: "redeem_code clock k (form ''tx_code'') (oi_codes (ip_oid s)) = (res, t)" by fastforce
    from presenting_request [OF e(2) False] rc tok have p: "oi_codes (ip_oid s') = t"
      "\<And>x. res = Inl x \<Longrightarrow> r = x" "\<And>ids. res = Inr ids \<Longrightarrow> \<exists>y. r = Some y \<and> r_status y = 200" by auto
    have w: "r_status wrong_tx_code = 400" by (simp add: wrong_tx_code_def)
    from rc show ?thesis
    proof (cases rule: redeem_code_cases)
      case (redeemed x g)
      with p have "r \<noteq> Some wrong_tx_code" using w by auto
      with redeemed p show ?thesis by (intro that(3)) (auto simp: code_def misses_def)
    next
      case (raced x g)
      with p show ?thesis by (intro that(3)) (auto simp: code_def misses_def)
    next
      case (missed x g)
      with p w show ?thesis by (intro that(4)) (auto simp: code_def redeems_def)
    next
      case (refused y)
      with p show ?thesis by (intro that(1)) (auto simp: code_def redeems_def misses_def)
    qed
  qed
qed

interpretation attempts: charged "oid_handle C D N J X a" attempts_left "\<lambda>x. redeems k x \<or> misses k x" "tries k"
    "\<lambda>e. if drawn_code e = Some k then MAX_TX_CODE_ATTEMPTS else 0" for C D N J X a k
proof unfold_locales
  fix s e assume ok: "attempts_left s"
  obtain r s' where h: "oid_handle C D N J X a e s = (r, s')" by fastforce
  have "ga_failed_attempts g < MAX_TX_CODE_ATTEMPTS" if "fmlookup (entries (oi_codes (ip_oid s'))) j = Some (x, g)" for j x g
    using h by (cases rule: code_step [where k = j])
      (use that ok in \<open>auto simp: attempts_left_def MAX_TX_CODE_ATTEMPTS_def split: if_splits dest!: sym [of "Some _"]\<close>)
  then show "attempts_left (snd (oid_handle C D N J X a e s))" unfolding h attempts_left_def by simp
  from h have "(if redeems k (e, r) \<or> misses k (e, r) then 1 else 0) + tries k s'
      \<le> tries k s + (if drawn_code e = Some k then MAX_TX_CODE_ATTEMPTS else 0)"
  proof (cases rule: code_step [where k = k])
    case (redeemed x g)
    with ok have "ga_failed_attempts g < MAX_TX_CODE_ATTEMPTS" by (auto simp: attempts_left_def)
    with redeemed show ?thesis by (auto simp: tries_def)
  next
    case (missed x g)
    with ok have "ga_failed_attempts g < MAX_TX_CODE_ATTEMPTS" by (auto simp: attempts_left_def)
    with missed show ?thesis by (auto simp: tries_def split: if_splits)
  qed (auto simp: tries_def split: option.splits)
  then show "(if redeems k (e, fst (oid_handle C D N J X a e s)) \<or> misses k (e, fst (oid_handle C D N J X a e s)) then 1 else 0)
      + tries k (snd (oid_handle C D N J X a e s)) \<le> tries k s + (if drawn_code e = Some k then MAX_TX_CODE_ATTEMPTS else 0)"
    unfolding h by simp
qed

interpretation redemptions: charged "oid_handle C D N J X a" "\<lambda>s. True" "redeems k" "held k"
    "\<lambda>e. if drawn_code e = Some k then 1 else 0" for C D N J X a k
proof unfold_locales
  fix s e
  obtain r s' where h: "oid_handle C D N J X a e s = (r, s')" by fastforce
  show "(if redeems k (e, fst (oid_handle C D N J X a e s)) then 1 else 0) + held k (snd (oid_handle C D N J X a e s))
      \<le> held k s + (if drawn_code e = Some k then 1 else 0)"
    unfolding h fst_conv snd_conv using h
    by (cases rule: code_step [where k = k]) (auto simp: held_def)
qed simp

text \<open>
  C15. A pre-authorized code is worth one access token and three guesses: over any sequence of requests
  to a fresh issuer in which the code was drawn at most once, it is redeemed at most once, and the
  redemptions and wrong transaction codes that were tried on it are at most three together, so that a
  guesser has at most three tries at the six digits, whatever happens in between.
\<close>

theorem tx_code_guesses_bounded:
  assumes "length (filter (\<lambda>e. drawn_code e = Some k) es) \<le> 1"
  shows "let l = request_log (oid_handle C D N J X a) es \<lparr>ip_issuer = i, ip_oid = oid_state_default\<rparr> in
    length (filter (redeems k) l) \<le> 1
    \<and> length (filter (redeems k) l) + length (filter (misses k) l) \<le> MAX_TX_CODE_ATTEMPTS"
proof -
  let ?s = "\<lparr>ip_issuer = i, ip_oid = oid_state_default\<rparr>"
  let ?l = "request_log (oid_handle C D N J X a) es ?s"
  have credits: "sum_list (map (\<lambda>e. if drawn_code e = Some k then c else 0) es) \<le> c" for c :: nat
  proof -
    have "sum_list (map (\<lambda>e. if drawn_code e = Some k then c else 0) es) = c * length (filter (\<lambda>e. drawn_code e = Some k) es)"
      by (induction es) auto
    with assms show ?thesis by (simp add: mult_le_cancel2)
  qed
  have start: "attempts_left ?s" "tries k ?s = 0" "held k ?s = 0"
    by (simp_all add: attempts_left_def tries_def held_def oid_state_default_def et_new_def)
  have disjoint: "\<not> (redeems k x \<and> misses k x)" for x by (auto simp: redeems_def misses_def wrong_tx_code_def)
  have "length (filter (\<lambda>x. redeems k x \<or> misses k x) l) = length (filter (redeems k) l) + length (filter (misses k) l)" for l
    using disjoint by (induction l) auto
  with attempts.bounded [OF start(1), of k C D N J X a es] redemptions.bounded [of k C D N J X a es ?s] start
    credits [of MAX_TX_CODE_ATTEMPTS] credits [of 1]
  show ?thesis by (simp add: Let_def)
qed


section \<open>The two readings of the clock\<close>

lemma credential_endpoint_poison:
  "keeps (oi_codes_poisoned \<circ> ip_oid) (credential_endpoint C D N J X a clock uuid id hdr body)"
proof -
  have c: "keeps (oi_codes_poisoned \<circ> ip_oid) (credential_checks C D J a clock hdr body)"
    unfolding credential_checks_def by (intro keeps_bind) (auto simp: keeps_def split: option.splits prod.splits)
  have n: "keeps (oi_codes_poisoned \<circ> ip_oid) (take_nonce now n)" for now n
    by (auto simp: keeps_def take_nonce_def Let_def split: option.splits prod.splits)
  have i: "keeps (oi_codes_poisoned \<circ> ip_oid) (issue_credential D X a clock uuid c key)" for c key
    by (auto simp: keeps_def issue_credential_def split: option.splits prod.splits sum.splits)
  show ?thesis
    unfolding credential_endpoint_def
    by (rule keeps_bind [OF c]) (auto intro!: keeps_bind n i simp: keeps_def [of _ "sio_modify id ()"] split: prod.split)
qed

lemma poisoned_kept:
  assumes "oi_codes_poisoned (ip_oid s)"
  shows "oi_codes_poisoned (ip_oid (snd (oid_handle C D N J X a e s)))"
proof (cases e)
  case (CreateOffer clock dr hdr body)
  with assms show ?thesis by (auto simp: create_offer_def split: sum.splits)
next
  case (Token clock fresh form)
  with assms show ?thesis by (auto simp: token_endpoint_def split: option.splits)
next
  case (Credential clock uuid hdr body)
  with assms show ?thesis
    using keepsD [OF credential_endpoint_poison, of C D N J X a clock uuid hdr body s] by (simp add: Let_def)
qed (use assms in \<open>auto simp: offer_by_reference_def nonce_endpoint_def split: prod.splits\<close>)

lemma poisoned_after:
  "oi_codes_poisoned (ip_oid s) \<Longrightarrow> oi_codes_poisoned (ip_oid (after (oid_handle C D N J X a) es s))"
  unfolding after_def by (induction es arbitrary: s) (auto intro: poisoned_kept)

text \<open>
  C24. When the token endpoint answers: a request that presents a code panics exactly when the lock of
  the codes is poisoned or the code, found live with the right transaction code, has expired by the
  second reading of the clock; otherwise it is answered. The panic poisons the lock, and from
  then on, whatever requests come in between, every redemption and every valid offer creation panics.
\<close>

theorem token_endpoint_panics:
  assumes "presents k (Token clock fresh form)"
  shows "(fst (token_endpoint clock fresh form s) = None \<longleftrightarrow> oi_codes_poisoned (ip_oid s)
      \<or> (\<exists>e g. fmlookup (entries (oi_codes (ip_oid s))) k = Some (e, g) \<and> ga_tx_code g = form ''tx_code''
           \<and> clock 0 < e \<and> e \<le> clock 1))
    \<and> (\<forall>s' es. token_endpoint clock fresh form s = (None, s') \<longrightarrow>
        (let later = after (oid_handle C D N J X a) es s' in
         (\<forall>clock' fresh' form' k'. presents k' (Token clock' fresh' form') \<longrightarrow> fst (token_endpoint clock' fresh' form' later) = None)
         \<and> (\<forall>clock' dr hdr body. is_ok (offer_request C a hdr body (ip_issuer later)) \<longrightarrow>
              fst (create_offer C a clock' dr hdr body later) = None)))"
proof (intro conjI allI impI)
  obtain res t where rc: "redeem_code clock k (form ''tx_code'') (oi_codes (ip_oid s)) = (res, t)" by fastforce
  show "fst (token_endpoint clock fresh form s) = None \<longleftrightarrow> oi_codes_poisoned (ip_oid s)
      \<or> (\<exists>e g. fmlookup (entries (oi_codes (ip_oid s))) k = Some (e, g) \<and> ga_tx_code g = form ''tx_code''
           \<and> clock 0 < e \<and> e \<le> clock 1)"
  proof (cases "oi_codes_poisoned (ip_oid s)")
    case False
    from presenting_request [OF assms False] rc have p: "\<And>x. res = Inl x \<Longrightarrow> fst (token_endpoint clock fresh form s) = x"
      "\<And>ids. res = Inr ids \<Longrightarrow> \<exists>y. fst (token_endpoint clock fresh form s) = Some y" by auto
    from rc show ?thesis
    proof (cases rule: redeem_code_cases)
      case (refused r)
      with p(1) have "fst (token_endpoint clock fresh form s) \<noteq> None" by simp
      moreover have "\<not> (\<exists>e g. fmlookup (entries (oi_codes (ip_oid s))) k = Some (e, g) \<and> ga_tx_code g = form ''tx_code''
           \<and> clock 0 < e \<and> e \<le> clock 1)"
        using rc refused(1) by (auto simp: redeem_code_def et_get_mut_def et_take_def split: option.splits)
      ultimately show ?thesis using False by blast
    next
      case (missed e g)
      with p(1) have "fst (token_endpoint clock fresh form s) \<noteq> None" by simp
      moreover have "ga_tx_code g \<noteq> form ''tx_code''"
        using rc missed(1,2) by (auto simp: redeem_code_def et_get_mut_def et_take_def wrong_tx_code_def split: option.splits if_splits)
      ultimately show ?thesis using False missed(1) by force
    next
      case (redeemed e g)
      with p(2) obtain y where "fst (token_endpoint clock fresh form s) = Some y" by blast
      with redeemed False show ?thesis by auto
    next
      case (raced e g)
      with p(1) False show ?thesis by auto
    qed
  qed (use assms in \<open>auto simp: token_endpoint_def\<close>)
next
  fix s' es
  assume "token_endpoint clock fresh form s = (None, s')"
  then have "oi_codes_poisoned (ip_oid s')"
    by (auto simp: token_endpoint_def split: option.splits if_splits prod.splits sum.splits)
  from poisoned_after [OF this, of C D N J X a es] show "let later = after (oid_handle C D N J X a) es s' in
         (\<forall>clock' fresh' form' k'. presents k' (Token clock' fresh' form') \<longrightarrow> fst (token_endpoint clock' fresh' form' later) = None)
         \<and> (\<forall>clock' dr hdr body. is_ok (offer_request C a hdr body (ip_issuer later)) \<longrightarrow>
              fst (create_offer C a clock' dr hdr body later) = None)"
    by (auto simp: Let_def token_endpoint_def create_offer_def split: sum.splits)
qed


section \<open>An offer stays redeemable\<close>






section \<open>A redemption is recorded like a delivery\<close>

lemma redeemed_record_minted:
  "redeemed_record pid hid hdid dn (mint_credential D X a dn hdid (Some i) t u) i = minted_record pid hid hdid dn u t i"
  by (simp add: redeemed_record_def mint_credential_def minted_record_def Let_def)

text \<open>The traces a redemption leaves: a delivered process, an active record, and the credential that names its index.\<close>

definition issued_to ::
    "('d, 'k) dcp \<Rightarrow> 't chrono \<Rightarrow> 'k app \<Rightarrow> credential_definition \<Rightarrow> string \<Rightarrow> u64 \<Rightarrow> u64 \<Rightarrow> (nat \<Rightarrow> string) \<Rightarrow> issuer_state \<Rightarrow> string \<Rightarrow> bool" where
  "issued_to D X a dn hdid now mint_now uuid s jwt \<longleftrightarrow> (\<exists>hid i.
     fmlookup (records (s_requests s)) (uuid 1) = Some (redeem_process (uuid 1) hid hdid dn now)
     \<and> fmlookup (ic_records (s_issued s)) (credential_urn (uuid 2)) = Some (minted_record (uuid 1) hid hdid dn (uuid 2) mint_now i)
     \<and> jwt = mc_jws (mint_credential D X a dn hdid (Some i) mint_now (uuid 2)))"

lemma redemption_steps:
  assumes holder: "redeem_holder (cfg_holder_approval (a_config a)) (uuid 0) now hdid (s_holders s) = (Ok hid, hs)"
    and ok: "issued_ok (s_issued s) F" "rt_ok (s_requests s)"
    and fresh: "uuid 1 |\<notin>| d" "uuid 2 |\<notin>| finsert (uuid 1) d"
  shows "\<exists>res s' d'. record_and_mint D X a dn hdid now mint_now uuid s = Some (res, s')
    \<and> task_steps (s\<lparr>s_holders := hs\<rparr>) d (Redeeming dn hdid hid) s' d' RedeemEnded \<and> fset d' \<subseteq> fset d \<union> range uuid
    \<and> (\<forall>jwt. res = Ok jwt \<longrightarrow> issued_to D X a dn hdid now mint_now uuid s' jwt)"
proof -
  let ?s = "s\<lparr>s_holders := hs\<rparr>"
  obtain found ic where al: "issued_allocate (s_issued s) = (found, ic)" by fastforce
  show ?thesis
  proof (cases found)
    case None
    have "task_step ?s d (Redeeming dn hdid hid) (?s\<lparr>s_issued := ic\<rparr>) d RedeemEnded"
      by (rule redeem_exhausted) (simp add: al None)
    from task_steps_one [OF this] show ?thesis
      by (intro exI [of _ "Err (503, ''the revocation status list is exhausted'')"] exI [of _ "?s\<lparr>s_issued := ic\<rparr>"] exI [of _ d])
        (auto simp: record_and_mint_def holder al None)
  next
    case (Some i)
    let ?s1 = "?s\<lparr>s_issued := ic\<rparr>"
    have s1: "task_step ?s d (Redeeming dn hdid hid) ?s1 d (RedeemIndexed dn hdid hid i)"
      by (rule redeem_index) (simp add: al Some)
    from pool.alloc_fresh [of "s_issued s" F i ic] al Some ok(1) have i: "issued_ok ic (insert i F)" by auto
    let ?p = "redeem_process (uuid 1) hid hdid dn now"
    show ?thesis
    proof (cases "rt_insert (uuid 1) ?p (s_requests s)")
      case None
      from pool.release_one [OF i, of i] obtain ic' where rel: "issued_release i ic = Some ic'" by auto
      have s2: "task_step ?s1 d (RedeemIndexed dn hdid hid i) ?s1 (finsert (uuid 1) d) (RedeemUndo i)"
        by (rule redeem_full [where now = now, OF fresh(1)]) (use None in simp)
      have s3: "task_step ?s1 (finsert (uuid 1) d) (RedeemUndo i) (?s1\<lparr>s_issued := ic'\<rparr>) (finsert (uuid 1) d) RedeemEnded"
        by (rule redeem_undo) (simp add: rel)
      have "record_and_mint D X a dn hdid now mint_now uuid s
          = Some (Err (503, ''too many credential requests in flight''), ?s1\<lparr>s_issued := ic'\<rparr>)"
        by (simp add: record_and_mint_def holder al Some None rel del: One_nat_def)
      with move [OF s1 move [OF s2 task_steps_one [OF s3]]] show ?thesis
        by (intro exI conjI) (assumption, assumption, auto)
    next
      case ins: (Some t)
      let ?s2 = "?s1\<lparr>s_requests := t\<rparr>"
      let ?m = "mint_credential D X a dn hdid (Some i) mint_now (uuid 2)"
      let ?r = "minted_record (uuid 1) hid hdid dn (uuid 2) mint_now i"
      have s2: "task_step ?s1 d (RedeemIndexed dn hdid hid i) ?s2 (finsert (uuid 1) d) (RedeemRecorded dn hdid hid i (uuid 1))"
        by (rule redeem_tracked [where now = now, OF fresh(1)]) (use ins in simp)
      have s3: "task_step ?s2 (finsert (uuid 1) d) (RedeemRecorded dn hdid hid i (uuid 1))
          (?s2\<lparr>s_issued := issued_insert ?r (s_issued ?s2)\<rparr>) (finsert (uuid 2) (finsert (uuid 1) d)) RedeemEnded"
        by (rule redeem_done [OF fresh(2)])
      let ?s3 = "?s2\<lparr>s_issued := issued_insert ?r (s_issued ?s2)\<rparr>"
      have run: "record_and_mint D X a dn hdid now mint_now uuid s = Some (Ok (mc_jws ?m), ?s3)"
        by (simp add: record_and_mint_def holder al Some ins Let_def redeemed_record_minted del: One_nat_def)
      have "fmlookup (records (s_requests ?s3)) (uuid 1) = Some ?p" using rt_insert_SomeD(1) [OF ins ok(2)] by simp
      moreover have "fmlookup (ic_records (s_issued ?s3)) (credential_urn (uuid 2)) = Some ?r" by (simp add: issued_insert_def)
      ultimately have "issued_to D X a dn hdid now mint_now uuid ?s3 (mc_jws ?m)" unfolding issued_to_def by blast
      with run move [OF s1 move [OF s2 task_steps_one [OF s3]]] show ?thesis
        by (intro exI conjI) (assumption, assumption, auto simp del: issued_to_def)
    qed
  qed
qed

lemma redeem_holder_served:
  "redeem_holder ap i now hdid r = (Ok hid, hs) \<Longrightarrow> by_did r hdid = Some h \<Longrightarrow> status h \<noteq> Rejected"
  by (auto simp: redeem_holder_def split: if_splits)

lemma redeem_holder_refused: "redeem_holder ap i now hdid r = (Err e, hs) \<Longrightarrow> hs = r"
  by (auto simp: redeem_holder_def holder_for_def split: option.splits if_splits sum.splits prod.splits)

text \<open>A later world has the tasks of the earlier one, maybe ended redemptions, and has drawn at most some further identifiers.\<close>

definition extends_world :: "string set \<Rightarrow> world \<Rightarrow> world \<Rightarrow> bool" where
  "extends_world ids w w' \<longleftrightarrow> (\<exists>ts. tasks w' = tasks w @ ts \<and> set ts \<subseteq> {RedeemEnded}) \<and> fset (drawn w') \<subseteq> fset (drawn w) \<union> ids"

lemma extends_world_refl [simp]: "extends_world ids w w"
  by (simp add: extends_world_def)

text \<open>From its holder section to the record, a redemption is a run of the issuer's state machine.\<close>

lemma record_and_mint_steps:
  assumes reach: "reachable cap w" and cat: "catalog_get (s_definitions (shared w)) c = Some dn"
    and fresh: "inj uuid" "range uuid \<inter> fset (drawn w) = {}"
  shows "\<exists>res s' w'. record_and_mint D X a dn hdid now mint_now uuid (shared w) = Some (res, s')
    \<and> step\<^sup>*\<^sup>* w w' \<and> shared w' = s' \<and> extends_world (range uuid) w w'
    \<and> (\<forall>jwt. res = Ok jwt \<longrightarrow> issued_to D X a dn hdid now mint_now uuid s' jwt
         \<and> (\<forall>h. by_did (s_holders (shared w)) hdid = Some h \<longrightarrow> status h \<noteq> Rejected))"
proof -
  note parts = reachable_parts [OF reach]
  have new: "uuid k |\<notin>| drawn w" for k using fresh(2) by auto
  have ne: "uuid j \<noteq> uuid k" if "j \<noteq> k" for j k using fresh(1) that by (simp add: inj_eq)
  obtain res hs where h: "redeem_holder (cfg_holder_approval (a_config a)) (uuid 0) now hdid (s_holders (shared w)) = (res, hs)" by fastforce
  show ?thesis
  proof (cases res)
    case (Inl e)
    have "record_and_mint D X a dn hdid now mint_now uuid (shared w) = Some (Err e, shared w)"
      using redeem_holder_refused [OF h [unfolded Inl]] by (simp add: record_and_mint_def h Inl)
    then show ?thesis by (intro exI [of _ "Err e"] exI [of _ "shared w"] exI [of _ w]) auto
  next
    case (Inr hid)
    let ?w = "w\<lparr>shared := (shared w)\<lparr>s_holders := hs\<rparr>, drawn := finsert (uuid 0) (drawn w), tasks := tasks w @ [Redeeming dn hdid hid]\<rparr>"
    have e: "step w ?w"
      by (rule step.env) (rule redeem [OF new cat h [unfolded Inr]])
    have ok: "issued_ok (s_issued (shared w)) (set (in_flight (tasks w)))" using parts(1) by (simp add: issued_inv_def)
    have f: "uuid 1 |\<notin>| finsert (uuid 0) (drawn w)" "uuid 2 |\<notin>| finsert (uuid 1) (finsert (uuid 0) (drawn w))"
      using new ne by auto
    from redemption_steps [OF h [unfolded Inr] ok parts(9) f, of D X dn mint_now] obtain r s' d' where
      run: "record_and_mint D X a dn hdid now mint_now uuid (shared w) = Some (r, s')"
      and steps: "task_steps ((shared w)\<lparr>s_holders := hs\<rparr>) (finsert (uuid 0) (drawn w)) (Redeeming dn hdid hid) s' d' RedeemEnded"
      and new: "fset d' \<subseteq> fset (finsert (uuid 0) (drawn w)) \<union> range uuid"
      and out: "\<forall>jwt. r = Ok jwt \<longrightarrow> issued_to D X a dn hdid now mint_now uuid s' jwt" by blast
    have "step\<^sup>*\<^sup>* ?w (?w\<lparr>shared := s', drawn := d', tasks := (tasks ?w)[length (tasks w) := RedeemEnded]\<rparr>)"
      by (rule task_steps_tasks [OF steps]) simp_all
    note moved = converse_rtranclp_into_rtranclp [where r = step, OF e this]
    have "extends_world (range uuid) w (?w\<lparr>shared := s', drawn := d', tasks := (tasks ?w)[length (tasks w) := RedeemEnded]\<rparr>)"
      using new by (auto simp: extends_world_def list_update_append)
    with moved run out redeem_holder_served [OF h [unfolded Inr]] show ?thesis
      by (intro exI [of _ r] exI [of _ s']
          exI [of _ "?w\<lparr>shared := s', drawn := d', tasks := (tasks ?w)[length (tasks w) := RedeemEnded]\<rparr>"]) simp
  qed
qed


section \<open>What the credential endpoint answers\<close>

lemma verify_proof_signature_confined [hub_confined]:
  "resolves_through D N \<Longrightarrow> confined D (a_outbound a) (verify_proof_signature D N J a jws key)"
  unfolding verify_proof_signature_def
  by (cases key) (auto intro!: confined_bind confined_resolve split: prod.splits)

lemma credential_endpoint_confined [hub_confined]:
  assumes "resolves_through D N"
  shows "sconfined D (a_outbound a) (credential_endpoint C D N J X a clock uuid others hdr body)"
proof -
  have c: "sconfined D (a_outbound a) (credential_checks C D J a clock hdr body)"
    unfolding credential_checks_def
    by (intro sconfined_bind) (auto simp: sconfined_def confined_def io_pure_def sio_return_def sio_lift_def split: option.splits prod.splits)
  have n: "sconfined D (a_outbound a) (take_nonce now n)" for now n
    by (auto simp: sconfined_def take_nonce_def Let_def split: option.splits prod.splits)
  have i: "sconfined D (a_outbound a) (issue_credential D X a clock uuid c key)" for c key
    by (auto simp: sconfined_def issue_credential_def split: option.splits prod.splits sum.splits)
  show ?thesis
    unfolding credential_endpoint_def
    by (rule sconfined_bind [OF c])
      (auto intro!: sconfined_bind n i verify_proof_signature_confined [OF assms] split: prod.split)
qed

text \<open>The section before the suspension.\<close>

lemma bind_strip_prefix: "Option.bind hdr (\<lambda>v. strip_prefix v p) = Some b \<longleftrightarrow> hdr = Some (p @ b)"
  by (cases hdr) (auto simp: strip_prefix_def starts_with_iff)

lemma credential_checks_Ok:
  assumes "snd (fst (credential_checks C D J a clock hdr body s)) = Ok (config_id, jws, key, n)"
  obtains bearer e g request where "hdr = Some (''Bearer '' @ bearer)"
    "fmlookup (entries (oi_access_tokens (ip_oid s))) bearer = Some (e, g)" "clock 0 < e"
    "request_of_value C body = Ok request" "cr_configuration_id request = Some config_id" "config_id \<in> set (ac_configuration_ids g)"
    "jwt_proofs request = [jws]" "inspect_jwt_proof D J jws (credential_issuer_id a) (clock 1) = Ok (key, n)"
  using assms unfolding credential_checks_def
  by (auto simp: sio_bind_Ok et_get_mut_def ok_or_def bind_strip_prefix
      split: option.splits prod.splits if_splits list.splits sum.splits)

lemma credential_checks_Err:
  "snd (fst (credential_checks C D J a clock hdr body s)) = Err x \<Longrightarrow> \<exists>r. x = Rejection r \<and> r_status r \<noteq> 200"
  unfolding credential_checks_def
  by (auto simp: sio_bind_result ok_or_def split: option.splits prod.splits if_splits list.splits sum.splits)

lemma credential_checks_issuer: "keeps ip_issuer (credential_checks C D J a clock hdr body)"
  unfolding credential_checks_def
  by (intro keeps_bind) (auto simp: keeps_def split: option.splits prod.splits)


lemma record_and_mint_Err:
  "record_and_mint D X a dn hdid now mint_now uuid s = Some (Err (st, desc), s') \<Longrightarrow> st \<in> {400, 503}"
  by (auto simp: record_and_mint_def redeem_holder_def Let_def split: prod.splits sum.splits option.splits if_splits)

text \<open>The answer that carries an issued credential.\<close>

abbreviation issued_response :: "string \<Rightarrow> response" where
  "issued_response jwt \<equiv> no_store (resp_json 200 (credential_response_json
     \<lparr>rs_credentials = [JStr jwt], rs_credential = None, rs_transaction_id = None\<rparr>))"

lemma issue_credential_run:
  assumes reach: "reachable cap w" "shared w = ip_issuer s" and fresh: "inj uuid" "range uuid \<inter> fset (drawn w) = {}"
    and run: "issue_credential D X a clock uuid config_id key s = ((tr, res), s')"
  shows "ip_oid s' = ip_oid s \<and> (\<exists>w'. step\<^sup>*\<^sup>* w w' \<and> shared w' = ip_issuer s' \<and> extends_world (range uuid) w w') \<and> res \<noteq> Inl Panicked
    \<and> (\<forall>r. res = Inl (Rejection r) \<longrightarrow> r_status r \<noteq> 200)
    \<and> (\<forall>r. res = Inr r \<longrightarrow> (\<exists>dn jwt. r = issued_response jwt \<and> catalog_get (s_definitions (ip_issuer s)) config_id = Some dn
         \<and> issued_to D X a dn (holder_did key) (clock 3) (clock 4) uuid (ip_issuer s') jwt
         \<and> (\<forall>h. by_did (s_holders (ip_issuer s)) (holder_did key) = Some h \<longrightarrow> status h \<noteq> Rejected)))"
proof (cases "catalog_get (s_definitions (ip_issuer s)) config_id")
  case None
  with run have "s' = s" "res = Err (Rejection (oauth_error 400 ''unknown_credential_configuration''
                   (quoted config_id @ '' is not offered by this issuer'')))"
    by (auto simp: issue_credential_def io_pure_def)
  with reach(2) show ?thesis by auto
next
  case (Some dn)
  from record_and_mint_steps [OF reach(1) _ fresh, of config_id dn D X a "holder_did key" "clock 3" "clock 4"] Some reach(2)
  obtain out i w' where m: "record_and_mint D X a dn (holder_did key) (clock 3) (clock 4) uuid (ip_issuer s) = Some (out, i)"
    and w': "step\<^sup>*\<^sup>* w w'" "shared w' = i" "extends_world (range uuid) w w'"
    and ok: "\<forall>jwt. out = Ok jwt \<longrightarrow> issued_to D X a dn (holder_did key) (clock 3) (clock 4) uuid i jwt
         \<and> (\<forall>h. by_did (s_holders (ip_issuer s)) (holder_did key) = Some h \<longrightarrow> status h \<noteq> Rejected)" by auto
  show ?thesis
  proof (cases out)
    case (Inl e)
    obtain st desc where e: "e = (st, desc)" by fastforce
    from run Some m Inl e have "s' = s\<lparr>ip_issuer := i\<rparr>" "res = Err (Rejection (oauth_error st ''credential_request_denied'' desc))"
      by (auto simp: issue_credential_def io_pure_def)
    with w' record_and_mint_Err [OF m [unfolded Inl e]] show ?thesis by auto
  next
    case (Inr jwt)
    from run Some m Inr have "s' = s\<lparr>ip_issuer := i\<rparr>" "res = Ok (issued_response jwt)"
      by (auto simp: issue_credential_def io_pure_def)
    with w' ok Inr Some show ?thesis by (auto simp del: issued_to_def)
  qed
qed

lemma take_nonce_run:
  "take_nonce now n s = ((tr, res), s') \<Longrightarrow> ip_issuer s' = ip_issuer s
   \<and> (res = Ok () \<longleftrightarrow> (\<exists>x e. n = Some x \<and> fmlookup (entries (oi_nonces (ip_oid s))) x = Some (e, ()) \<and> now < e))
   \<and> (\<forall>x. n = Some x \<longrightarrow> x |\<notin>| fmdom (entries (oi_nonces (ip_oid s'))))
   \<and> (\<forall>y. res = Inl y \<longrightarrow> (\<exists>r. y = Rejection r \<and> r_status r \<noteq> 200))"
  by (auto simp: take_nonce_def et_take_def io_pure_def Let_def dest: fmdomI split: option.splits prod.splits if_splits)


text \<open>The stages of a run of the endpoint.\<close>

lemma credential_endpoint_stages:
  fixes C D J a clock hdr body s
  defines "chk \<equiv> credential_checks C D J a clock hdr body s"
  assumes run: "credential_endpoint C D N J X a clock uuid others hdr body s = ((tr, res), s')"
  obtains
    (refused) r where "res = Inl (Rejection r)" "r_status r \<noteq> 200" "ip_issuer s' = ip_issuer s"
  | (checked) config_id jws key n where "snd (fst chk) = Ok (config_id, jws, key, n)"
      "snd (verify_proof_signature D N J a jws key) = Ok ()"
      "\<exists>tr'. sio_bind (take_nonce (clock 2) n) (\<lambda>_. issue_credential D X a clock uuid config_id key) (others (snd chk)) = ((tr', res), s')"
proof (cases "snd (fst chk)")
  case (Inl x)
  from credential_checks_Err [OF Inl [unfolded chk_def]] obtain r where r: "x = Rejection r" "r_status r \<noteq> 200" by blast
  have "res = Inl x" "s' = snd chk"
    using run Inl unfolding credential_endpoint_def chk_def by (auto simp: sio_bind_def split: prod.splits sum.splits)
  with r keepsD [OF credential_checks_issuer, of C D J a clock hdr body s] show ?thesis by (intro refused) (auto simp: chk_def)
next
  case (Inr v)
  obtain config_id jws key n where v: "v = (config_id, jws, key, n)" by (metis prod_cases4)
  obtain tr1 where chk: "credential_checks C D J a clock hdr body s = ((tr1, Ok v), snd chk)"
    using Inr unfolding chk_def by (metis prod.collapse)
  obtain tr2 w where vp: "verify_proof_signature D N J a jws key = (tr2, w)" by fastforce
  show ?thesis
  proof (cases w)
    case (Inl e)
    have "res = Inl (Rejection (oauth_error 400 ''invalid_proof'' e))" "s' = snd chk"
      using run unfolding credential_endpoint_def by (auto simp: sio_bind_def chk v vp Inl sio_lift_def io_map_err_def)
    with keepsD [OF credential_checks_issuer, of C D J a clock hdr body s] show ?thesis by (intro refused) (auto simp: chk_def)
  next
    case ok: (Inr u)
    have "\<exists>tr'. sio_bind (take_nonce (clock 2) n) (\<lambda>_. issue_credential D X a clock uuid config_id key) (others (snd chk)) = ((tr', res), s')"
      using run unfolding credential_endpoint_def
      by (auto simp: sio_bind_def chk v vp ok sio_lift_def io_map_err_def sio_modify_def io_pure_def split: prod.splits sum.splits)
    with Inr v vp ok show ?thesis by (intro checked) auto
  qed
qed

text \<open>A run of the endpoint with nothing in between is a run of the state machine.\<close>

lemma credential_endpoint_steps:
  assumes reach: "reachable cap w" "shared w = ip_issuer s" and fresh: "inj uuid" "range uuid \<inter> fset (drawn w) = {}"
    and run: "credential_endpoint C D N J X a clock uuid id hdr body s = ((tr, res), s')"
  shows "\<exists>w'. step\<^sup>*\<^sup>* w w' \<and> shared w' = ip_issuer s' \<and> extends_world (range uuid) w w'"
  using run
proof (cases rule: credential_endpoint_stages)
  case (refused r)
  with reach(2) show ?thesis by (intro exI [of _ w]) simp
next
  case (checked config_id jws key n)
  let ?mid = "snd (credential_checks C D J a clock hdr body s)"
  have mid: "ip_issuer ?mid = shared w" using keepsD [OF credential_checks_issuer, of C D J a clock hdr body s] reach(2) by simp
  obtain tr' where run': "sio_bind (take_nonce (clock 2) n) (\<lambda>_. issue_credential D X a clock uuid config_id key) ?mid = ((tr', res), s')"
    using checked(3) by auto
  obtain tr1 r1 s1 where tn: "take_nonce (clock 2) n ?mid = ((tr1, r1), s1)" by (metis prod.collapse)
  have sh: "shared w = ip_issuer s1" using take_nonce_run [OF tn] mid by simp
  show ?thesis
  proof (cases r1)
    case (Inl y)
    with run' tn have "s' = s1" by (auto simp: sio_bind_def)
    with sh show ?thesis by (intro exI [of _ w]) simp
  next
    case (Inr u)
    with run' tn obtain tr2 where "issue_credential D X a clock uuid config_id key s1 = ((tr2, res), s')"
      by (auto simp: sio_bind_def split: prod.splits)
    from issue_credential_run [OF reach(1) sh fresh this] show ?thesis by blast
  qed
qed

text \<open>After the checks: the nonce is taken, then the credential is issued, as steps of the issuer.\<close>

lemma endpoint_after_checks:
  assumes reach: "reachable cap w" "shared w = ip_issuer mid"
    and fresh: "inj uuid" "range uuid \<inter> fset (drawn w) = {}"
    and run: "sio_bind (take_nonce (clock 2) n) (\<lambda>_. issue_credential D X a clock uuid config_id key) mid = ((tr, res), s')"
  shows "res \<noteq> Inl Panicked \<and> (\<exists>w'. step\<^sup>*\<^sup>* w w' \<and> shared w' = ip_issuer s')
    \<and> (\<forall>r tr'. answer ((tr', res), s') = Some r \<and> r_status r = 200 \<longrightarrow>
        (\<exists>x e' dn jwt. n = Some x \<and> fmlookup (entries (oi_nonces (ip_oid mid))) x = Some (e', ()) \<and> clock 2 < e'
          \<and> x |\<notin>| fmdom (entries (oi_nonces (ip_oid s')))
          \<and> catalog_get (s_definitions (ip_issuer mid)) config_id = Some dn
          \<and> (\<forall>h. by_did (s_holders (ip_issuer mid)) (holder_did key) = Some h \<longrightarrow> status h \<noteq> Rejected)
          \<and> issued_to D X a dn (holder_did key) (clock 3) (clock 4) uuid (ip_issuer s') jwt
          \<and> r = issued_response jwt))"
proof -
  obtain tr1 r1 s1 where tn: "take_nonce (clock 2) n mid = ((tr1, r1), s1)" by (metis prod.collapse)
  note tn' = take_nonce_run [OF tn]
  show ?thesis
  proof (cases r1)
    case (Inl y)
    with run tn have "res = Inl y" "s' = s1" by (auto simp: sio_bind_def)
    with tn' Inl reach(2) show ?thesis by (auto simp: answer_def)
  next
    case (Inr u)
    with tn' obtain x e' where x: "n = Some x" "fmlookup (entries (oi_nonces (ip_oid mid))) x = Some (e', ())" "clock 2 < e'"
      "x |\<notin>| fmdom (entries (oi_nonces (ip_oid s1)))" by auto
    from run tn Inr obtain tr2 where ic: "issue_credential D X a clock uuid config_id key s1 = ((tr2, res), s')"
      by (auto simp: sio_bind_def split: prod.splits)
    have sh: "shared w = ip_issuer s1" using tn' reach(2) by simp
    note out = issue_credential_run [OF reach(1) sh fresh ic]
    have same: "ip_oid s' = ip_oid s1" "ip_issuer s1 = ip_issuer mid" using out tn' by simp_all
    have good: "\<exists>dn jwt. r = issued_response jwt \<and> catalog_get (s_definitions (ip_issuer mid)) config_id = Some dn
         \<and> issued_to D X a dn (holder_did key) (clock 3) (clock 4) uuid (ip_issuer s') jwt
         \<and> (\<forall>h. by_did (s_holders (ip_issuer mid)) (holder_did key) = Some h \<longrightarrow> status h \<noteq> Rejected)"
      if "answer ((tr', res), s') = Some r" "r_status r = 200" for r tr'
      using that out same(2) by (auto simp: answer_def split: sum.splits abort.splits)
    show ?thesis
    proof (intro conjI allI impI)
      fix r tr' assume "answer ((tr', res), s') = Some r \<and> r_status r = 200"
      with good [of tr' r] obtain dn jwt where g: "r = issued_response jwt" "catalog_get (s_definitions (ip_issuer mid)) config_id = Some dn"
        "issued_to D X a dn (holder_did key) (clock 3) (clock 4) uuid (ip_issuer s') jwt"
        "\<forall>h. by_did (s_holders (ip_issuer mid)) (holder_did key) = Some h \<longrightarrow> status h \<noteq> Rejected" by blast
      show "\<exists>x e' dn jwt. n = Some x \<and> fmlookup (entries (oi_nonces (ip_oid mid))) x = Some (e', ()) \<and> clock 2 < e'
          \<and> x |\<notin>| fmdom (entries (oi_nonces (ip_oid s')))
          \<and> catalog_get (s_definitions (ip_issuer mid)) config_id = Some dn
          \<and> (\<forall>h. by_did (s_holders (ip_issuer mid)) (holder_did key) = Some h \<longrightarrow> status h \<noteq> Rejected)
          \<and> issued_to D X a dn (holder_did key) (clock 3) (clock 4) uuid (ip_issuer s') jwt \<and> r = issued_response jwt"
        using x g unfolding same(1) by (intro exI conjI) assumption+
    qed (use out in blast)+
  qed
qed

text \<open>
  C14. The credential endpoint, whatever other requests run while it checks the proof's signature: it
  never panics, contacts only allowed hosts, and takes the issuer along a path of its state machine (or
  leaves it alone). It hands out a credential only to a caller whose access token is live and covers the
  requested configuration, with exactly one key proof, fresh, addressed to this issuer and signed by the
  key it names, over a nonce that was live and is used up by this request, for a holder the operator has
  not rejected; and then the delivered process, the active record and the credential's status entry are in
  the issuer's tables.
\<close>

theorem credential_endpoint_correct:
  assumes law: "resolves_through D N"
    and mid: "mid = others (snd (credential_checks C D J a clock hdr body s))"
    and reach: "reachable cap w" "shared w = ip_issuer mid"
    and fresh: "inj uuid" "range uuid \<inter> fset (drawn w) = {}"
    and run: "credential_endpoint C D N J X a clock uuid others hdr body s = ((tr, res), s')"
  shows "res \<noteq> Inl Panicked \<and> (\<forall>url \<in> set tr. allowed D (a_outbound a) url)
    \<and> (ip_issuer s' = ip_issuer s \<or> (\<exists>w'. step\<^sup>*\<^sup>* w w' \<and> shared w' = ip_issuer s'))
    \<and> (\<forall>r. answer ((tr, res), s') = Some r \<and> r_status r = 200 \<longrightarrow>
        (\<exists>bearer e g request config_id jws key n e' dn jwt.
          hdr = Some (''Bearer '' @ bearer) \<and> fmlookup (entries (oi_access_tokens (ip_oid s))) bearer = Some (e, g) \<and> clock 0 < e
          \<and> request_of_value C body = Ok request \<and> cr_configuration_id request = Some config_id
          \<and> config_id \<in> set (ac_configuration_ids g) \<and> jwt_proofs request = [jws]
          \<and> inspect_jwt_proof D J jws (credential_issuer_id a) (clock 1) = Ok (key, Some n)
          \<and> snd (verify_proof_signature D N J a jws key) = Ok ()
          \<and> fmlookup (entries (oi_nonces (ip_oid mid))) n = Some (e', ()) \<and> clock 2 < e'
          \<and> n |\<notin>| fmdom (entries (oi_nonces (ip_oid s')))
          \<and> catalog_get (s_definitions (ip_issuer mid)) config_id = Some dn
          \<and> (\<forall>h. by_did (s_holders (ip_issuer mid)) (holder_did key) = Some h \<longrightarrow> status h \<noteq> Rejected)
          \<and> issued_to D X a dn (holder_did key) (clock 3) (clock 4) uuid (ip_issuer s') jwt
          \<and> r = issued_response jwt))"
proof -
  have conf: "\<forall>url \<in> set tr. allowed D (a_outbound a) url"
    using credential_endpoint_confined [OF law, of a C J X clock uuid others hdr body, unfolded sconfined_def, rule_format, of s] run
    by (simp add: confined_def)
  from run show ?thesis
  proof (cases rule: credential_endpoint_stages)
    case (refused r)
    with conf show ?thesis by (auto simp: answer_def)
  next
    case (checked config_id jws key n)
    then obtain tr' where run': "sio_bind (take_nonce (clock 2) n) (\<lambda>_. issue_credential D X a clock uuid config_id key) mid = ((tr', res), s')"
      unfolding mid by blast
    note after = endpoint_after_checks [OF reach fresh run']
    show ?thesis
    proof (intro conjI allI impI)
      fix r assume "answer ((tr, res), s') = Some r \<and> r_status r = 200"
      with after obtain x e' dn jwt where g: "n = Some x" "fmlookup (entries (oi_nonces (ip_oid mid))) x = Some (e', ())" "clock 2 < e'"
        "x |\<notin>| fmdom (entries (oi_nonces (ip_oid s')))" "catalog_get (s_definitions (ip_issuer mid)) config_id = Some dn"
        "\<forall>h. by_did (s_holders (ip_issuer mid)) (holder_did key) = Some h \<longrightarrow> status h \<noteq> Rejected"
        "issued_to D X a dn (holder_did key) (clock 3) (clock 4) uuid (ip_issuer s') jwt" "r = issued_response jwt" by blast
      obtain bearer e g request where "hdr = Some (''Bearer '' @ bearer)"
        "fmlookup (entries (oi_access_tokens (ip_oid s))) bearer = Some (e, g)" "clock 0 < e"
        "request_of_value C body = Ok request" "cr_configuration_id request = Some config_id" "config_id \<in> set (ac_configuration_ids g)"
        "jwt_proofs request = [jws]" "inspect_jwt_proof D J jws (credential_issuer_id a) (clock 1) = Ok (key, Some x)"
        using checked(1) g(1) by (blast elim: credential_checks_Ok)
      with checked(2) g(2-) show "\<exists>bearer e g request config_id jws key n e' dn jwt.
          hdr = Some (''Bearer '' @ bearer) \<and> fmlookup (entries (oi_access_tokens (ip_oid s))) bearer = Some (e, g) \<and> clock 0 < e
          \<and> request_of_value C body = Ok request \<and> cr_configuration_id request = Some config_id
          \<and> config_id \<in> set (ac_configuration_ids g) \<and> jwt_proofs request = [jws]
          \<and> inspect_jwt_proof D J jws (credential_issuer_id a) (clock 1) = Ok (key, Some n)
          \<and> snd (verify_proof_signature D N J a jws key) = Ok ()
          \<and> fmlookup (entries (oi_nonces (ip_oid mid))) n = Some (e', ()) \<and> clock 2 < e'
          \<and> n |\<notin>| fmdom (entries (oi_nonces (ip_oid s')))
          \<and> catalog_get (s_definitions (ip_issuer mid)) config_id = Some dn
          \<and> (\<forall>h. by_did (s_holders (ip_issuer mid)) (holder_did key) = Some h \<longrightarrow> status h \<noteq> Rejected)
          \<and> issued_to D X a dn (holder_did key) (clock 3) (clock 4) uuid (ip_issuer s') jwt
          \<and> r = issued_response jwt"
        by (intro exI conjI)
    qed (use after conf in blast)+
  qed
qed


section \<open>Witnesses\<close>

definition sample_oid_codec :: oid_codec where
  "sample_oid_codec = admin_codec.extend (sample_codec\<lparr>base64_decode := (\<lambda>e s. Some s)\<rparr>)
     \<lparr>request_of_value = (\<lambda>j. Ok \<lparr>cr_configuration_id = get_str j ''credential_configuration_id'', cr_identifier = None,
        cr_proofs = map_option (\<lambda>p. [p]) (get_str j ''proof''), cr_proof = None\<rparr>),
      url_with_params = (\<lambda>u ps. None)\<rparr>"

abbreviation sample_issuer_state :: issuer_state where
  "sample_issuer_state \<equiv> \<lparr>s_definitions = sample_catalog, s_holders = registry_default, s_requests = rt_new 2, s_issued = issued_default\<rparr>"




abbreviation sample_form :: "string option \<Rightarrow> string \<rightharpoonup> string" where
  "sample_form tx \<equiv> [''grant_type'' \<mapsto> PRE_AUTHORIZED_CODE_GRANT, ''pre-authorized_code'' \<mapsto> ''k''](''tx_code'' := tx)"

abbreviation sample_draws :: offer_draws where
  "sample_draws \<equiv> \<lparr>od_code = ''k'', od_bits = 42, od_offer_id = ''o''\<rparr>"

theorem tx_code_guesses_bounded_witness:
  "let guess = (\<lambda>tx. Token (\<lambda>_. 200) ''t'' (sample_form (Some tx)));
       es = [CreateOffer (\<lambda>_. 100) sample_draws (Some ''Basic c:s'') (Some \<lparr>cb_configuration_ids = None, cb_tx_code = True\<rparr>),
             guess ''000001'', guess ''000002'', guess ''000003'', guess ''000042''];
       l = request_log (oid_handle sample_oid_codec sample_jose_dcp sample_network sample_jose sample_chrono sample_issuer) es
             \<lparr>ip_issuer = sample_issuer_state, ip_oid = oid_state_default\<rparr>
   in length (filter (\<lambda>e. drawn_code e = Some ''k'') es) = 1
    \<and> length (filter (redeems ''k'') l) + length (filter (misses ''k'') l) \<le> 3"
proof -
  let ?guess = "\<lambda>tx. Token (\<lambda>_. 200) ''t'' (sample_form (Some tx))"
  let ?es = "[CreateOffer (\<lambda>_. 100) sample_draws (Some ''Basic c:s'') (Some \<lparr>cb_configuration_ids = None, cb_tx_code = True\<rparr>),
             ?guess ''000001'', ?guess ''000002'', ?guess ''000003'', ?guess ''000042'']"
  have "length (filter (\<lambda>e. drawn_code e = Some ''k'') ?es) \<le> 1" by simp
  from tx_code_guesses_bounded [OF this, of sample_oid_codec sample_jose_dcp sample_network sample_jose sample_chrono sample_issuer sample_issuer_state]
  show ?thesis by (simp add: Let_def MAX_TX_CODE_ATTEMPTS_def del: request_log.simps)
qed

theorem token_endpoint_panics_witness:
  "let s = \<lparr>ip_issuer = sample_issuer_state, ip_oid = oid_state_default\<lparr>oi_codes :=
         et_insert 100 ''k'' 600 \<lparr>ga_configuration_ids = [], ga_tx_code = None, ga_failed_attempts = 0\<rparr> (et_new 2)\<rparr>\<rparr>;
       run = token_endpoint (\<lambda>i. if i = 0 then 699 else 700) ''t'' (sample_form None) s
   in fst run = None \<and> fst (token_endpoint (\<lambda>_. 5000) ''u'' (sample_form None) (snd run)) = None"
proof -
  let ?g = "\<lparr>ga_configuration_ids = [], ga_tx_code = None, ga_failed_attempts = 0\<rparr>"
  let ?s = "\<lparr>ip_issuer = sample_issuer_state, ip_oid = oid_state_default\<lparr>oi_codes := et_insert 100 ''k'' 600 ?g (et_new 2)\<rparr>\<rparr>"
  let ?clock = "\<lambda>i :: nat. if i = 0 then 699 else 700"
  have p: "presents ''k'' (Token clock t (sample_form None))" for clock t by simp
  have live: "fmlookup (entries (oi_codes (ip_oid ?s))) ''k'' = Some (700, ?g)"
    by (simp add: et_insert_def et_new_def u64_limit_def fcard.rep_eq)
  note panic = token_endpoint_panics [OF p, of ?clock "''t''" ?s sample_oid_codec sample_jose_dcp sample_network sample_jose sample_chrono sample_issuer]
  from panic live have none: "fst (token_endpoint ?clock ''t'' (sample_form None) ?s) = None" by simp
  then obtain s' where run: "token_endpoint ?clock ''t'' (sample_form None) ?s = (None, s')" by (metis prod.collapse)
  from panic [THEN conjunct2, rule_format, OF run, of "[]"] p have "fst (token_endpoint (\<lambda>_. 5000) ''u'' (sample_form None) s') = None"
    by (auto simp: Let_def after_def)
  with run show ?thesis by (simp add: Let_def)
qed



definition sample_oid_state :: oid_state where
  "sample_oid_state = oid_state_default\<lparr>
     oi_access_tokens := et_insert 1000 ''t'' 300 \<lparr>ac_configuration_ids = [''membership-credential'']\<rparr> (et_new MAX_OID4VCI_ENTRIES),
     oi_nonces := et_insert 1000 ''n'' 300 () (et_new MAX_OID4VCI_ENTRIES)\<rparr>"

definition sample_proof :: string where
  "sample_proof = build_jwt_proof_for_client sample_jose sample_party ''http://hub.example'' (Some ''n'') None RefJwk 1000"

lemma sample_inspected:
  "inspect_jwt_proof sample_jose_dcp sample_jose sample_proof ''http://hub.example'' 1010 = Ok (JwkKey ''x'' ''y'' (did_jwk sample_jose ''x'' ''y''), Some ''n'')"
proof -
  have "1000 < u64_limit" by (simp add: u64_limit_def)
  note d = sample_compact_roundtrip [unfolded compact_roundtrip_def, rule_format, OF proof_header_plain proof_payload_plain [OF this]]
  have p: "sample_proof = sign_jws_with_header sample_jose (proof_header sample_jose sample_party RefJwk)
      (proof_payload ''http://hub.example'' (Some ''n'') None 1000) (own_key sample_party)"
    by (simp add: sample_proof_def build_jwt_proof_for_client_def proof_header_def)
  have id: "own_key_id sample_party = own_did sample_party @ ''#'' @ ''k''" "CHR ''#'' \<notin> set (own_did sample_party)"
    "starts_with (own_did sample_party) ''did:''" by (simp_all add: sample_party_def starts_with_def)
  have key: "proof_key_of sample_jose sample_party RefJwk = JwkKey ''x'' ''y'' (did_jwk sample_jose ''x'' ''y'')"
    by (simp add: proof_key_of_def Let_def) (simp add: sample_jose_def)
  show ?thesis
    unfolding inspect_jwt_proof_def p d [THEN conjunct1]
    by (simp add: header_key_proof_header [OF id] key proof_payload_claims)
      (simp add: proof_header_def get_str_def aud_names_def iat_fresh_def proof_payload_claims
        PROOF_MAX_AGE_SECS_def PROOF_IAT_LEEWAY_SECS_def u64_add_def u64_limit_def)
qed


lemma sample_record_and_mint:
  "\<exists>jwt s'. record_and_mint D X sample_issuer (hd (definitions sample_catalog)) hdid now mint_now uuid sample_issuer_state = Some (Ok jwt, s')"
proof -
  obtain h hs where h: "redeem_holder Auto (uuid 0) now hdid registry_default = (Ok h, hs)"
    by (simp add: redeem_holder_def holder_for_def registry_insert_def registry_default_def registry_len_def MAX_HOLDERS_def
        by_did_def Let_def initial_status_def)
  obtain i ic where "issued_allocate issued_default = (Some i, ic)"
    by (simp add: issued_allocate_def issued_default_def status_list_default_def sl_allocate_def STATUS_LIST_BITS_def)
  then show ?thesis
    using h by (simp add: record_and_mint_def sample_issuer_def sample_config_def rt_insert_def rt_new_def rt_make_room.simps Let_def)
qed

abbreviation sample_credential_request :: json where
  "sample_credential_request \<equiv> json_obj [(''credential_configuration_id'', JStr ''membership-credential''), (''proof'', JStr sample_proof)]"

lemma sample_checks:
  "credential_checks sample_oid_codec sample_jose_dcp sample_jose sample_issuer (\<lambda>_. 1010) (Some ''Bearer t'') sample_credential_request
     \<lparr>ip_issuer = sample_issuer_state, ip_oid = sample_oid_state\<rparr>
   = (([], Ok (''membership-credential'', sample_proof, JwkKey ''x'' ''y'' (did_jwk sample_jose ''x'' ''y''), Some ''n'')),
      \<lparr>ip_issuer = sample_issuer_state, ip_oid = sample_oid_state\<rparr>)"
proof -
  have b: "strip_prefix ''Bearer t'' ''Bearer '' = Some ''t''" by code_simp
  have tok: "et_get_mut 1010 ''t'' (oi_access_tokens sample_oid_state)
      = (Some \<lparr>ac_configuration_ids = [''membership-credential'']\<rparr>, oi_access_tokens sample_oid_state)"
    by (simp add: sample_oid_state_def et_get_mut_def et_insert_def et_new_def u64_limit_def fcard.rep_eq MAX_OID4VCI_ENTRIES_def)
  have i: "credential_issuer_id sample_issuer = ''http://hub.example''"
    by (simp add: credential_issuer_id_def base_url_of_def sample_issuer_def sample_config_def base_url_def scheme_def)
  have req: "request_of_value sample_oid_codec sample_credential_request
      = Ok \<lparr>cr_configuration_id = Some ''membership-credential'', cr_identifier = None, cr_proofs = Some [sample_proof], cr_proof = None\<rparr>"
    by (simp add: sample_oid_codec_def admin_codec.defs)
  have conf: "map_of (configurations_supported sample_issuer_state) ''membership-credential'' \<noteq> None"
    by (simp add: configurations_supported_def sample_catalog_def)
  show ?thesis
    unfolding credential_checks_def
    using conf by (simp add: sio_bind_def b tok req sio_return_def sio_lift_def io_pure_def ok_or_def jwt_proofs_def i sample_inspected)
qed

definition offline_network :: "string list network" where
  "offline_network = sample_network\<lparr>resolve_did := (\<lambda>d insecure. ([], Err ''no route to host''))\<rparr>"

theorem credential_endpoint_correct_witness:
  "\<exists>tr r s'. credential_endpoint sample_oid_codec sample_jose_dcp offline_network sample_jose sample_chrono sample_issuer (\<lambda>_. 1010) sample_uuid id
      (Some ''Bearer t'') sample_credential_request \<lparr>ip_issuer = sample_issuer_state, ip_oid = sample_oid_state\<rparr> = ((tr, Ok r), s')
    \<and> r_status r = 200 \<and> (\<exists>w. reachable 2 w \<and> shared w = ip_issuer s')
    \<and> (\<exists>dn jwt. issued_to sample_jose_dcp sample_chrono sample_issuer dn (did_jwk sample_jose ''x'' ''y'') 1010 1010 sample_uuid (ip_issuer s') jwt
         \<and> r = issued_response jwt)"
proof -
  let ?s = "\<lparr>ip_issuer = sample_issuer_state, ip_oid = sample_oid_state\<rparr>"
  let ?key = "JwkKey ''x'' ''y'' (did_jwk sample_jose ''x'' ''y'')"
  let ?run = "credential_endpoint sample_oid_codec sample_jose_dcp offline_network sample_jose sample_chrono sample_issuer (\<lambda>_. 1010) sample_uuid id
      (Some ''Bearer t'') sample_credential_request ?s"
  let ?w = "\<lparr>shared = sample_issuer_state, tasks = [], drawn = {||}\<rparr>"
  have law: "resolves_through sample_jose_dcp offline_network" by (simp add: resolves_through_def offline_network_def)
  have v: "verify_proof_signature sample_jose_dcp offline_network sample_jose sample_issuer sample_proof ?key = ([], Ok ())"
    by (simp add: verify_proof_signature_def sample_jose_def sample_jose_dcp_def roundtrip_dcp_def io_pure_def)
  obtain nonces where n: "take_nonce 1010 (Some ''n'') ?s = (([], Ok ()), ?s\<lparr>ip_oid := sample_oid_state\<lparr>oi_nonces := nonces\<rparr>\<rparr>)"
    by (simp add: take_nonce_def sample_oid_state_def et_take_def et_insert_def et_new_def u64_limit_def fcard.rep_eq
        MAX_OID4VCI_ENTRIES_def io_pure_def Let_def)
  obtain jwt i where m: "record_and_mint sample_jose_dcp sample_chrono sample_issuer (hd (definitions sample_catalog))
      (did_jwk sample_jose ''x'' ''y'') 1010 1010 sample_uuid sample_issuer_state = Some (Ok jwt, i)"
    using sample_record_and_mint by blast
  have cat: "catalog_get sample_catalog ''membership-credential'' = Some (hd (definitions sample_catalog))"
    by (simp add: catalog_get_def sample_catalog_def)
  have run: "?run = (([], Ok (issued_response jwt)), ?s\<lparr>ip_oid := sample_oid_state\<lparr>oi_nonces := nonces\<rparr>, ip_issuer := i\<rparr>)" (is "_ = (_, ?s')")
    unfolding credential_endpoint_def
    by (simp add: sio_bind_def sample_checks v sio_lift_def io_map_err_def sio_modify_def io_pure_def n issue_credential_def cat m)
  have mid: "?s = id (snd (credential_checks sample_oid_codec sample_jose_dcp sample_jose sample_issuer (\<lambda>_. 1010) (Some ''Bearer t'') sample_credential_request ?s))"
    by (simp add: sample_checks)
  have sh: "shared ?w = ip_issuer ?s" and fresh: "range sample_uuid \<inter> fset (drawn ?w) = {}" by simp_all
  note c = credential_endpoint_correct [OF law mid run_start sh sample_uuid_fresh(1) fresh run]
  have ans: "answer (([], Ok (issued_response jwt)), ?s') = Some (issued_response jwt)" "r_status (issued_response jwt) = 200"
    by (simp_all add: answer_def)
  have req: "request_of_value sample_oid_codec sample_credential_request
      = Ok \<lparr>cr_configuration_id = Some ''membership-credential'', cr_identifier = None, cr_proofs = Some [sample_proof], cr_proof = None\<rparr>"
    by (simp add: sample_oid_codec_def admin_codec.defs)
  have i: "credential_issuer_id sample_issuer = ''http://hub.example''"
    by (simp add: credential_issuer_id_def base_url_of_def sample_issuer_def sample_config_def base_url_def scheme_def)
  from c [THEN conjunct2, THEN conjunct2, THEN conjunct2, rule_format, OF conjI, OF ans] obtain request jws key n dn jwt' where
    r: "request_of_value sample_oid_codec sample_credential_request = Ok request" "jwt_proofs request = [jws]"
      "inspect_jwt_proof sample_jose_dcp sample_jose jws (credential_issuer_id sample_issuer) 1010 = Ok (key, Some n)"
    and iss: "issued_to sample_jose_dcp sample_chrono sample_issuer dn (holder_did key) 1010 1010 sample_uuid (ip_issuer ?s') jwt'"
      "issued_response jwt = issued_response jwt'"
    by (elim exE conjE) (rule that)
  from r req have "jws = sample_proof" by (auto simp: jwt_proofs_def)
  with r(3) have key: "holder_did key = did_jwk sample_jose ''x'' ''y''" by (auto simp: i sample_inspected)
  have steps: "reachable 2 w'" if "step\<^sup>*\<^sup>* ?w w'" for w'
    using that by (induction rule: rtranclp_induct) (rule run_start, rule extend)
  have w': "\<exists>w. reachable 2 w \<and> shared w = ip_issuer ?s'"
    using c [THEN conjunct2, THEN conjunct2, THEN conjunct1]
  proof (elim disjE exE conjE)
    assume "ip_issuer ?s' = ip_issuer ?s"
    with run_start show ?thesis by (intro exI [of _ ?w] conjI) simp_all
  next
    fix w' assume "step\<^sup>*\<^sup>* ?w w'" "shared w' = ip_issuer ?s'"
    with steps show ?thesis by blast
  qed
  show ?thesis unfolding run
    by (intro exI [of _ "[]"] exI [of _ "issued_response jwt"] exI [of _ ?s'] conjI refl ans(2) w' exI [of _ dn] exI [of _ jwt'])
      (use iss key in simp_all)
qed

end
