(* ===== verification/Oid4vci_Wallet.thy ===== *)
theory Oid4vci_Wallet
  imports Oid4vci_Issuer
begin

text \<open>
  The Wallet of OID4VCI (identity-hub-http, oid4vci.rs): resolving an offer, discovering the issuer,
  the token request with its DPoP retry, the credential requests, and what is stored. The servers it
  talks to are a state machine \<open>net\<close> of unknown behaviour, whose state is part of the wallet's; readings
  of the clock and drawn UUIDs are numbered.
\<close>

section \<open>The HTTP client\<close>

record http_request =
  hr_method :: string
  hr_url :: string
  hr_headers :: "(string \<times> string) list"
  hr_body :: http_body

text \<open>A header value that is not visible ASCII is \<open>None\<close>; the body may fail to arrive.\<close>

record http_reply =
  hp_status :: nat
  hp_headers :: "(string \<times> string option) list"
  hp_body :: "(string, string) result"

type_synonym 'w servers = "http_request \<Rightarrow> 'w \<Rightarrow> (http_reply, string) result \<times> 'w"

definition header_str :: "http_reply \<Rightarrow> string \<Rightarrow> string option" where
  "header_str r k = Option.bind (map_of (hp_headers r) k) id"

record wallet_codec = oid_codec +
  offer_of_str :: "string \<Rightarrow> (oid_offer, string) result"
  query_pairs :: "string \<Rightarrow> ((string \<times> string) list, string) result"
  debug_str :: "string \<Rightarrow> string"
  json_offer :: "string \<Rightarrow> (oid_offer, string) result"
  json_issuer_metadata :: "string \<Rightarrow> (credential_issuer_metadata, string) result"
  json_as_metadata :: "string \<Rightarrow> (authorization_server_metadata, string) result"
  json_token :: "string \<Rightarrow> (oid_token_response, string) result"
  json_nonce :: "string \<Rightarrow> (string, string) result"
  json_credentials :: "string \<Rightarrow> (oid_credential_response, string) result"

text \<open>
  \<open>wl_sent\<close> are the requests made to the issuer's endpoints and the authorization server; DID documents and
  registry snapshots, requested while a credential is accepted, show in the trace of contacted URLs only.
\<close>

record ('l, 'w) wallet_state =
  wl_registry :: "'l registry_cache"
  wl_store :: graph
  wl_net :: 'w
  wl_sent :: "http_request list"
  wl_reads :: nat
  wl_draws :: nat

section \<open>Errors\<close>

datatype wallet_error = InvalidOffer string | OutboundRefused string | Upstream string | CredentialRejected string

fun wallet_status :: "wallet_error \<Rightarrow> nat" where
  "wallet_status (InvalidOffer _) = 400"
| "wallet_status (OutboundRefused _) = 403"
| "wallet_status (CredentialRejected _) = 403"
| "wallet_status (Upstream _) = 502"

fun wallet_message :: "wallet_error \<Rightarrow> string" where
  "wallet_message (InvalidOffer e) = ''invalid offer: '' @ e"
| "wallet_message (OutboundRefused e) = ''outbound destination is not allowed: '' @ e"
| "wallet_message (Upstream e) = ''credential issuer failed: '' @ e"
| "wallet_message (CredentialRejected e) = ''issued credential rejected: '' @ e"

type_synonym ('l, 'w, 'a) wallet = "(('l, 'w) wallet_state, 'a, wallet_error) sio"

section \<open>Primitive steps\<close>

definition read_clock :: "(nat \<Rightarrow> u64) \<Rightarrow> ('l, 'w, u64) wallet" where
  "read_clock clock s = (io_pure (Ok (clock (wl_reads s))), s\<lparr>wl_reads := Suc (wl_reads s)\<rparr>)"

definition draw_uuid :: "(nat \<Rightarrow> string) \<Rightarrow> ('l, 'w, string) wallet" where
  "draw_uuid uuid s = (io_pure (Ok (uuid (wl_draws s))), s\<lparr>wl_draws := Suc (wl_draws s)\<rparr>)"

definition send :: "'w servers \<Rightarrow> http_request \<Rightarrow> ('l, 'w, http_reply) wallet" where
  "send net req s =
     (case net req (wl_net s) of
        (r, w) \<Rightarrow> (io_contact (hr_url req) (map_err (\<lambda>e. Upstream (hr_method req @ '' '' @ hr_url req @ '': '' @ e)) r),
                   s\<lparr>wl_net := w, wl_sent := wl_sent s @ [req]\<rparr>))"

definition check_outbound :: "('d, 'k) dcp \<Rightarrow> 'k app \<Rightarrow> string \<Rightarrow> ('l, 'w, unit) wallet" where
  "check_outbound D a url = sio_return (map_err (\<lambda>e. OutboundRefused (outbound_message e)) (check_url D (a_outbound a) url))"

definition get_json ::
    "('d, 'k) dcp \<Rightarrow> 'k app \<Rightarrow> 'w servers \<Rightarrow> (string \<Rightarrow> ('a, string) result) \<Rightarrow> string \<Rightarrow> ('l, 'w, 'a) wallet" where
  "get_json D a net parse url =
     sio_bind (check_outbound D a url) (\<lambda>_.
     sio_bind (send net \<lparr>hr_method = ''GET'', hr_url = url, hr_headers = [], hr_body = NoBody\<rparr>) (\<lambda>reply.
     sio_return (
       if \<not> is_success (hp_status reply) then Err (Upstream (''GET '' @ url @ '' returned HTTP '' @ status_display D (hp_status reply)))
       else (case hp_body reply of
               Inl e \<Rightarrow> Err (Upstream (''GET '' @ url @ '': '' @ e))
             | Inr text \<Rightarrow> map_err (\<lambda>e. Upstream (''GET '' @ url @ '': '' @ e)) (parse text)))))"

definition read_json ::
    "('d, 'k) dcp \<Rightarrow> (string \<Rightarrow> ('a, string) result) \<Rightarrow> string \<Rightarrow> http_reply \<Rightarrow> ('a, wallet_error) result" where
  "read_json D parse url reply =
     (if \<not> is_success (hp_status reply)
      then Err (Upstream (''POST '' @ url @ '' returned HTTP '' @ status_display D (hp_status reply) @ '': ''
             @ (case hp_body reply of Inl e \<Rightarrow> [] | Inr text \<Rightarrow> text)))
      else (case hp_body reply of
              Inl e \<Rightarrow> Err (Upstream (''POST '' @ url @ '': '' @ e))
            | Inr text \<Rightarrow> map_err (\<lambda>e. Upstream (''POST '' @ url @ '': '' @ e)) (parse text)))"

section \<open>Offers\<close>

record redeem_offer_body =
  rb_offer :: "string option"
  rb_credential_offer :: "oid_offer option"
  rb_credential_offer_uri :: "string option"
  rb_tx_code :: "string option"

fun read_pairs ::
    "(string \<Rightarrow> (oid_offer, string) result) \<Rightarrow> (string \<times> string) list \<Rightarrow> oid_offer option \<times> string option
     \<Rightarrow> (oid_offer option \<times> string option, wallet_error) result" where
  "read_pairs of_str [] found = Ok found"
| "read_pairs of_str ((k, v) # ps) (by_value, by_reference) =
     (if k = ''credential_offer'' then
        (case of_str v of Inl e \<Rightarrow> Err (InvalidOffer e) | Inr offer \<Rightarrow> read_pairs of_str ps (Some offer, by_reference))
      else if k = ''credential_offer_uri'' then read_pairs of_str ps (by_value, Some v)
      else read_pairs of_str ps (by_value, by_reference))"

definition parse_offer_uri ::
    "'x wallet_codec_scheme \<Rightarrow> string \<Rightarrow> (oid_offer option \<times> string option, wallet_error) result" where
  "parse_offer_uri C uri =
     (case query_pairs C uri of
        Inl e \<Rightarrow> Err (InvalidOffer e)
      | Inr ps \<Rightarrow> read_pairs (offer_of_str C) ps (None, None))"

definition option_or :: "'a option \<Rightarrow> 'a option \<Rightarrow> 'a option" where
  "option_or x y = (case x of None \<Rightarrow> y | Some _ \<Rightarrow> x)"

definition resolve_offer ::
    "'x wallet_codec_scheme \<Rightarrow> ('d, 'k) dcp \<Rightarrow> 'k app \<Rightarrow> 'w servers \<Rightarrow> redeem_offer_body \<Rightarrow> ('l, 'w, oid_offer) wallet" where
  "resolve_offer C D a net body =
     sio_bind (sio_return (case rb_offer body of
         None \<Rightarrow> Ok (rb_credential_offer body, rb_credential_offer_uri body)
       | Some uri \<Rightarrow> (case parse_offer_uri C uri of
             Inl e \<Rightarrow> Err e
           | Inr (v, r) \<Rightarrow> Ok (option_or (rb_credential_offer body) v, option_or (rb_credential_offer_uri body) r)))) (\<lambda>found.
     case found of
       (Some offer, None) \<Rightarrow> sio_return (Ok offer)
     | (None, Some uri) \<Rightarrow> get_json D a net (json_offer C) uri
     | _ \<Rightarrow> sio_return (Err (InvalidOffer ''give exactly one of a by-value credential_offer or a credential_offer_uri'')))"

definition pre_authorized_grant_of :: "oid_offer \<Rightarrow> string option \<Rightarrow> (pre_authorized_code_grant, wallet_error) result" where
  "pre_authorized_grant_of offer tx_code =
     (case Option.bind (oo_grants offer) og_pre_authorized_code of
        None \<Rightarrow> Err (InvalidOffer ''only offers with a pre-authorized_code grant are supported'')
      | Some grant \<Rightarrow>
          if pg_tx_code grant \<noteq> None \<and> tx_code = None then Err (InvalidOffer ''this offer requires a tx_code'')
          else Ok grant)"

section \<open>Discovery\<close>

definition discover ::
    "'x wallet_codec_scheme \<Rightarrow> ('d, 'k) dcp \<Rightarrow> 'k app \<Rightarrow> 'w servers \<Rightarrow> oid_offer \<Rightarrow> pre_authorized_code_grant
     \<Rightarrow> ('l, 'w, credential_issuer_metadata \<times> authorization_server_metadata) wallet" where
  "discover C D a net offer grant =
     sio_bind (sio_return (map_err InvalidOffer (well_known_url (oo_credential_issuer offer) CREDENTIAL_ISSUER_WELL_KNOWN))) (\<lambda>metadata_url.
     sio_bind (get_json D a net (json_issuer_metadata C) metadata_url) (\<lambda>metadata.
     sio_bind (sio_return (
       if trim_end_matches CHR ''/'' (md_credential_issuer metadata) \<noteq> trim_end_matches CHR ''/'' (oo_credential_issuer offer)
       then Err (Upstream ''issuer metadata names a different credential_issuer than the offer'') else Ok ())) (\<lambda>_.
     let authorization_server =
       (case pg_authorization_server grant of
          Some s \<Rightarrow> s
        | None \<Rightarrow> (case md_authorization_servers metadata of s # _ \<Rightarrow> s | [] \<Rightarrow> oo_credential_issuer offer)) in
     sio_bind (sio_return (map_err InvalidOffer (well_known_url authorization_server AUTHORIZATION_SERVER_WELL_KNOWN))) (\<lambda>as_metadata_url.
     sio_bind (get_json D a net (json_as_metadata C) as_metadata_url) (\<lambda>as_metadata.
     sio_return (Ok (metadata, as_metadata)))))))"

section \<open>The token request\<close>

definition dpop_nonce_challenge :: "http_reply \<Rightarrow> string option" where
  "dpop_nonce_challenge reply =
     (case header_str reply ''dpop-nonce'' of
        None \<Rightarrow> None
      | Some nonce \<Rightarrow>
          let challenged =
            (if hp_status reply = 401 then
               (case header_str reply ''www-authenticate'' of None \<Rightarrow> False | Some v \<Rightarrow> contains_str v ''use_dpop_nonce'')
             else hp_status reply = 400)
          in if challenged then Some nonce else None)"

definition token_form ::
    "pre_authorized_code_grant \<Rightarrow> string option \<Rightarrow> string option \<Rightarrow> (string \<times> string) list" where
  "token_form grant tx_code client =
     [(''grant_type'', PRE_AUTHORIZED_CODE_GRANT), (''pre-authorized_code'', pg_code grant)]
     @ (case tx_code of Some t \<Rightarrow> if pg_tx_code grant \<noteq> None then [(''tx_code'', t)] else [] | None \<Rightarrow> [])
     @ (case client of Some c \<Rightarrow> [(''client_id'', c), (''client_assertion_type'', CLIENT_ASSERTION_TYPE_JWT_BEARER)] | None \<Rightarrow> [])"

text \<open>A DPoP proof and a client assertion, each with its own reading of the clock and its own UUID.\<close>

definition dpop_proof ::
    "'k jose \<Rightarrow> 'k app \<Rightarrow> (nat \<Rightarrow> u64) \<Rightarrow> (nat \<Rightarrow> string) \<Rightarrow> string \<Rightarrow> string option \<Rightarrow> string option \<Rightarrow> ('l, 'w, string) wallet" where
  "dpop_proof J a clock uuid url nonce token =
     sio_bind (draw_uuid uuid) (\<lambda>jti.
     sio_bind (read_clock clock) (\<lambda>now.
     sio_return (Ok (build_dpop_proof J (a_identity a) ''POST'' url nonce token now jti))))"

definition client_assertion ::
    "'k jose \<Rightarrow> 'k app \<Rightarrow> (nat \<Rightarrow> u64) \<Rightarrow> (nat \<Rightarrow> string) \<Rightarrow> string \<Rightarrow> string \<Rightarrow> ('l, 'w, string) wallet" where
  "client_assertion J a clock uuid client aud =
     sio_bind (read_clock clock) (\<lambda>now.
     sio_bind (draw_uuid uuid) (\<lambda>jti.
     sio_return (Ok (build_client_assertion J (a_identity a) client aud now jti))))"

definition token_attempt ::
    "'k jose \<Rightarrow> 'k app \<Rightarrow> 'w servers \<Rightarrow> (nat \<Rightarrow> u64) \<Rightarrow> (nat \<Rightarrow> string) \<Rightarrow> authorization_server_metadata \<Rightarrow> bool
     \<Rightarrow> (string \<times> string) list \<Rightarrow> string option \<Rightarrow> ('l, 'w, http_reply) wallet" where
  "token_attempt J a net clock uuid meta use_dpop form as_nonce =
     sio_bind (case oid4vci_client_id (a_config a) of
         None \<Rightarrow> sio_return (Ok form)
       | Some client \<Rightarrow>
           sio_bind (client_assertion J a clock uuid client (as_issuer meta)) (\<lambda>assertion.
           sio_return (Ok (form @ [(''client_assertion'', assertion)])))) (\<lambda>attempt.
     sio_bind (if use_dpop
         then sio_bind (dpop_proof J a clock uuid (as_token_endpoint meta) as_nonce None) (\<lambda>p. sio_return (Ok [(''DPoP'', p)]))
         else sio_return (Ok [])) (\<lambda>headers.
     send net \<lparr>hr_method = ''POST'', hr_url = as_token_endpoint meta, hr_headers = headers, hr_body = FormBody attempt\<rparr>))"

text \<open>\<open>for _ in 0..2\<close>: \<open>n\<close> attempts are left.\<close>

fun token_attempts ::
    "'k jose \<Rightarrow> 'k app \<Rightarrow> 'w servers \<Rightarrow> (nat \<Rightarrow> u64) \<Rightarrow> (nat \<Rightarrow> string) \<Rightarrow> authorization_server_metadata \<Rightarrow> bool
     \<Rightarrow> (string \<times> string) list \<Rightarrow> nat \<Rightarrow> string option \<Rightarrow> ('l, 'w, http_reply option) wallet" where
  "token_attempts J a net clock uuid meta use_dpop form 0 as_nonce = sio_return (Ok None)"
| "token_attempts J a net clock uuid meta use_dpop form (Suc n) as_nonce =
     sio_bind (token_attempt J a net clock uuid meta use_dpop form as_nonce) (\<lambda>reply.
     case (if use_dpop \<and> as_nonce = None then dpop_nonce_challenge reply else None) of
       Some nonce \<Rightarrow> token_attempts J a net clock uuid meta use_dpop form n (Some nonce)
     | None \<Rightarrow> sio_return (Ok (Some reply)))"

definition request_token ::
    "'x wallet_codec_scheme \<Rightarrow> ('d, 'k) dcp \<Rightarrow> 'k jose \<Rightarrow> 'k app \<Rightarrow> 'w servers \<Rightarrow> (nat \<Rightarrow> u64) \<Rightarrow> (nat \<Rightarrow> string)
     \<Rightarrow> authorization_server_metadata \<Rightarrow> pre_authorized_code_grant \<Rightarrow> string option \<Rightarrow> ('l, 'w, oid_token_response \<times> bool) wallet" where
  "request_token C D J a net clock uuid meta grant tx_code =
     (let use_dpop = list_ex (\<lambda>alg. alg = ''ES256'') (as_dpop_algs meta);
          token_url = as_token_endpoint meta in
     sio_bind (check_outbound D a token_url) (\<lambda>_.
     sio_bind (token_attempts J a net clock uuid meta use_dpop (token_form grant tx_code (oid4vci_client_id (a_config a))) 2 None) (\<lambda>reply.
     sio_bind (sio_return (ok_or reply (Upstream (''POST '' @ token_url @ '': repeated use_dpop_nonce challenge'')))) (\<lambda>reply.
     sio_bind (sio_return (read_json D (json_token C) token_url reply)) (\<lambda>token.
     let dpop_bound = eq_ignore_ascii_case (tr_token_type token) ''dpop'' in
     sio_return (if dpop_bound \<and> \<not> use_dpop
                 then Err (Upstream ''token endpoint issued a DPoP-bound token the wallet did not ask for'')
                 else Ok (token, dpop_bound)))))))"

section \<open>Protected endpoints\<close>

text \<open>\<open>ResourceClient\<close>; its nonce is threaded through the calls.\<close>

record resource_client =
  rc_access_token :: string
  rc_dpop :: bool
  rc_nonce :: "string option"

definition remember_nonce :: "http_reply \<Rightarrow> resource_client \<Rightarrow> resource_client" where
  "remember_nonce reply rc =
     (case header_str reply ''dpop-nonce'' of None \<Rightarrow> rc | Some nonce \<Rightarrow> rc\<lparr>rc_nonce := Some nonce\<rparr>)"

definition resource_attempt ::
    "'k jose \<Rightarrow> 'k app \<Rightarrow> 'w servers \<Rightarrow> (nat \<Rightarrow> u64) \<Rightarrow> (nat \<Rightarrow> string) \<Rightarrow> resource_client \<Rightarrow> string \<Rightarrow> json
     \<Rightarrow> ('l, 'w, http_reply) wallet" where
  "resource_attempt J a net clock uuid rc url body =
     sio_bind (if rc_dpop rc
         then sio_bind (dpop_proof J a clock uuid url (rc_nonce rc) (Some (rc_access_token rc))) (\<lambda>p.
              sio_return (Ok [(''authorization'', ''DPoP '' @ rc_access_token rc), (''DPoP'', p)]))
         else sio_return (Ok [(''authorization'', ''Bearer '' @ rc_access_token rc)])) (\<lambda>headers.
     send net \<lparr>hr_method = ''POST'', hr_url = url, hr_headers = headers, hr_body = JsonBody body\<rparr>)"

text \<open>\<open>for attempt in 0..2\<close>: the first of the \<open>n\<close> attempts that are left is attempt \<open>0\<close> when \<open>first\<close>.\<close>

fun resource_attempts ::
    "('d, 'k) dcp \<Rightarrow> 'k jose \<Rightarrow> 'k app \<Rightarrow> 'w servers \<Rightarrow> (nat \<Rightarrow> u64) \<Rightarrow> (nat \<Rightarrow> string) \<Rightarrow> (string \<Rightarrow> ('a, string) result)
     \<Rightarrow> string \<Rightarrow> json \<Rightarrow> nat \<Rightarrow> bool \<Rightarrow> resource_client \<Rightarrow> ('l, 'w, 'a \<times> resource_client) wallet" where
  "resource_attempts D J a net clock uuid parse url body 0 fst_attempt rc =
     sio_return (Err (Upstream (''POST '' @ url @ '': repeated use_dpop_nonce challenge'')))"
| "resource_attempts D J a net clock uuid parse url body (Suc n) fst_attempt rc =
     sio_bind (resource_attempt J a net clock uuid rc url body) (\<lambda>reply.
     case (if rc_dpop rc \<and> fst_attempt then dpop_nonce_challenge reply else None) of
       Some nonce \<Rightarrow> resource_attempts D J a net clock uuid parse url body n False (rc\<lparr>rc_nonce := Some nonce\<rparr>)
     | None \<Rightarrow> sio_return (case read_json D parse url reply of Inl e \<Rightarrow> Err e | Inr v \<Rightarrow> Ok (v, remember_nonce reply rc)))"

definition resource_post_json ::
    "('d, 'k) dcp \<Rightarrow> 'k jose \<Rightarrow> 'k app \<Rightarrow> 'w servers \<Rightarrow> (nat \<Rightarrow> u64) \<Rightarrow> (nat \<Rightarrow> string) \<Rightarrow> (string \<Rightarrow> ('a, string) result)
     \<Rightarrow> string \<Rightarrow> json \<Rightarrow> resource_client \<Rightarrow> ('l, 'w, 'a \<times> resource_client) wallet" where
  "resource_post_json D J a net clock uuid parse url body rc =
     sio_bind (check_outbound D a url) (\<lambda>_. resource_attempts D J a net clock uuid parse url body 2 True rc)"

section \<open>Accepting a credential\<close>

text \<open>The last type a credential states besides \<open>VerifiableCredential\<close>.\<close>

definition specific_type :: "json \<Rightarrow> string option" where
  "specific_type payload =
     (case json_pointer payload [''vc'', ''type''] of
        Some (JArr types) \<Rightarrow> List.find (\<lambda>t. t \<noteq> ''VerifiableCredential'') (rev (List.map_filter as_str types))
      | _ \<Rightarrow> None)"

definition subject_of :: "json \<Rightarrow> string option" where
  "subject_of payload =
     (case get_str payload ''sub'' of
        Some s \<Rightarrow> Some s
      | None \<Rightarrow> Option.bind (json_pointer payload [''vc'', ''credentialSubject'', ''id'']) as_str)"

definition debug_option :: "'x wallet_codec_scheme \<Rightarrow> string option \<Rightarrow> string" where
  "debug_option C x = (case x of None \<Rightarrow> ''None'' | Some s \<Rightarrow> ''Some('' @ debug_str C s @ '')'')"

definition wallet_trust ::
    "('d, 'k) dcp \<Rightarrow> 'd network \<Rightarrow> ('l, 'k) trust_core \<Rightarrow> 'k app \<Rightarrow> (nat \<Rightarrow> u64) \<Rightarrow> string \<Rightarrow> string \<Rightarrow> ('l, 'w, unit) wallet" where
  "wallet_trust D N T a clock iss ty s =
     (case check_issuer D N T a (clock (wl_reads s)) (clock (Suc (wl_reads s))) iss [ty] (wl_registry s) of
        (m, cache) \<Rightarrow> (io_map_err (\<lambda>e. CredentialRejected (auth_message e)) m,
                       s\<lparr>wl_registry := cache, wl_reads := Suc (Suc (wl_reads s))\<rparr>))"

definition accept_issued_credential ::
    "'x wallet_codec_scheme \<Rightarrow> ('d, 'k) dcp \<Rightarrow> 'd network \<Rightarrow> ('l, 'k) trust_core \<Rightarrow> 'k app \<Rightarrow> (nat \<Rightarrow> u64) \<Rightarrow> json
     \<Rightarrow> ('l, 'w, string) wallet" where
  "accept_issued_credential C D N T a clock credential =
     sio_bind (sio_return (ok_or (as_str credential) (CredentialRejected ''credential is not a JWT string''))) (\<lambda>jws.
     sio_bind (sio_return (map_err CredentialRejected (decode_jws_unverified D jws))) (\<lambda>(header, payload).
     sio_bind (sio_return (ok_or (specific_type payload) (CredentialRejected ''credential has no specific vc.type''))) (\<lambda>credential_type.
     sio_bind (wallet_trust D N T a clock (str_claim payload ''iss'') credential_type) (\<lambda>_.
     sio_bind (sio_lift (io_map_err (\<lambda>e. CredentialRejected (validation_message e))
         (verify_credential_proofs D N [\<lparr>cc_type = [], cc_payload = credential, cc_format = FORMAT_JWT_VC_JSON\<rparr>]
            (insecure_http (a_config a)) (a_outbound a)))) (\<lambda>_.
     sio_bind (sio_return (
         if subject_of payload \<noteq> Some (own_did (a_identity a))
         then Err (CredentialRejected (''credential is bound to '' @ debug_option C (subject_of payload)
                @ '', not to this Credential Service ('' @ own_did (a_identity a) @ '')''))
         else Ok ())) (\<lambda>_.
     sio_bind (read_clock clock) (\<lambda>now.
     sio_return (case get_u64 payload ''exp'' of
         Some t \<Rightarrow> if t \<le> now then Err (CredentialRejected ''credential has expired'') else Ok credential_type
       | None \<Rightarrow> Ok credential_type))))))))"

section \<open>Redemption\<close>

record redeemed_credential =
  rd_configuration_id :: string
  rd_credential_type :: string

record not_stored_credential =
  ns_configuration_id :: string
  ns_format :: string
  ns_count :: nat
  ns_reason :: string

text \<open>What the loop over the configurations gathers.\<close>

record harvest =
  hv_containers :: "credential_container list"
  hv_stored :: "redeemed_credential list"
  hv_not_stored :: "not_stored_credential list"

definition credential_targets :: "oid_token_response \<Rightarrow> string \<Rightarrow> json list" where
  "credential_targets token config_id =
     (let identifiers = credential_identifiers_for token config_id in
      if identifiers = [] then [json_obj [(''credential_configuration_id'', JStr config_id)]]
      else map (\<lambda>i. json_obj [(''credential_identifier'', JStr i)]) identifiers)"

definition fetch_nonce ::
    "'x wallet_codec_scheme \<Rightarrow> ('d, 'k) dcp \<Rightarrow> 'k app \<Rightarrow> 'w servers \<Rightarrow> string option \<Rightarrow> resource_client
     \<Rightarrow> ('l, 'w, string option \<times> resource_client) wallet" where
  "fetch_nonce C D a net endpoint_url rc =
     (case endpoint_url of
        None \<Rightarrow> sio_return (Ok (None, rc))
      | Some nonce_url \<Rightarrow>
          sio_bind (check_outbound D a nonce_url) (\<lambda>_.
          sio_bind (send net \<lparr>hr_method = ''POST'', hr_url = nonce_url, hr_headers = [], hr_body = NoBody\<rparr>) (\<lambda>reply.
          sio_return (case read_json D (json_nonce C) nonce_url reply of
              Inl e \<Rightarrow> Err e
            | Inr c_nonce \<Rightarrow> Ok (Some c_nonce, remember_nonce reply rc)))))"

fun accept_each ::
    "'x wallet_codec_scheme \<Rightarrow> ('d, 'k) dcp \<Rightarrow> 'd network \<Rightarrow> ('l, 'k) trust_core \<Rightarrow> 'k app \<Rightarrow> (nat \<Rightarrow> u64) \<Rightarrow> string
     \<Rightarrow> json list \<Rightarrow> harvest \<Rightarrow> ('l, 'w, harvest) wallet" where
  "accept_each C D N T a clock config_id [] hv = sio_return (Ok hv)"
| "accept_each C D N T a clock config_id (credential # cs) hv =
     sio_bind (accept_issued_credential C D N T a clock credential) (\<lambda>credential_type.
     accept_each C D N T a clock config_id cs
       (hv\<lparr>hv_stored := hv_stored hv @ [\<lparr>rd_configuration_id = config_id, rd_credential_type = credential_type\<rparr>],
           hv_containers := hv_containers hv
             @ [\<lparr>cc_type = credential_type, cc_payload = credential, cc_format = FORMAT_JWT_VC_JSON\<rparr>]\<rparr>))"

definition redeem_target ::
    "'x wallet_codec_scheme \<Rightarrow> ('d, 'k) dcp \<Rightarrow> 'd network \<Rightarrow> ('l, 'k) trust_core \<Rightarrow> 'k jose \<Rightarrow> 'k app \<Rightarrow> 'w servers
     \<Rightarrow> (nat \<Rightarrow> u64) \<Rightarrow> (nat \<Rightarrow> string) \<Rightarrow> credential_issuer_metadata \<Rightarrow> string \<Rightarrow> credential_configuration \<Rightarrow> json
     \<Rightarrow> resource_client \<times> harvest \<Rightarrow> ('l, 'w, resource_client \<times> harvest) wallet" where
  "redeem_target C D N T J a net clock uuid metadata config_id configuration target acc =
     sio_bind (fetch_nonce C D a net (md_nonce_endpoint metadata) (fst acc)) (\<lambda>(c_nonce, rc).
     sio_bind (read_clock clock) (\<lambda>now.
     let jws = build_jwt_proof_for_client J (a_identity a) (md_credential_issuer metadata) c_nonce
           (oid4vci_client_id (a_config a)) (for_binding_methods (conf_binding_methods configuration)) now;
         request = json_set ''proofs'' (json_obj [(''jwt'', JArr [JStr jws])]) target in
     sio_bind (resource_post_json D J a net clock uuid (json_credentials C) (md_credential_endpoint metadata) request rc) (\<lambda>(issued, rc).
     if rs_transaction_id issued \<noteq> None then sio_return (Err (Upstream ''deferred issuance is not supported''))
     else
       let credentials = rs_credentials issued @ (case rs_credential issued of None \<Rightarrow> [] | Some c \<Rightarrow> [c]) in
       if credentials = [] then sio_return (Err (Upstream ''credential response carried no credential''))
       else if conf_format configuration \<noteq> FORMAT_JWT_VC_JSON then
         sio_return (Ok (rc, (snd acc)\<lparr>hv_not_stored := hv_not_stored (snd acc) @
           [\<lparr>ns_configuration_id = config_id, ns_format = conf_format configuration, ns_count = length credentials,
             ns_reason = ''only '' @ FORMAT_JWT_VC_JSON @ '' credentials can be presented over DCP''\<rparr>]\<rparr>))
       else sio_bind (accept_each C D N T a clock config_id credentials (snd acc)) (\<lambda>hv. sio_return (Ok (rc, hv))))))"

fun sio_fold :: "('x \<Rightarrow> 'b \<Rightarrow> ('s, 'b, 'e) sio) \<Rightarrow> 'x list \<Rightarrow> 'b \<Rightarrow> ('s, 'b, 'e) sio" where
  "sio_fold f [] acc = sio_return (Ok acc)"
| "sio_fold f (x # xs) acc = sio_bind (f x acc) (sio_fold f xs)"

definition redeem_configuration ::
    "'x wallet_codec_scheme \<Rightarrow> ('d, 'k) dcp \<Rightarrow> 'd network \<Rightarrow> ('l, 'k) trust_core \<Rightarrow> 'k jose \<Rightarrow> 'k app \<Rightarrow> 'w servers
     \<Rightarrow> (nat \<Rightarrow> u64) \<Rightarrow> (nat \<Rightarrow> string) \<Rightarrow> credential_issuer_metadata \<Rightarrow> oid_token_response \<Rightarrow> string
     \<Rightarrow> resource_client \<times> harvest \<Rightarrow> ('l, 'w, resource_client \<times> harvest) wallet" where
  "redeem_configuration C D N T J a net clock uuid metadata token config_id acc =
     (case map_of (md_configurations metadata) config_id of
        None \<Rightarrow> sio_return (Err (Upstream (''issuer metadata does not describe '' @ quoted config_id)))
      | Some configuration \<Rightarrow>
          sio_fold (redeem_target C D N T J a net clock uuid metadata config_id configuration) (credential_targets token config_id) acc)"

definition redeemed_batch :: "string \<Rightarrow> credential_container list \<Rightarrow> stored_credential_batch" where
  "redeemed_batch pid containers = \<lparr>sb_issuer_pid = ''oid4vci:'' @ pid, sb_holder_pid = None, sb_status = ''ISSUED'',
     sb_rejection_reason = None, sb_credentials = containers\<rparr>"

definition store_harvest :: "serde \<Rightarrow> (nat \<Rightarrow> string) \<Rightarrow> harvest \<Rightarrow> ('l, 'w, unit) wallet" where
  "store_harvest S uuid hv =
     (if hv_containers hv = [] then sio_return (Ok ())
      else sio_bind (draw_uuid uuid) (\<lambda>pid. sio_bind (draw_uuid uuid) (\<lambda>batch_id.
        sio_modify (\<lambda>s. s\<lparr>wl_store := store_batch S batch_id (redeemed_batch pid (hv_containers hv)) (wl_store s)\<rparr>) ())))"

record redeem_offer_response =
  ro_credential_issuer :: string
  ro_stored :: "redeemed_credential list"
  ro_not_stored :: "not_stored_credential list"

text \<open>The offer, the issuer's metadata and the access token: what \<open>redeem\<close> has when it enters the loop.\<close>

definition open_session ::
    "'x wallet_codec_scheme \<Rightarrow> ('d, 'k) dcp \<Rightarrow> 'k jose \<Rightarrow> 'k app \<Rightarrow> 'w servers \<Rightarrow> (nat \<Rightarrow> u64) \<Rightarrow> (nat \<Rightarrow> string)
     \<Rightarrow> redeem_offer_body \<Rightarrow> ('l, 'w, oid_offer \<times> credential_issuer_metadata \<times> oid_token_response \<times> bool) wallet" where
  "open_session C D J a net clock uuid body =
     sio_bind (resolve_offer C D a net body) (\<lambda>offer.
     sio_bind (sio_return (pre_authorized_grant_of offer (rb_tx_code body))) (\<lambda>grant.
     sio_bind (discover C D a net offer grant) (\<lambda>(metadata, meta).
     sio_bind (request_token C D J a net clock uuid meta grant (rb_tx_code body)) (\<lambda>(token, dpop_bound).
     sio_return (Ok (offer, metadata, token, dpop_bound))))))"

text \<open>What is redeemed before anything is stored.\<close>

definition redeem_credentials ::
    "'x wallet_codec_scheme \<Rightarrow> ('d, 'k) dcp \<Rightarrow> 'd network \<Rightarrow> ('l, 'k) trust_core \<Rightarrow> 'k jose \<Rightarrow> 'k app \<Rightarrow> 'w servers
     \<Rightarrow> (nat \<Rightarrow> u64) \<Rightarrow> (nat \<Rightarrow> string) \<Rightarrow> redeem_offer_body \<Rightarrow> ('l, 'w, oid_offer \<times> harvest) wallet" where
  "redeem_credentials C D N T J a net clock uuid body =
     sio_bind (open_session C D J a net clock uuid body) (\<lambda>(offer, metadata, token, dpop_bound).
     sio_bind (sio_fold (redeem_configuration C D N T J a net clock uuid metadata token) (oo_configuration_ids offer)
         (\<lparr>rc_access_token = tr_access_token token, rc_dpop = dpop_bound, rc_nonce = None\<rparr>,
          \<lparr>hv_containers = [], hv_stored = [], hv_not_stored = []\<rparr>)) (\<lambda>(rc, hv).
     sio_return (Ok (offer, hv))))"

definition redeem ::
    "'x wallet_codec_scheme \<Rightarrow> ('d, 'k) dcp \<Rightarrow> 'd network \<Rightarrow> ('l, 'k) trust_core \<Rightarrow> serde \<Rightarrow> 'k jose \<Rightarrow> 'k app \<Rightarrow> 'w servers
     \<Rightarrow> (nat \<Rightarrow> u64) \<Rightarrow> (nat \<Rightarrow> string) \<Rightarrow> redeem_offer_body \<Rightarrow> ('l, 'w, redeem_offer_response) wallet" where
  "redeem C D N T S J a net clock uuid body =
     sio_bind (redeem_credentials C D N T J a net clock uuid body) (\<lambda>(offer, hv).
     sio_bind (store_harvest S uuid hv) (\<lambda>_.
     sio_return (Ok \<lparr>ro_credential_issuer = oo_credential_issuer offer, ro_stored = hv_stored hv, ro_not_stored = hv_not_stored hv\<rparr>)))"

section \<open>The two endpoints\<close>

definition redeemed_json :: "redeemed_credential \<Rightarrow> json" where
  "redeemed_json c = json_obj [(''credential_configuration_id'', JStr (rd_configuration_id c)), (''credential_type'', JStr (rd_credential_type c))]"

definition not_stored_json :: "not_stored_credential \<Rightarrow> json" where
  "not_stored_json c = json_obj [(''credential_configuration_id'', JStr (ns_configuration_id c)), (''format'', JStr (ns_format c)),
     (''count'', jnat (ns_count c)), (''reason'', JStr (ns_reason c))]"

definition redeem_offer_json :: "redeem_offer_response \<Rightarrow> json" where
  "redeem_offer_json r = json_obj ([(''credential_issuer'', JStr (ro_credential_issuer r)),
     (''stored'', JArr (map redeemed_json (ro_stored r)))] @ list_field ''not_stored'' not_stored_json (ro_not_stored r))"

definition redemption_response :: "(redeem_offer_response, wallet_error) result \<Rightarrow> response" where
  "redemption_response res =
     (case res of
        Inr r \<Rightarrow> resp_json 200 (redeem_offer_json r)
      | Inl e \<Rightarrow> resp_json (wallet_status e) (error_response_json ''redemption_failed'' (Some (wallet_message e))))"

definition redeem_offer ::
    "'x wallet_codec_scheme \<Rightarrow> ('d, 'k) dcp \<Rightarrow> 'd network \<Rightarrow> ('l, 'k) trust_core \<Rightarrow> serde \<Rightarrow> 'k jose \<Rightarrow> 'k app \<Rightarrow> 'w servers
     \<Rightarrow> (nat \<Rightarrow> u64) \<Rightarrow> (nat \<Rightarrow> string) \<Rightarrow> string option \<Rightarrow> redeem_offer_body \<Rightarrow> ('l, 'w) wallet_state
     \<Rightarrow> (string list \<times> response) \<times> ('l, 'w) wallet_state" where
  "redeem_offer C D N T S J a net clock uuid hdr body s =
     (case operator_rejection C a hdr of
        Some r \<Rightarrow> (([], r), s)
      | None \<Rightarrow> (case redeem C D N T S J a net clock uuid body s of ((tr, res), s') \<Rightarrow> ((tr, redemption_response res), s')))"

text \<open>The unauthenticated endpoint; it is mounted only when the configuration says so.\<close>

definition credential_offer_endpoint ::
    "'x wallet_codec_scheme \<Rightarrow> ('d, 'k) dcp \<Rightarrow> 'd network \<Rightarrow> ('l, 'k) trust_core \<Rightarrow> serde \<Rightarrow> 'k jose \<Rightarrow> 'k app \<Rightarrow> 'w servers
     \<Rightarrow> (nat \<Rightarrow> u64) \<Rightarrow> (nat \<Rightarrow> string) \<Rightarrow> (string \<rightharpoonup> string) \<Rightarrow> ('l, 'w) wallet_state
     \<Rightarrow> (string list \<times> response) \<times> ('l, 'w) wallet_state" where
  "credential_offer_endpoint C D N T S J a net clock uuid params s =
     (case (case params ''credential_offer'' of
              None \<Rightarrow> Ok None
            | Some text \<Rightarrow> (case offer_of_str C text of Inr offer \<Rightarrow> Ok (Some offer) | Inl e \<Rightarrow> Err e)) of
        Inl e \<Rightarrow> (([], oauth_error 400 ''invalid_credential_offer'' (''credential_offer is not a Credential Offer: '' @ e)), s)
      | Inr offer \<Rightarrow>
          (case redeem C D N T S J a net clock uuid
                  \<lparr>rb_offer = None, rb_credential_offer = offer, rb_credential_offer_uri = params ''credential_offer_uri'',
                   rb_tx_code = oid4vci_offer_tx_code (a_config a)\<rparr> s of
             ((tr, res), s') \<Rightarrow> ((tr, redemption_response res), s')))"

text \<open>The wallet's routes; a request to a path that is not mounted is answered 404 by the router.\<close>

datatype wallet_request = PostOffer "string option" redeem_offer_body | GetOffer "string \<rightharpoonup> string"

fun wallet_routes ::
    "'x wallet_codec_scheme \<Rightarrow> ('d, 'k) dcp \<Rightarrow> 'd network \<Rightarrow> ('l, 'k) trust_core \<Rightarrow> serde \<Rightarrow> 'k jose \<Rightarrow> 'k app \<Rightarrow> 'w servers
     \<Rightarrow> (nat \<Rightarrow> u64) \<Rightarrow> (nat \<Rightarrow> string) \<Rightarrow> wallet_request \<Rightarrow> ('l, 'w) wallet_state
     \<Rightarrow> (string list \<times> response) \<times> ('l, 'w) wallet_state" where
  "wallet_routes C D N T S J a net clock uuid (PostOffer hdr body) s = redeem_offer C D N T S J a net clock uuid hdr body s"
| "wallet_routes C D N T S J a net clock uuid (GetOffer params) s =
     (if oid4vci_offer_endpoint (a_config a) then credential_offer_endpoint C D N T S J a net clock uuid params s
      else (([], resp 404 NoBody), s))"


section \<open>Where the wallet connects\<close>

lemma sio_fold_confined [hub_confined]: "(\<And>x acc. sconfined D pol (f x acc)) \<Longrightarrow> sconfined D pol (sio_fold f xs acc)"
  by (induction xs arbitrary: acc) (auto intro!: sconfined_bind)

lemma primitives_confined [simp]:
  "sconfined D pol (read_clock clock)" "sconfined D pol (draw_uuid uuid)" "sconfined D pol (check_outbound D a url)"
  by (simp_all add: sconfined_def read_clock_def draw_uuid_def check_outbound_def sio_return_def sio_lift_def)

lemma send_confined: "allowed D pol (hr_url req) \<Longrightarrow> sconfined D pol (send net req)"
  by (simp add: sconfined_def send_def split: prod.splits)

text \<open>What follows the check of a URL may connect to it.\<close>

lemma checked_confined:
  "(allowed D (a_outbound a) url \<Longrightarrow> sconfined D (a_outbound a) m) \<Longrightarrow> sconfined D (a_outbound a) (sio_bind (check_outbound D a url) (\<lambda>_. m))"
  by (rule sconfined_bind_cond) (auto simp: check_outbound_def allowed_def)

lemma get_json_confined [hub_confined]: "sconfined D (a_outbound a) (get_json D a net parse url)"
  unfolding get_json_def by (intro checked_confined sconfined_bind send_confined) simp_all

lemma resolve_offer_confined [hub_confined]: "sconfined D (a_outbound a) (resolve_offer C D a net body)"
  unfolding resolve_offer_def
  by (intro sconfined_bind) (auto intro: get_json_confined split: prod.split option.split)

lemma discover_confined [hub_confined]: "sconfined D (a_outbound a) (discover C D a net offer grant)"
  unfolding discover_def Let_def by (intro sconfined_bind get_json_confined) simp_all

lemma proofs_confined [simp]:
  "sconfined D pol (dpop_proof J a clock uuid url nonce token)" "sconfined D pol (client_assertion J a clock uuid client aud)"
  unfolding dpop_proof_def client_assertion_def by (intro sconfined_bind; simp)+

lemma token_attempt_confined:
  "allowed D pol (as_token_endpoint meta) \<Longrightarrow> sconfined D pol (token_attempt J a net clock uuid meta use_dpop form as_nonce)"
  unfolding token_attempt_def by (intro sconfined_bind) (auto intro!: sconfined_bind send_confined split: option.split)

lemma token_attempts_confined:
  "allowed D pol (as_token_endpoint meta) \<Longrightarrow> sconfined D pol (token_attempts J a net clock uuid meta use_dpop form n as_nonce)"
  by (induction n arbitrary: as_nonce) (auto intro!: sconfined_bind token_attempt_confined split: option.split)

lemma request_token_confined [hub_confined]:
  "sconfined D (a_outbound a) (request_token C D J a net clock uuid meta grant tx_code)"
  unfolding request_token_def Let_def
  by (intro checked_confined sconfined_bind token_attempts_confined) simp_all

lemma resource_attempt_confined:
  "allowed D pol url \<Longrightarrow> sconfined D pol (resource_attempt J a net clock uuid rc url body)"
  unfolding resource_attempt_def by (intro sconfined_bind) (auto intro!: sconfined_bind send_confined)

lemma resource_attempts_confined:
  "allowed D pol url \<Longrightarrow> sconfined D pol (resource_attempts D' J a net clock uuid parse url body n first rc)"
  by (induction n arbitrary: first rc) (auto intro!: sconfined_bind resource_attempt_confined split: option.split)

lemma resource_post_json_confined [hub_confined]:
  "sconfined D (a_outbound a) (resource_post_json D J a net clock uuid parse url body rc)"
  unfolding resource_post_json_def by (intro checked_confined resource_attempts_confined)

lemma fetch_nonce_confined [hub_confined]: "sconfined D (a_outbound a) (fetch_nonce C D a net url rc)"
  unfolding fetch_nonce_def by (auto intro!: checked_confined sconfined_bind send_confined split: option.split)

lemma accept_issued_confined [hub_confined]:
  assumes "resolves_through D N"
  shows "sconfined D (a_outbound a) (accept_issued_credential C D N T a clock credential)"
proof -
  have t: "sconfined D (a_outbound a) (wallet_trust D N T a clock iss ty)" for iss ty
    using check_issuer_confined [OF assms, of a T] by (simp add: sconfined_def wallet_trust_def split_beta)
  show ?thesis
    unfolding accept_issued_credential_def
    by (intro sconfined_bind) (auto intro!: sconfined_bind t verify_credential_proofs_confined [OF assms] split: prod.split option.split)
qed

lemma accept_each_confined [hub_confined]:
  "resolves_through D N \<Longrightarrow> sconfined D (a_outbound a) (accept_each C D N T a clock config_id cs hv)"
  by (induction cs arbitrary: hv) (auto intro!: sconfined_bind accept_issued_confined)

lemma redeem_target_confined [hub_confined]:
  "resolves_through D N \<Longrightarrow>
   sconfined D (a_outbound a) (redeem_target C D N T J a net clock uuid metadata config_id configuration target acc)"
  unfolding redeem_target_def Let_def
  by (intro sconfined_bind fetch_nonce_confined)
    (auto intro!: sconfined_bind resource_post_json_confined accept_each_confined split: prod.split)

lemma redeem_credentials_confined [hub_confined]:
  assumes "resolves_through D N"
  shows "sconfined D (a_outbound a) (redeem_credentials C D N T J a net clock uuid body)"
proof -
  have c: "sconfined D (a_outbound a) (redeem_configuration C D N T J a net clock uuid metadata token config_id acc)"
    for metadata token config_id acc
    unfolding redeem_configuration_def
    by (auto intro!: sio_fold_confined redeem_target_confined [OF assms] split: option.split)
  have "sconfined D (a_outbound a) (open_session C D J a net clock uuid body)"
    unfolding open_session_def
    by (intro sconfined_bind resolve_offer_confined)
      (auto intro!: sconfined_bind discover_confined request_token_confined split: prod.split)
  then show ?thesis
    unfolding redeem_credentials_def by (rule sconfined_bind) (auto intro!: sconfined_bind sio_fold_confined c split: prod.split)
qed

lemma redeem_confined [hub_confined]:
  assumes "resolves_through D N"
  shows "sconfined D (a_outbound a) (redeem C D N T S J a net clock uuid body)"
  unfolding redeem_def store_harvest_def
  by (intro sconfined_bind redeem_credentials_confined [OF assms]) (auto intro!: sconfined_bind split: prod.split)

section \<open>How much the wallet sends\<close>

text \<open>A stage that sends at most \<open>n\<close> requests of its own to the issuer's endpoints, run from one state or from any.\<close>

definition sends_at :: "nat \<Rightarrow> ('l, 'w, 'a) wallet \<Rightarrow> ('l, 'w) wallet_state \<Rightarrow> bool" where
  "sends_at n m s \<longleftrightarrow> (\<exists>new. wl_sent (snd (m s)) = wl_sent s @ new \<and> length new \<le> n)"

definition sends :: "nat \<Rightarrow> ('l, 'w, 'a) wallet \<Rightarrow> bool" where
  "sends n m \<longleftrightarrow> (\<forall>s. sends_at n m s)"

lemma sends_at_bind:
  assumes "sends_at n m s" "\<And>v. snd (fst (m s)) = Ok v \<Longrightarrow> sends_at k (f v) (snd (m s))"
  shows "sends_at (n + k) (sio_bind m f) s"
proof (cases "snd (fst (m s))")
  case (Inl e)
  with assms(1) show ?thesis by (auto simp: sends_at_def sio_bind_state)
next
  case (Inr v)
  with assms(1) assms(2) [OF Inr] show ?thesis by (auto simp: sends_at_def sio_bind_state)
qed

lemma sends_at_stop: "sends_at n m s \<Longrightarrow> snd (fst (m s)) = Err e \<Longrightarrow> sends_at n (sio_bind m f) s"
  by (auto simp: sends_at_def sio_bind_state)

lemma sends_bind: "sends n m \<Longrightarrow> (\<And>v. sends k (f v)) \<Longrightarrow> sends (n + k) (sio_bind m f)"
  by (simp add: sends_def sends_at_bind)

lemma sendsD: "sends n m \<Longrightarrow> sends_at n m s"
  by (simp add: sends_def)

lemma sends_bind0: "sends 0 m \<Longrightarrow> (\<And>v. sends k (f v)) \<Longrightarrow> sends k (sio_bind m f)"
  using sends_bind [of 0 m k f] by simp

lemma sends_bind_last: "sends n m \<Longrightarrow> (\<And>v. sends 0 (f v)) \<Longrightarrow> sends n (sio_bind m f)"
  using sends_bind [of n m 0 f] by simp

lemma sends_bind_Suc: "sends 1 m \<Longrightarrow> (\<And>v. sends n (f v)) \<Longrightarrow> sends (Suc n) (sio_bind m f)"
  using sends_bind [of 1 m n f] by simp

lemma sends_mono: "sends n m \<Longrightarrow> n \<le> k \<Longrightarrow> sends k m"
  unfolding sends_def sends_at_def by (meson le_trans)

lemma sends_none [simp]:
  "sends n (sio_return r)" "sends n (sio_lift io)" "sends n (read_clock clock)" "sends n (draw_uuid uuid)"
  "sends n (check_outbound D a url)" "sends n (wallet_trust D N T a clock iss ty)"
  by (auto simp: sends_def sends_at_def read_clock_def draw_uuid_def check_outbound_def wallet_trust_def split: prod.splits)

lemma sends_send [simp]: "sends (Suc n) (send net req)"
  by (auto simp: sends_def sends_at_def send_def split: prod.splits)

lemma sends_proofs [simp]: "sends n (dpop_proof J a clock uuid url nonce token)" "sends n (client_assertion J a clock uuid client aud)"
  unfolding dpop_proof_def client_assertion_def by (intro sends_bind0; simp)+

lemma get_json_sends: "sends 1 (get_json D a net parse url)"
  unfolding get_json_def by (rule sends_bind0) (auto intro: sends_bind_last)

lemma token_attempt_sends: "sends 1 (token_attempt J a net clock uuid meta use_dpop form as_nonce)"
  unfolding token_attempt_def by (intro sends_bind0) (auto intro!: sends_bind0 split: option.split)

lemma token_attempts_sends: "sends n (token_attempts J a net clock uuid meta use_dpop form n as_nonce)"
  by (induction n arbitrary: as_nonce use_dpop) (auto intro!: sends_bind_Suc token_attempt_sends split: option.split)

lemma resource_attempt_sends: "sends 1 (resource_attempt J a net clock uuid rc url body)"
  unfolding resource_attempt_def by (intro sends_bind0) (auto intro!: sends_bind0)

lemma resource_attempts_sends: "sends n (resource_attempts D J a net clock uuid parse url body n first rc)"
  by (induction n arbitrary: first rc) (auto intro!: sends_bind_Suc resource_attempt_sends split: option.split)

lemma request_token_sends: "sends 2 (request_token C D J a net clock uuid meta grant tx_code)"
  unfolding request_token_def Let_def
  by (rule sends_bind0, simp, rule sends_bind_last [OF token_attempts_sends]) (auto intro!: sends_bind0)

lemma fetch_nonce_sends: "sends 1 (fetch_nonce C D a net url rc)"
proof (cases url)
  case (Some u)
  show ?thesis unfolding fetch_nonce_def Some option.case
    by (rule sends_bind0 [OF sends_none(5)]) (rule sends_bind_last, simp_all)
qed (simp add: fetch_nonce_def)

lemma accept_issued_sends: "sends 0 (accept_issued_credential C D N T a clock credential)"
  unfolding accept_issued_credential_def
  by (intro sends_bind0) (auto intro!: sends_bind0 split: prod.split option.split)

lemma accept_each_sends: "sends 0 (accept_each C D N T a clock config_id cs hv)"
  by (induction cs arbitrary: hv) (auto intro!: sends_bind0 accept_issued_sends)

lemma redeem_target_sends:
  "sends 3 (redeem_target C D N T J a net clock uuid metadata config_id configuration target acc)"
proof -
  have post: "sends 2 (resource_post_json D J a net clock uuid parse url body rc)" for parse url body rc
    unfolding resource_post_json_def by (rule sends_bind0) (simp_all add: resource_attempts_sends)
  have "sends (1 + 2) (redeem_target C D N T J a net clock uuid metadata config_id configuration target acc)"
    unfolding redeem_target_def Let_def
    by (rule sends_bind [OF fetch_nonce_sends])
      (auto intro!: sends_bind0 [of "read_clock clock"] sends_bind_last [OF post] sends_bind0 [OF accept_each_sends] split: prod.split)
  then show ?thesis by (simp add: numeral_3_eq_3)
qed

lemma sends_fold: "(\<And>x acc. sends (k x) (f x acc)) \<Longrightarrow> sends (sum_list (map k xs)) (sio_fold f xs acc)"
  by (induction xs arbitrary: acc) (auto intro: sends_bind)

lemma redeem_configuration_sends:
  "sends (3 * length (credential_targets token config_id))
     (redeem_configuration C D N T J a net clock uuid metadata token config_id acc)"
proof (cases "map_of (md_configurations metadata) config_id")
  case (Some configuration)
  show ?thesis
    using sends_fold [of "\<lambda>_. 3" "redeem_target C D N T J a net clock uuid metadata config_id configuration",
        OF redeem_target_sends, of "credential_targets token config_id" acc]
    by (simp add: redeem_configuration_def Some sum_list_triv mult.commute)
qed (simp add: redeem_configuration_def)

lemma resolve_offer_sends: "sends 1 (resolve_offer C D a net body)"
  unfolding resolve_offer_def by (rule sends_bind0) (auto intro: get_json_sends [unfolded One_nat_def] split: prod.split option.split)

lemma discover_sends: "sends 2 (discover C D a net offer grant)"
  unfolding discover_def Let_def numeral_2_eq_2
  by (rule sends_bind0, simp, rule sends_bind_Suc [OF get_json_sends])
    (auto intro!: sends_bind0 [of "sio_return x" for x] sends_bind_last [OF get_json_sends [unfolded One_nat_def]])

lemma open_session_sends: "sends 5 (open_session C D J a net clock uuid body)"
proof -
  have "sends (1 + (2 + 2)) (open_session C D J a net clock uuid body)"
    unfolding open_session_def
    by (rule sends_bind [OF resolve_offer_sends], rule sends_bind0, simp, rule sends_bind [OF discover_sends])
      (auto intro!: sends_bind_last [OF request_token_sends] split: prod.split)
  then show ?thesis by simp
qed

lemma store_harvest_sends: "sends n (store_harvest S uuid hv)"
proof -
  have "sends n (sio_modify (\<lambda>s. s\<lparr>wl_store := f s\<rparr>) ())" for f :: "('l, 'w) wallet_state \<Rightarrow> graph"
    by (simp add: sends_def sends_at_def)
  then show ?thesis unfolding store_harvest_def by (auto intro!: sends_bind0)
qed

lemma redeem_credentials_sends:
  "sends_at (case snd (fst (open_session C D J a net clock uuid body s)) of
       Inl e \<Rightarrow> 5
     | Inr (offer, metadata, token, dpop_bound) \<Rightarrow>
         5 + 3 * sum_list (map (\<lambda>i. length (credential_targets token i)) (oo_configuration_ids offer)))
     (redeem_credentials C D N T J a net clock uuid body) s"
  unfolding redeem_credentials_def
proof (cases "snd (fst (open_session C D J a net clock uuid body s))", goal_cases)
  case (1 e)
  then show ?case by (simp add: sends_at_stop [OF sendsD [OF open_session_sends]])
next
  case (2 v)
  obtain offer metadata token dpop_bound where v: "v = (offer, metadata, token, dpop_bound)" by (metis prod.collapse)
  have "sum_list (map (\<lambda>i. 3 * length (credential_targets token i)) (oo_configuration_ids offer))
      = 3 * sum_list (map (\<lambda>i. length (credential_targets token i)) (oo_configuration_ids offer))"
    by (simp add: sum_list_const_mult)
  note loop = sends_fold [where k = "\<lambda>i. 3 * length (credential_targets token i)" and xs = "oo_configuration_ids offer",
      OF redeem_configuration_sends, unfolded this]
  show ?case
    unfolding 2 v sum.case prod.case
    by (rule sends_at_bind [OF sendsD [OF open_session_sends]])
      (auto simp: 2 v intro!: sendsD sends_bind_last [OF loop] split: prod.split)
qed

subsection \<open>What accepting credentials adds\<close>

text \<open>
  Accepting a credential contacts hosts besides the issuer's endpoints: the DID documents and the
  registry. Every contact is paid for: by a request the wallet sent, or with what the stage returns.
\<close>

definition pays :: "nat \<Rightarrow> ('l, 'w, 'a) wallet \<Rightarrow> ('a \<Rightarrow> nat) \<Rightarrow> bool" where
  "pays n m out \<longleftrightarrow> (\<forall>s v. snd (fst (m s)) = Ok v \<longrightarrow>
     length (fst (fst (m s))) + length (wl_sent s) + n \<le> length (wl_sent (snd (m s))) + out v)"

lemma pays_bind:
  assumes "pays n m mid" and "\<And>v. pays (mid v) (f v) out"
  shows "pays n (sio_bind m f) out"
  unfolding pays_def
proof (intro allI impI)
  fix s v assume v: "snd (fst (sio_bind m f s)) = Ok v"
  then obtain u where u: "snd (fst (m s)) = Ok u" by (auto simp: sio_bind_result split: sum.splits)
  then have r: "snd (fst (f u (snd (m s)))) = Ok v" "snd (sio_bind m f s) = snd (f u (snd (m s)))"
    "fst (fst (sio_bind m f s)) = fst (fst (m s)) @ fst (fst (f u (snd (m s))))"
    using v by (simp_all add: sio_bind_def split_beta split: sum.splits)
  from assms(1) u have "length (fst (fst (m s))) + length (wl_sent s) + n \<le> length (wl_sent (snd (m s))) + mid u"
    unfolding pays_def by blast
  moreover from assms(2) [of u] r(1) have
    "length (fst (fst (f u (snd (m s))))) + length (wl_sent (snd (m s))) + mid u \<le> length (wl_sent (snd (f u (snd (m s))))) + out v"
    unfolding pays_def by blast
  ultimately show "length (fst (fst (sio_bind m f s))) + length (wl_sent s) + n \<le> length (wl_sent (snd (sio_bind m f s))) + out v"
    unfolding r(2,3) by simp
qed

text \<open>A stage that contacts nobody but the servers it sends to.\<close>

lemma pays_same: "pays n m (\<lambda>_. n) \<Longrightarrow> (\<And>v. pays n (f v) out) \<Longrightarrow> pays n (sio_bind m f) out"
  by (rule pays_bind)

lemma pays_return: "(\<And>v. r = Ok v \<Longrightarrow> n \<le> out v) \<Longrightarrow> pays n (sio_return r) out"
  by (simp add: pays_def sio_return_def sio_lift_def io_pure_def)

lemma pays_primitives [simp]:
  "pays n (sio_return r) (\<lambda>_. n)" "pays n (read_clock clock) (\<lambda>_. n)" "pays n (draw_uuid uuid) (\<lambda>_. n)"
  "pays n (check_outbound D a url) (\<lambda>_. n)" "pays n (send net req) (\<lambda>_. n)"
  by (auto simp: pays_def sio_return_def sio_lift_def io_pure_def read_clock_def draw_uuid_def check_outbound_def send_def
      io_contact_def split: prod.splits)

lemma pays_proofs [simp]:
  "pays n (dpop_proof J a clock uuid url nonce token) (\<lambda>_. n)" "pays n (client_assertion J a clock uuid client aud) (\<lambda>_. n)"
  unfolding dpop_proof_def client_assertion_def by (intro pays_same; simp)+

lemma pays_get_json: "pays n (get_json D a net parse url) (\<lambda>_. n)"
  unfolding get_json_def by (intro pays_same) simp_all

lemma pays_token_attempts: "pays n (token_attempts J a net clock uuid meta use_dpop form k as_nonce) (\<lambda>_. n)"
  by (induction k arbitrary: as_nonce) (auto simp: token_attempt_def intro!: pays_same split: option.split)

lemma pays_post: "pays n (resource_post_json D J a net clock uuid parse url body rc) (\<lambda>_. n)"
proof -
  have "pays n (resource_attempts D J a net clock uuid parse url body k first rc) (\<lambda>_. n)" for k first rc
    by (induction k arbitrary: first rc) (auto simp: resource_attempt_def intro!: pays_same split: option.split)
  then show ?thesis unfolding resource_post_json_def by (intro pays_same) simp_all
qed

lemma pays_nonce: "pays n (fetch_nonce C D a net url rc) (\<lambda>_. n)"
  unfolding fetch_nonce_def by (auto intro!: pays_same split: option.split)

lemma pays_session: "pays n (open_session C D J a net clock uuid body) (\<lambda>_. n)"
proof -
  have "pays n (resolve_offer C D a net body) (\<lambda>_. n)"
    unfolding resolve_offer_def by (rule pays_same) (auto intro: pays_get_json split: prod.split option.split)
  moreover have "pays n (discover C D a net offer grant) (\<lambda>_. n)" for offer grant
    unfolding discover_def Let_def by (intro pays_same pays_get_json) simp_all
  moreover have "pays n (request_token C D J a net clock uuid meta grant tx_code) (\<lambda>_. n)" for meta grant tx_code
    unfolding request_token_def Let_def by (intro pays_same pays_token_attempts) simp_all
  ultimately show ?thesis
    unfolding open_session_def by (auto intro!: pays_same split: prod.split)
qed

text \<open>A DID document is one request; a trust decision is at most the snapshot and the registry's DID document.\<close>

definition resolves_once :: "'d network \<Rightarrow> bool" where
  "resolves_once N \<longleftrightarrow> (\<forall>d insecure. length (fst (resolve_did N d insecure)) \<le> 1)"

lemma io_bind_trace: "length (fst m) \<le> k \<Longrightarrow> (\<And>v. length (fst (f v)) \<le> n) \<Longrightarrow> length (fst (io_bind m f)) \<le> k + n"
  by (cases "(m, f)" rule: io_bind.cases) (auto split: prod.splits intro: add_mono, metis add_mono fst_conv)

lemma io_bind_pure_trace: "(\<And>v. length (fst (f v)) \<le> n) \<Longrightarrow> length (fst (io_bind (io_pure r) f)) \<le> n"
  using io_bind_trace [of "io_pure r" 0 f n] by (simp add: io_pure_def)

lemma fst_io_map_err [simp]: "fst (io_map_err f m) = fst m"
  by (simp add: io_map_err_def)

lemma check_issuer_trace:
  assumes "resolves_once N"
  shows "length (fst (fst (check_issuer D N T a t1 t2 iss types cache))) \<le> 2"
proof -
  have f: "length (fst (fetch D N T a src now)) \<le> 1 + (1 + 0)" for src now
    unfolding fetch_def Let_def split_beta
    by (rule io_bind_pure_trace, rule io_bind_trace, simp add: io_contact_def, (rule io_bind_pure_trace)+, rule io_bind_trace)
      (use assms in \<open>simp add: resolves_once_def\<close>, (rule io_bind_pure_trace)+, simp add: io_pure_def)
  have l: "length (fst (fst (trust_list D N T a src now cache))) \<le> 2" for src now
    using f [of src now] by (auto simp: trust_list_def io_pure_def split: prod.splits sum.splits option.splits)
  have "length (fst (fst (registry_check D N T a src t1 t2 iss types cache))) \<le> 2" for src
  proof -
    obtain m cache' where m: "trust_list D N T a src t1 cache = (m, cache')" by fastforce
    with l [of src t1] have "length (fst m) \<le> 2" by simp
    then show ?thesis
      using io_bind_trace [of "io_map_err TrustRegistryUnavailable m" 2 "\<lambda>l. io_pure (list_decision T l iss types t2)" 0]
      by (simp add: registry_check_def m) (simp add: io_pure_def)
  qed
  then show ?thesis by (simp add: check_issuer_def io_pure_def split: option.split)
qed

lemma container_proof_trace:
  assumes "resolves_once N"
  shows "length (fst (verify_credential_proofs D N [c] insecure pol)) \<le> 1"
proof -
  have "length (fst (verify_container_proof D N insecure pol c)) \<le> 1 + 0"
    unfolding verify_container_proof_def split_beta
    by ((rule io_bind_pure_trace)+, rule io_bind_trace)
      (use assms in \<open>simp add: resolves_once_def\<close>, (rule io_bind_pure_trace)+, simp add: io_pure_def)
  from io_bind_trace [of "verify_container_proof D N insecure pol c" 1 "\<lambda>_. io_pure (Ok ())" 0] this
  show ?thesis by (simp add: verify_credential_proofs_def io_pure_def)
qed

lemma pays_accept:
  assumes "resolves_once N"
  shows "pays n (accept_issued_credential C D N T a clock credential) (\<lambda>_. n + 3)"
proof -
  have t: "pays n (wallet_trust D N T a clock iss ty) (\<lambda>_. n + 2)" for n iss ty
    using check_issuer_trace [OF assms] by (auto simp: pays_def wallet_trust_def split_beta)
  have p: "pays (n + 2) (sio_lift (io_map_err f (verify_credential_proofs D N [c] insecure pol))) (\<lambda>_. n + 3)" for f c insecure pol
    using container_proof_trace [OF assms, of D c insecure pol] by (simp add: pays_def sio_lift_def)
  show ?thesis
    unfolding accept_issued_credential_def
    by (intro pays_same pays_bind [OF t] pays_bind [OF p] pays_primitives)
      (auto intro!: pays_same pays_bind [OF t] pays_bind [OF p] pays_return split: prod.split option.split)
qed

text \<open>On success a stage that extends the harvest has paid for its extra contacts with what it stored.\<close>

abbreviation kept :: "resource_client \<times> harvest \<Rightarrow> nat" where
  "kept acc \<equiv> 3 * length (hv_stored (snd acc))"

lemma pays_accept_each:
  assumes "resolves_once N"
  shows "pays (3 * length (hv_stored hv)) (accept_each C D N T a clock config_id cs hv) (\<lambda>hv'. 3 * length (hv_stored hv'))"
proof (induction cs arbitrary: hv)
  case (Cons c cs)
  show ?case
    unfolding accept_each.simps
    by (rule pays_bind [OF pays_accept [OF assms]])
      (use Cons.IH [of "hv\<lparr>hv_stored := hv_stored hv @ [r], hv_containers := xs\<rparr>" for r xs] in \<open>simp add: add.commute\<close>)
qed (auto intro: pays_return)

lemma pays_target:
  assumes "resolves_once N"
  shows "pays (kept acc) (redeem_target C D N T J a net clock uuid metadata config_id configuration target acc) kept"
  unfolding redeem_target_def Let_def
  by (rule pays_same [OF pays_nonce])
    (auto intro!: pays_same pays_post pays_bind [OF pays_accept_each [OF assms]] pays_return split: prod.split)

lemma pays_fold: "(\<And>x acc. pays (k acc) (f x acc) k) \<Longrightarrow> pays (k acc) (sio_fold f xs acc) k"
  by (induction xs arbitrary: acc) (auto intro: pays_bind pays_return)

lemma pays_configuration:
  "resolves_once N \<Longrightarrow>
   pays (kept acc) (redeem_configuration C D N T J a net clock uuid metadata token config_id acc) kept"
  unfolding redeem_configuration_def
  by (auto intro!: pays_return split: option.split intro: pays_fold [where k = kept, OF pays_target])

lemma pays_redeem:
  assumes "resolves_once N"
  shows "pays 0 (redeem C D N T S J a net clock uuid body) (\<lambda>r. 3 * length (ro_stored r))"
proof -
  have loop: "pays 0 (sio_fold (redeem_configuration C D N T J a net clock uuid metadata token) ids
      (rc, \<lparr>hv_containers = [], hv_stored = [], hv_not_stored = []\<rparr>)) kept" for metadata token ids rc
    using pays_fold [where k = kept and f = "redeem_configuration C D N T J a net clock uuid metadata token" and xs = ids
        and acc = "(rc, \<lparr>hv_containers = [], hv_stored = [], hv_not_stored = []\<rparr>)", OF pays_configuration [OF assms]] by simp
  have all: "pays 0 (redeem_credentials C D N T J a net clock uuid body) (\<lambda>(offer, hv). 3 * length (hv_stored hv))"
    unfolding redeem_credentials_def
    by (rule pays_same [OF pays_session]) (auto intro!: pays_bind [OF loop] pays_return split: prod.split)
  have harvest: "pays n (store_harvest S uuid hv) (\<lambda>_. n)" for n hv
  proof -
    have "pays n (sio_modify (\<lambda>s. s\<lparr>wl_store := f s\<rparr>) ()) (\<lambda>_. n)" for f :: "('l, 'w) wallet_state \<Rightarrow> graph"
      by (simp add: pays_def sio_modify_def io_pure_def)
    then show ?thesis unfolding store_harvest_def by (auto intro!: pays_same)
  qed
  show ?thesis
    unfolding redeem_def by (rule pays_bind [OF all]) (auto intro!: pays_same [OF harvest] pays_return split: prod.split)
qed

text \<open>
  C22. What a redemption makes the wallet send. Whatever the servers answer, and whether or not it succeeds,
  its own requests to the issuer are at most five to obtain the access token (an offer passed by
  reference, two metadata documents, a token request and its one retry), and then, if it obtained one,
  at most three for every credential it asks for (a nonce, a credential request and its one retry). A
  redemption that succeeds contacts, besides, at most three URLs for each credential it reports as
  stored, to decide on its issuer: the issuer's DID document and, with a registry, the snapshot and the
  registry's DID document. How many credentials a response carries is the server's choice, and the code
  sets no limit. The redirects a server answers a request with are bounded by the redirect policy instead.
\<close>

theorem redemption_requests_bounded:
  assumes "resolves_once N"
    and run: "redeem C D N T S J a net clock uuid body s = ((contacted, res), s')"
  shows "\<exists>new. wl_sent s' = wl_sent s @ new
     \<and> length new \<le> (case snd (fst (open_session C D J a net clock uuid body s)) of
           Inl e \<Rightarrow> 5
         | Inr (offer, metadata, token, dpop_bound) \<Rightarrow>
             5 + 3 * sum_list (map (\<lambda>i. length (credential_targets token i)) (oo_configuration_ids offer)))
     \<and> (\<forall>r. res = Ok r \<longrightarrow> length contacted \<le> length new + 3 * length (ro_stored r))"
proof -
  have "sends_at n (redeem C D N T S J a net clock uuid body) s"
    if "sends_at n (redeem_credentials C D N T J a net clock uuid body) s" for n
    unfolding redeem_def
    by (rule sends_at_bind [OF that, of 0, simplified])
      (auto intro!: sendsD sends_bind0 [OF store_harvest_sends] split: prod.split)
  from this [OF redeem_credentials_sends] obtain new where new: "wl_sent s' = wl_sent s @ new"
    "length new \<le> (case snd (fst (open_session C D J a net clock uuid body s)) of
           Inl e \<Rightarrow> 5
         | Inr (offer, metadata, token, dpop_bound) \<Rightarrow>
             5 + 3 * sum_list (map (\<lambda>i. length (credential_targets token i)) (oo_configuration_ids offer)))"
    unfolding sends_at_def run by auto
  have "length contacted \<le> length new + 3 * length (ro_stored r)" if "res = Ok r" for r
    using pays_redeem [OF assms(1), of C D T S J a net clock uuid body] run that new(1) by (auto simp: pays_def dest!: spec [of _ s])
  with new show ?thesis by blast
qed


section \<open>What the wallet stores\<close>

text \<open>
  A credential the wallet may keep: a JWT signed by a key of its issuer's DID document, by an issuer
  trusted for the type it is filed under, about this service and not expired at a reading of the clock.
\<close>

definition wallet_vetted ::
    "('d, 'k) dcp \<Rightarrow> 'd network \<Rightarrow> ('l, 'k) trust_core \<Rightarrow> 'k app \<Rightarrow> (nat \<Rightarrow> u64) \<Rightarrow> credential_container \<Rightarrow> bool" where
  "wallet_vetted D N T a clock c \<longleftrightarrow>
     (\<exists>jws header payload iss kid doc key. cc_payload c = JStr jws \<and> cc_format c = FORMAT_JWT_VC_JSON
        \<and> decode_jws_unverified D jws = Ok (header, payload)
        \<and> get_str payload ''iss'' = Some iss \<and> get_str header ''kid'' = Some kid
        \<and> is_ok (check_did D (a_outbound a) iss (insecure_http (a_config a)))
        \<and> snd (resolve_did N iss (insecure_http (a_config a))) = Ok doc
        \<and> find_verifying_key D doc kid = Ok key \<and> verify_jws_signature D jws key = Ok ()
        \<and> specific_type payload = Some (cc_type c) \<and> subject_of payload = Some (own_did (a_identity a))
        \<and> (\<exists>i. \<forall>t. get_u64 payload ''exp'' = Some t \<longrightarrow> clock i < t)
        \<and> (\<exists>t1 t2 cache. trusted_cache T a cache \<and> snd (fst (check_issuer D N T a t1 t2 iss [cc_type c] cache)) = Ok ()))"

text \<open>The part of the state that decides what may be stored, and the store itself: only the trust step and the last step touch it.\<close>

abbreviation custody :: "('l, 'w) wallet_state \<Rightarrow> 'l registry_cache \<times> graph" where
  "custody s \<equiv> (wl_registry s, wl_store s)"

lemma primitives_keep [simp]:
  "keeps custody (read_clock clock)" "keeps custody (draw_uuid uuid)" "keeps custody (check_outbound D a url)" "keeps custody (send net req)"
  by (simp_all add: keeps_def read_clock_def draw_uuid_def check_outbound_def send_def split: prod.splits)

lemma get_json_keeps [simp]: "keeps custody (get_json D a net parse url)"
  unfolding get_json_def by (intro keeps_bind) simp_all

lemma proofs_keep [simp]:
  "keeps custody (dpop_proof J a clock uuid url nonce token)" "keeps custody (client_assertion J a clock uuid client aud)"
  unfolding dpop_proof_def client_assertion_def by (intro keeps_bind; simp)+

lemma token_attempts_keep [simp]: "keeps custody (token_attempts J a net clock uuid meta use_dpop form n as_nonce)"
  by (induction n arbitrary: as_nonce) (auto simp: token_attempt_def intro!: keeps_bind split: option.split)

lemma resource_attempts_keep [simp]: "keeps custody (resource_attempts D J a net clock uuid parse url body n first rc)"
  by (induction n arbitrary: first rc) (auto simp: resource_attempt_def intro!: keeps_bind split: option.split)

lemma requests_keep [simp]:
  "keeps custody (resource_post_json D J a net clock uuid parse url body rc)" "keeps custody (fetch_nonce C D a net nonce_url rc)"
  unfolding resource_post_json_def fetch_nonce_def by (auto intro!: keeps_bind split: option.split)

lemma open_session_keeps [simp]: "keeps custody (open_session C D J a net clock uuid offer_body)"
proof -
  have "keeps custody (resolve_offer C D a net offer_body)"
    unfolding resolve_offer_def by (rule keeps_bind) (auto split: prod.split option.split)
  moreover have "keeps custody (discover C D a net offer grant)" for offer grant
    unfolding discover_def Let_def by (intro keeps_bind) simp_all
  moreover have "keeps custody (request_token C D J a net clock uuid meta grant tx)" for meta grant tx
    unfolding request_token_def Let_def by (intro keeps_bind) simp_all
  ultimately show ?thesis unfolding open_session_def by (auto intro!: keeps_bind split: prod.split)
qed

lemma guarantees_fold:
  "(\<And>x acc. Q acc \<Longrightarrow> guarantees I (f x acc) Q) \<Longrightarrow> Q acc \<Longrightarrow> guarantees I (sio_fold f xs acc) Q"
  by (induction xs arbitrary: acc) (auto intro: guarantees_bind)

text \<open>Nothing is stored yet, and the registry cache only holds verified snapshots.\<close>

definition pending :: "('l, 'k) trust_core \<Rightarrow> 'k app \<Rightarrow> graph \<Rightarrow> ('l, 'w) wallet_state \<Rightarrow> bool" where
  "pending T a g s \<longleftrightarrow> trusted_cache T a (wl_registry s) \<and> wl_store s = g"

lemma keeps_pending: "keeps custody m \<Longrightarrow> guarantees (pending T a g) m (\<lambda>_. True)"
  by (simp add: keeps_def guarantees_def pending_def)

lemma wallet_trust_guarantees:
  "guarantees (pending T a g) (wallet_trust D N T a clock iss ty)
     (\<lambda>_. \<exists>t1 t2 cache. trusted_cache T a cache \<and> snd (fst (check_issuer D N T a t1 t2 iss [ty] cache)) = Ok ())"
  by (auto simp: guarantees_def pending_def wallet_trust_def split_beta check_issuer_cache_ok)

lemma read_clock_guarantees: "guarantees (pending T a g) (read_clock clock) (\<lambda>now. \<exists>i. now = clock i)"
  by (auto simp: guarantees_def pending_def read_clock_def)

lemma guarantees_stages:
  "(\<And>v. r = Ok v \<Longrightarrow> guarantees I (f v) Q) \<Longrightarrow> guarantees I (sio_bind (sio_return r) f) Q"
  "(\<And>v. snd io = Ok v \<Longrightarrow> guarantees I (k v) Q) \<Longrightarrow> guarantees I (sio_bind (sio_lift io) k) Q"
  "(\<And>x y. p = (x, y) \<Longrightarrow> guarantees I (h x y) Q) \<Longrightarrow> guarantees I (case_prod h p) Q"
  "(\<And>v. r' = Ok v \<Longrightarrow> Q v) \<Longrightarrow> guarantees I (sio_return r') Q"
  by (auto simp: guarantees_def sio_bind_state sio_bind_result split: sum.splits prod.splits)

text \<open>The checks of one credential, as the stages establish them.\<close>

lemma wallet_vettedI:
  assumes "as_str credential = Some jws" "decode_jws_unverified D jws = Ok (header, payload)" "specific_type payload = Some ty"
    "\<exists>t1 t2 cache. trusted_cache T a cache \<and> snd (fst (check_issuer D N T a t1 t2 (str_claim payload ''iss'') [ty] cache)) = Ok ()"
    "snd (verify_credential_proofs D N [\<lparr>cc_type = [], cc_payload = credential, cc_format = FORMAT_JWT_VC_JSON\<rparr>]
       (insecure_http (a_config a)) (a_outbound a)) = Ok ()"
    "subject_of payload = Some (own_did (a_identity a))" "\<exists>i. \<forall>t. get_u64 payload ''exp'' = Some t \<longrightarrow> clock i < t"
  shows "wallet_vetted D N T a clock \<lparr>cc_type = ty, cc_payload = credential, cc_format = FORMAT_JWT_VC_JSON\<rparr>"
proof -
  from assms(1) have c: "credential = JStr jws" by (cases credential) auto
  from assms(5) obtain jws' header' payload' iss kid doc key where p: "JStr jws = JStr jws'"
    "decode_jws_unverified D jws' = Ok (header', payload')" "get_str payload' ''iss'' = Some iss" "get_str header' ''kid'' = Some kid"
    "is_ok (check_did D (a_outbound a) iss (insecure_http (a_config a)))" "snd (resolve_did N iss (insecure_http (a_config a))) = Ok doc"
    "find_verifying_key D doc kid = Ok key" "verify_jws_signature D jws' key = Ok ()"
    unfolding verify_credential_proofs_def io_each_Ok c by (auto simp: verify_container_proof_Ok)
  with assms(2) have e: "jws' = jws" "header' = header" "payload' = payload" "str_claim payload ''iss'' = iss"
    by (auto simp: str_claim_def)
  show ?thesis
    unfolding wallet_vetted_def credential_container.simps
    using c assms(2,3,4,6,7) p(3-8) unfolding e
    by (rule_tac exI [of _ jws], rule_tac exI [of _ header], rule_tac exI [of _ payload], rule_tac exI [of _ iss],
        rule_tac exI [of _ kid], rule_tac exI [of _ doc], rule_tac exI [of _ key]) (intro conjI; (assumption | rule refl))
qed

lemma accept_issued_guarantees:
  "guarantees (pending T a g) (accept_issued_credential C D N T a clock credential)
     (\<lambda>ty. wallet_vetted D N T a clock \<lparr>cc_type = ty, cc_payload = credential, cc_format = FORMAT_JWT_VC_JSON\<rparr>)"
  unfolding accept_issued_credential_def
  by (intro guarantees_stages guarantees_bind [OF wallet_trust_guarantees] guarantees_bind [OF read_clock_guarantees])
    (auto intro!: wallet_vettedI simp: not_le split: if_splits option.splits)

text \<open>What has been gathered is vetted, and is what will be reported as stored.\<close>

definition harvest_vetted ::
    "('d, 'k) dcp \<Rightarrow> 'd network \<Rightarrow> ('l, 'k) trust_core \<Rightarrow> 'k app \<Rightarrow> (nat \<Rightarrow> u64) \<Rightarrow> harvest \<Rightarrow> bool" where
  "harvest_vetted D N T a clock hv \<longleftrightarrow>
     (\<forall>c \<in> set (hv_containers hv). wallet_vetted D N T a clock c)
     \<and> map cc_type (hv_containers hv) = map rd_credential_type (hv_stored hv)"

lemma accept_each_guarantees:
  "harvest_vetted D N T a clock hv \<Longrightarrow>
   guarantees (pending T a g) (accept_each C D N T a clock config_id cs hv) (harvest_vetted D N T a clock)"
  by (induction cs arbitrary: hv) (auto intro!: guarantees_bind [OF accept_issued_guarantees] simp: harvest_vetted_def [of D N T a clock])

lemma redeem_target_guarantees:
  assumes "harvest_vetted D N T a clock (snd acc)"
  shows "guarantees (pending T a g)
     (redeem_target C D N T J a net clock uuid metadata config_id configuration target acc) (\<lambda>acc. harvest_vetted D N T a clock (snd acc))"
proof -
  have more: "harvest_vetted D N T a clock ((snd acc)\<lparr>hv_not_stored := ns\<rparr>)" for ns
    using assms by (simp add: harvest_vetted_def)
  show ?thesis
    unfolding redeem_target_def Let_def
    by (intro guarantees_bind [OF keeps_pending [OF requests_keep(2)]] guarantees_bind [OF keeps_pending [OF primitives_keep(1)]]
        guarantees_bind [OF keeps_pending [OF requests_keep(1)]] guarantees_stages)
      (auto intro!: guarantees_stages guarantees_bind [OF accept_each_guarantees [OF assms]] simp: more)
qed

lemma redeem_credentials_guarantees:
  "guarantees (pending T a g) (redeem_credentials C D N T J a net clock uuid body)
     (\<lambda>(offer, hv). harvest_vetted D N T a clock hv)"
proof -
  let ?Q = "\<lambda>acc :: resource_client \<times> harvest. harvest_vetted D N T a clock (snd acc)"
  have "guarantees (pending T a g) (redeem_configuration C D N T J a net clock uuid metadata token i acc) ?Q"
    if "?Q acc" for metadata token i acc
    using that unfolding redeem_configuration_def
    by (auto intro!: guarantees_fold [where Q = ?Q] redeem_target_guarantees split: option.split)
  then show ?thesis
    unfolding redeem_credentials_def
    by (intro guarantees_bind [OF keeps_pending [OF open_session_keeps]] guarantees_stages guarantees_bind [OF guarantees_fold [where Q = ?Q]])
      (auto simp: harvest_vetted_def)
qed


text \<open>How a batch of vetted credentials changes the store.\<close>

definition stored_vetted ::
    "('d, 'k) dcp \<Rightarrow> 'd network \<Rightarrow> ('l, 'k) trust_core \<Rightarrow> serde \<Rightarrow> 'k app \<Rightarrow> (nat \<Rightarrow> u64) \<Rightarrow> string list \<Rightarrow> graph \<Rightarrow> graph \<Rightarrow> bool" where
  "stored_vetted D N T S a clock types g g' \<longleftrightarrow>
     (\<exists>containers. map cc_type containers = types \<and> (\<forall>c \<in> set containers. wallet_vetted D N T a clock c)
        \<and> (if containers = [] then g' = g
           else \<exists>pid. store_all S g' = push MAX_CREDENTIAL_BATCHES (redeemed_batch pid containers) (store_all S g)))"

lemma store_harvest_stores:
  assumes "graph_ok S (wl_store s)" "next_order (wl_store s) + 1 < u64_limit" "\<forall>jws. payload_exact S (JStr jws)"
    "harvest_vetted D N T a clock hv"
  shows "snd (fst (store_harvest S uuid hv s)) = Ok ()" "wl_registry (snd (store_harvest S uuid hv s)) = wl_registry s"
    "graph_ok S (wl_store (snd (store_harvest S uuid hv s)))"
    "stored_vetted D N T S a clock (map rd_credential_type (hv_stored hv)) (wl_store s) (wl_store (snd (store_harvest S uuid hv s)))"
proof -
  have b: "batch_exact S (redeemed_batch pid (hv_containers hv))" for pid
    using assms(3,4) by (fastforce simp: batch_exact_def redeemed_batch_def harvest_vetted_def wallet_vetted_def)
  note st = store_batch_refines [OF assms(1,2) b]
  show "snd (fst (store_harvest S uuid hv s)) = Ok ()" "wl_registry (snd (store_harvest S uuid hv s)) = wl_registry s"
    "graph_ok S (wl_store (snd (store_harvest S uuid hv s)))"
    by (simp_all add: store_harvest_def sio_bind_result sio_bind_state draw_uuid_def assms(1) st(2))
  show "stored_vetted D N T S a clock (map rd_credential_type (hv_stored hv)) (wl_store s) (wl_store (snd (store_harvest S uuid hv s)))"
    unfolding stored_vetted_def
    using assms(4) st(1) by (intro exI [of _ "hv_containers hv"])
      (auto simp: harvest_vetted_def store_harvest_def sio_bind_result sio_bind_state draw_uuid_def)
qed

lemma redeem_vetted:
  assumes "graph_ok S (wl_store s)" "next_order (wl_store s) + 1 < u64_limit" "\<forall>jws. payload_exact S (JStr jws)"
    "trusted_cache T a (wl_registry s)" "redeem C D N T S J a net clock uuid body s = ((tr, res), s')"
  shows "graph_ok S (wl_store s') \<and> trusted_cache T a (wl_registry s')
     \<and> (case res of Inl e \<Rightarrow> wl_store s' = wl_store s
        | Inr r \<Rightarrow> stored_vetted D N T S a clock (map rd_credential_type (ro_stored r)) (wl_store s) (wl_store s'))"
proof -
  let ?run = "redeem_credentials C D N T J a net clock uuid body s"
  have g: "pending T a (wl_store s) (snd ?run)"
      "\<And>offer hv. snd (fst ?run) = Ok (offer, hv) \<Longrightarrow> harvest_vetted D N T a clock hv"
    using guaranteesD [OF redeem_credentials_guarantees [of T a "wl_store s" C D N J net clock uuid body], of s] assms(4)
    by (auto simp: pending_def)
  have r: "res = snd (fst (redeem C D N T S J a net clock uuid body s))" "s' = snd (redeem C D N T S J a net clock uuid body s)"
    using assms(5) by simp_all
  show ?thesis
  proof (cases "snd (fst ?run)")
    case (Inl e)
    with g(1) assms(1) r show ?thesis by (simp add: redeem_def sio_bind_result sio_bind_state pending_def)
  next
    case (Inr v)
    obtain offer hv where v: "v = (offer, hv)" by (cases v)
    have same: "wl_store (snd ?run) = wl_store s" "trusted_cache T a (wl_registry (snd ?run))" using g(1) by (simp_all add: pending_def)
    from g(2) [OF Inr [unfolded v]]
    have st: "snd (fst (store_harvest S uuid hv (snd ?run))) = Ok ()"
      "trusted_cache T a (wl_registry (snd (store_harvest S uuid hv (snd ?run))))"
      "graph_ok S (wl_store (snd (store_harvest S uuid hv (snd ?run))))"
      "stored_vetted D N T S a clock (map rd_credential_type (hv_stored hv)) (wl_store s) (wl_store (snd (store_harvest S uuid hv (snd ?run))))"
      using store_harvest_stores [of S "snd ?run" D N T a clock hv uuid] assms(1-3) same by simp_all
    show ?thesis using st Inr v r by (simp add: redeem_def sio_bind_result sio_bind_state)
  qed
qed

text \<open>Who may have the wallet redeem an offer.\<close>

fun wallet_entitled :: "'x wallet_codec_scheme \<Rightarrow> 'k app \<Rightarrow> wallet_request \<Rightarrow> bool" where
  "wallet_entitled C a (PostOffer hdr body) = operator_authorized C a hdr"
| "wallet_entitled C a (GetOffer params) = oid4vci_offer_endpoint (a_config a)"

text \<open>
  C13. The wallet keeps only what it has vetted. An offer is redeemed only for the operator, or for anyone
  when the offer endpoint is switched on. When the answer is 200 the credentials it lists as stored are
  exactly the types of the new batch (and with none there is no batch); each is a JWT signed by a key of its
  issuer's DID document, from an issuer trusted for the type it is filed under, about this service and
  not expired. Any other answer leaves the store as it was, so a redemption that fails at the last
  credential keeps none of them. Only allowed hosts are contacted, whatever the offer and the issuer's
  metadata name.
\<close>

theorem wallet_stores_only_vetted:
  fixes T :: "('l, 'k) trust_core" and net :: "'w servers"
  assumes ok: "graph_ok S (wl_store s)" and room: "next_order (wl_store s) + 1 < u64_limit"
    and exact: "\<forall>jws. payload_exact S (JStr jws)" and law: "resolves_through D N" and cache: "trusted_cache T a (wl_registry s)"
    and run: "wallet_routes C D N T S J a net clock uuid req s = ((tr, rsp), s')"
  shows "(\<forall>url \<in> set tr. allowed D (a_outbound a) url) \<and> graph_ok S (wl_store s') \<and> trusted_cache T a (wl_registry s')
    \<and> (if r_status rsp = 200
       then wallet_entitled C a req
         \<and> (\<exists>r. rsp = resp_json 200 (redeem_offer_json r)
             \<and> stored_vetted D N T S a clock (map rd_credential_type (ro_stored r)) (wl_store s) (wl_store s'))
       else r_status rsp \<in> {400, 401, 403, 404, 502} \<and> wl_store s' = wl_store s)"
proof -
  have redeemed: ?thesis if e: "wallet_entitled C a req"
    and run: "redeem C D N T S J a net clock uuid body s = ((tr, res), s')" "rsp = redemption_response res" for body res
  proof -
    have "\<forall>url \<in> set tr. allowed D (a_outbound a) url"
      using redeem_confined [OF law, of a C T S J net clock uuid body] run(1) unfolding sconfined_def confined_def by (metis fst_conv)
    with e redeem_vetted [OF ok room exact cache run(1)] show ?thesis
      unfolding run(2) redemption_response_def by (cases res; cases "projl res") (auto simp: resp_json_def resp_def)
  qed
  show ?thesis
  proof (cases req)
    case (PostOffer hdr body)
    show ?thesis
    proof (cases "operator_authorized C a hdr")
      case True
      then show ?thesis using run PostOffer redeemed [of body]
        by (auto simp: redeem_offer_def operator_rejection_def split: prod.splits)
    next
      case False
      then show ?thesis using run PostOffer ok cache
        by (auto simp: redeem_offer_def operator_rejection_def oauth_error_def set_header_def resp_json_def resp_def)
    qed
  next
    case (GetOffer params)
    let ?body = "\<lambda>offer. \<lparr>rb_offer = None, rb_credential_offer = offer, rb_credential_offer_uri = params ''credential_offer_uri'',
      rb_tx_code = oid4vci_offer_tx_code (a_config a)\<rparr>"
    consider "tr = []" "s' = s" "r_status rsp \<in> {400, 404}"
      | offer res where "oid4vci_offer_endpoint (a_config a)" "redeem C D N T S J a net clock uuid (?body offer) s = ((tr, res), s')"
          "rsp = redemption_response res"
      using run GetOffer
      by (auto simp: credential_offer_endpoint_def oauth_error_def resp_json_def resp_def split: if_splits sum.splits prod.splits)
    then show ?thesis
    proof cases
      case 1
      then show ?thesis using ok cache by auto
    next
      case (2 offer res)
      then show ?thesis by (intro redeemed [OF _ 2(2,3)]) (simp add: GetOffer)
    qed
  qed
qed


text \<open>
  A wallet that redeems one credential: an issuer at \<open>https://caller.example\<close> that answers every request
  with a fixed document, the offer passed by value.
\<close>

definition sample_offer :: oid_offer where
  "sample_offer = \<lparr>oo_credential_issuer = ''https://caller.example'', oo_configuration_ids = [''membership''],
     oo_grants = Some \<lparr>og_pre_authorized_code = Some \<lparr>pg_code = ''c'', pg_tx_code = None, pg_authorization_server = None\<rparr>\<rparr>\<rparr>"

definition sample_issuer_metadata :: credential_issuer_metadata where
  "sample_issuer_metadata = \<lparr>md_credential_issuer = ''https://caller.example/'', md_authorization_servers = [],
     md_credential_endpoint = ''https://caller.example/credential'', md_nonce_endpoint = Some ''https://caller.example/nonce'',
     md_configurations = [(''membership'', \<lparr>conf_format = FORMAT_JWT_VC_JSON, conf_scope = None, conf_binding_methods = [''jwk''],
       conf_signing_algs = [], conf_proof_types = None, conf_types = None\<rparr>)]\<rparr>"

definition sample_token :: oid_token_response where
  "sample_token = \<lparr>tr_access_token = ''t'', tr_token_type = ''Bearer'', tr_expires_in = 300, tr_authorization_details = []\<rparr>"

definition sample_wallet_codec :: wallet_codec where
  "sample_wallet_codec = oid_codec.extend sample_oid_codec
     \<lparr>offer_of_str = (\<lambda>_. Err ''no''), query_pairs = (\<lambda>_. Err ''no''), debug_str = id, json_offer = (\<lambda>_. Err ''no''),
      json_issuer_metadata = (\<lambda>_. Ok sample_issuer_metadata),
      json_as_metadata = (\<lambda>_. Ok \<lparr>as_issuer = ''https://caller.example'', as_token_endpoint = ''https://caller.example/token'',
        as_grant_types = [], as_anonymous_access = None, as_dpop_algs = []\<rparr>),
      json_token = (\<lambda>_. Ok sample_token), json_nonce = (\<lambda>_. Ok ''n''),
      json_credentials = (\<lambda>_. Ok \<lparr>rs_credentials = [JStr ''k1.vc''], rs_credential = None, rs_transaction_id = None\<rparr>)\<rparr>"

lemma sample_wallet_codec_simps [simp]:
  "json_issuer_metadata sample_wallet_codec t = Ok sample_issuer_metadata"
  "json_as_metadata sample_wallet_codec t = Ok \<lparr>as_issuer = ''https://caller.example'', as_token_endpoint = ''https://caller.example/token'',
     as_grant_types = [], as_anonymous_access = None, as_dpop_algs = []\<rparr>"
  "json_token sample_wallet_codec t = Ok sample_token" "json_nonce sample_wallet_codec t = Ok ''n''"
  "json_credentials sample_wallet_codec t = Ok \<lparr>rs_credentials = [JStr ''k1.vc''], rs_credential = None, rs_transaction_id = None\<rparr>"
  "base64_decode sample_wallet_codec STANDARD b = Some b"
  by (simp_all add: sample_wallet_codec_def oid_codec.defs sample_oid_codec_def admin_codec.defs)

definition sample_key_jose :: "string jose" where
  "sample_key_jose = \<lparr>b64_encode = id, sha256 = id, json_text = (\<lambda>_. ''json''), es256_sign = (\<lambda>k t. k @ ''.'' @ t),
     public_xy = (\<lambda>k. (''x'', ''y'')), jwk_to_verifying_key = (\<lambda>x y. Ok ''k1'')\<rparr>"

definition sample_servers :: "unit servers" where
  "sample_servers req w = (Ok \<lparr>hp_status = 200, hp_headers = [], hp_body = Ok ''{}''\<rparr>, w)"

definition sample_wallet_state :: "(nat, unit) wallet_state" where
  "sample_wallet_state = \<lparr>wl_registry = None, wl_store = h_store sample_hub_state, wl_net = (), wl_sent = [], wl_reads = 0, wl_draws = 0\<rparr>"

definition sample_redeem_body :: redeem_offer_body where
  "sample_redeem_body = \<lparr>rb_offer = None, rb_credential_offer = Some sample_offer, rb_credential_offer_uri = None, rb_tx_code = None\<rparr>"

lemma sample_url_parse:
  "url_parse (sample_dcp sample_decode) ''http://caller.example/.well-known/did.json'' = Ok (''http'', Some ''caller.example'')"
  "url_parse (sample_dcp sample_decode) ''https://caller.example/.well-known/openid-credential-issuer'' = Ok (''https'', Some ''caller.example'')"
  "url_parse (sample_dcp sample_decode) ''https://caller.example/.well-known/oauth-authorization-server'' = Ok (''https'', Some ''caller.example'')"
  "url_parse (sample_dcp sample_decode) ''https://caller.example/token'' = Ok (''https'', Some ''caller.example'')"
  "url_parse (sample_dcp sample_decode) ''https://caller.example/nonce'' = Ok (''https'', Some ''caller.example'')"
  "url_parse (sample_dcp sample_decode) ''https://caller.example/credential'' = Ok (''https'', Some ''caller.example'')"
  by code_simp+

lemma sample_urls_allowed:
  "check_url (sample_dcp sample_decode) (a_outbound sample_hub) ''https://caller.example/.well-known/openid-credential-issuer'' = Ok ()"
  "check_url (sample_dcp sample_decode) (a_outbound sample_hub) ''https://caller.example/.well-known/oauth-authorization-server'' = Ok ()"
  "check_url (sample_dcp sample_decode) (a_outbound sample_hub) ''https://caller.example/token'' = Ok ()"
  "check_url (sample_dcp sample_decode) (a_outbound sample_hub) ''https://caller.example/nonce'' = Ok ()"
  "check_url (sample_dcp sample_decode) (a_outbound sample_hub) ''https://caller.example/credential'' = Ok ()"
  using sample_hub_allowed by (simp_all add: check_url_def allowed_def sample_url_parse Let_def split: if_splits)

lemma sample_well_known:
  "well_known_url ''https://caller.example'' CREDENTIAL_ISSUER_WELL_KNOWN = Ok ''https://caller.example/.well-known/openid-credential-issuer''"
  "well_known_url ''https://caller.example'' AUTHORIZATION_SERVER_WELL_KNOWN = Ok ''https://caller.example/.well-known/oauth-authorization-server''"
  "trim_end_matches CHR ''/'' ''https://caller.example/'' = ''https://caller.example''"
  "trim_end_matches CHR ''/'' ''https://caller.example'' = ''https://caller.example''"
  by code_simp+

lemma sample_exchange [simp]:
  "snd (fst (send sample_servers req s)) = Ok \<lparr>hp_status = 200, hp_headers = [], hp_body = Ok ''{}''\<rparr>"
  "snd (fst (read_clock (\<lambda>_. t) s)) = Ok t" "snd (fst (draw_uuid uuid s)) = Ok (uuid (wl_draws s))"
  "snd (fst (check_outbound D a url s)) = map_err (\<lambda>e. OutboundRefused (outbound_message e)) (check_url D (a_outbound a) url)"
  by (simp_all add: send_def sample_servers_def read_clock_def draw_uuid_def check_outbound_def)

lemma sample_client [simp]: "oid4vci_client_id (a_config sample_hub) = None"
  by (simp add: sample_hub_def sample_config_def)

lemma sample_session:
  "snd (fst (open_session sample_wallet_codec (sample_dcp sample_decode) sample_key_jose sample_hub sample_servers (\<lambda>_. 1010)
     uuid sample_redeem_body s)) = Ok (sample_offer, sample_issuer_metadata, sample_token, False)"
proof -
  have "\<not> eq_ignore_ascii_case ''Bearer'' ''dpop''" by code_simp
  then show ?thesis
    by (simp add: open_session_def resolve_offer_def discover_def get_json_def request_token_def token_attempt_def numeral_2_eq_2
      pre_authorized_grant_of_def sio_bind_result is_success_def sample_redeem_body_def sample_offer_def sample_issuer_metadata_def sample_token_def
      sample_urls_allowed sample_well_known read_json_def Let_def)
qed

lemma sample_accepts:
  assumes "t < 4600"
  shows "snd (fst (accept_issued_credential sample_wallet_codec (sample_dcp sample_decode) sample_network sample_trust sample_hub (\<lambda>_. t)
      (JStr ''k1.vc'') s)) = Ok ''MembershipCredential''"
proof -
  have f: "contains_str (to_lowercase (unicode_lowercase (sample_dcp sample_decode)) (trim FORMAT_JWT_VC_JSON)) ''jwt''"
    by code_simp
  have p: "snd (verify_credential_proofs (sample_dcp sample_decode) sample_network
      [\<lparr>cc_type = [], cc_payload = JStr ''k1.vc'', cc_format = FORMAT_JWT_VC_JSON\<rparr>] True (a_outbound sample_hub)) = Ok ()"
    using sample_container_passes(1) f
    unfolding verify_credential_proofs_def io_each_Ok by (auto simp: verify_container_proof_Ok sample_container_def)
  have trusted: "snd (fst (check_issuer (sample_dcp sample_decode) sample_network sample_trust sample_hub t1 t2 ''did:web:caller.example'' ts cache)) = Ok ()"
    for t1 t2 ts cache by (simp add: static_check_issuer registry_configured_def)
  have v: "specific_type sample_vc = Some ''MembershipCredential''" "subject_of sample_vc = Some ''did:web:hub''"
    "str_claim sample_vc ''iss'' = ''did:web:caller.example''" "get_u64 sample_vc ''exp'' = Some 4600"
    by code_simp+
  have d: "decode_jws_unverified (sample_dcp sample_decode) ''k1.vc'' = Ok (json_obj [(''kid'', JStr ''k1'')], sample_vc)"
    by (simp add: sample_dcp_def sample_decode_def)
  show ?thesis
    using p assms by (simp add: trusted not_le [symmetric] accept_issued_credential_def sio_bind_result wallet_trust_def read_clock_def d v split_beta)
qed

text \<open>
  The wallet does not look at \<open>nbf\<close>, and its \<open>exp\<close> test has no clock skew: a credential that is not valid yet,
  which the Storage API would refuse, is accepted.
\<close>

lemma wallet_accepts_not_yet_valid:
  "snd (fst (accept_issued_credential sample_wallet_codec (sample_dcp sample_decode) sample_network sample_trust sample_hub (\<lambda>_. 100)
      (JStr ''k1.vc'') s)) = Ok ''MembershipCredential''
   \<and> \<not> is_ok (check_container (sample_dcp sample_decode) ''did:web:hub'' None 100
        \<lparr>cc_type = ''MembershipCredential'', cc_payload = JStr ''k1.vc'', cc_format = FORMAT_JWT_VC_JSON\<rparr>)"
proof (intro conjI sample_accepts notI)
  assume "is_ok (check_container (sample_dcp sample_decode) ''did:web:hub'' None 100
        \<lparr>cc_type = ''MembershipCredential'', cc_payload = JStr ''k1.vc'', cc_format = FORMAT_JWT_VC_JSON\<rparr>)"
  then obtain u where "check_container (sample_dcp sample_decode) ''did:web:hub'' None 100
        \<lparr>cc_type = ''MembershipCredential'', cc_payload = JStr ''k1.vc'', cc_format = FORMAT_JWT_VC_JSON\<rparr> = Ok u"
    by (auto elim: is_ok.elims)
  then have "is_within_validity sample_vc 100"
    unfolding check_container_Ok by (auto simp: sample_dcp_def sample_decode_def)
  moreover have "\<not> is_within_validity sample_vc 100"
    by (simp add: is_within_validity_def sample_vc_def CLOCK_SKEW_SECS_def u64_add_def u64_limit_def)
  ultimately show False by contradiction
qed simp

lemma sample_redeemed:
  "\<exists>r. snd (fst (redeem sample_wallet_codec (sample_dcp sample_decode) sample_network sample_trust sample_serde sample_key_jose sample_hub
       sample_servers (\<lambda>_. 1010) uuid sample_redeem_body s)) = Ok r \<and> map rd_credential_type (ro_stored r) = [''MembershipCredential'']"
  by (simp add: redeem_def redeem_credentials_def sio_bind_result sample_session sample_offer_def redeem_configuration_def
      credential_targets_def credential_identifiers_for_def redeem_target_def fetch_nonce_def resource_post_json_def resource_attempt_def
      numeral_2_eq_2 is_success_def sample_issuer_metadata_def sample_token_def sample_urls_allowed read_json_def Let_def
      remember_nonce_def header_str_def store_harvest_def sample_accepts)

theorem redemption_requests_bounded_witness:
  "let run = redeem sample_wallet_codec (sample_dcp sample_decode) sample_network sample_trust sample_serde sample_key_jose sample_hub
       sample_servers (\<lambda>_. 1010) (\<lambda>_. ''u'') sample_redeem_body sample_wallet_state
   in \<exists>r. snd (fst run) = Ok r \<and> length (ro_stored r) = 1 \<and> length (wl_sent (snd run)) \<le> 8
      \<and> length (fst (fst run)) \<le> length (wl_sent (snd run)) + 3"
proof -
  let ?run = "redeem sample_wallet_codec (sample_dcp sample_decode) sample_network sample_trust sample_serde sample_key_jose sample_hub
       sample_servers (\<lambda>_. 1010) (\<lambda>_. ''u'') sample_redeem_body sample_wallet_state"
  have once: "resolves_once sample_network" by (simp add: resolves_once_def sample_network_def split: option.split)
  have run: "?run = ((fst (fst ?run), snd (fst ?run)), snd ?run)" by simp
  have targets: "sum_list (map (\<lambda>i. length (credential_targets sample_token i)) (oo_configuration_ids sample_offer)) = 1"
    by (simp add: sample_offer_def credential_targets_def credential_identifiers_for_def sample_token_def)
  have none: "wl_sent sample_wallet_state = []" by (simp add: sample_wallet_state_def)
  obtain r where r: "snd (fst ?run) = Ok r" "map rd_credential_type (ro_stored r) = [''MembershipCredential'']"
    using sample_redeemed [of "\<lambda>_. ''u''" sample_wallet_state] by (elim exE conjE) (rule that)
  then have one: "length (ro_stored r) = 1" by (auto dest: arg_cong [of _ _ length])
  from redemption_requests_bounded [OF once run] obtain new where
    new: "wl_sent (snd ?run) = new" "length new \<le> 8" "length (fst (fst ?run)) \<le> length new + 3 * length (ro_stored r)"
    unfolding none sample_session sum.case prod.case targets r(1) by auto
  show ?thesis unfolding Let_def by (intro exI [of _ r] conjI) (use r(1) one new in simp_all)
qed

text \<open>The answer tells which types were stored.\<close>

lemma redeem_offer_json_types:
  assumes "redeem_offer_json r = redeem_offer_json r'"
  shows "map rd_credential_type (ro_stored r) = map rd_credential_type (ro_stored r')"
proof -
  have "json_get (redeem_offer_json r) ''stored'' = Some (JArr (map redeemed_json (ro_stored r)))" for r
    by (simp add: redeem_offer_json_def list_field_def map_add_def split: option.splits)
  with assms have same: "map redeemed_json (ro_stored r) = map redeemed_json (ro_stored r')" by (metis json.inject(4) option.inject)
  have "rd_credential_type c = (case get_str (redeemed_json c) ''credential_type'' of Some t \<Rightarrow> t | None \<Rightarrow> [])" for c
    by (simp add: redeemed_json_def)
  then have types: "map rd_credential_type cs = map (\<lambda>j. case get_str j ''credential_type'' of Some t \<Rightarrow> t | None \<Rightarrow> []) (map redeemed_json cs)" for cs
    by simp
  show ?thesis by (subst (1 2) types) (simp only: same)
qed

theorem wallet_stores_only_vetted_witness:
  "let run = wallet_routes sample_wallet_codec (sample_dcp sample_decode) sample_network sample_trust sample_serde sample_key_jose sample_hub
       sample_servers (\<lambda>_. 1010) (\<lambda>_. ''u'') (PostOffer (Some ''Basic c:s'') sample_redeem_body) sample_wallet_state
   in r_status (snd (fst run)) = 200
    \<and> (\<exists>c pid. cc_type c = ''MembershipCredential''
          \<and> wallet_vetted (sample_dcp sample_decode) sample_network sample_trust sample_hub (\<lambda>_. 1010) c
          \<and> store_all sample_serde (wl_store (snd run)) = [sample_batch, redeemed_batch pid [c]])"
proof -
  let ?r = "wallet_routes sample_wallet_codec (sample_dcp sample_decode) sample_network sample_trust sample_serde sample_key_jose sample_hub
       sample_servers (\<lambda>_. 1010) (\<lambda>_. ''u'') (PostOffer (Some ''Basic c:s'') sample_redeem_body) sample_wallet_state"
  have st: "graph_ok sample_serde (wl_store sample_wallet_state)" "next_order (wl_store sample_wallet_state) + 1 < u64_limit"
    "store_all sample_serde (wl_store sample_wallet_state) = [sample_batch]"
    "trusted_cache sample_trust sample_hub (wl_registry sample_wallet_state)"
    using sample_graph by (simp_all add: sample_wallet_state_def trusted_cache_def)
  have exact: "\<forall>jws. payload_exact sample_serde (JStr jws)" by (simp add: payload_exact_def sample_serde_def)
  have run: "?r = ((fst (fst ?r), snd (fst ?r)), snd ?r)" by simp
  note kept = wallet_stores_only_vetted [OF st(1,2) exact sample_resolves st(4) run]
  have "utf8_valid ''c:s''" "split_once ''c:s'' '':'' = Some (''c'', ''s'')" "strip_prefix ''Basic c:s'' ''Basic '' = Some ''c:s''"
    by code_simp+
  then have op: "operator_rejection sample_wallet_codec sample_hub (Some ''Basic c:s'') = None"
    by (simp add: operator_rejection_def operator_authorized_def constant_time_eq_iff sample_hub_def sample_config_def)
  obtain r where r: "snd (fst (redeem sample_wallet_codec (sample_dcp sample_decode) sample_network sample_trust sample_serde sample_key_jose sample_hub
       sample_servers (\<lambda>_. 1010) (\<lambda>_. ''u'') sample_redeem_body sample_wallet_state)) = Ok r"
    "map rd_credential_type (ro_stored r) = [''MembershipCredential'']"
    using sample_redeemed [of "\<lambda>_. ''u''" sample_wallet_state] by (elim exE conjE) (rule that)
  then have answered: "snd (fst ?r) = resp_json 200 (redeem_offer_json r)"
    by (auto simp: redeem_offer_def op redemption_response_def split: prod.splits)
  with kept obtain r' where r': "resp_json 200 (redeem_offer_json r) = resp_json 200 (redeem_offer_json r')"
    "stored_vetted (sample_dcp sample_decode) sample_network sample_trust sample_serde sample_hub (\<lambda>_. 1010)
       (map rd_credential_type (ro_stored r')) (wl_store sample_wallet_state) (wl_store (snd ?r))"
    by (auto simp: resp_json_def resp_def)
  then have "map rd_credential_type (ro_stored r') = [''MembershipCredential'']"
    using redeem_offer_json_types [of r r'] r(2) by (simp add: resp_json_def resp_def)
  with r'(2) obtain c pid where "cc_type c = ''MembershipCredential''"
      "wallet_vetted (sample_dcp sample_decode) sample_network sample_trust sample_hub (\<lambda>_. 1010) c"
      "store_all sample_serde (wl_store (snd ?r)) = [sample_batch, redeemed_batch pid [c]]"
    unfolding stored_vetted_def by (auto simp: map_eq_Cons_conv st(3) push_def MAX_CREDENTIAL_BATCHES_def)
  with answered show ?thesis by (auto simp: Let_def resp_json_def resp_def)
qed

end
