(* ===== verification/Hub.thy ===== *)
theory Hub
  imports Oid4vci_Wallet
begin

text \<open>
  The hub as one process (handlers.rs, \<open>router\<close>; oid4vci.rs, \<open>routes\<close>; lib.rs; state.rs, \<open>AppState::new\<close>): its
  start, its routes, the dispatch of a request to a handler, and the deliveries it has yet to run. A
  request is served in one step here, with its own readings of the clock and its own UUIDs. What axum's
  extractors make of a body, a query string or a path segment is a parameter.
\<close>

section \<open>Third-party code\<close>

text \<open>An extractor answers by itself when it rejects a request.\<close>

record body_codec = wallet_codec +
  sts_form_of :: "string \<Rightarrow> (sts_form_body, response) result"
  query_message_of :: "string \<Rightarrow> (presentation_query_message, response) result"
  credential_message_of :: "string \<Rightarrow> (credential_message, response) result"
  offer_message_of :: "string \<Rightarrow> (credential_offer_message, response) result"
  credential_request_of :: "string \<Rightarrow> (credential_request_message, response) result"
  create_offer_of :: "string \<Rightarrow> (create_offer_body option, response) result"
  form_of :: "string \<Rightarrow> (string \<rightharpoonup> string, response) result"
  json_value_of :: "string \<Rightarrow> (json, response) result"
  redeem_body_of :: "string \<Rightarrow> (redeem_offer_body, response) result"
  query_params_of :: "string \<Rightarrow> (string \<rightharpoonup> string, response) result"
  segment_of :: "string \<Rightarrow> (string, response) result"

text \<open>Everything the process calls that is not in the repository.\<close>

record ('d, 'k, 'l, 't, 'w) platform =
  pf_dcp :: "('d, 'k) dcp"
  pf_network :: "'d network"
  pf_trust :: "('l, 'k) trust_core"
  pf_serde :: serde
  pf_jose :: "'k jose"
  pf_chrono :: "'t chrono"
  pf_codec :: body_codec
  pf_arrange :: "(rdf_term \<times> rdf_term \<times> rdf_term) list \<Rightarrow> (rdf_term \<times> rdf_term \<times> rdf_term) list"
  pf_catalog_of :: "string \<Rightarrow> (issuer_metadata, string) result"
  pf_encode :: "8 word list \<Rightarrow> string"
  pf_servers :: "'w servers"

text \<open>The clock, the generator of UUIDs, and the random tokens and bits made of them, as one request sees them.\<close>

record tick =
  tk_clock :: "nat \<Rightarrow> u64"
  tk_uuid :: "nat \<Rightarrow> string"
  tk_token :: "nat \<Rightarrow> string"
  tk_bits :: nat

section \<open>The process\<close>

text \<open>The tables, the deliveries that are spawned and not yet run, and the servers the wallet talks to.\<close>

record ('l, 'w) hub_process =
  hp_state :: "'l hub_state"
  hp_oid :: oid_state
  hp_deliveries :: "string fset"
  hp_servers :: 'w

definition hub_start :: "u64 \<Rightarrow> 'w \<Rightarrow> ('l, 'w) hub_process option" where
  "hub_start now servers =
     map_option (\<lambda>catalog.
       \<lparr>hp_state = \<lparr>h_seen = seen_new MAX_SEEN_JTI, h_store = store_new, h_registry = None,
          h_issuer = \<lparr>s_definitions = catalog, s_holders = registry_default, s_requests = rt_new MAX_TRACKED_REQUESTS,
            s_issued = issued_default\<rparr>\<rparr>,
        hp_oid = oid_state_default, hp_deliveries = {||}, hp_servers = servers\<rparr>) (catalog_seeded now)"

section \<open>Routes\<close>

datatype hub_endpoint =
    DidDocument string | StsToken | PresentationsQuery | StorageWrite | OfferDelivery
  | CredentialRequests | RequestStatus string | DcpMetadata | RevocationList
  | OidIssuerMetadata | OidServerMetadata | OidOffers | OidOffer string | OidToken | OidNonce | OidCredential
  | WalletOffers | WalletCredentialOffer

text \<open>
  The method and the handler mounted on a path, given by its segments. A literal segment wins over a
  parameter, and a parameter does not match an empty segment.
\<close>

definition credential_service_route :: "string list \<Rightarrow> (string \<times> hub_endpoint) option" where
  "credential_service_route p =
     (if p = [''presentations'', ''query''] then Some (''POST'', PresentationsQuery)
      else if p = [''credentials''] then Some (''POST'', StorageWrite)
      else if p = [''offers''] then Some (''POST'', OfferDelivery)
      else None)"

definition issuer_service_route :: "string list \<Rightarrow> (string \<times> hub_endpoint) option" where
  "issuer_service_route p =
     (if p = [''credentials''] then Some (''POST'', CredentialRequests)
      else if p = [''metadata''] then Some (''GET'', DcpMetadata)
      else if p = [''statuslist'', ''revocation''] then Some (''GET'', RevocationList)
      else (case p of
              [a, i] \<Rightarrow> if a = ''requests'' \<and> i \<noteq> [] then Some (''GET'', RequestStatus i) else None
            | _ \<Rightarrow> None))"

definition oid_route :: "config \<Rightarrow> string list \<Rightarrow> (string \<times> hub_endpoint) option" where
  "oid_route c p =
     (case cfg_mode c of
        IssuerService \<Rightarrow>
          if p = [''.well-known'', CREDENTIAL_ISSUER_WELL_KNOWN] then Some (''GET'', OidIssuerMetadata)
          else if p = [''.well-known'', AUTHORIZATION_SERVER_WELL_KNOWN] then Some (''GET'', OidServerMetadata)
          else if p = [''oid4vci'', ''offers''] then Some (''POST'', OidOffers)
          else if p = [''oid4vci'', ''token''] then Some (''POST'', OidToken)
          else if p = [''oid4vci'', ''nonce''] then Some (''POST'', OidNonce)
          else if p = [''oid4vci'', ''credential''] then Some (''POST'', OidCredential)
          else (case p of
                  [a, b, i] \<Rightarrow> if a = ''oid4vci'' \<and> b = ''offers'' \<and> i \<noteq> [] then Some (''GET'', OidOffer i) else None
                | _ \<Rightarrow> None)
      | CredentialService \<Rightarrow>
          if p = [''oid4vci'', ''wallet'', ''offers''] then Some (''POST'', WalletOffers)
          else if oid4vci_offer_endpoint c \<and> p = [''oid4vci'', ''wallet'', ''credential_offer'']
          then Some (''GET'', WalletCredentialOffer)
          else None)"

definition hub_route :: "config \<Rightarrow> string list \<Rightarrow> (string \<times> hub_endpoint) option" where
  "hub_route c p =
     (if p = [''sts'', ''token''] then Some (''POST'', StsToken)
      else case (case cfg_mode c of CredentialService \<Rightarrow> credential_service_route p | IssuerService \<Rightarrow> issuer_service_route p) of
        Some r \<Rightarrow> Some r
      | None \<Rightarrow> (case oid_route c p of
            Some r \<Rightarrow> Some r
          | None \<Rightarrow> (case p of
                [seg, f] \<Rightarrow> if f = ''did.json'' \<and> seg \<noteq> [] then Some (''GET'', DidDocument seg) else None
              | _ \<Rightarrow> None)))"

section \<open>Dispatch\<close>

record hub_call =
  hc_method :: string
  hc_path :: "string list"
  hc_query :: string
  hc_authorization :: "string option"
  hc_body :: string

type_synonym ('l, 'w) served = "(string list \<times> response option) \<times> ('l, 'w) hub_process"

definition answered_with :: "response \<Rightarrow> ('l, 'w) hub_process \<Rightarrow> ('l, 'w) served" where
  "answered_with r s = (([], Some r), s)"

text \<open>A handler behind an extractor, on the shared tables, on the OpenID4VCI tables, and on the wallet's view.\<close>

definition extracted :: "('b, response) result \<Rightarrow> ('b \<Rightarrow> ('l, 'w) hub_process \<Rightarrow> ('l, 'w) served) \<Rightarrow> ('l, 'w) hub_process \<Rightarrow> ('l, 'w) served" where
  "extracted body k s = (case body of Inl r \<Rightarrow> answered_with r s | Inr b \<Rightarrow> k b s)"

definition on_tables :: "('l hub_state, response, response) sio \<Rightarrow> ('l, 'w) hub_process \<Rightarrow> ('l, 'w) served" where
  "on_tables m s = (case m (hp_state s) of (io, t) \<Rightarrow> ((fst io, Some (respond (io, t))), s\<lparr>hp_state := t\<rparr>))"

definition issuer_view :: "('l, 'w) hub_process \<Rightarrow> issuer_process" where
  "issuer_view s = \<lparr>ip_issuer = h_issuer (hp_state s), ip_oid = hp_oid s\<rparr>"

definition from_issuer_view :: "issuer_process \<Rightarrow> ('l, 'w) hub_process \<Rightarrow> ('l, 'w) hub_process" where
  "from_issuer_view v s = s\<lparr>hp_state := (hp_state s)\<lparr>h_issuer := ip_issuer v\<rparr>, hp_oid := ip_oid v\<rparr>"

definition on_oid ::
    "('d, 'k, 'l, 't, 'w) platform \<Rightarrow> 'k app \<Rightarrow> oid_request \<Rightarrow> ('l, 'w) hub_process \<Rightarrow> ('l, 'w) served" where
  "on_oid P a r s =
     (case oid_handle (pf_codec P) (pf_dcp P) (pf_network P) (pf_jose P) (pf_chrono P) a r (issuer_view s) of
        (ans, v) \<Rightarrow> (([], ans), from_issuer_view v s))"

definition wallet_view :: "('l, 'w) hub_process \<Rightarrow> ('l, 'w) wallet_state" where
  "wallet_view s = \<lparr>wl_registry = h_registry (hp_state s), wl_store = h_store (hp_state s), wl_net = hp_servers s,
     wl_sent = [], wl_reads = 0, wl_draws = 0\<rparr>"

definition on_wallet ::
    "('d, 'k, 'l, 't, 'w) platform \<Rightarrow> 'k app \<Rightarrow> tick \<Rightarrow> wallet_request \<Rightarrow> ('l, 'w) hub_process \<Rightarrow> ('l, 'w) served" where
  "on_wallet P a tk r s =
     (case wallet_routes (pf_codec P) (pf_dcp P) (pf_network P) (pf_trust P) (pf_serde P) (pf_jose P) a (pf_servers P)
             (tk_clock tk) (tk_uuid tk) r (wallet_view s) of
        ((tr, ans), w) \<Rightarrow> ((tr, Some ans),
           s\<lparr>hp_state := (hp_state s)\<lparr>h_registry := wl_registry w, h_store := wl_store w\<rparr>, hp_servers := wl_net w\<rparr>))"

definition credential_object_json :: "credential_object \<Rightarrow> json" where
  "credential_object_json c = json_obj (opt_field ''@context'' (\<lambda>xs. JArr (map JStr xs)) (co_context c)
     @ [(''id'', JStr (co_id c)), (''type'', JStr (co_object_type c))]
     @ opt_field ''credentialType'' JStr (co_credential_type c)
     @ opt_field ''bindingMethods'' (\<lambda>xs. JArr (map JStr xs)) (co_binding_methods c)
     @ opt_field ''credentialSchema'' JStr (co_credential_schema c) @ opt_field ''profile'' JStr (co_profile c)
     @ opt_field ''issuancePolicy'' id (co_issuance_policy c) @ opt_field ''offerReason'' JStr (co_offer_reason c))"

definition dcp_metadata_json :: "issuer_metadata \<Rightarrow> json" where
  "dcp_metadata_json m = json_obj ([(''@context'', JArr (map JStr (im_context m))), (''type'', JStr (im_type m)),
     (''issuer'', JStr (im_issuer m))]
     @ opt_field ''credentialsSupported'' (\<lambda>cs. JArr (map credential_object_json cs)) (im_credentials_supported m))"

text \<open>A Credential Request may spawn a delivery, which runs later.\<close>

definition on_credential_request ::
    "('d, 'k, 'l, 't, 'w) platform \<Rightarrow> 'k app \<Rightarrow> tick \<Rightarrow> string option \<Rightarrow> credential_request_message
     \<Rightarrow> ('l, 'w) hub_process \<Rightarrow> ('l, 'w) served" where
  "on_credential_request P a tk hdr msg s =
     (case credential_request (pf_dcp P) (pf_network P) a hdr msg (tk_clock tk) (tk_uuid tk 0) (tk_uuid tk 1) (hp_state s) of
        ((tr, Inl r), t) \<Rightarrow> ((tr, Some r), s\<lparr>hp_state := t\<rparr>)
      | ((tr, Inr (r, spawned)), t) \<Rightarrow>
          ((tr, Some r), s\<lparr>hp_state := t, hp_deliveries := hp_deliveries s |\<union>| fset_of_list spawned\<rparr>))"

definition on_status_list ::
    "('d, 'k, 'l, 't, 'w) platform \<Rightarrow> 'k app \<Rightarrow> tick \<Rightarrow> ('l, 'w) hub_process \<Rightarrow> ('l, 'w) served" where
  "on_status_list P a tk s =
     (let i = h_issuer (hp_state s) in
      case serve_status_list (pf_dcp P) (pf_encode P) a (tk_clock tk 0) (s_issued i) of
        (jwt, ic) \<Rightarrow> answered_with (status_list_response jwt) (s\<lparr>hp_state := (hp_state s)\<lparr>h_issuer := i\<lparr>s_issued := ic\<rparr>\<rparr>\<rparr>))"

definition on_oid_credential ::
    "('d, 'k, 'l, 't, 'w) platform \<Rightarrow> 'k app \<Rightarrow> tick \<Rightarrow> string option \<Rightarrow> json \<Rightarrow> ('l, 'w) hub_process \<Rightarrow> ('l, 'w) served" where
  "on_oid_credential P a tk hdr body s =
     (let run = credential_endpoint (pf_codec P) (pf_dcp P) (pf_network P) (pf_jose P) (pf_chrono P) a (tk_clock tk) (tk_uuid tk)
            id hdr body (issuer_view s)
      in ((fst (fst run), answer run), from_issuer_view (snd run) s))"

fun serve :: "('d, 'k, 'l, 't, 'w) platform \<Rightarrow> 'k app \<Rightarrow> tick \<Rightarrow> hub_call \<Rightarrow> hub_endpoint \<Rightarrow> ('l, 'w) hub_process \<Rightarrow> ('l, 'w) served" where
  "serve P a tk c (DidDocument i) s =
     extracted (segment_of (pf_codec P) i) (\<lambda>seg. answered_with (did_document (public_xy (pf_jose P)) a seg)) s"
| "serve P a tk c StsToken s =
     extracted (sts_form_of (pf_codec P) (hc_body c))
       (\<lambda>form. answered_with (sts_token (pf_dcp P) a form (tk_clock tk 0) (tk_uuid tk 0) (tk_uuid tk 1))) s"
| "serve P a tk c PresentationsQuery s =
     extracted (query_message_of (pf_codec P) (hc_body c))
       (\<lambda>msg. on_tables (presentation_query (pf_dcp P) (pf_network P) (pf_serde P) (pf_arrange P) a
          (hc_authorization c) msg (tk_clock tk) (tk_uuid tk 0))) s"
| "serve P a tk c StorageWrite s =
     extracted (credential_message_of (pf_codec P) (hc_body c))
       (\<lambda>msg. on_tables (storage_write (pf_dcp P) (pf_network P) (pf_trust P) (pf_serde P) a
          (hc_authorization c) msg (tk_clock tk) (tk_uuid tk 0))) s"
| "serve P a tk c OfferDelivery s =
     extracted (offer_message_of (pf_codec P) (hc_body c))
       (\<lambda>msg. on_tables (credential_offer (pf_dcp P) (pf_network P) (pf_trust P) (pf_catalog_of P) a
          (hc_authorization c) msg (tk_clock tk) (tk_uuid tk 0))) s"
| "serve P a tk c CredentialRequests s =
     extracted (credential_request_of (pf_codec P) (hc_body c)) (on_credential_request P a tk (hc_authorization c)) s"
| "serve P a tk c (RequestStatus i) s =
     extracted (segment_of (pf_codec P) i) (\<lambda>pid s. answered_with (request_status pid (h_issuer (hp_state s))) s) s"
| "serve P a tk c DcpMetadata s =
     answered_with (resp_json 200 (dcp_metadata_json (issuer_metadata_handler a (h_issuer (hp_state s))))) s"
| "serve P a tk c RevocationList s = on_status_list P a tk s"
| "serve P a tk c OidIssuerMetadata s = on_oid P a IssuerMetadata s"
| "serve P a tk c OidServerMetadata s = on_oid P a ServerMetadata s"
| "serve P a tk c OidOffers s =
     extracted (create_offer_of (pf_codec P) (hc_body c))
       (\<lambda>body. on_oid P a (CreateOffer (tk_clock tk) \<lparr>od_code = tk_token tk 0, od_bits = tk_bits tk, od_offer_id = tk_uuid tk 0\<rparr>
          (hc_authorization c) body)) s"
| "serve P a tk c (OidOffer i) s =
     extracted (segment_of (pf_codec P) i) (\<lambda>offer_id. on_oid P a (OfferByReference (tk_clock tk 0) offer_id)) s"
| "serve P a tk c OidToken s =
     extracted (form_of (pf_codec P) (hc_body c)) (\<lambda>form. on_oid P a (Token (tk_clock tk) (tk_token tk 0) form)) s"
| "serve P a tk c OidNonce s = on_oid P a (Nonce (tk_clock tk 0) (tk_token tk 0)) s"
| "serve P a tk c OidCredential s =
     extracted (json_value_of (pf_codec P) (hc_body c)) (on_oid_credential P a tk (hc_authorization c)) s"
| "serve P a tk c WalletOffers s =
     extracted (redeem_body_of (pf_codec P) (hc_body c)) (\<lambda>body. on_wallet P a tk (PostOffer (hc_authorization c) body)) s"
| "serve P a tk c WalletCredentialOffer s =
     extracted (query_params_of (pf_codec P) (hc_query c)) (\<lambda>params. on_wallet P a tk (GetOffer params)) s"

text \<open>\<open>get\<close> serves HEAD as well, without the body.\<close>

definition without_body :: "('l, 'w) served \<Rightarrow> ('l, 'w) served" where
  "without_body run = (case run of ((tr, ans), s) \<Rightarrow> ((tr, map_option (\<lambda>r. r\<lparr>r_body := NoBody\<rparr>) ans), s))"

definition hub_router :: "('d, 'k, 'l, 't, 'w) platform \<Rightarrow> 'k app \<Rightarrow> tick \<Rightarrow> hub_call \<Rightarrow> ('l, 'w) hub_process \<Rightarrow> ('l, 'w) served" where
  "hub_router P a tk c s =
     (case hub_route (a_config a) (hc_path c) of
        None \<Rightarrow> answered_with (resp 404 NoBody) s
      | Some (mth, e) \<Rightarrow>
          if hc_method c = mth then serve P a tk c e s
          else if mth = ''GET'' \<and> hc_method c = ''HEAD'' then without_body (serve P a tk c e s)
          else answered_with (with_header ''allow'' (if mth = ''GET'' then ''GET,HEAD'' else mth) (resp 405 NoBody)) s)"

text \<open>
  What happens to a process: a request on its public listener, one on the Admin API's listener (which exists
  only when it was built), or the run of a spawned delivery.
\<close>

datatype hub_event = Public hub_call tick | AdminCall admin_request tick | Deliver string tick

definition admin_call ::
    "('d, 'k, 'l, 't, 'w) platform \<Rightarrow> 'k app \<Rightarrow> tick \<Rightarrow> admin_request \<Rightarrow> ('l, 'w) hub_process \<Rightarrow> ('l, 'w) served" where
  "admin_call P a tk r s =
     (if \<not> build_admin a then (([], None), s)
      else (case admin_router (admin_codec.truncate (pf_codec P)) a r (tk_uuid tk 0) (tk_clock tk 0) (h_issuer (hp_state s)) of
              None \<Rightarrow> (([], None), s)
            | Some (ans, i, spawned) \<Rightarrow>
                (([], Some ans), s\<lparr>hp_state := (hp_state s)\<lparr>h_issuer := i\<rparr>,
                   hp_deliveries := hp_deliveries s |\<union>| spawned\<rparr>)))"

definition run_delivery ::
    "('d, 'k, 'l, 't, 'w) platform \<Rightarrow> 'k app \<Rightarrow> tick \<Rightarrow> string \<Rightarrow> ('l, 'w) hub_process \<Rightarrow> ('l, 'w) served" where
  "run_delivery P a tk i s =
     (if i |\<notin>| hp_deliveries s then (([], None), s)
      else let s = s\<lparr>hp_deliveries := hp_deliveries s |-| {|i|}\<rparr> in
        (case deliver_issued_credential (pf_dcp P) (pf_network P) (pf_chrono P) a i (tk_clock tk) (tk_uuid tk) (tk_clock tk 0)
                (h_issuer (hp_state s)) of
           None \<Rightarrow> (([], None), s)
         | Some (tr, i) \<Rightarrow> ((tr, None), s\<lparr>hp_state := (hp_state s)\<lparr>h_issuer := i\<rparr>\<rparr>)))"

fun hub_step :: "('d, 'k, 'l, 't, 'w) platform \<Rightarrow> 'k app \<Rightarrow> hub_event \<Rightarrow> ('l, 'w) hub_process \<Rightarrow> ('l, 'w) served" where
  "hub_step P a (Public c tk) s = hub_router P a tk c s"
| "hub_step P a (AdminCall r tk) s = admin_call P a tk r s"
| "hub_step P a (Deliver i tk) s = run_delivery P a tk i s"


text \<open>A run: the URLs the process contacts and where it ends up.\<close>

fun hub_run :: "('d, 'k, 'l, 't, 'w) platform \<Rightarrow> 'k app \<Rightarrow> hub_event list \<Rightarrow> ('l, 'w) hub_process \<Rightarrow> string list \<times> ('l, 'w) hub_process" where
  "hub_run P a [] s = ([], s)"
| "hub_run P a (e # es) s =
     (case hub_step P a e s of ((tr, ans), s1) \<Rightarrow> (case hub_run P a es s1 of (tr', s') \<Rightarrow> (tr @ tr', s')))"

section \<open>Where the process connects\<close>

definition served_confined :: "('d, 'k, 'l, 't, 'w) platform \<Rightarrow> 'k app \<Rightarrow> ('l, 'w) served \<Rightarrow> bool" where
  "served_confined P a run \<longleftrightarrow> (\<forall>url \<in> set (fst (fst run)). allowed (pf_dcp P) (a_outbound a) url)"

lemma served_confined_simps [simp]:
  "served_confined P a (answered_with r s)" "served_confined P a (([], ans), s)" "served_confined P a (on_oid P a q s)"
  "served_confined P a (on_status_list P a tk s)" "served_confined P a (without_body run) = served_confined P a run"
  by (auto simp: served_confined_def answered_with_def on_oid_def on_status_list_def without_body_def Let_def split: prod.splits)

lemma extracted_confined: "(\<And>b. served_confined P a (k b s)) \<Longrightarrow> served_confined P a (extracted body k s)"
  by (simp add: extracted_def split: sum.split)

lemma sconfinedD: "sconfined D pol m \<Longrightarrow> \<forall>url \<in> set (fst (fst (m s))). allowed D pol url"
  by (simp add: sconfined_def confined_def)

lemma on_tables_confined: "sconfined (pf_dcp P) (a_outbound a) m \<Longrightarrow> served_confined P a (on_tables m s)"
  by (auto simp: served_confined_def on_tables_def sconfined_def confined_def split: prod.split) (metis fst_conv)

lemma storage_write_confined [hub_confined]:
  "resolves_through D N \<Longrightarrow> sconfined D (a_outbound a) (storage_write D N T S a hdr msg clock i)"
  unfolding storage_write_def by (intro sconfined_bind storage_checks_confined sconfined_modify)

lemma credential_offer_confined [hub_confined]:
  "resolves_through D N \<Longrightarrow> sconfined D (a_outbound a) (credential_offer D N T parse a hdr msg clock i)"
  unfolding credential_offer_def by (intro sconfined_bind offer_checks_confined sconfined_modify)

lemma credential_request_confined [hub_confined]:
  "resolves_through D N \<Longrightarrow> sconfined D (a_outbound a) (credential_request D N a hdr msg clock i j)"
  unfolding credential_request_def
  by (intro sconfined_bind authenticate_confined sconfined_return)
    (auto simp: sconfined_def confined_def io_pure_def split: sum.split prod.split)

lemma wallet_routes_confined:
  assumes "resolves_through D N"
  shows "\<forall>url \<in> set (fst (fst (wallet_routes C D N T S J a net clock uuid q s))). allowed D (a_outbound a) url"
proof -
  have "\<forall>url \<in> set (fst (fst (redeem C D N T S J a net clock uuid body s))). allowed D (a_outbound a) url" for body
    by (rule sconfinedD [OF redeem_confined [OF assms]])
  then show ?thesis
    by (cases q) (simp_all add: redeem_offer_def credential_offer_endpoint_def split_beta split: option.split sum.split)
qed

lemma deliver_confined:
  assumes "resolves_through D N" "suffix_keeps_host D"
    and "deliver_issued_credential D N X a i clock uuid now s = Some (tr, s')"
  shows "\<forall>url \<in> set tr. allowed D (a_outbound a) url"
  using try_deliver_confined [OF assms(1,2), where a = a and X = X] assms(3)
  by (auto simp: deliver_issued_credential_def Let_def sconfined_def confined_def split: option.splits sum.splits prod.splits)
    (metis fst_conv)+

lemma serve_confined:
  assumes "resolves_through (pf_dcp P) (pf_network P)"
  shows "served_confined P a (serve P a tk c e s)"
proof -
  have w: "served_confined P a (on_wallet P a tk q s)" for q
    using wallet_routes_confined [OF assms] by (simp add: on_wallet_def served_confined_def split_beta)
  have r: "served_confined P a (on_credential_request P a tk hdr msg s)" for hdr msg
    using sconfinedD [OF credential_request_confined [OF assms], of a hdr msg "tk_clock tk" "tk_uuid tk 0" "tk_uuid tk 1" "hp_state s"]
    by (auto simp: on_credential_request_def served_confined_def split: prod.split sum.split)
  have o: "served_confined P a (on_oid_credential P a tk hdr body s)" for hdr body
    unfolding on_oid_credential_def served_confined_def Let_def fst_conv by (rule sconfinedD [OF credential_endpoint_confined [OF assms]])
  show ?thesis
    by (cases e) (simp_all add: extracted_confined w r o on_tables_confined presentation_query_confined [OF assms]
        storage_write_confined [OF assms] credential_offer_confined [OF assms])
qed

text \<open>The URL parser matters to deliveries only, of which a Credential Service has none.\<close>

lemma hub_step_confined:
  assumes "resolves_through (pf_dcp P) (pf_network P)" "suffix_keeps_host (pf_dcp P) \<or> hp_deliveries s = {||}"
  shows "served_confined P a (hub_step P a e s)"
proof (cases e)
  case (Public c tk)
  then show ?thesis by (auto simp: hub_router_def serve_confined [OF assms(1)] split: option.split)
next
  case (AdminCall q tk)
  then show ?thesis by (auto simp: admin_call_def split: option.split)
next
  case (Deliver i tk)
  show ?thesis
  proof (cases "hp_deliveries s = {||}")
    case True
    with Deliver show ?thesis by (simp add: run_delivery_def served_confined_def)
  next
    case False
    with assms(2) Deliver show ?thesis
      by (auto simp: run_delivery_def Let_def served_confined_def dest: deliver_confined [OF assms(1)] split: option.split)
  qed
qed


section \<open>What a Credential Service stores, over a whole run\<close>

text \<open>A credential this service has checked, by the Storage API or as a wallet.\<close>

definition vouched :: "('d, 'k, 'l, 't, 'w) platform \<Rightarrow> 'k app \<Rightarrow> credential_container \<Rightarrow> bool" where
  "vouched P a c \<longleftrightarrow> (\<exists>now. container_vetted (pf_dcp P) (pf_network P) (pf_trust P) a now c)
     \<or> (\<exists>clock. wallet_vetted (pf_dcp P) (pf_network P) (pf_trust P) a clock c)"

text \<open>The store is well formed, has had at most \<open>n\<close> insertions, and holds only such credentials.\<close>

definition store_vouched :: "('d, 'k, 'l, 't, 'w) platform \<Rightarrow> 'k app \<Rightarrow> nat \<Rightarrow> graph \<Rightarrow> bool" where
  "store_vouched P a n g \<longleftrightarrow> graph_ok (pf_serde P) g \<and> next_order g \<le> n
     \<and> (\<forall>b \<in> set (store_all (pf_serde P) g). \<forall>c \<in> set (sb_credentials b). vouched P a c)"

definition custody_ok :: "('d, 'k, 'l, 't, 'w) platform \<Rightarrow> 'k app \<Rightarrow> nat \<Rightarrow> 'l registry_cache \<Rightarrow> graph \<Rightarrow> bool" where
  "custody_ok P a n reg g \<longleftrightarrow> trusted_cache (pf_trust P) a reg \<and> store_vouched P a n g"

lemma vouched_text: "vouched P a c \<Longrightarrow> \<exists>jws. cc_payload c = JStr jws"
  unfolding vouched_def container_vetted_def wallet_vetted_def by blast

lemma set_push: "set (push k x xs) \<subseteq> insert x (set xs)"
  unfolding push_def by (auto dest: in_set_dropD)

lemma store_vouched_batch:
  assumes "store_vouched P a n g" "n + 1 < u64_limit" "\<forall>jws. payload_exact (pf_serde P) (JStr jws)"
    and "\<forall>c \<in> set (sb_credentials b). vouched P a c"
  shows "store_vouched P a (Suc n) (store_batch (pf_serde P) i b g)"
proof -
  from assms(1,2) have ok: "graph_ok (pf_serde P) g" "next_order g + 1 < u64_limit" "next_order g \<le> n"
    by (simp_all add: store_vouched_def)
  have exact: "batch_exact (pf_serde P) b" using assms(3,4) vouched_text unfolding batch_exact_def by metis
  note st = store_batch_refines [OF ok(1,2) exact, of i]
  have "next_order (store_batch (pf_serde P) i b g) \<le> Suc n"
    using ok(2,3) by (simp add: store_batch_def add_batch_def Let_def u64_add_exact)
  with st assms(1,4) set_push [of MAX_CREDENTIAL_BATCHES b "store_all (pf_serde P) g"] show ?thesis
    unfolding store_vouched_def by auto
qed

lemma store_vouched_offer:
  assumes "store_vouched P a n g" "n + 1 < u64_limit"
  shows "store_vouched P a (Suc n) (snd (add_offer i no g))"
proof -
  from assms have ok: "graph_ok (pf_serde P) g" "next_order g + 1 < u64_limit" "next_order g \<le> n"
    by (simp_all add: store_vouched_def)
  have "next_order (snd (add_offer i no g)) \<le> Suc n"
    using ok(2,3) by (simp add: add_offer_def Let_def u64_add_exact)
  with add_offer_refines [OF ok(1,2), of i no] assms(1) show ?thesis
    unfolding store_vouched_def store_all_def by auto
qed

lemma store_vouched_mono: "store_vouched P a n g \<Longrightarrow> n \<le> m \<Longrightarrow> store_vouched P a m g"
  by (simp add: store_vouched_def)

text \<open>The registry cache stays trusted through the checks.\<close>

lemma checks_preserve:
  fixes s :: "'l hub_state"
  assumes "trusted_cache T a (h_registry s)"
  shows "trusted_cache T a (h_registry (snd (authenticate D N a hdr clock s)))"
    and "trusted_cache T a (h_registry (snd (storage_checks D N T a hdr msg clock s)))"
    and "trusted_cache T a (h_registry (snd (offer_checks D N T parse a hdr omsg clock s)))"
proof -
  let ?I = "\<lambda>s. trusted_cache T a (h_registry s)"
  have au: "guarantees ?I (authenticate D N a hdr clock) (\<lambda>_. True)"
    by (simp add: guarantees_def keepsD [OF auth_keeps(3)])
  have ti: "guarantees ?I (trust_issuer D N T a clock' iss types) (\<lambda>_. True)" for clock' iss types
    by (simp add: guarantees_def trust_issuer_cache)
  have tc: "guarantees ?I (trust_container D N T a clock' c) (\<lambda>_. True)" for clock' c
    by (simp add: guarantees_def trust_container_cache)
  have each: "(\<And>x. guarantees ?I (f x) (\<lambda>_. True)) \<Longrightarrow> guarantees ?I (sio_each f xs) (\<lambda>_. True)"
    for f :: "nat \<times> credential_container \<Rightarrow> ('l hub_state, unit, response) sio" and xs
    by (induction xs) (auto intro: guarantees_bind)
  show "?I (snd (authenticate D N a hdr clock s))" using guaranteesD [OF au assms] by simp
  have "guarantees ?I (storage_checks D N T a hdr msg clock) (\<lambda>_. True)"
    unfolding storage_checks_def
    by (intro guarantees_bind [OF au] guarantees_bind [OF ti]) (auto intro!: guarantees_bind each tc split: prod.split)
  from guaranteesD [OF this assms] show "?I (snd (storage_checks D N T a hdr msg clock s))" by simp
  have "guarantees ?I (offer_checks D N T parse a hdr omsg clock) (\<lambda>_. True)"
    unfolding offer_checks_def by (intro guarantees_bind [OF au] guarantees_bind [OF ti]) simp
  from guaranteesD [OF this assms] show "?I (snd (offer_checks D N T parse a hdr omsg clock s))" by simp
qed


lemma storage_write_custody:
  assumes "custody_ok P a n (h_registry s) (h_store s)" "n + 1 < u64_limit" "\<forall>jws. payload_exact (pf_serde P) (JStr jws)"
    and run: "snd (storage_write (pf_dcp P) (pf_network P) (pf_trust P) (pf_serde P) a hdr msg clock i s) = s'"
  shows "custody_ok P a (Suc n) (h_registry s') (h_store s')"
proof -
  let ?checks = "storage_checks (pf_dcp P) (pf_network P) (pf_trust P) a hdr msg clock s"
  have cache: "trusted_cache (pf_trust P) a (h_registry s)" "store_vouched P a n (h_store s)" using assms(1) by (simp_all add: custody_ok_def)
  have same: "h_store (snd ?checks) = h_store s" by (rule keepsD [OF storage_checks_keeps])
  note reg = checks_preserve(2) [OF cache(1), of "pf_dcp P" "pf_network P" hdr msg clock]
  show ?thesis
  proof (cases "snd (fst ?checks)")
    case (Inl r)
    then have "s' = snd ?checks" using run by (auto simp: storage_write_def sio_bind_state)
    with reg same cache(2) show ?thesis by (simp add: custody_ok_def store_vouched_mono)
  next
    case (Inr u)
    then have s': "h_store s' = store_batch (pf_serde P) i (message_batch msg) (h_store s)" "h_registry s' = h_registry (snd ?checks)"
      using run same by (auto simp: storage_write_def sio_bind_state)
    have "\<forall>c \<in> set (sb_credentials (message_batch msg)). vouched P a c"
      using storage_checks_Ok [OF Inr cache(1)] by (auto simp: vouched_def message_batch_def)
    from store_vouched_batch [OF cache(2) assms(2,3) this] reg s' show ?thesis by (simp add: custody_ok_def)
  qed
qed

lemma credential_offer_custody:
  assumes "custody_ok P a n (h_registry s) (h_store s)" "n + 1 < u64_limit"
    and run: "snd (credential_offer (pf_dcp P) (pf_network P) (pf_trust P) parse a hdr msg clock i s) = s'"
  shows "custody_ok P a (Suc n) (h_registry s') (h_store s')"
proof -
  let ?checks = "offer_checks (pf_dcp P) (pf_network P) (pf_trust P) parse a hdr msg clock s"
  have cache: "trusted_cache (pf_trust P) a (h_registry s)" "store_vouched P a n (h_store s)" using assms(1) by (simp_all add: custody_ok_def)
  have same: "h_store (snd ?checks) = h_store s" by (rule keepsD [OF offer_checks_keeps])
  note reg = checks_preserve(3) [OF cache(1), of "pf_dcp P" "pf_network P" parse hdr msg clock]
  show ?thesis
    using run reg same store_vouched_offer [OF cache(2) assms(2)] store_vouched_mono [OF cache(2), of "Suc n"]
    by (auto simp: credential_offer_def sio_bind_state custody_ok_def split: sum.splits)
qed

lemma store_harvest_effect:
  "snd (fst (store_harvest S uuid hv s)) = Ok ()" "wl_registry (snd (store_harvest S uuid hv s)) = wl_registry s"
  "wl_store (snd (store_harvest S uuid hv s)) = (if hv_containers hv = [] then wl_store s
     else store_batch S (uuid (Suc (wl_draws s))) (redeemed_batch (uuid (wl_draws s)) (hv_containers hv)) (wl_store s))"
  by (simp_all add: store_harvest_def sio_bind_result sio_bind_state draw_uuid_def)

lemma redeem_custody:
  fixes P :: "('d, 'k, 'l, 't, 'w) platform" and s :: "('l, 'w) wallet_state"
  assumes "custody_ok P a n (wl_registry s) (wl_store s)" "n + 1 < u64_limit" "\<forall>jws. payload_exact (pf_serde P) (JStr jws)"
    and run: "snd (redeem (pf_codec P) (pf_dcp P) (pf_network P) (pf_trust P) (pf_serde P) (pf_jose P) a net clock uuid body s) = s'"
  shows "custody_ok P a (Suc n) (wl_registry s') (wl_store s')"
proof -
  let ?run = "redeem_credentials (pf_codec P) (pf_dcp P) (pf_network P) (pf_trust P) (pf_jose P) a net clock uuid body s"
  have cache: "trusted_cache (pf_trust P) a (wl_registry s)" "store_vouched P a n (wl_store s)" using assms(1) by (simp_all add: custody_ok_def)
  have g: "pending (pf_trust P) a (wl_store s) (snd ?run)"
      "\<And>offer hv. snd (fst ?run) = Ok (offer, hv) \<Longrightarrow> harvest_vetted (pf_dcp P) (pf_network P) (pf_trust P) a clock hv"
    using guaranteesD [OF redeem_credentials_guarantees [of "pf_trust P" a "wl_store s" "pf_codec P" "pf_dcp P" "pf_network P" "pf_jose P"
        net clock uuid body], of s] cache(1)
    by (auto simp: pending_def)
  then have same: "wl_store (snd ?run) = wl_store s" "trusted_cache (pf_trust P) a (wl_registry (snd ?run))" by (simp_all add: pending_def)
  show ?thesis
  proof (cases "snd (fst ?run)")
    case (Inl e)
    then have "s' = snd ?run" using run by (simp add: redeem_def sio_bind_state)
    with same cache(2) show ?thesis by (simp add: custody_ok_def store_vouched_mono)
  next
    case (Inr v)
    obtain offer hv where v: "v = (offer, hv)" by (cases v)
    have vetted: "\<forall>c \<in> set (sb_credentials (redeemed_batch pid (hv_containers hv))). vouched P a c" for pid
      using g(2) [OF Inr [unfolded v]] by (auto simp: redeemed_batch_def harvest_vetted_def vouched_def)
    have s': "s' = snd (store_harvest (pf_serde P) uuid hv (snd ?run))" using run Inr v by (auto simp: redeem_def sio_bind_state store_harvest_effect)
    have "wl_registry s' = wl_registry (snd ?run)" unfolding s' by (rule store_harvest_effect(2))
    moreover have "store_vouched P a (Suc n) (wl_store s')"
      unfolding s' store_harvest_effect same(1) using store_vouched_batch [OF cache(2) assms(2,3) vetted] store_vouched_mono [OF cache(2)] by simp
    ultimately show ?thesis using same(2) by (simp add: custody_ok_def)
  qed
qed


lemma credential_service_endpoints:
  assumes "cfg_mode c = CredentialService" "hub_route c p = Some (m, e)"
  shows "e \<in> {StsToken, PresentationsQuery, StorageWrite, OfferDelivery, WalletOffers, WalletCredentialOffer} \<union> range DidDocument"
  using assms by (auto simp: hub_route_def credential_service_route_def oid_route_def split: if_splits option.splits list.splits)

text \<open>What holds of a Credential Service after at most \<open>n\<close> events.\<close>

definition service_ok :: "('d, 'k, 'l, 't, 'w) platform \<Rightarrow> 'k app \<Rightarrow> nat \<Rightarrow> ('l, 'w) hub_process \<Rightarrow> bool" where
  "service_ok P a n s \<longleftrightarrow> custody_ok P a n (h_registry (hp_state s)) (h_store (hp_state s)) \<and> hp_deliveries s = {||}"

lemma custody_ok_mono: "custody_ok P a n reg g \<Longrightarrow> custody_ok P a (Suc n) reg g"
  by (auto simp: custody_ok_def elim: store_vouched_mono)

lemma service_ok_mono: "service_ok P a n s \<Longrightarrow> service_ok P a (Suc n) s"
  by (simp add: service_ok_def custody_ok_mono)

lemma answered_ok: "service_ok P a n s \<Longrightarrow> service_ok P a (Suc n) (snd (answered_with r s))"
  by (simp add: answered_with_def service_ok_mono)

lemma extracted_ok:
  "service_ok P a n s \<Longrightarrow> (\<And>b. service_ok P a (Suc n) (snd (k b s))) \<Longrightarrow> service_ok P a (Suc n) (snd (extracted body k s))"
  by (simp add: extracted_def answered_ok split: sum.split)

lemma on_tables_ok:
  assumes "service_ok P a n s"
    and "custody_ok P a (Suc n) (h_registry (snd (m (hp_state s)))) (h_store (snd (m (hp_state s))))"
  shows "service_ok P a (Suc n) (snd (on_tables m s))"
  using assms by (simp add: on_tables_def service_ok_def split_beta)

lemma on_wallet_ok:
  assumes "service_ok P a n s" "n + 1 < u64_limit" "\<forall>jws. payload_exact (pf_serde P) (JStr jws)"
  shows "service_ok P a (Suc n) (snd (on_wallet P a tk q s))"
proof -
  let ?run = "wallet_routes (pf_codec P) (pf_dcp P) (pf_network P) (pf_trust P) (pf_serde P) (pf_jose P) a (pf_servers P)
      (tk_clock tk) (tk_uuid tk) q (wallet_view s)"
  have start: "custody_ok P a n (wl_registry (wallet_view s)) (wl_store (wallet_view s))" "hp_deliveries s = {||}"
    using assms(1) by (simp_all add: service_ok_def wallet_view_def)
  note redeemed = redeem_custody [OF start(1) assms(2,3) refl]
  have stay: "custody_ok P a (Suc n) (wl_registry (wallet_view s)) (wl_store (wallet_view s))"
    using start(1) by (rule custody_ok_mono)
  have "custody_ok P a (Suc n) (wl_registry (snd ?run)) (wl_store (snd ?run))"
    by (cases q) (simp_all add: redeem_offer_def credential_offer_endpoint_def split_beta redeemed stay split: option.split sum.split)
  then show ?thesis using start(2) by (simp add: on_wallet_def service_ok_def split_beta)
qed

lemma presentation_query_keeps_registry: "keeps h_registry (presentation_query D N S arrange a hdr msg clock jti)"
  unfolding presentation_query_def
  by (intro keeps_bind auth_keeps keeps_simps) (simp add: keeps_def)

lemma service_step:
  assumes cs: "cfg_mode (a_config a) = CredentialService" and ok: "service_ok P a n s"
    and room: "n + 1 < u64_limit" and exact: "\<forall>jws. payload_exact (pf_serde P) (JStr jws)"
  shows "service_ok P a (Suc n) (snd (hub_step P a e s))"
proof (cases e)
  case (Public c tk)
  have start: "custody_ok P a n (h_registry (hp_state s)) (h_store (hp_state s))" using ok by (simp add: service_ok_def)
  have served: "service_ok P a (Suc n) (snd (serve P a tk c e' s))" if "hub_route (a_config a) (hc_path c) = Some (m, e')" for m e'
  proof -
    have query: "custody_ok P a (Suc n) (h_registry (snd (m (hp_state s)))) (h_store (snd (m (hp_state s))))"
      if "m = presentation_query (pf_dcp P) (pf_network P) (pf_serde P) (pf_arrange P) a hdr msg clock i" for m hdr msg clock i
      using custody_ok_mono [OF start] unfolding that
      by (simp add: keepsD [OF presentation_query_keeps] keepsD [OF presentation_query_keeps_registry])
    from credential_service_endpoints [OF cs that]
    consider i where "e' = DidDocument i" | "e' = StsToken" | "e' = PresentationsQuery" | "e' = StorageWrite" | "e' = OfferDelivery"
      | "e' = WalletOffers" | "e' = WalletCredentialOffer" by blast
    then show ?thesis
    proof cases
      case 3
      show ?thesis unfolding 3 serve.simps
        by (rule extracted_ok [OF ok], rule on_tables_ok [OF ok], rule query [OF refl])
    next
      case 4
      show ?thesis unfolding 4 serve.simps
        by (rule extracted_ok [OF ok], rule on_tables_ok [OF ok], rule storage_write_custody [OF start room exact refl])
    next
      case 5
      show ?thesis unfolding 5 serve.simps
        by (rule extracted_ok [OF ok], rule on_tables_ok [OF ok], rule credential_offer_custody [OF start room refl])
    qed (auto intro!: extracted_ok answered_ok on_wallet_ok room exact ok)
  qed
  have "service_ok P a (Suc n) (snd (without_body run))" if "service_ok P a (Suc n) (snd run)" for run
    using that by (simp add: without_body_def split_beta)
  with served ok show ?thesis unfolding Public
    by (auto simp: hub_router_def intro!: answered_ok split: option.split)
next
  case (AdminCall q tk)
  then show ?thesis using cs ok by (simp add: admin_call_def build_admin_def service_ok_mono)
next
  case (Deliver i tk)
  then show ?thesis using ok by (simp add: run_delivery_def service_ok_mono) (simp add: service_ok_def)
qed


lemma hub_run_append: "hub_run P a (es @ es') s = (let (tr, s1) = hub_run P a es s; (tr', s2) = hub_run P a es' s1 in (tr @ tr', s2))"
  by (induction es arbitrary: s) (simp_all add: split_beta Let_def)

lemma hub_run_snoc: "snd (hub_run P a (es @ [e]) s) = snd (hub_step P a e (snd (hub_run P a es s)))"
  by (simp add: hub_run_append split_beta Let_def)

lemma hub_run_confined:
  assumes "resolves_through (pf_dcp P) (pf_network P)" "suffix_keeps_host (pf_dcp P)"
  shows "\<forall>url \<in> set (fst (hub_run P a es s)). allowed (pf_dcp P) (a_outbound a) url"
  by (induction es arbitrary: s) (use hub_step_confined [OF assms(1)] assms(2) in \<open>auto simp: served_confined_def split_beta\<close>)

lemma hub_start_ok:
  assumes "hub_start now w = Some s"
  shows "service_ok P a 0 s"
proof -
  have "store_all S store_new = []" for S :: serde by code_simp
  moreover have "graph_ok S store_new" "next_order store_new = 0" for S
    using graph_ok_open by (simp_all add: store_new_def) (simp add: graph_open_def)
  moreover have "h_store (hp_state s) = store_new" "h_registry (hp_state s) = None" "hp_deliveries s = {||}"
    using assms by (auto simp: hub_start_def)
  ultimately show ?thesis
    by (simp add: service_ok_def custody_ok_def store_vouched_def trusted_cache_def cache_ok_def)
qed

lemma service_run:
  assumes cs: "cfg_mode (a_config a) = CredentialService" and start: "hub_start now w = Some s0"
    and room: "length es < u64_limit" and exact: "\<forall>jws. payload_exact (pf_serde P) (JStr jws)"
  shows "service_ok P a (length es) (snd (hub_run P a es s0))"
  using room
proof (induction es rule: rev_induct)
  case Nil
  show ?case using hub_start_ok [OF start] by simp
next
  case (snoc e es)
  then have "service_ok P a (length es) (snd (hub_run P a es s0))" "length es + 1 < u64_limit" by simp_all
  from service_step [OF cs this exact, of e] show ?case by (simp add: hub_run_snoc)
qed


lemma service_run_confined:
  assumes cs: "cfg_mode (a_config a) = CredentialService" and start: "hub_start now w = Some s0"
    and room: "length es < u64_limit" and exact: "\<forall>jws. payload_exact (pf_serde P) (JStr jws)"
    and law: "resolves_through (pf_dcp P) (pf_network P)"
  shows "\<forall>url \<in> set (fst (hub_run P a es s0)). allowed (pf_dcp P) (a_outbound a) url"
  using room
proof (induction es rule: rev_induct)
  case (snoc e es)
  then have "service_ok P a (length es) (snd (hub_run P a es s0))" using service_run [OF cs start _ exact] by simp
  then have "served_confined P a (hub_step P a e (snd (hub_run P a es s0)))"
    using hub_step_confined [OF law] by (simp add: service_ok_def)
  with snoc show ?case by (auto simp: hub_run_append served_confined_def split_beta Let_def)
qed simp

text \<open>
  C8. What a Credential Service has in store, it has checked: in any state its process can be in, after any
  sequence of requests on its listeners and of spawned work, every stored credential passed the proof and
  claim checks of the Storage API, or those of a redemption by this wallet; and the process has contacted
  allowed hosts only.
\<close>

theorem stored_credentials_vouched:
  fixes P :: "('d, 'k, 'l, 't, 'w) platform"
  assumes mode: "cfg_mode (a_config a) = CredentialService" and start: "hub_start now w = Some s0"
    and room: "length es < u64_limit" and exact: "\<forall>jws. payload_exact (pf_serde P) (JStr jws)"
    and law: "resolves_through (pf_dcp P) (pf_network P)"
    and run: "hub_run P a es s0 = (contacted, s)"
  shows "(\<forall>b \<in> set (store_all (pf_serde P) (h_store (hp_state s))). \<forall>c \<in> set (sb_credentials b). vouched P a c)
    \<and> (\<forall>url \<in> set contacted. allowed (pf_dcp P) (a_outbound a) url)"
proof -
  have "service_ok P a (length es) s" using service_run [OF mode start room exact] run by simp
  moreover have "\<forall>url \<in> set contacted. allowed (pf_dcp P) (a_outbound a) url"
    using service_run_confined [OF mode start room exact law] run by simp
  ultimately show ?thesis by (simp add: service_ok_def custody_ok_def store_vouched_def)
qed

text \<open>An extractor that rejects a body never answers 200.\<close>

definition rejections_fail :: "body_codec \<Rightarrow> bool" where
  "rejections_fail C \<longleftrightarrow> (\<forall>body r. query_message_of C body = Inl r \<longrightarrow> r_status r \<noteq> 200)"

text \<open>The request a holder's counterpart makes of the Resolution API.\<close>

lemma presentation_route:
  assumes "cfg_mode c = CredentialService"
  shows "hub_route c [''presentations'', ''query''] = Some (''POST'', PresentationsQuery)"
  using assms by (simp add: hub_route_def credential_service_route_def)

text \<open>
  C9. From storage to presentation: whatever a Credential Service was asked before, when it answers 200 to
  a presentation query, its caller proved its DID with an ID token not seen before, and the answer is one
  presentation, signed for that caller, of credentials that this service had checked when it stored them,
  that are of types the query names and a token of its own token service grants to this caller, and that are
  inside their validity window.
\<close>

theorem presentations_vouched:
  fixes P :: "('d, 'k, 'l, 't, 'w) platform"
  assumes mode: "cfg_mode (a_config a) = CredentialService" and start: "hub_start now w = Some s0"
    and room: "length es < u64_limit" and exact: "\<forall>jws. payload_exact (pf_serde P) (JStr jws)"
    and arr: "permutes (pf_arrange P)" and rej: "rejections_fail (pf_codec P)"
    and s: "s = snd (hub_run P a es s0)"
    and call: "hc_method c = ''POST''" "hc_path c = [''presentations'', ''query'']"
    and run: "hub_step P a (Public c tk) s = ((tr, Some r), s')" "r_status r = 200"
  shows "\<exists>msg claims cs. query_message_of (pf_codec P) (hc_body c) = Ok msg
    \<and> envelope_valid (pf_dcp P) (pf_network P) (hc_authorization c) (own_did (a_identity a)) (insecure_http (a_config a)) (a_outbound a)
        (tk_clock tk 0) (tk_clock tk 1) (tk_clock tk 2) claims
    \<and> (\<forall>j. get_str claims ''jti'' = Some j \<longrightarrow> j |\<notin>| seen (h_seen (hp_state s)))
    \<and> r = resp_json 200 (presentation_response_json (presentation_response_new
        [build_presentation (pf_dcp P) a (str_claim claims ''iss'') cs (tk_clock tk 5) (tk_uuid tk 0)]))
    \<and> (\<forall>c \<in> set cs. disclosable (pf_dcp P) (pf_serde P) a (h_store (hp_state s)) msg claims (tk_clock tk) c \<and> vouched P a c)"
proof -
  let ?query = "\<lambda>msg. presentation_query (pf_dcp P) (pf_network P) (pf_serde P) (pf_arrange P) a
      (hc_authorization c) msg (tk_clock tk) (tk_uuid tk 0) (hp_state s)"
  have custody: "custody_ok P a (length es) (h_registry (hp_state s)) (h_store (hp_state s))"
    using service_run [OF mode start room exact] s by (simp add: service_ok_def)
  from run call rej obtain msg where msg: "query_message_of (pf_codec P) (hc_body c) = Ok msg" and r: "r = respond (?query msg)"
    by (auto simp: hub_router_def presentation_route [OF mode] extracted_def answered_with_def on_tables_def rejections_fail_def
        split: sum.splits prod.splits)
  have "snd (fst (?query msg)) = Ok r"
  proof (cases "snd (fst (?query msg))")
    case (Inl e)
    then show ?thesis using refusesD [OF presentation_query_refuses Inl] r run(2) by (simp add: respond_def split_beta)
  next
    case (Inr x)
    then show ?thesis using r by (simp add: respond_def split_beta)
  qed
  then obtain claims types where au: "snd (fst (authenticate (pf_dcp P) (pf_network P) a (hc_authorization c) (tk_clock tk) (hp_state s))) = Ok claims"
    and granted: "granted_credential_types (pf_dcp P) a claims (str_claim claims ''iss'') (tk_clock tk 3) = Ok types"
    and resp: "r = resp_json 200 (presentation_response_json (presentation_response_new [build_presentation (pf_dcp P) a (str_claim claims ''iss'')
         (presented (pf_dcp P) (pf_serde P) (pf_arrange P) a (h_store (hp_state s)) msg types (tk_clock tk)) (tk_clock tk 5) (tk_uuid tk 0)]))"
    by (rule presentation_query_Ok)
  have graph: "graph_ok (pf_serde P) (h_store (hp_state s))" using custody by (simp add: custody_ok_def store_vouched_def)
  have stored: "vouched P a c'" if "disclosable (pf_dcp P) (pf_serde P) a (h_store (hp_state s)) msg claims (tk_clock tk) c'" for c'
    using that custody by (auto simp: disclosable_def custody_ok_def store_vouched_def)
  from presented_disclosable [where clock = "tk_clock tk", OF graph arr granted] stored msg au resp show ?thesis
    by (intro exI conjI ballI) (auto simp: authenticate_Ok)
qed


section \<open>Witnesses\<close>

text \<open>A platform of the sample parameters, whose extractors read a fixed message of each kind.\<close>

definition sample_body_codec :: body_codec where
  "sample_body_codec = wallet_codec.extend sample_wallet_codec
     \<lparr>sts_form_of = (\<lambda>_. Err (resp 422 NoBody)),
      query_message_of = (\<lambda>_. Ok \<lparr>pq_context = [], pq_type = ''PresentationQueryMessage'', pq_scope = [SCOPE_ALIAS @ ''T''], pq_definition = None\<rparr>),
      credential_message_of = (\<lambda>_. Ok sample_message), offer_message_of = (\<lambda>_. Err (resp 422 NoBody)),
      credential_request_of = (\<lambda>_. Ok sample_request), create_offer_of = (\<lambda>_. Ok None), form_of = (\<lambda>_. Err (resp 422 NoBody)),
      json_value_of = (\<lambda>_. Err (resp 400 NoBody)), redeem_body_of = (\<lambda>_. Ok sample_redeem_body), query_params_of = (\<lambda>_. Ok Map.empty),
      segment_of = Ok\<rparr>"

definition sample_platform :: "(string list, string, nat, int, unit) platform" where
  "sample_platform = \<lparr>pf_dcp = sample_dcp sample_decode, pf_network = sample_network, pf_trust = sample_trust, pf_serde = sample_serde,
     pf_jose = sample_key_jose, pf_chrono = sample_chrono, pf_codec = sample_body_codec, pf_arrange = rev,
     pf_catalog_of = (\<lambda>_. Err ''no''), pf_encode = (\<lambda>_. []), pf_servers = sample_servers\<rparr>"

lemma sample_platform_simps [simp]:
  "pf_dcp sample_platform = sample_dcp sample_decode" "pf_network sample_platform = sample_network"
  "pf_trust sample_platform = sample_trust" "pf_serde sample_platform = sample_serde" "pf_codec sample_platform = sample_body_codec"
  "pf_arrange sample_platform = rev"
  "query_message_of sample_body_codec b
     = Ok \<lparr>pq_context = [], pq_type = ''PresentationQueryMessage'', pq_scope = [SCOPE_ALIAS @ ''T''], pq_definition = None\<rparr>"
  "credential_message_of sample_body_codec b = Ok sample_message" "credential_request_of sample_body_codec b = Ok sample_request"
  by (simp_all add: sample_platform_def sample_body_codec_def wallet_codec.defs)

definition sample_tick :: "nat \<Rightarrow> tick" where
  "sample_tick n = \<lparr>tk_clock = (\<lambda>_. 1010), tk_uuid = (\<lambda>k. sample_uuid (2 * k + n)), tk_token = (\<lambda>_. ''t''), tk_bits = 0\<rparr>"

definition sample_call :: "string list \<Rightarrow> hub_call" where
  "sample_call path = \<lparr>hc_method = ''POST'', hc_path = path, hc_query = [], hc_authorization = Some ''Bearer k1.token'', hc_body = []\<rparr>"

definition sample_start :: "(nat, unit) hub_process" where
  "sample_start = the (hub_start 7 ())"

lemma sample_start_simps [simp]:
  "hub_start 7 () = Some sample_start" "h_store (hp_state sample_start) = store_new" "h_registry (hp_state sample_start) = None"
  "h_seen (hp_state sample_start) = seen_new MAX_SEEN_JTI"
  "h_issuer (hp_state sample_start) = \<lparr>s_definitions = sample_catalog, s_holders = registry_default,
     s_requests = rt_new MAX_TRACKED_REQUESTS, s_issued = issued_default\<rparr>" "hp_deliveries sample_start = {||}"
  by (simp_all add: sample_start_def hub_start_def sample_seeded)

lemma sample_mode [simp]: "cfg_mode (a_config sample_hub) = CredentialService"
  by (simp add: sample_hub_def sample_config_def)

lemma sample_exact: "\<forall>jws. payload_exact (pf_serde sample_platform) (JStr jws)"
  by (simp add: payload_exact_def sample_serde_def)

text \<open>The sample caller's token is good for any service with this identity that has not seen it.\<close>

lemma sample_caller:
  assumes "h_seen s = seen_new n" "own_did (a_identity a) = ''did:web:hub''" "insecure_http (a_config a)" "a_outbound a = a_outbound sample_hub"
  shows "snd (fst (authenticate (sample_dcp sample_decode) sample_network a (Some ''Bearer k1.token'') (\<lambda>_. 1010) s)) = Ok sample_payload"
  unfolding authenticate_Ok
  using sample_envelope_valid_under [of sample_decode "a_outbound sample_hub", OF _ sample_hub_allowed] assms
  by (simp add: sample_decode_def seen_new_def)

text \<open>A run that stores a credential.\<close>

lemma sample_write:
  fixes s :: "'l hub_state"
  assumes "h_seen s = seen_new n"
  shows "snd (fst (storage_checks (sample_dcp sample_decode) sample_network T sample_hub
    (Some ''Bearer k1.token'') sample_message (\<lambda>_. 1010) s)) = Ok ()"
proof -
  let ?D = "sample_dcp sample_decode"
  have reg: "\<not> registry_configured sample_hub" by (simp add: registry_configured_def)
  have iss: "caller sample_payload = ''did:web:caller.example''" by (simp add: caller_def sample_payload_def str_claim_def)
  have trusted: "snd (fst (trust_issuer ?D sample_network T sample_hub cl ''did:web:caller.example'' ts st)) = Ok ()" for cl ts st
    by (simp add: trust_issuer_Ok static_check_issuer [OF reg])
  show ?thesis
    unfolding storage_checks_def sio_bind_result
    using sample_caller [OF assms, of sample_hub] sample_container_passes reg iss trusted
    by (simp add: sample_message_def validate_status_def check_known_holder_pid_def verify_credential_proofs_def
        check_credential_claims_def snd_io_bind)
qed

theorem stored_credentials_vouched_witness:
  "let s = snd (hub_run sample_platform sample_hub [Public (sample_call [''credentials'']) (sample_tick 0)] sample_start)
   in store_all sample_serde (h_store (hp_state s)) = [message_batch sample_message]
      \<and> sb_credentials (message_batch sample_message) = [sample_container] \<and> vouched sample_platform sample_hub sample_container"
proof -
  let ?es = "[Public (sample_call [''credentials'']) (sample_tick 0)]"
  let ?D = "sample_dcp sample_decode"
  obtain contacted s where run: "hub_run sample_platform sample_hub ?es sample_start = (contacted, s)" by fastforce
  have law: "resolves_through (pf_dcp sample_platform) (pf_network sample_platform)"
    using sample_resolves by simp
  have room: "length ?es < u64_limit" by (simp add: u64_limit_def)
  note claim = stored_credentials_vouched [OF sample_mode sample_start_simps(1) room sample_exact law run]
  have route: "hub_route (a_config sample_hub) [''credentials''] = Some (''POST'', StorageWrite)"
    by (simp add: hub_route_def credential_service_route_def)
  have ok: "snd (fst (storage_checks ?D sample_network sample_trust sample_hub (Some ''Bearer k1.token'') sample_message (\<lambda>_. 1010) (hp_state sample_start))) = Ok ()"
    by (rule sample_write) simp
  have st: "h_store (hp_state s) = store_batch sample_serde (sample_uuid 0) (message_batch sample_message) store_new"
    using ok keepsD [OF storage_checks_keeps, of ?D sample_network sample_trust sample_hub "Some ''Bearer k1.token''" sample_message "\<lambda>_. 1010" "hp_state sample_start"]
      arg_cong [OF run, of snd]
    by (simp add: split_beta hub_router_def route sample_call_def sample_tick_def extracted_def on_tables_def storage_write_def sio_bind_state)
      (auto simp: sio_bind_state)
  have all: "store_all sample_serde (h_store (hp_state s)) = [message_batch sample_message]"
  proof -
    have "next_order store_new + 1 < u64_limit" by (simp add: store_new_def graph_open_def u64_limit_def)
    moreover have "batch_exact sample_serde (message_batch sample_message)"
      by (simp add: batch_exact_def payload_exact_def sample_serde_def message_batch_def sample_message_def sample_container_def)
    moreover have "graph_ok sample_serde store_new" by (simp add: store_new_def graph_ok_open)
    moreover have "store_all sample_serde store_new = []" by code_simp
    ultimately show ?thesis
      unfolding st using store_batch_refines [of sample_serde store_new "message_batch sample_message" "sample_uuid 0"]
      by (simp add: push_def MAX_CREDENTIAL_BATCHES_def)
  qed
  have "sb_credentials (message_batch sample_message) = [sample_container]" by (simp add: message_batch_def sample_message_def)
  with claim all run show ?thesis by (simp add: Let_def)
qed


lemma sample_query:
  fixes s :: "'l hub_state"
  assumes "h_seen s = seen_new n" "query_shape msg = Ok ()"
  shows "\<exists>r. snd (fst (presentation_query (sample_dcp sample_decode) sample_network sample_serde arrange sample_hub (Some ''Bearer k1.token'')
    msg (\<lambda>_. 1010) jti s)) = Ok r \<and> r_status r = 200"
proof -
  let ?run = "presentation_query (sample_dcp sample_decode) sample_network sample_serde arrange sample_hub (Some ''Bearer k1.token'') msg (\<lambda>_. 1010) jti s"
  have "get_str sample_payload ''token'' = None" by (simp add: sample_payload_def)
  then have "granted_credential_types (sample_dcp sample_decode) sample_hub sample_payload iss t = Ok []" for iss t
    by (simp add: granted_credential_types_def)
  then have "is_ok (snd (fst ?run))"
    unfolding presentation_query_def sio_bind_result using sample_caller [OF assms(1), of sample_hub] assms(2) by (simp add: Let_def)
  then obtain r where r: "snd (fst ?run) = Ok r" by (cases "snd (fst ?run)") auto
  then have "r_status r = 200" by (rule presentation_query_Ok) simp
  with r show ?thesis by blast
qed

theorem presentations_vouched_witness:
  "let s = snd (hub_run sample_platform sample_hub [Public (sample_call [''offers'']) (sample_tick 0)] sample_start)
   in \<exists>tr r s' claims cs. hub_step sample_platform sample_hub (Public (sample_call [''presentations'', ''query'']) (sample_tick 1)) s = ((tr, Some r), s')
      \<and> r_status r = 200 \<and> get_str claims ''iss'' = Some ''did:web:caller.example''
      \<and> r = resp_json 200 (presentation_response_json (presentation_response_new
          [build_presentation (sample_dcp sample_decode) sample_hub (str_claim claims ''iss'') cs 1010 (sample_uuid 1)]))
      \<and> (\<forall>c \<in> set cs. vouched sample_platform sample_hub c)"
proof -
  let ?es = "[Public (sample_call [''offers'']) (sample_tick 0)]"
  let ?c = "sample_call [''presentations'', ''query'']"
  define s where "s = snd (hub_run sample_platform sample_hub ?es sample_start)"
  have "hub_route (a_config sample_hub) [''offers''] = Some (''POST'', OfferDelivery)"
    by (simp add: hub_route_def credential_service_route_def)
  then have same: "s = sample_start"
    by (simp add: s_def hub_router_def sample_call_def extracted_def answered_with_def sample_body_codec_def wallet_codec.defs split_beta)
  let ?msg = "\<lparr>pq_context = [], pq_type = ''PresentationQueryMessage'', pq_scope = [SCOPE_ALIAS @ ''T''], pq_definition = None\<rparr>"
  let ?q = "presentation_query (sample_dcp sample_decode) sample_network sample_serde rev sample_hub (Some ''Bearer k1.token'') ?msg
      (\<lambda>_. 1010) (sample_uuid 1) (hp_state s)"
  have shape: "query_shape ?msg = Ok ()" by (simp add: query_shape_def)
  obtain r where r: "snd (fst ?q) = Ok r" "r_status r = 200"
    using sample_query [OF _ shape, of "hp_state s" MAX_SEEN_JTI rev "sample_uuid 1"] same by auto
  have run: "hub_step sample_platform sample_hub (Public ?c (sample_tick 1)) s = ((fst (fst ?q), Some r), s\<lparr>hp_state := snd ?q\<rparr>)"
    using r(1) by (simp add: hub_router_def presentation_route sample_call_def sample_tick_def extracted_def on_tables_def split_beta respond_def)
  have call: "hc_method ?c = ''POST''" "hc_path ?c = [''presentations'', ''query'']" by (simp_all add: sample_call_def)
  have room: "length ?es < u64_limit" by (simp add: u64_limit_def)
  have arr: "permutes (pf_arrange sample_platform)" by (simp add: permutes_def)
  have rej: "rejections_fail (pf_codec sample_platform)" by (simp add: rejections_fail_def)
  from presentations_vouched [OF sample_mode sample_start_simps(1) room sample_exact arr rej s_def call run r(2)]
  obtain claims cs where env: "envelope_valid (sample_dcp sample_decode) sample_network (Some ''Bearer k1.token'') ''did:web:hub'' True
      (a_outbound sample_hub) 1010 1010 1010 claims"
    and resp: "r = resp_json 200 (presentation_response_json (presentation_response_new
          [build_presentation (sample_dcp sample_decode) sample_hub (str_claim claims ''iss'') cs 1010 (sample_uuid 1)]))"
    and each: "\<forall>c \<in> set cs. vouched sample_platform sample_hub c"
    by (auto simp: sample_call_def sample_tick_def)
  from env have "claims = sample_payload"
    unfolding envelope_valid_def by (auto simp: sample_dcp_def sample_decode_def split: if_splits)
  then have iss: "get_str claims ''iss'' = Some ''did:web:caller.example''" by (simp add: sample_payload_def)
  show ?thesis
    unfolding Let_def s_def [symmetric] run using r(2) resp each iss by (intro exI conjI) (rule refl | assumption)+
qed

end
