(* ===== verification/Hub_Issuer.thy ===== *)
theory Hub_Issuer
  imports Hub
begin

text \<open>
  The hub as an issuer, over a whole run: between events every state of its tables is one the issuer's state
  machine (\<open>Issuance\<close>) can reach, whatever requests it was sent, and its unfinished tasks are exactly the
  deliveries that are spawned and have not run.
\<close>

section \<open>Identifiers\<close>

text \<open>
  The identifiers an event may bring into the tables: the UUIDs it draws, and the id an operator chooses for
  a holder. No UUID was in use before it is drawn.
\<close>

fun event_ids :: "('d, 'k, 'l, 't, 'w) platform \<Rightarrow> hub_event \<Rightarrow> string set" where
  "event_ids P (Public c tk) = range (tk_uuid tk)"
| "event_ids P (AdminCall q tk) = registered_ids (admin_codec.truncate (pf_codec P)) (req_body q) (tk_uuid tk 0)"
| "event_ids P (Deliver i tk) = range (tk_uuid tk)"

fun draws_fresh :: "string set \<Rightarrow> hub_event \<Rightarrow> bool" where
  "draws_fresh used (Public c tk) \<longleftrightarrow> inj (tk_uuid tk) \<and> range (tk_uuid tk) \<inter> used = {}"
| "draws_fresh used (AdminCall q tk) \<longleftrightarrow> True"
| "draws_fresh used (Deliver i tk) \<longleftrightarrow> inj (tk_uuid tk) \<and> range (tk_uuid tk) \<inter> used = {}"

fun run_fresh :: "('d, 'k, 'l, 't, 'w) platform \<Rightarrow> string set \<Rightarrow> hub_event list \<Rightarrow> bool" where
  "run_fresh P used [] \<longleftrightarrow> True"
| "run_fresh P used (e # es) \<longleftrightarrow> draws_fresh used e \<and> run_fresh P (used \<union> event_ids P e) es"

section \<open>The issuer behind the process\<close>

fun settled :: "task \<Rightarrow> bool" where
  "settled (Ended i) = True"
| "settled RedeemEnded = True"
| "settled _ = False"

definition issuer_world :: "string set \<Rightarrow> ('l, 'w) hub_process \<Rightarrow> world \<Rightarrow> bool" where
  "issuer_world used s w \<longleftrightarrow> reachable MAX_TRACKED_REQUESTS w \<and> shared w = h_issuer (hp_state s) \<and> fset (drawn w) \<subseteq> used
     \<and> (\<forall>t \<in> set (tasks w). settled t \<or> (\<exists>i. t = Queued i)) \<and> (\<forall>i. i |\<in>| hp_deliveries s \<longleftrightarrow> Queued i \<in> set (tasks w))"

definition tracked :: "string set \<Rightarrow> ('l, 'w) hub_process \<Rightarrow> bool" where
  "tracked used s \<longleftrightarrow> (\<exists>w. issuer_world used s w)"

lemma trackedI:
  assumes "reachable MAX_TRACKED_REQUESTS w" "shared w = h_issuer (hp_state s)" "fset (drawn w) \<subseteq> used"
    "\<forall>t \<in> set (tasks w). settled t \<or> (\<exists>i. t = Queued i)" "\<forall>i. i |\<in>| hp_deliveries s \<longleftrightarrow> Queued i \<in> set (tasks w)"
  shows "tracked used s"
  using assms unfolding tracked_def issuer_world_def by blast

lemma trackedE:
  assumes "tracked used s"
  obtains w where "reachable MAX_TRACKED_REQUESTS w" "shared w = h_issuer (hp_state s)" "fset (drawn w) \<subseteq> used"
    "\<forall>t \<in> set (tasks w). settled t \<or> (\<exists>i. t = Queued i)" "\<forall>i. i |\<in>| hp_deliveries s \<longleftrightarrow> Queued i \<in> set (tasks w)"
  using assms unfolding tracked_def issuer_world_def by blast

text \<open>An event that leaves the issuer's tables and the deliveries alone.\<close>

lemma tracked_same:
  "tracked used s \<Longrightarrow> h_issuer (hp_state s') = h_issuer (hp_state s) \<Longrightarrow> hp_deliveries s' = hp_deliveries s \<Longrightarrow> tracked (used \<union> ids) s'"
  by (auto elim!: trackedE intro!: trackedI)

lemma reachable_steps: "reachable cap w \<Longrightarrow> step\<^sup>*\<^sup>* w w' \<Longrightarrow> reachable cap w'"
  by (rotate_tac 1, induction rule: rtranclp_induct) (auto intro: extend)

lemma tracked_answered: "tracked used s \<Longrightarrow> tracked (used \<union> ids) (snd (answered_with r s))"
  by (simp add: answered_with_def tracked_same)

lemma tracked_extracted:
  "tracked used s \<Longrightarrow> (\<And>b. tracked (used \<union> ids) (snd (k b s))) \<Longrightarrow> tracked (used \<union> ids) (snd (extracted body k s))"
  by (simp add: extracted_def tracked_answered split: sum.split)

section \<open>The handlers\<close>

lemma oid_handle_keeps_issuer:
  assumes "\<nexists>clock uuid hdr body. q = Credential clock uuid hdr body"
  shows "ip_issuer (snd (oid_handle C D N J X a q s)) = ip_issuer s"
  using assms
  by (cases q) (auto simp: create_offer_def offer_by_reference_def token_endpoint_def nonce_endpoint_def Let_def
      split: option.split prod.split sum.split)

lemma tracked_on_oid:
  assumes "tracked used s" "\<nexists>clock uuid hdr body. q = Credential clock uuid hdr body"
  shows "tracked (used \<union> ids) (snd (on_oid P a q s))"
proof -
  let ?v = "snd (oid_handle (pf_codec P) (pf_dcp P) (pf_network P) (pf_jose P) (pf_chrono P) a q (issuer_view s))"
  have "ip_issuer ?v = h_issuer (hp_state s)" by (simp add: oid_handle_keeps_issuer [OF assms(2)] issuer_view_def)
  with assms(1) show ?thesis by (simp add: on_oid_def split_beta from_issuer_view_def tracked_same)
qed

lemma tracked_credential:
  fixes s :: "('l, 'w) hub_process"
  assumes "tracked used s" and fresh: "inj (tk_uuid tk)" "range (tk_uuid tk) \<inter> used = {}"
  shows "tracked (used \<union> range (tk_uuid tk)) (snd (on_oid_credential P a tk hdr body s))"
proof -
  let ?run = "credential_endpoint (pf_codec P) (pf_dcp P) (pf_network P) (pf_jose P) (pf_chrono P) a (tk_clock tk) (tk_uuid tk)
            id hdr body (issuer_view s)"
  from assms(1) obtain w where w: "reachable MAX_TRACKED_REQUESTS w" "shared w = h_issuer (hp_state s)" "fset (drawn w) \<subseteq> used"
    "\<forall>t \<in> set (tasks w). settled t \<or> (\<exists>i. t = Queued i)" "\<forall>i. i |\<in>| hp_deliveries s \<longleftrightarrow> Queued i \<in> set (tasks w)" by (rule trackedE)
  obtain tr res v where run: "?run = ((tr, res), v)" by (metis prod.collapse)
  have "shared w = ip_issuer (issuer_view s)" "range (tk_uuid tk) \<inter> fset (drawn w) = {}"
    using w(2,3) fresh(2) by (auto simp: issuer_view_def)
  from credential_endpoint_steps [OF w(1) this(1) fresh(1) this(2) run]
  obtain w' where w': "step\<^sup>*\<^sup>* w w'" "shared w' = ip_issuer v" "extends_world (range (tk_uuid tk)) w w'" by blast
  show ?thesis
  proof (rule trackedI [OF reachable_steps [OF w(1) w'(1)]])
    show "shared w' = h_issuer (hp_state (snd (on_oid_credential P a tk hdr body s)))"
      using w'(2) run by (simp add: on_oid_credential_def Let_def from_issuer_view_def)
    show "\<forall>t \<in> set (tasks w'). settled t \<or> (\<exists>i. t = Queued i)"
      using w(4) w'(3) unfolding extends_world_def by (metis Un_iff set_append settled.simps(2) singletonD subsetD)
    show "\<forall>i. i |\<in>| hp_deliveries (snd (on_oid_credential P a tk hdr body s)) \<longleftrightarrow> Queued i \<in> set (tasks w')"
      using w(5) w'(3) by (auto simp: extends_world_def on_oid_credential_def Let_def from_issuer_view_def)
  qed (use w(3) w'(3) in \<open>auto simp: extends_world_def\<close>)
qed

lemma tracked_status_list:
  assumes "tracked used s"
  shows "tracked (used \<union> ids) (snd (on_status_list P a tk s))"
proof -
  let ?i = "h_issuer (hp_state s)"
  from assms obtain w where w: "reachable MAX_TRACKED_REQUESTS w" "shared w = ?i" "fset (drawn w) \<subseteq> used"
    "\<forall>t \<in> set (tasks w). settled t \<or> (\<exists>i. t = Queued i)" "\<forall>i. i |\<in>| hp_deliveries s \<longleftrightarrow> Queued i \<in> set (tasks w)" by (rule trackedE)
  obtain jwt ic where run: "serve_status_list (pf_dcp P) (pf_encode P) a (tk_clock tk 0) (s_issued ?i) = (jwt, ic)" by fastforce
  then have s': "snd (on_status_list P a tk s) = s\<lparr>hp_state := (hp_state s)\<lparr>h_issuer := ?i\<lparr>s_issued := ic\<rparr>\<rparr>\<rparr>"
    by (simp add: on_status_list_def Let_def answered_with_def)
  show ?thesis
  proof (cases "cached_jwt (ic_list (s_issued ?i))")
    case (Some j)
    with run have "ic = s_issued ?i" by (auto simp: serve_status_list_def)
    with s' assms show ?thesis by (simp add: tracked_same)
  next
    case None
    with run have "ic = (s_issued ?i)\<lparr>ic_list := (ic_list (s_issued ?i))\<lparr>cached_jwt := Some jwt\<rparr>\<rparr>"
      by (auto simp: serve_status_list_def Let_def)
    then have "env_step (shared w) (drawn w) (?i\<lparr>s_issued := ic\<rparr>) (drawn w) []"
      using w(2) by (simp add: env_step.publish)
    then have "step w (w\<lparr>shared := ?i\<lparr>s_issued := ic\<rparr>, drawn := drawn w, tasks := tasks w @ []\<rparr>)" by (rule step.env)
    from extend [OF w(1) this] show ?thesis
      by (rule trackedI) (use w(3,4,5) s' in auto)
  qed
qed

text \<open>A Credential Request is at most one step, which queues the delivery it spawns.\<close>

lemma credential_request_step:
  assumes here: "h_issuer s = shared w" and fresh: "pid |\<notin>| drawn w" "hid |\<notin>| finsert pid (drawn w)"
    and run: "credential_request D N a hdr msg clock pid hid s = ((tr, res), s')"
  obtains d' where "fset d' \<subseteq> fset (drawn w) \<union> {pid, hid}"
    "step\<^sup>*\<^sup>* w (w\<lparr>shared := h_issuer s', drawn := d',
       tasks := tasks w @ map Queued (case res of Inl r \<Rightarrow> [] | Inr (r, spawned) \<Rightarrow> spawned)\<rparr>)"
proof -
  obtain tr1 r1 s1 where auth: "authenticate D N a hdr clock s = ((tr1, r1), s1)" by (metis prod.collapse)
  have s1: "h_issuer s1 = shared w" using keepsD [OF auth_keeps(2), of D N a hdr clock s] here auth by simp
  note run = run [unfolded credential_request_result auth]
  note reached = that
  have idle: thesis if "res = Inl r" "h_issuer s' = shared w" for r
    using reached [of "drawn w"] that by auto
  show thesis
  proof (cases r1)
    case (Inl r)
    with run s1 show thesis by (intro idle) auto
  next
    case (Inr claims)
    show thesis
    proof (cases "get_str claims ''sub''")
      case None
      with run s1 Inr show thesis by (intro idle) auto
    next
      case (Some holder)
      obtain out i where sec: "request_section (cfg_holder_approval (a_config a)) pid hid (clock 3) holder
          (rq_holder_pid msg) (get_str claims ''token'') (dedup_ids [] (rq_credentials msg)) (shared w) = (out, i)" by fastforce
      let ?d = "finsert hid (finsert pid (drawn w))"
      show thesis
      proof (cases out)
        case (Inl r)
        have "res = Inl r" "h_issuer s' = i" using run by (auto simp: \<open>r1 = Inr claims\<close> Some s1 sec Inl)
        moreover have "step w (w\<lparr>shared := i, drawn := ?d, tasks := tasks w @ []\<rparr>)"
          by (rule step.env, rule request_refused [OF fresh sec [unfolded Inl]])
        ultimately show thesis using reached [of ?d] by auto
      next
        case (Inr deliver)
        have out: "res = Inr (with_header ''location'' (''/requests/'' @ pid) (resp 201 NoBody), if deliver then [pid] else [])"
          "h_issuer s' = i"
          using run by (auto simp: \<open>r1 = Inr claims\<close> Some s1 sec Inr)
        have "step w (w\<lparr>shared := i, drawn := ?d, tasks := tasks w @ (if deliver then [Queued pid] else [])\<rparr>)"
          by (rule step.env, rule request_admitted [OF fresh sec [unfolded Inr]])
        with out show thesis using reached [of ?d] by (cases deliver) auto
      qed
    qed
  qed
qed

lemma tracked_request:
  assumes "tracked used s"
    and fresh: "inj (tk_uuid tk)" "range (tk_uuid tk) \<inter> used = {}"
  shows "tracked (used \<union> range (tk_uuid tk)) (snd (on_credential_request P a tk hdr msg s))"
proof -
  from assms(1) obtain w where w: "reachable MAX_TRACKED_REQUESTS w" "shared w = h_issuer (hp_state s)" "fset (drawn w) \<subseteq> used"
    "\<forall>t \<in> set (tasks w). settled t \<or> (\<exists>i. t = Queued i)" "\<forall>i. i |\<in>| hp_deliveries s \<longleftrightarrow> Queued i \<in> set (tasks w)" by (rule trackedE)
  have new: "tk_uuid tk 0 |\<notin>| drawn w" "tk_uuid tk 1 |\<notin>| finsert (tk_uuid tk 0) (drawn w)"
    using fresh w(3) by (auto simp: inj_eq)
  obtain tr res t where run: "credential_request (pf_dcp P) (pf_network P) a hdr msg (tk_clock tk) (tk_uuid tk 0) (tk_uuid tk 1) (hp_state s)
      = ((tr, res), t)" by (metis prod.collapse)
  let ?spawned = "case res of Inl r \<Rightarrow> [] | Inr (r, spawned) \<Rightarrow> spawned"
  let ?s' = "snd (on_credential_request P a tk hdr msg s)"
  have s': "h_issuer (hp_state ?s') = h_issuer t" "hp_deliveries ?s' = hp_deliveries s |\<union>| fset_of_list ?spawned"
    by (auto simp: on_credential_request_def run split: sum.split prod.split simp del: One_nat_def)
  from credential_request_step [OF w(2) [symmetric] new run] obtain d' where
    d': "fset d' \<subseteq> fset (drawn w) \<union> {tk_uuid tk 0, tk_uuid tk 1}"
    and st: "step\<^sup>*\<^sup>* w (w\<lparr>shared := h_issuer t, drawn := d', tasks := tasks w @ map Queued ?spawned\<rparr>)" .
  from reachable_steps [OF w(1) st] show ?thesis
    by (rule trackedI) (use w(3-5) d' s' in \<open>auto simp: fset_of_list.rep_eq\<close>)
qed

lemma tracked_admin:
  assumes "tracked used s" and codec: "parses_i64 (admin_codec.truncate (pf_codec P))"
  shows "tracked (used \<union> event_ids P (AdminCall q tk)) (snd (admin_call P a tk q s))"
proof (cases "build_admin a")
  case False
  with assms(1) show ?thesis by (simp add: admin_call_def tracked_same)
next
  case True
  from assms(1) obtain w where w: "reachable MAX_TRACKED_REQUESTS w" "shared w = h_issuer (hp_state s)" "fset (drawn w) \<subseteq> used"
    "\<forall>t \<in> set (tasks w). settled t \<or> (\<exists>i. t = Queued i)" "\<forall>i. i |\<in>| hp_deliveries s \<longleftrightarrow> Queued i \<in> set (tasks w)" by (rule trackedE)
  have ok: "issued_ok (s_issued (h_issuer (hp_state s))) (set (in_flight (tasks w)))"
    using reachable_parts(1) [OF w(1)] w(2) by (simp add: issued_inv_def)
  from admin_router_run [OF codec ok, where d = "drawn w" and req = q and uuid = "tk_uuid tk 0" and a = a and now = "tk_clock tk 0"] show ?thesis
  proof (cases rule: issuer_runE)
    case (same r)
    with assms(1) True show ?thesis by (simp add: admin_call_def tracked_same)
  next
    case (changes r s1 spawned d' pids)
    have "step w (w\<lparr>shared := s1, drawn := d', tasks := tasks w @ map Queued pids\<rparr>)"
      using step.env changes(5) w(2) by metis
    from extend [OF w(1) this] show ?thesis
      by (rule trackedI) (use w(3-5) changes True in \<open>auto simp: admin_call_def\<close>)
  qed
qed
text \<open>A delivery runs its task to the end.\<close>

lemma queued_once:
  assumes "reachable cap w" "k < length (tasks w)" "tasks w ! k = Queued i"
  shows "Queued j \<in> set ((tasks w)[k := Ended i]) \<longleftrightarrow> Queued j \<in> set (tasks w) \<and> j \<noteq> i"
proof -
  let ?l = "take k (tasks w)" and ?r = "drop (Suc k) (tasks w)"
  have ts: "tasks w = ?l @ Queued i # ?r" using id_take_nth_drop [OF assms(2)] assms(3) by simp
  have "distinct (concat (map task_pids (?l @ Queued i # ?r)))"
    using reachable_parts(3) [OF assms(1)] unfolding pids_inv_def ts [symmetric] by blast
  then have "Queued i \<notin> set ?l" "Queued i \<notin> set ?r" by auto
  moreover have "(tasks w)[k := Ended i] = ?l @ Ended i # ?r" by (rule upd_conv_take_nth_drop [OF assms(2)])
  moreover have "Queued j \<in> set (tasks w) \<longleftrightarrow> Queued j \<in> set ?l \<or> j = i \<or> Queued j \<in> set ?r" by (subst ts) auto
  ultimately show ?thesis by auto
qed

lemma tracked_delivery:
  fixes s :: "('l, 'w) hub_process"
  assumes "tracked used s" and fresh: "inj (tk_uuid tk)" "range (tk_uuid tk) \<inter> used = {}"
  shows "tracked (used \<union> range (tk_uuid tk)) (snd (run_delivery P a tk i s))"
proof (cases "i |\<in>| hp_deliveries s")
  case False
  with assms(1) show ?thesis by (simp add: run_delivery_def tracked_same)
next
  case True
  from assms(1) obtain w where w: "reachable MAX_TRACKED_REQUESTS w" "shared w = h_issuer (hp_state s)" "fset (drawn w) \<subseteq> used"
    "\<forall>t \<in> set (tasks w). settled t \<or> (\<exists>i. t = Queued i)" "\<forall>i. i |\<in>| hp_deliveries s \<longleftrightarrow> Queued i \<in> set (tasks w)" by (rule trackedE)
  from True w(5) obtain k where k: "k < length (tasks w)" "tasks w ! k = Queued i" by (auto simp: in_set_conv_nth)
  have new: "range (tk_uuid tk) \<inter> fset (drawn w) = {}" using fresh(2) w(3) by auto
  obtain r t where c: "claim i (s_requests (shared w)) = (r, t)" by fastforce
  from w(1) fresh(1) new c obtain tr s1 d' where
    run: "deliver_issued_credential (pf_dcp P) (pf_network P) (pf_chrono P) a i (tk_clock tk) (tk_uuid tk) (tk_clock tk 0) (shared w) = Some (tr, s1)"
    and steps: "task_steps (shared w) (drawn w) (Queued i) s1 d' (Ended i)" and d': "fset d' \<subseteq> fset (drawn w) \<union> range (tk_uuid tk)"
    by (rule delivery_steps)
  let ?w = "w\<lparr>shared := s1, drawn := d', tasks := (tasks w)[k := Ended i]\<rparr>"
  have "\<not> holds_permit t" if "settled t \<or> (\<exists>i. t = Queued i)" for t using that by (cases t) auto
  with w(4) have "permits_out (tasks w) = 0" by (simp add: permits_out_def filter_empty_conv)
  then have "may_run (tasks w) (Queued i)" by (simp add: MAX_IN_FLIGHT_DELIVERIES_def)
  then have "step\<^sup>*\<^sup>* w ?w" by (rule task_steps_tasks [OF steps k(1) refl refl k(2)])
  from reachable_steps [OF w(1) this] show ?thesis
  proof (rule trackedI)
    show "\<forall>t \<in> set (tasks ?w). settled t \<or> (\<exists>i. t = Queued i)" using w(4) by (auto dest!: set_update_subset_insert [THEN subsetD])
    show "\<forall>j. j |\<in>| hp_deliveries (snd (run_delivery P a tk i s)) \<longleftrightarrow> Queued j \<in> set (tasks ?w)"
      using True w(2,5) run by (simp add: run_delivery_def Let_def queued_once [OF w(1) k])
  qed (use True w(2,3) run d' in \<open>auto simp: run_delivery_def Let_def\<close>)
qed

section \<open>Every event\<close>

lemma issuer_service_endpoints:
  assumes "cfg_mode c = IssuerService" "hub_route c p = Some (m, e)"
  shows "e \<in> {StsToken, CredentialRequests, DcpMetadata, RevocationList, OidIssuerMetadata, OidServerMetadata, OidOffers, OidToken,
      OidNonce, OidCredential} \<union> range DidDocument \<union> range RequestStatus \<union> range OidOffer"
  using assms by (auto simp: hub_route_def issuer_service_route_def oid_route_def split: if_splits option.splits list.splits)

lemma tracked_serve:
  assumes mode: "cfg_mode (a_config a) = IssuerService" and ok: "tracked used s"
    and fresh: "inj (tk_uuid tk)" "range (tk_uuid tk) \<inter> used = {}" and route: "hub_route (a_config a) p = Some (m, e)"
  shows "tracked (used \<union> range (tk_uuid tk)) (snd (serve P a tk c e s))"
  using issuer_service_endpoints [OF mode route]
  by (auto intro!: tracked_extracted tracked_answered tracked_on_oid tracked_request tracked_credential tracked_status_list ok fresh)

lemma tracked_step:
  assumes mode: "cfg_mode (a_config a) = IssuerService" and codec: "parses_i64 (admin_codec.truncate (pf_codec P))"
    and ok: "tracked used s" and fresh: "draws_fresh used e"
  shows "tracked (used \<union> event_ids P e) (snd (hub_step P a e s))"
proof (cases e)
  case (Public c tk)
  have "tracked u (snd (without_body run)) = tracked u (snd run)" for u and run :: "('l, 'w) served"
    by (simp add: without_body_def split_beta)
  note headers = this
  from fresh Public have ids: "inj (tk_uuid tk)" "range (tk_uuid tk) \<inter> used = {}" by simp_all
  note served = tracked_serve [OF mode ok ids]
  show ?thesis unfolding Public
    by (auto simp: hub_router_def headers simp del: split_paired_All intro!: tracked_answered ok served split: option.split)
next
  case (AdminCall q tk)
  with tracked_admin [OF ok codec] show ?thesis by simp
next
  case (Deliver i tk)
  from fresh Deliver have "inj (tk_uuid tk)" "range (tk_uuid tk) \<inter> used = {}" by simp_all
  from tracked_delivery [OF ok this] show ?thesis by (simp add: Deliver)
qed

lemma tracked_start:
  assumes "hub_start now w = Some s"
  shows "tracked {} s"
proof -
  obtain c where c: "catalog_seeded now = Some c" and s: "h_issuer (hp_state s) = \<lparr>s_definitions = c, s_holders = registry_default,
      s_requests = rt_new MAX_TRACKED_REQUESTS, s_issued = issued_default\<rparr>" "hp_deliveries s = {||}"
    using assms by (auto simp: hub_start_def)
  from start [OF c] show ?thesis by (rule trackedI) (simp_all add: s)
qed

fun run_ids :: "('d, 'k, 'l, 't, 'w) platform \<Rightarrow> hub_event list \<Rightarrow> string set" where
  "run_ids P [] = {}"
| "run_ids P (e # es) = event_ids P e \<union> run_ids P es"

lemma tracked_run:
  assumes mode: "cfg_mode (a_config a) = IssuerService" and codec: "parses_i64 (admin_codec.truncate (pf_codec P))"
  shows "tracked used s \<Longrightarrow> run_fresh P used es \<Longrightarrow> tracked (used \<union> run_ids P es) (snd (hub_run P a es s))"
proof (induction es arbitrary: used s)
  case (Cons e es)
  from Cons.prems tracked_step [OF mode codec, of used s e] have "tracked (used \<union> event_ids P e) (snd (hub_step P a e s))" by simp
  from Cons.IH [OF this] Cons.prems(2) show ?case by (simp add: split_beta Un_assoc)
qed simp


section \<open>What holds between events\<close>

text \<open>
  The issuer's tables agree with each other and with the deliveries still to run: an approved process waits for
  its delivery, which has not started; a delivered one has a record for each definition; a record names a
  delivered process; a status bit is set exactly for a revoked record; every allocated index belongs to one
  record; nothing exceeds its cap.
\<close>

definition issuer_consistent :: "issuer_state \<Rightarrow> string fset \<Rightarrow> bool" where
  "issuer_consistent i waiting \<longleftrightarrow>
     (\<forall>k p. fmlookup (records (s_requests i)) k = Some p \<longrightarrow>
        (p_state p = PApproved \<longrightarrow> k |\<in>| waiting \<and> \<not> p_delivery_started p)
      \<and> (p_state p = PDelivered \<longrightarrow> (\<forall>x \<in> set (p_credential_definitions p).
           \<exists>c r. fmlookup (ic_records (s_issued i)) c = Some r \<and> c_process_id r = k \<and> c_definition_id r = x)))
   \<and> (\<forall>c r p. fmlookup (ic_records (s_issued i)) c = Some r \<and> fmlookup (records (s_requests i)) (c_process_id r) = Some p
        \<longrightarrow> p_state p = PDelivered)
   \<and> (\<forall>n. sl_bit (ic_list (s_issued i)) n \<longleftrightarrow>
        (\<exists>c r. fmlookup (ic_records (s_issued i)) c = Some r \<and> c_index r = n \<and> c_status r = RRevoked))
   \<and> (\<forall>c1 c2 r1 r2. fmlookup (ic_records (s_issued i)) c1 = Some r1 \<and> fmlookup (ic_records (s_issued i)) c2 = Some r2
        \<and> c_index r1 = c_index r2 \<longrightarrow> c1 = c2)
   \<and> record_indexes (s_issued i) = {..<next_index (ic_list (s_issued i))} - fset (free (ic_list (s_issued i)))
   \<and> fcard (pending_ids (s_requests i)) \<le> MAX_PENDING_PROCESSES
   \<and> (\<forall>h. fcard (pending_of (s_requests i) h) \<le> MAX_PENDING_PROCESSES_PER_HOLDER)
   \<and> rt_len (s_requests i) \<le> rt_capacity (s_requests i)
   \<and> length (definitions (s_definitions i)) \<le> MAX_CREDENTIAL_DEFINITIONS
   \<and> registry_len (s_holders i) \<le> MAX_HOLDERS"

lemma settled_tasks:
  assumes "\<forall>t \<in> set ts. settled t \<or> (\<exists>i. t = Queued i)"
  shows "in_flight ts = []" "Closing p st e \<notin> set ts" "RedeemRecorded dn hdid hid n i \<notin> set ts"
    "t \<in> set ts \<Longrightarrow> serves t p \<Longrightarrow> t = Queued (p_id p) \<and> \<not> p_delivery_started p"
proof -
  have "task_indexes t = []" if "settled t \<or> (\<exists>i. t = Queued i)" for t using that by (cases t) auto
  with assms show "in_flight ts = []" by (auto simp: in_flight_def)
  show "Closing p st e \<notin> set ts" "RedeemRecorded dn hdid hid n i \<notin> set ts" using assms by fastforce+
  show "t = Queued (p_id p) \<and> \<not> p_delivery_started p" if "t \<in> set ts" "serves t p"
    using assms that by (cases t) fastforce+
qed

lemma tracked_consistent:
  assumes "tracked used s"
  shows "issuer_consistent (h_issuer (hp_state s)) (hp_deliveries s)"
proof -
  from assms obtain w where w: "reachable MAX_TRACKED_REQUESTS w" "shared w = h_issuer (hp_state s)"
    "\<forall>t \<in> set (tasks w). settled t \<or> (\<exists>i. t = Queued i)" "\<forall>i. i |\<in>| hp_deliveries s \<longleftrightarrow> Queued i \<in> set (tasks w)" by (rule trackedE)
  let ?i = "h_issuer (hp_state s)"
  note parts = reachable_parts [OF w(1), unfolded w(2)]
  note rest = settled_tasks [OF w(3)]
  have ok: "issued_ok (s_issued ?i) {}" using parts(1) by (simp add: issued_inv_def rest(1))
  have approved: "k |\<in>| hp_deliveries s \<and> \<not> p_delivery_started p"
    if "fmlookup (records (s_requests ?i)) k = Some p" "p_state p = PApproved" for k p
  proof -
    have "p_id p = k" using parts(9) that(1) by (simp add: rt_ok_def)
    moreover from procs_invD(2) [OF parts(5) that] obtain t where "t \<in> set (tasks w)" "serves t p" by blast
    ultimately show ?thesis using rest(4) w(4) by auto
  qed
  have delivered: "\<exists>c r. fmlookup (ic_records (s_issued ?i)) c = Some r \<and> c_process_id r = k \<and> c_definition_id r = x"
    if "fmlookup (records (s_requests ?i)) k = Some p" "p_state p = PDelivered" "x \<in> set (p_credential_definitions p)" for k p x
  proof -
    have "p_id p = k" using parts(9) that(1) by (simp add: rt_ok_def)
    moreover have "covered (s_issued ?i) (tasks w) p" using parts(7) that(1,2) unfolding delivered_inv_def by blast
    ultimately show ?thesis using that(3) rest(3) unfolding covered_def by blast
  qed
  have issued: "p_state p = PDelivered"
    if "fmlookup (ic_records (s_issued ?i)) c = Some r" "fmlookup (records (s_requests ?i)) (c_process_id r) = Some p" for c r p
    using parts(6) that rest(2) unfolding records_inv_def by blast
  have unique: "c1 = c2"
    if "fmlookup (ic_records (s_issued ?i)) c1 = Some r1" "fmlookup (ic_records (s_issued ?i)) c2 = Some r2" "c_index r1 = c_index r2"
    for c1 c2 r1 r2 using ok that unfolding issued_ok_def by blast
  have indexes: "record_indexes (s_issued ?i) = {..<next_index (ic_list (s_issued ?i))} - fset (free (ic_list (s_issued ?i)))"
    using issued_ok_partition [OF ok] by auto
  have caps: "caps_inv (s_requests ?i)" "rt_ok (s_requests ?i)" "catalog_ok (s_definitions ?i)" "registry_ok (s_holders ?i)"
    using reachable_inv [OF w(1), unfolded w(2)] by (simp_all add: issuer_inv_def pids_inv_def)
  show ?thesis
    unfolding issuer_consistent_def
    using caps by (intro conjI; (use approved delivered issued unique issued_ok_bit [OF ok] indexes in blast)?)
      (simp_all add: caps_inv_def rt_ok_def catalog_ok_def registry_ok_def)
qed


text \<open>
  C7. An issuer's tables are consistent between any two events of its life. Whatever requests its public
  and admin listeners were sent, in any order, and whichever spawned deliveries have run so far, the state is
  one the issuer's state machine can reach with nothing in flight but those deliveries: every approved process
  has its delivery waiting, delivered processes and issued records name each other, the status list marks
  exactly the revoked records and leaks no index, and every cap holds. Only allowed hosts were contacted.
\<close>

theorem issuer_runs_consistent:
  fixes P :: "('d, 'k, 'l, 't, 'w) platform"
  assumes mode: "cfg_mode (a_config a) = IssuerService" and start: "hub_start now servers = Some s0"
    and codec: "parses_i64 (admin_codec.truncate (pf_codec P))" and fresh: "run_fresh P {} es"
    and laws: "resolves_through (pf_dcp P) (pf_network P)" "suffix_keeps_host (pf_dcp P)"
    and run: "hub_run P a es s0 = (contacted, s)"
  shows "issuer_consistent (h_issuer (hp_state s)) (hp_deliveries s)
    \<and> (\<exists>w. reachable MAX_TRACKED_REQUESTS w \<and> shared w = h_issuer (hp_state s)
         \<and> (\<forall>i. i |\<in>| hp_deliveries s \<longleftrightarrow> Queued i \<in> set (tasks w)))
    \<and> (\<forall>url \<in> set contacted. allowed (pf_dcp P) (a_outbound a) url)"
proof -
  from tracked_run [OF mode codec tracked_start [OF start] fresh] run have t: "tracked (run_ids P es) s" by simp
  then obtain w where "reachable MAX_TRACKED_REQUESTS w" "shared w = h_issuer (hp_state s)"
    "\<forall>i. i |\<in>| hp_deliveries s \<longleftrightarrow> Queued i \<in> set (tasks w)" by (rule trackedE)
  moreover have "\<forall>url \<in> set contacted. allowed (pf_dcp P) (a_outbound a) url"
    using hub_run_confined [OF laws, of a es s0] run by simp
  ultimately show ?thesis using tracked_consistent [OF t] by blast
qed

lemma run_fresh_append: "run_fresh P used (es @ es') \<longleftrightarrow> run_fresh P used es \<and> run_fresh P (used \<union> run_ids P es) es'"
  by (induction es arbitrary: used) (auto simp: Un_assoc)

lemma hub_run_deliveries:
  "hp_deliveries (snd (hub_run P a (map2 Deliver ids tks) s)) |\<subseteq>| hp_deliveries s
   \<and> (length ids = length tks \<longrightarrow> fset (hp_deliveries (snd (hub_run P a (map2 Deliver ids tks) s))) \<inter> set ids = {})"
proof (induction ids arbitrary: tks s)
  case (Cons i ids)
  show ?case
  proof (cases tks)
    case (Cons tk tks')
    have one: "hp_deliveries (snd (run_delivery P a tk i s)) = hp_deliveries s |-| {|i|}"
      by (auto simp: run_delivery_def Let_def split: option.split)
    from Cons.IH [of tks' "snd (run_delivery P a tk i s)"] show ?thesis unfolding Cons one by (auto simp: split_beta one)
  qed simp
qed simp

lemma deliver_dom:
  "deliver_issued_credential D N X a i clock uuid now s = Some (tr, s') \<Longrightarrow> fmdom (records (s_requests s')) = fmdom (records (s_requests s))"
  by (auto simp: deliver_issued_credential_def claim_def close_process_def Let_def
      split: option.splits if_splits sum.splits prod.splits)

lemma deliveries_dom:
  "fmdom (records (s_requests (h_issuer (hp_state (snd (hub_run P a (map2 Deliver ids tks) s))))))
     = fmdom (records (s_requests (h_issuer (hp_state s))))"
proof (induction ids arbitrary: tks s)
  case (Cons i ids)
  have "fmdom (records (s_requests (h_issuer (hp_state (snd (run_delivery P a tk i s))))))
      = fmdom (records (s_requests (h_issuer (hp_state s))))" for tk
    by (auto simp: run_delivery_def Let_def deliver_dom split: option.split)
  with Cons.IH show ?case by (cases tks) (simp_all add: split_beta)
qed simp

text \<open>
  C12. Deliveries come to an end: once the deliveries that were waiting have run, nothing is waiting, no
  process is lost, and every process is still submitted or is terminal: no process of the issuer stays approved for ever, whatever
  the holders' services answered.
\<close>

theorem deliveries_drain:
  fixes P :: "('d, 'k, 'l, 't, 'w) platform"
  assumes mode: "cfg_mode (a_config a) = IssuerService" and start: "hub_start now servers = Some s0"
    and codec: "parses_i64 (admin_codec.truncate (pf_codec P))"
    and fresh: "run_fresh P {} (es @ map2 Deliver ids tks)"
    and s: "s = snd (hub_run P a es s0)" and ids: "set ids = fset (hp_deliveries s)" "length ids = length tks"
    and s': "s' = snd (hub_run P a (map2 Deliver ids tks) s)"
  shows "hp_deliveries s' = {||}
    \<and> fmdom (records (s_requests (h_issuer (hp_state s')))) = fmdom (records (s_requests (h_issuer (hp_state s))))
    \<and> (\<forall>k p. fmlookup (records (s_requests (h_issuer (hp_state s')))) k = Some p \<longrightarrow> p_state p = PSubmitted \<or> is_terminal (p_state p))"
proof -
  have s'': "s' = snd (hub_run P a (es @ map2 Deliver ids tks) s0)"
    by (simp add: s' s hub_run_append split_beta Let_def)
  have "tracked (run_ids P (es @ map2 Deliver ids tks)) s'"
    using tracked_run [OF mode codec tracked_start [OF start] fresh] unfolding s'' by simp
  note consistent = tracked_consistent [OF this]
  have none: "hp_deliveries s' = {||}"
    using hub_run_deliveries [of P a ids tks s] ids unfolding s' by auto
  have "p_state p \<noteq> PApproved" if "fmlookup (records (s_requests (h_issuer (hp_state s')))) k = Some p" for k p
    using consistent that unfolding issuer_consistent_def none by blast
  moreover have "st = PSubmitted \<or> is_terminal st" if "st \<noteq> PApproved" for st using that by (cases st) (simp_all add: is_terminal_def)
  moreover have "fmdom (records (s_requests (h_issuer (hp_state s')))) = fmdom (records (s_requests (h_issuer (hp_state s))))"
    unfolding s' by (rule deliveries_dom)
  ultimately show ?thesis using none by blast
qed


section \<open>Witnesses\<close>

definition sample_issuing_hub :: "string app" where
  "sample_issuing_hub = sample_hub\<lparr>a_config := sample_config IssuerService\<rparr>"

lemma sample_issuing_simps [simp]:
  "cfg_mode (a_config sample_issuing_hub) = IssuerService" "own_did (a_identity sample_issuing_hub) = ''did:web:hub''"
  "insecure_http (a_config sample_issuing_hub)" "a_outbound sample_issuing_hub = a_outbound sample_hub"
  "cfg_holder_approval (a_config sample_issuing_hub) = Auto"
  by (simp_all add: sample_issuing_hub_def sample_config_def)

lemma sample_parses: "parses_i64 (admin_codec.truncate (pf_codec sample_platform))"
  by (simp add: parses_i64_def admin_codec.defs sample_body_codec_def wallet_codec.defs sample_wallet_codec_def oid_codec.defs
      sample_oid_codec_def sample_codec_def input_in_range_def seed_input_def)

lemma sample_ticks: "inj (tk_uuid (sample_tick n))" "n < 2 \<Longrightarrow> m < 2 \<Longrightarrow> n \<noteq> m \<Longrightarrow> range (tk_uuid (sample_tick n)) \<inter> range (tk_uuid (sample_tick m)) = {}"
proof -
  have uuid: "sample_uuid i = sample_uuid j \<longleftrightarrow> i = j" for i j using sample_uuid_fresh(1) by (simp add: inj_eq)
  show "inj (tk_uuid (sample_tick n))" by (rule injI) (simp add: sample_tick_def uuid)
  show "range (tk_uuid (sample_tick n)) \<inter> range (tk_uuid (sample_tick m)) = {}" if "n < 2" "m < 2" "n \<noteq> m"
    using that by (auto simp: sample_tick_def uuid) presburger
qed

text \<open>A Credential Request that spawns a delivery.\<close>

lemma sample_requested:
  "hp_deliveries (snd (hub_run sample_platform sample_issuing_hub [Public (sample_call [''credentials'']) (sample_tick 0)] sample_start))
     = {|sample_uuid 0|}"
proof -
  let ?i = "h_issuer (hp_state sample_start)"
  let ?D = "sample_dcp sample_decode"
  let ?run = "credential_request ?D sample_network sample_issuing_hub (Some ''Bearer k1.token'') sample_request (\<lambda>_. 1010)
      (sample_uuid 0) (sample_uuid 2) (hp_state sample_start)"
  obtain tr s1 where a: "authenticate ?D sample_network sample_issuing_hub (Some ''Bearer k1.token'') (\<lambda>_. 1010) (hp_state sample_start)
      = ((tr, Ok sample_payload), s1)"
    using sample_caller [of "hp_state sample_start" MAX_SEEN_JTI sample_issuing_hub] by (metis prod.collapse sample_issuing_simps(2-4) sample_start_simps(4))
  have s1: "h_issuer s1 = ?i"
    using keepsD [OF auth_keeps(2), of ?D sample_network sample_issuing_hub "Some ''Bearer k1.token''" "\<lambda>_. 1010" "hp_state sample_start"] a by simp
  have claims: "get_str sample_payload ''sub'' = Some ''did:web:caller.example''" "get_str sample_payload ''token'' = None"
    by (simp_all add: sample_payload_def)
  have "0 < MAX_TRACKED_REQUESTS" by (simp add: MAX_TRACKED_REQUESTS_def)
  from sample_request_section [OF this, of "sample_uuid 0" "sample_uuid 2" 1010] obtain i' where
    sec: "request_section Auto (sample_uuid 0) (sample_uuid 2) 1010 ''did:web:caller.example'' ''hp'' None
      (dedup_ids [] [''membership-credential'', ''membership-credential'']) ?i = (Ok True, i')" by auto
  have run: "?run = ((tr, Ok (with_header ''location'' (''/requests/'' @ sample_uuid 0) (resp 201 NoBody), [sample_uuid 0])), s1\<lparr>h_issuer := i'\<rparr>)"
    unfolding credential_request_result a using claims sec by (simp add: s1 sample_request_def del: dedup_ids.simps sample_start_simps(5))
  have route: "hub_route (a_config sample_issuing_hub) [''credentials''] = Some (''POST'', CredentialRequests)"
    by (simp add: hub_route_def issuer_service_route_def)
  show ?thesis
    using run by (simp add: hub_router_def route sample_call_def sample_tick_def extracted_def on_credential_request_def split_beta numeral_2_eq_2)
qed

theorem issuer_runs_consistent_witness:
  "let s = snd (hub_run sample_platform sample_issuing_hub [Public (sample_call [''credentials'']) (sample_tick 0)] sample_start)
   in issuer_consistent (h_issuer (hp_state s)) (hp_deliveries s) \<and> hp_deliveries s = {|sample_uuid 0|}
      \<and> (\<exists>w. reachable MAX_TRACKED_REQUESTS w \<and> shared w = h_issuer (hp_state s) \<and> Queued (sample_uuid 0) \<in> set (tasks w))"
proof -
  let ?es = "[Public (sample_call [''credentials'']) (sample_tick 0)]"
  obtain contacted s where run: "hub_run sample_platform sample_issuing_hub ?es sample_start = (contacted, s)" by fastforce
  have law: "resolves_through (pf_dcp sample_platform) (pf_network sample_platform)" "suffix_keeps_host (pf_dcp sample_platform)"
    using sample_resolves sample_suffix by simp_all
  have fresh: "run_fresh sample_platform {} ?es" using sample_ticks(1) by simp
  from issuer_runs_consistent [OF sample_issuing_simps(1) sample_start_simps(1) sample_parses fresh law run] sample_requested
  show ?thesis unfolding run Let_def by auto
qed

theorem deliveries_drain_witness:
  "let s = snd (hub_run sample_platform sample_issuing_hub [Public (sample_call [''credentials'']) (sample_tick 0)] sample_start);
       s' = snd (hub_run sample_platform sample_issuing_hub [Deliver (sample_uuid 0) (sample_tick 1)] s)
   in hp_deliveries s = {|sample_uuid 0|} \<and> hp_deliveries s' = {||}
      \<and> (\<forall>k p. fmlookup (records (s_requests (h_issuer (hp_state s')))) k = Some p \<longrightarrow> p_state p \<noteq> PApproved)"
proof -
  let ?es = "[Public (sample_call [''credentials'']) (sample_tick 0)]"
  define s where "s = snd (hub_run sample_platform sample_issuing_hub ?es sample_start)"
  have "range (tk_uuid (sample_tick 1)) \<inter> range (tk_uuid (sample_tick 0)) = {}" by (rule sample_ticks(2)) simp_all
  then have fresh: "run_fresh sample_platform {} (?es @ map2 Deliver [sample_uuid 0] [sample_tick 1])" using sample_ticks(1) by simp
  have ids: "set [sample_uuid 0] = fset (hp_deliveries s)" "length [sample_uuid 0] = length [sample_tick 1]"
    using sample_requested by (simp_all add: s_def)
  define s' where "s' = snd (hub_run sample_platform sample_issuing_hub [Deliver (sample_uuid 0) (sample_tick 1)] s)"
  have s': "s' = snd (hub_run sample_platform sample_issuing_hub (map2 Deliver [sample_uuid 0] [sample_tick 1]) s)"
    by (simp only: s'_def list.map zip_Cons_Cons zip_Nil prod.case)
  from deliveries_drain [OF sample_issuing_simps(1) sample_start_simps(1) sample_parses fresh s_def ids s']
  have "p_state p = PSubmitted \<or> is_terminal (p_state p)"
    if "fmlookup (records (s_requests (h_issuer (hp_state s')))) k = Some p" for k p using that by blast
  moreover have "\<not> (PApproved = PSubmitted \<or> is_terminal PApproved)" by (simp add: is_terminal_def)
  moreover have "hp_deliveries s' = {||}"
    using deliveries_drain [OF sample_issuing_simps(1) sample_start_simps(1) sample_parses fresh s_def ids s'] by blast
  ultimately show ?thesis using sample_requested unfolding Let_def s_def [symmetric] s'_def [symmetric] by metis
qed

end
