(* ===== verification/Start_Up.thy ===== *)
theory Start_Up
  imports Hub "HOL-Library.Monad_Syntax"
begin

text \<open>
  From the command line to a running process (identity-hub-http, main.rs and lib.rs): the options \<open>CommonArgs\<close>
  declares, \<open>into_config\<close>, and \<open>main\<close> up to the point where the listeners are served. How clap splits a command
  line into options is its own; what it hands over is the values given for each option, in order, and
  the environment.
\<close>

section \<open>Options\<close>

text \<open>
  A socket address is the part of it the program reads, its port, or its text. The order is the one of the
  source.
\<close>

record common_args =
  ca_bind_port :: nat
  ca_did_host :: "string option"
  ca_sts_client_id :: string
  ca_sts_client_secret :: string
  ca_scope_pattern :: string
  ca_insecure_http :: bool
  ca_trusted_issuer_dids :: "string list"
  ca_trusted_issuers_registry :: "string option"
  ca_trusted_issuers_registry_did :: "string option"
  ca_known_holder_pids :: "string list"
  ca_allow_resolve_host :: "string list"
  ca_oid4vci_client_id :: "string option"
  ca_oid4vci_offer_endpoint :: bool
  ca_oid4vci_offer_tx_code :: "string option"
  ca_extra_root_certs :: "string list"
  ca_admin_bind :: string
  ca_admin_token :: "string option"
  ca_participant_context_id :: string
  ca_holder_approval :: holder_approval

text \<open>What clap does with a declaration: an option takes one value unless it is a list; an option may have a variable, a default, a parser.\<close>

definition at_most_one :: "string list \<Rightarrow> string option option" where
  "at_most_one vs = (case vs of [] \<Rightarrow> Some None | [v] \<Rightarrow> Some (Some v) | _ \<Rightarrow> None)"

definition or_env :: "string option \<Rightarrow> string option \<Rightarrow> string option" where
  "or_env v e = (case v of None \<Rightarrow> e | Some x \<Rightarrow> Some x)"

definition bool_value :: "string \<Rightarrow> bool option" where
  "bool_value v = (if v = ''true'' then Some True else if v = ''false'' then Some False else None)"

definition approval_value :: "string \<Rightarrow> holder_approval option" where
  "approval_value v = (if v = ''auto'' then Some Auto else if v = ''manual'' then Some Manual else None)"

definition required :: "bool \<Rightarrow> unit option" where
  "required b = (if b then Some () else None)"

definition DEFAULT_ADMIN_BIND :: string where
  "DEFAULT_ADMIN_BIND = ''127.0.0.1:8182''"

definition DEFAULT_PARTICIPANT_CONTEXT_ID :: string where
  "DEFAULT_PARTICIPANT_CONTEXT_ID = ''issuer''"

definition DEFAULT_SCOPE_PATTERN :: string where
  "DEFAULT_SCOPE_PATTERN = ''org[.]eclipse[.]dspace[.]dcp[.]vc[.]type:(?P<type>[^:]+)(?P<suffix>:.+)?''"

text \<open>\<open>None\<close> is a usage error. \<open>port_of\<close> parses a socket address.\<close>

definition parse_args :: "(string \<Rightarrow> nat option) \<Rightarrow> (string \<Rightarrow> string list) \<Rightarrow> (string \<Rightarrow> string option) \<Rightarrow> common_args option" where
  "parse_args port_of opt env = do {
     bind \<leftarrow> at_most_one (opt ''bind'');
     bind_port \<leftarrow> port_of (unwrap_or bind ''0.0.0.0:8080'');
     host \<leftarrow> at_most_one (opt ''did-host'');
     client \<leftarrow> at_most_one (opt ''sts-client-id'');
     given_secret \<leftarrow> at_most_one (opt ''sts-client-secret'');
     secret \<leftarrow> or_env given_secret (env ''IDENTITY_HUB_STS_CLIENT_SECRET'');
     required (secret \<noteq> []);
     scope \<leftarrow> at_most_one (opt ''scope-pattern'');
     given_insecure \<leftarrow> at_most_one (opt ''insecure-http'');
     insecure \<leftarrow> bool_value (unwrap_or given_insecure ''true'');
     registry \<leftarrow> at_most_one (opt ''trusted-issuers-registry'');
     registry_did \<leftarrow> at_most_one (opt ''trusted-issuers-registry-did'');
     required (registry_did = None \<or> registry \<noteq> None);
     wallet_client \<leftarrow> at_most_one (opt ''oid4vci-client-id'');
     required (length (opt ''oid4vci-offer-endpoint'') \<le> 1);
     tx_code \<leftarrow> at_most_one (opt ''oid4vci-offer-tx-code'');
     admin \<leftarrow> at_most_one (opt ''admin-bind'');
     required (port_of (unwrap_or admin DEFAULT_ADMIN_BIND) \<noteq> None);
     token \<leftarrow> at_most_one (opt ''admin-token'');
     ctx \<leftarrow> at_most_one (opt ''participant-context-id'');
     given_approval \<leftarrow> at_most_one (opt ''holder-approval'');
     approval \<leftarrow> approval_value (unwrap_or given_approval ''auto'');
     Some \<lparr>ca_bind_port = bind_port, ca_did_host = host, ca_sts_client_id = unwrap_or client ''tck-client'',
       ca_sts_client_secret = secret, ca_scope_pattern = unwrap_or scope DEFAULT_SCOPE_PATTERN, ca_insecure_http = insecure,
       ca_trusted_issuer_dids = opt ''trusted-issuer-did'', ca_trusted_issuers_registry = registry,
       ca_trusted_issuers_registry_did = registry_did, ca_known_holder_pids = opt ''known-holder-pid'',
       ca_allow_resolve_host = opt ''allow-resolve-host'', ca_oid4vci_client_id = wallet_client,
       ca_oid4vci_offer_endpoint = (opt ''oid4vci-offer-endpoint'' \<noteq> []), ca_oid4vci_offer_tx_code = tx_code,
       ca_extra_root_certs = opt ''extra-root-cert'', ca_admin_bind = unwrap_or admin DEFAULT_ADMIN_BIND,
       ca_admin_token = or_env token (env ''IDENTITY_HUB_ADMIN_TOKEN''),
       ca_participant_context_id = unwrap_or ctx DEFAULT_PARTICIPANT_CONTEXT_ID, ca_holder_approval = approval\<rparr>
   }"

section \<open>Configuration\<close>

text \<open>\<open>replacen(':', "%3A", 1)\<close>.\<close>

fun encode_first_colon :: "string \<Rightarrow> string" where
  "encode_first_colon [] = []"
| "encode_first_colon (c # s) = (if c = CHR '':'' then ''%3A'' @ s else c # encode_first_colon s)"

definition registry_did_from_url :: "string \<Rightarrow> string" where
  "registry_did_from_url url =
     (let rest = (case split_once url ''://'' of None \<Rightarrow> url | Some (_, rest) \<Rightarrow> rest)
      in ''did:web:'' @ encode_first_colon (to_ascii_lowercase (hd (split_char CHR ''/'' rest))))"

text \<open>The certificates are read first; one that cannot be read panics.\<close>

definition read_all :: "(string \<Rightarrow> string option) \<Rightarrow> string list \<Rightarrow> string list option" where
  "read_all read paths = those (map read paths)"

definition into_config :: "(string \<Rightarrow> string option) \<Rightarrow> common_args \<Rightarrow> mode \<Rightarrow> config option" where
  "into_config read ca md =
     map_option (\<lambda>certs.
       \<lparr>cfg_mode = md, bind_port = ca_bind_port ca,
        did_host = unwrap_or (ca_did_host ca) (''localhost:'' @ nat_to_string (ca_bind_port ca)),
        cfg_sts_client_id = ca_sts_client_id ca, cfg_sts_client_secret = ca_sts_client_secret ca,
        scope_pattern = ca_scope_pattern ca, insecure_http = ca_insecure_http ca,
        trusted_issuer_dids = ca_trusted_issuer_dids ca,
        cfg_registry = map_option (\<lambda>url. \<lparr>reg_base_url = url,
          reg_did = unwrap_or (ca_trusted_issuers_registry_did ca) (registry_did_from_url url)\<rparr>) (ca_trusted_issuers_registry ca),
        known_holder_pids = ca_known_holder_pids ca, allowed_outbound_hosts = ca_allow_resolve_host ca,
        oid4vci_client_id = ca_oid4vci_client_id ca, oid4vci_offer_endpoint = ca_oid4vci_offer_endpoint ca,
        oid4vci_offer_tx_code = ca_oid4vci_offer_tx_code ca, extra_root_certs = certs, admin_bind = ca_admin_bind ca,
        admin_token = (case ca_admin_token ca of None \<Rightarrow> None | Some t \<Rightarrow> if t = [] then None else Some t),
        participant_context_id = ca_participant_context_id ca, cfg_holder_approval = ca_holder_approval ca\<rparr>)
       (read_all read (ca_extra_root_certs ca))"

section \<open>Start-up\<close>

text \<open>What the start logs as a warning.\<close>

datatype warning = NoTrustedIssuer | AdminTokenIgnored | PullFailed connector_error

definition config_warnings :: "config \<Rightarrow> warning list" where
  "config_warnings c = (if cfg_registry c = None \<and> cfg_mode c = CredentialService \<and> trusted_issuer_dids c = [] then [NoTrustedIssuer] else [])"

definition pull_warnings :: "serde \<Rightarrow> config \<Rightarrow> graph \<Rightarrow> warning list" where
  "pull_warnings S c g =
     (if cfg_mode c \<noteq> CredentialService then []
      else case connector_pull S g STORED_CREDENTIAL_KIND of Inl e \<Rightarrow> [PullFailed e] | Inr docs \<Rightarrow> [])"

definition admin_warnings :: "config \<Rightarrow> warning list" where
  "admin_warnings c = (if admin_token c \<noteq> None \<and> cfg_mode c \<noteq> IssuerService then [AdminTokenIgnored] else [])"

text \<open>The machine the process starts on: its files, its random generator, its regex and TLS libraries, its ports.\<close>

record 'k machine =
  read_file :: "string \<Rightarrow> string option"
  is_pem :: "string \<Rightarrow> bool"
  key_gen :: "string \<Rightarrow> 'k \<times> string"
  compile_pattern :: "string \<Rightarrow> scope_matcher option"
  binds_admin :: "string \<Rightarrow> bool"
  binds_public :: "nat \<Rightarrow> bool"

datatype ('k, 'l, 'w) boot = Exited nat | Crashed | Serving "'k app" "('l, 'w) hub_process" bool "warning list"

definition build :: "('d, 'k) dcp \<Rightarrow> 'k machine \<Rightarrow> u64 \<Rightarrow> 'w \<Rightarrow> config \<Rightarrow> ('k app \<times> ('l, 'w) hub_process) option" where
  "build D M now servers c = do {
     a \<leftarrow> app_new D (key_gen M) (compile_pattern M) c;
     required (\<forall>pem \<in> set (extra_root_certs c). is_pem M pem);
     s \<leftarrow> hub_start now servers;
     Some (a, s)
   }"

text \<open>\<open>Serving a s admin ws\<close>: the process serves its router, and the Admin API when \<open>admin\<close> holds.\<close>

definition main ::
    "('d, 'k) dcp \<Rightarrow> serde \<Rightarrow> 'k machine \<Rightarrow> u64 \<Rightarrow> 'w \<Rightarrow> mode \<Rightarrow> common_args option \<Rightarrow> ('k, 'l, 'w) boot" where
  "main D S M now servers md parsed =
     (case parsed of
        None \<Rightarrow> Exited 2
      | Some ca \<Rightarrow>
          (case into_config (read_file M) ca md of
             None \<Rightarrow> Crashed
           | Some c \<Rightarrow>
               (case build D M now servers c of
                  None \<Rightarrow> Crashed
                | Some (a, s) \<Rightarrow>
                    if build_admin a \<and> \<not> binds_admin M (admin_bind c) then Exited 1
                    else if \<not> binds_public M (bind_port c) then Exited 1
                    else Serving a s (build_admin a)
                      (config_warnings c @ pull_warnings S c (h_store (hp_state s)) @ admin_warnings c))))"


section \<open>A guarded start\<close>

lemma required_Some [simp]: "required b = Some x \<longleftrightarrow> b"
  by (simp add: required_def)

lemma at_most_one_Some: "at_most_one vs = Some v \<longleftrightarrow> (case v of None \<Rightarrow> vs = [] | Some x \<Rightarrow> vs = [x])"
  by (auto simp: at_most_one_def split: list.split option.split)

lemma or_env_Some: "or_env v e = Some x \<longleftrightarrow> v = Some x \<or> v = None \<and> e = Some x"
  by (auto simp: or_env_def split: option.split)

lemma parse_args_Some:
  assumes "parse_args port_of opt env = Some ca"
  shows "ca_sts_client_secret ca \<noteq> []"
    and "opt ''sts-client-secret'' = [ca_sts_client_secret ca]
      \<or> opt ''sts-client-secret'' = [] \<and> env ''IDENTITY_HUB_STS_CLIENT_SECRET'' = Some (ca_sts_client_secret ca)"
    and "ca_admin_token ca = Some t \<longleftrightarrow> opt ''admin-token'' = [t] \<or> opt ''admin-token'' = [] \<and> env ''IDENTITY_HUB_ADMIN_TOKEN'' = Some t"
    and "ca_insecure_http ca \<longleftrightarrow> opt ''insecure-http'' \<noteq> [''false'']"
    and "ca_trusted_issuer_dids ca = opt ''trusted-issuer-did''"
    and "ca_trusted_issuers_registry ca = None \<longleftrightarrow> opt ''trusted-issuers-registry'' = []"
proof -
  from assms obtain given_secret secret given_insecure insecure registry token where
    secret: "at_most_one (opt ''sts-client-secret'') = Some given_secret"
      "or_env given_secret (env ''IDENTITY_HUB_STS_CLIENT_SECRET'') = Some secret" "secret \<noteq> []"
    and insecure: "at_most_one (opt ''insecure-http'') = Some given_insecure" "bool_value (unwrap_or given_insecure ''true'') = Some insecure"
    and registry: "at_most_one (opt ''trusted-issuers-registry'') = Some registry" and token: "at_most_one (opt ''admin-token'') = Some token"
    and ca: "ca_sts_client_secret ca = secret" "ca_insecure_http ca = insecure" "ca_trusted_issuers_registry ca = registry"
      "ca_admin_token ca = or_env token (env ''IDENTITY_HUB_ADMIN_TOKEN'')" "ca_trusted_issuer_dids ca = opt ''trusted-issuer-did''"
    unfolding parse_args_def bind_eq_Some_conv required_Some
    by (elim exE conjE) (rule that, assumption+, (simp only: option.inject, hypsubst, simp only: common_args.simps)+)
  show "ca_sts_client_secret ca \<noteq> []" using secret ca by simp
  show "opt ''sts-client-secret'' = [ca_sts_client_secret ca]
      \<or> opt ''sts-client-secret'' = [] \<and> env ''IDENTITY_HUB_STS_CLIENT_SECRET'' = Some (ca_sts_client_secret ca)"
    using secret(1,2) unfolding ca at_most_one_Some or_env_Some by (elim disjE conjE) simp_all
  show "ca_admin_token ca = Some t \<longleftrightarrow> opt ''admin-token'' = [t] \<or> opt ''admin-token'' = [] \<and> env ''IDENTITY_HUB_ADMIN_TOKEN'' = Some t"
    using token unfolding ca at_most_one_Some or_env_Some by (cases token) simp_all
  show "ca_insecure_http ca \<longleftrightarrow> opt ''insecure-http'' \<noteq> [''false'']"
    using insecure unfolding ca at_most_one_Some by (cases given_insecure) (auto simp: bool_value_def unwrap_or_def split: if_splits)
  show "ca_trusted_issuer_dids ca = opt ''trusted-issuer-did''" by (rule ca(5))
  show "ca_trusted_issuers_registry ca = None \<longleftrightarrow> opt ''trusted-issuers-registry'' = []"
    using registry unfolding ca at_most_one_Some by (cases registry) simp_all
qed

lemma main_Serving:
  assumes "main D S M now servers md parsed = Serving a s admin ws"
  obtains ca c where "parsed = Some ca" "into_config (read_file M) ca md = Some c" "a_config a = c"
    "sts_client_secret (a_sts_config a) = cfg_sts_client_secret c" "hub_start now servers = Some s" "admin = build_admin a"
    "ws = config_warnings c @ pull_warnings S c (h_store (hp_state s)) @ admin_warnings c"
  using assms unfolding main_def build_def
  by (auto simp: bind_eq_Some_conv app_new_def split: option.splits if_splits)

lemma into_config_fields:
  assumes "into_config read ca md = Some c"
  shows "cfg_mode c = md" "cfg_sts_client_secret c = ca_sts_client_secret ca" "insecure_http c = ca_insecure_http ca"
    "trusted_issuer_dids c = ca_trusted_issuer_dids ca" "cfg_registry c = None \<longleftrightarrow> ca_trusted_issuers_registry ca = None"
    "admin_token c = Some t \<longleftrightarrow> ca_admin_token ca = Some t \<and> t \<noteq> []"
  using assms by (auto simp: into_config_def split: option.splits if_splits)

text \<open>
  C10. A hub that serves was started with an operator secret, and is closed by default: it has the
  non-empty secret of its command line or environment; its Admin API is served exactly by an issuer that was
  given a non-empty token; it resolves DIDs over HTTPS exactly when told to; and its log warns exactly when it
  is a Credential Service without a trusted issuer.
\<close>

theorem start_up_guarded:
  assumes start: "main D S M now servers md (parse_args port_of opt env) = Serving a s admin ws"
  shows "cfg_mode (a_config a) = md
    \<and> sts_client_secret (a_sts_config a) \<noteq> []
    \<and> (opt ''sts-client-secret'' = [sts_client_secret (a_sts_config a)] \<or> opt ''sts-client-secret'' = []
         \<and> env ''IDENTITY_HUB_STS_CLIENT_SECRET'' = Some (sts_client_secret (a_sts_config a)))
    \<and> (admin \<longleftrightarrow> md = IssuerService \<and> (\<exists>t. t \<noteq> [] \<and> (opt ''admin-token'' = [t]
         \<or> opt ''admin-token'' = [] \<and> env ''IDENTITY_HUB_ADMIN_TOKEN'' = Some t)))
    \<and> (scheme (a_config a) = ''https'' \<longleftrightarrow> opt ''insecure-http'' = [''false''])
    \<and> (NoTrustedIssuer \<in> set ws \<longleftrightarrow> md = CredentialService \<and> opt ''trusted-issuer-did'' = [] \<and> opt ''trusted-issuers-registry'' = [])
    \<and> (\<forall>e. PullFailed e \<notin> set ws)"
  using start
proof (rule main_Serving)
  fix ca c
  assume ca: "parse_args port_of opt env = Some ca" and c: "into_config (read_file M) ca md = Some c" and a: "a_config a = c"
    "sts_client_secret (a_sts_config a) = cfg_sts_client_secret c" and adm: "admin = build_admin a"
    and ws: "ws = config_warnings c @ pull_warnings S c (h_store (hp_state s)) @ admin_warnings c"
  note fields = into_config_fields [OF c] and args = parse_args_Some [OF ca]
  have admin: "admin \<longleftrightarrow> md = IssuerService \<and> (\<exists>t. t \<noteq> [] \<and> ca_admin_token ca = Some t)"
    using fields(1,6) unfolding adm build_admin_def a by (cases "admin_token c") auto
  have warned: "NoTrustedIssuer \<in> set ws \<longleftrightarrow> md = CredentialService \<and> ca_trusted_issuer_dids ca = [] \<and> ca_trusted_issuers_registry ca = None"
    using fields(1,4,5) by (auto simp: ws config_warnings_def pull_warnings_def admin_warnings_def split: sum.splits)
  have pulled: "\<forall>e. PullFailed e \<notin> set ws"
    by (simp add: ws config_warnings_def pull_warnings_def admin_warnings_def connector_pull_def)
  have "scheme c = ''https'' \<longleftrightarrow> \<not> ca_insecure_http ca" by (simp add: scheme_def fields(3))
  note https = this [unfolded args(4) not_not]
  show ?thesis
    unfolding a fields(1,2) by (intro conjI) (rule refl args(1,2) https pulled admin [unfolded args(3)] warned [unfolded args(5,6)])+
qed


section \<open>A Credential Service that trusts no issuer\<close>

definition untrusting :: "'k app \<Rightarrow> bool" where
  "untrusting a \<longleftrightarrow> cfg_registry (a_config a) = None \<and> trusted_issuer_dids (a_config a) = []"

lemma untrusting_issuer:
  assumes "untrusting a"
  shows "snd (fst (check_issuer D N T a t1 t2 iss types cache)) \<noteq> Ok ()" "trusted_cache T a cache"
  using assms static_check_issuer [of a D N T t1 t2 iss types cache]
  by (simp_all add: untrusting_def registry_configured_def trusted_cache_def)

lemma refuses_stop: "refuses codes m \<Longrightarrow> (\<And>s v. snd (fst (m s)) \<noteq> Ok v) \<Longrightarrow> refuses codes (sio_bind m f)"
  by (auto simp: refuses_def sio_bind_result split: sum.splits)

lemma untrusting_checks:
  assumes "untrusting a"
  shows "refuses {401} (storage_checks D N T a hdr msg clock)" "snd (fst (storage_checks D N T a hdr msg clock s)) \<noteq> Ok u"
    and "refuses {401} (offer_checks D N T parse a hdr omsg clock)" "snd (fst (offer_checks D N T parse a hdr omsg clock s)) \<noteq> Ok u"
proof -
  have never: "snd (fst (trust_issuer D N T a clock iss types s)) \<noteq> Ok v" for clock iss types s v
    using untrusting_issuer(1) [OF assms] by (simp add: trust_issuer_Ok)
  show "refuses {401} (storage_checks D N T a hdr msg clock)" "refuses {401} (offer_checks D N T parse a hdr omsg clock)"
    unfolding storage_checks_def offer_checks_def by (intro refuses_bind refuses_stop never; simp)+
  show "snd (fst (storage_checks D N T a hdr msg clock s)) \<noteq> Ok u" "snd (fst (offer_checks D N T parse a hdr omsg clock s)) \<noteq> Ok u"
    unfolding storage_checks_def offer_checks_def sio_bind_Ok using never by blast+
qed

lemma untrusting_writes:
  fixes s :: "'l hub_state"
  assumes "untrusting a"
  shows "r_status (respond (storage_write D N T S a hdr msg clock i s)) = 401"
    and "h_store (snd (storage_write D N T S a hdr msg clock i s)) = h_store s"
    and "r_status (respond (credential_offer D N T parse a hdr omsg clock i s)) = 401"
    and "h_store (snd (credential_offer D N T parse a hdr omsg clock i s)) = h_store s"
proof -
  obtain r where r: "snd (fst (storage_checks D N T a hdr msg clock s)) = Inl r"
    using untrusting_checks(2) [OF assms, of D N T hdr msg clock s] by (cases "snd (fst (storage_checks D N T a hdr msg clock s))") auto
  with refusesD [OF untrusting_checks(1) [OF assms] this] keepsD [OF storage_checks_keeps, of D N T a hdr msg clock s]
  show "r_status (respond (storage_write D N T S a hdr msg clock i s)) = 401"
    "h_store (snd (storage_write D N T S a hdr msg clock i s)) = h_store s"
    by (simp_all add: storage_write_def sio_bind_result sio_bind_state respond_def split_beta)
  obtain r where r: "snd (fst (offer_checks D N T parse a hdr omsg clock s)) = Inl r"
    using untrusting_checks(4) [OF assms, of D N T parse hdr omsg clock s] by (cases "snd (fst (offer_checks D N T parse a hdr omsg clock s))") auto
  with refusesD [OF untrusting_checks(3) [OF assms] this] keepsD [OF offer_checks_keeps, of D N T parse a hdr omsg clock s]
  show "r_status (respond (credential_offer D N T parse a hdr omsg clock i s)) = 401"
    "h_store (snd (credential_offer D N T parse a hdr omsg clock i s)) = h_store s"
    by (simp_all add: credential_offer_def sio_bind_result sio_bind_state respond_def split_beta)
qed

text \<open>A redemption brings nothing in either.\<close>

lemma untrusting_redeem:
  fixes P :: "('d, 'k, 'l, 't, 'w) platform" and s :: "('l, 'w) wallet_state"
  assumes "untrusting a"
  shows "wl_store (snd (redeem C D N T S J a net clock uuid body s)) = wl_store s"
proof -
  let ?run = "redeem_credentials C D N T J a net clock uuid body s"
  have g: "wl_store (snd ?run) = wl_store s" "\<And>offer hv. snd (fst ?run) = Ok (offer, hv) \<Longrightarrow> harvest_vetted D N T a clock hv"
    using guaranteesD [OF redeem_credentials_guarantees [of T a "wl_store s" C D N J net clock uuid body], of s] untrusting_issuer(2) [OF assms]
    by (auto simp: pending_def)
  show ?thesis
  proof (cases "snd (fst ?run)")
    case (Inl e)
    with g(1) show ?thesis by (simp add: redeem_def sio_bind_state)
  next
    case (Inr v)
    obtain offer hv where v: "v = (offer, hv)" by (cases v)
    have "\<not> wallet_vetted D N T a clock c" for c using untrusting_issuer(1) [OF assms] unfolding wallet_vetted_def by blast
    with g(2) [OF Inr [unfolded v]] have "hv_containers hv = []" by (cases "hv_containers hv") (auto simp: harvest_vetted_def)
    then show ?thesis using Inr v g(1) by (auto simp: redeem_def sio_bind_state store_harvest_effect)
  qed
qed


lemma without_body_state [simp]: "snd (without_body run) = snd run"
  by (simp add: without_body_def split_beta)

lemma untrusting_step:
  assumes no: "untrusting a" and cs: "cfg_mode (a_config a) = CredentialService" and ok: "hp_deliveries s = {||}"
  shows "h_store (hp_state (snd (hub_step P a e s))) = h_store (hp_state s) \<and> hp_deliveries (snd (hub_step P a e s)) = {||}"
proof (cases e)
  case (Public c tk)
  let ?ok = "\<lambda>s'. h_store (hp_state s') = h_store (hp_state s) \<and> hp_deliveries s' = {||}"
  have answered: "?ok (snd (answered_with r s))" for r using ok by (simp add: answered_with_def)
  have extracted: "?ok (snd (extracted body k s))" if "\<And>b. ?ok (snd (k b s))" for body :: "('z, response) result" and k
    using that answered by (simp add: extracted_def split: sum.split)
  have tables: "?ok (snd (on_tables m s))" if "h_store (snd (m (hp_state s))) = h_store (hp_state s)" for m
    using that ok by (simp add: on_tables_def split_beta)
  have wallet: "?ok (snd (on_wallet P a tk q s))" for q
    using ok
    by (cases q) (simp_all add: untrusting_redeem [OF no] on_wallet_def wallet_view_def redeem_offer_def credential_offer_endpoint_def split_beta split: option.split sum.split)
  have served: "?ok (snd (serve P a tk c e' s))" if "hub_route (a_config a) (hc_path c) = Some (m, e')" for m e'
  proof -
    from credential_service_endpoints [OF cs that]
    consider i where "e' = DidDocument i" | "e' = StsToken" | "e' = PresentationsQuery" | "e' = StorageWrite" | "e' = OfferDelivery"
      | "e' = WalletOffers" | "e' = WalletCredentialOffer" by blast
    then show ?thesis
    proof cases
      case 3
      show ?thesis unfolding 3 serve.simps by (rule extracted, rule tables, rule keepsD [OF presentation_query_keeps])
    next
      case 4
      show ?thesis unfolding 4 serve.simps by (rule extracted, rule tables, rule untrusting_writes(2) [OF no])
    next
      case 5
      show ?thesis unfolding 5 serve.simps by (rule extracted, rule tables, rule untrusting_writes(4) [OF no])
    qed (simp_all only: serve.simps, (rule extracted, (rule answered | rule wallet))+)
  qed
  then show ?thesis unfolding Public using answered
    by (simp add: hub_router_def split: option.split)
next
  case (AdminCall q tk)
  then show ?thesis using cs ok by (simp add: admin_call_def build_admin_def)
next
  case (Deliver i tk)
  then show ?thesis using ok by (simp add: run_delivery_def)
qed

text \<open>
  C11. A Credential Service that logs the missing-issuer warning is as closed as the warning says: it answers
  every write of its Storage and Offer APIs 401, whoever the caller is, and whatever it is asked over its
  life - redemptions of offers included - its store stays empty.
\<close>

theorem untrusting_hub_stores_nothing:
  fixes P :: "('d, 'k, 'l, 't, 'w) platform" and s0 :: "('l, 'w) hub_process" and s :: "'l hub_state"
  assumes start: "main D S M now servers md parsed = Serving a s0 admin ws" and warned: "NoTrustedIssuer \<in> set ws"
  shows "h_store (hp_state (snd (hub_run P a es s0))) = store_new
    \<and> r_status (respond (storage_write (pf_dcp P) (pf_network P) (pf_trust P) (pf_serde P) a hdr msg clock i s)) = 401
    \<and> r_status (respond (credential_offer (pf_dcp P) (pf_network P) (pf_trust P) (pf_catalog_of P) a hdr omsg clock i s)) = 401"
proof -
  from start obtain c where c: "a_config a = c" and s0: "hub_start now servers = Some s0"
    and ws: "ws = config_warnings c @ pull_warnings S c (h_store (hp_state s0)) @ admin_warnings c" by (rule main_Serving)
  have no: "untrusting a" and cs: "cfg_mode (a_config a) = CredentialService"
    using warned by (auto simp: ws c untrusting_def config_warnings_def pull_warnings_def admin_warnings_def split: if_splits sum.splits)
  have "h_store (hp_state (snd (hub_run P a es s))) = h_store (hp_state s)" if "hp_deliveries s = {||}" for s
    using that
  proof (induction es arbitrary: s)
    case (Cons e es)
    from Cons.IH [of "snd (hub_step P a e s)"] untrusting_step [OF no cs Cons.prems, of P e] show ?case by (simp add: split_beta)
  qed simp
  moreover have "h_store (hp_state s0) = store_new" "hp_deliveries s0 = {||}" using s0 by (auto simp: hub_start_def)
  ultimately show ?thesis by (simp add: untrusting_writes(1,3) [OF no])
qed


text \<open>
  The default DID of a registry escapes one colon of the authority: enough for a name with a port, not for an
  IPv6 literal, whose other colons become path separators of the did:web.
\<close>

lemma registry_did_examples:
  "registry_did_from_url ''http://localhost:8090/'' = ''did:web:localhost%3A8090''"
  "registry_did_from_url ''https://[::1]:8090/'' = ''did:web:[%3A:1]:8090''"
  by code_simp+

section \<open>Witnesses\<close>

text \<open>A command line with a secret and nothing else, on a machine where everything works.\<close>

definition sample_options :: "string \<Rightarrow> string list" where
  "sample_options opt = (if opt = ''sts-client-secret'' then [''s3cret''] else [])"

definition sample_machine :: "string machine" where
  "sample_machine = \<lparr>read_file = Some, is_pem = (\<lambda>_. True), key_gen = (\<lambda>d. (''k1'', d @ ''#k1'')),
     compile_pattern = (\<lambda>_. Some default_pattern_type), binds_admin = (\<lambda>_. True), binds_public = (\<lambda>_. True)\<rparr>"

definition sample_boot :: "(string, nat, unit) boot" where
  "sample_boot = main (sample_dcp sample_decode) sample_serde sample_machine 7 () CredentialService
     (parse_args (\<lambda>_. Some 8080) sample_options (\<lambda>_. None))"

lemma sample_boot_serves: "\<exists>a. sample_boot = Serving a sample_start False [NoTrustedIssuer]"
proof -
  have absent: "sample_options opt = []" if "opt \<noteq> ''sts-client-secret''" for opt using that by (simp add: sample_options_def)
  have "\<exists>ca. parse_args (\<lambda>_. Some 8080) sample_options (\<lambda>_. None) = Some ca \<and> ca_trusted_issuer_dids ca = []
      \<and> ca_trusted_issuers_registry ca = None \<and> ca_extra_root_certs ca = [] \<and> ca_admin_token ca = None"
    unfolding parse_args_def
    by (simp add: absent at_most_one_def or_env_def unwrap_or_def bool_value_def approval_value_def required_def)
      (simp add: sample_options_def)
  then obtain ca where ca: "parse_args (\<lambda>_. Some 8080) sample_options (\<lambda>_. None) = Some ca" "ca_trusted_issuer_dids ca = []"
      "ca_trusted_issuers_registry ca = None" "ca_extra_root_certs ca = []" "ca_admin_token ca = None" by blast
  show ?thesis
    by (simp add: sample_boot_def main_def ca into_config_def read_all_def build_def app_new_def sample_machine_def required_def
        build_admin_def config_warnings_def pull_warnings_def admin_warnings_def connector_pull_def split: option.split)
qed

theorem start_up_guarded_witness:
  "\<exists>a s ws. sample_boot = Serving a s False ws \<and> sts_client_secret (a_sts_config a) = ''s3cret''
     \<and> scheme (a_config a) \<noteq> ''https'' \<and> NoTrustedIssuer \<in> set ws"
proof -
  from sample_boot_serves obtain a where a: "sample_boot = Serving a sample_start False [NoTrustedIssuer]" ..
  from start_up_guarded [OF a [unfolded sample_boot_def]]
  have "sts_client_secret (a_sts_config a) = ''s3cret''" "scheme (a_config a) \<noteq> ''https''" by (simp_all add: sample_options_def)
  with a show ?thesis by (intro exI conjI) (assumption | simp)+
qed

theorem untrusting_hub_stores_nothing_witness:
  "\<exists>a. sample_boot = Serving a sample_start False [NoTrustedIssuer]
     \<and> h_store (hp_state (snd (hub_run sample_platform a [Public (sample_call [''credentials'']) (sample_tick 0)] sample_start))) = store_new
     \<and> r_status (respond (storage_write (sample_dcp sample_decode) sample_network sample_trust sample_serde a
          (Some ''Bearer k1.token'') sample_message (\<lambda>_. 1010) ''b'' (hp_state sample_start))) = 401"
proof -
  from sample_boot_serves obtain a where a: "sample_boot = Serving a sample_start False [NoTrustedIssuer]" ..
  have "NoTrustedIssuer \<in> set [NoTrustedIssuer]" by simp
  from untrusting_hub_stores_nothing [OF a [unfolded sample_boot_def] this, where P = sample_platform
      and es = "[Public (sample_call [''credentials'']) (sample_tick 0)]" and hdr = "Some ''Bearer k1.token''" and msg = sample_message
      and clock = "\<lambda>_. 1010" and i = "''b''" and s = "hp_state sample_start" and omsg = undefined] a
  show ?thesis by (intro exI [of _ a] conjI) simp_all
qed

end
