(* ===== verification/Verifier_Tool.thy ===== *)
theory Verifier_Tool
  imports Hub
begin

text \<open>
  The load-test helper (bench/verifier-token, main.rs): a second program that plays an issuer and a verifier
  against a running Credential Service. It hosts two DIDs of its own, seeds one credential through the
  Storage API, and mints the bearer tokens of presentation queries. The second half runs it against the
  model of the hub.
\<close>

section \<open>The tool's state\<close>

record tool_args =
  ta_target_base_url :: string
  ta_target_did :: string
  ta_sts_client_id :: string
  ta_sts_client_secret :: string
  ta_scope :: string
  ta_credential_type :: string
  ta_host :: string
  ta_bind :: string
  ta_holder_pid :: string
  ta_issuer_pid :: string

record 'k mint_state =
  ms_target_base_url :: string
  ms_target_did :: string
  ms_sts_client_id :: string
  ms_sts_client_secret :: string
  ms_scope :: string
  ms_verifier :: "'k service_identity"

text \<open>Everything an \<open>anyhow::Error\<close> of the tool can be.\<close>

datatype tool_error =
    ClientError string
  | StsRequestFailed nat string
  | NoAccessToken
  | UndecodableResponse string
  | NoNestedToken
  | SeedingFailed nat string
  | NeverReady string
  | CannotBind string

fun tool_message :: "('d, 'k) dcp \<Rightarrow> tool_error \<Rightarrow> string" where
  "tool_message D (ClientError e) = e"
| "tool_message D (StsRequestFailed st body) = ''STS token request failed: HTTP '' @ status_display D st @ '': '' @ body"
| "tool_message D NoAccessToken = ''STS response had no access_token''"
| "tool_message D (UndecodableResponse e) = ''could not decode target STS response: '' @ e"
| "tool_message D NoNestedToken = ''target STS response had no nested token claim''"
| "tool_message D (SeedingFailed st body) = ''Storage API seeding failed: HTTP '' @ status_display D st @ '': '' @ body"
| "tool_message D (NeverReady url) = ''verifier-token'' @ [CHR 39] @ ''s own DID server never became ready at '' @ url"
| "tool_message D (CannotBind e) = e"

text \<open>The servers it talks to, its own included, are a state machine.\<close>

type_synonym ('w, 'a) tool = "('w, 'a, tool_error) sio"

definition tool_send :: "'w servers \<Rightarrow> http_request \<Rightarrow> ('w, http_reply) tool" where
  "tool_send net req w = (case net req w of (r, w') \<Rightarrow> (io_contact (hr_url req) (map_err ClientError r), w'))"

text \<open>\<open>text().await.unwrap_or_default()\<close>, and \<open>json().await\<close> with the JSON parser.\<close>

definition reply_text :: "http_reply \<Rightarrow> string" where
  "reply_text r = (case hp_body r of Inl e \<Rightarrow> [] | Inr text \<Rightarrow> text)"

definition reply_json :: "(string \<Rightarrow> (json, string) result) \<Rightarrow> http_reply \<Rightarrow> (json, tool_error) result" where
  "reply_json parse r = map_err ClientError (case hp_body r of Inl e \<Rightarrow> Err e | Inr text \<Rightarrow> parse text)"

section \<open>Calling the target's token service\<close>

definition sts_form :: "string \<Rightarrow> string \<Rightarrow> string \<Rightarrow> string option \<Rightarrow> (string \<times> string) list" where
  "sts_form client secret aud bearer_scope =
     [(''grant_type'', ''client_credentials''), (''client_id'', client), (''client_secret'', secret), (''audience'', aud)]
     @ (case bearer_scope of None \<Rightarrow> [] | Some scope \<Rightarrow> [(''bearer_access_scope'', scope)])"

definition request_sts_token ::
    "(string \<Rightarrow> (json, string) result) \<Rightarrow> 'w servers \<Rightarrow> string \<Rightarrow> string \<Rightarrow> string \<Rightarrow> string \<Rightarrow> string option \<Rightarrow> ('w, string) tool" where
  "request_sts_token parse net target client secret aud bearer_scope =
     sio_bind (tool_send net \<lparr>hr_method = ''POST'', hr_url = target @ ''/sts/token'', hr_headers = [],
        hr_body = FormBody (sts_form client secret aud bearer_scope)\<rparr>) (\<lambda>reply.
     sio_bind (sio_return (if is_success (hp_status reply) then Ok () else Err (StsRequestFailed (hp_status reply) (reply_text reply)))) (\<lambda>_.
     sio_bind (sio_return (reply_json parse reply)) (\<lambda>body.
     sio_return (ok_or (get_str body ''access_token'') NoAccessToken))))"

section \<open>Seeding a credential\<close>

definition seed_payload :: "'k service_identity \<Rightarrow> string \<Rightarrow> string \<Rightarrow> u64 \<Rightarrow> string \<Rightarrow> json" where
  "seed_payload issuer ty holder_pid now jti = json_obj [
     (''iss'', JStr (own_did issuer)), (''sub'', JStr (''did:example:'' @ holder_pid)),
     (''vc'', json_obj [(''@context'', JArr [JStr VC_CONTEXT]), (''type'', JArr [JStr ''VerifiableCredential'', JStr ty]),
        (''credentialSubject'', json_obj [(''id'', JStr (''did:example:'' @ holder_pid))])]),
     (''iat'', JNum (PosInt now)), (''nbf'', JNum (PosInt now)),
     (''exp'', JNum (PosInt (u64_add now (3600 * 24 * 365)))), (''jti'', JStr jti)]"

definition seed_message :: "('d, 'k) dcp \<Rightarrow> tool_args \<Rightarrow> 'k service_identity \<Rightarrow> u64 \<Rightarrow> string \<Rightarrow> credential_message" where
  "seed_message D args issuer now jti =
     \<lparr>cm_context = [DCP_CONTEXT], cm_type = ''CredentialMessage'', cm_issuer_pid = ta_issuer_pid args,
      cm_holder_pid = ta_holder_pid args, cm_status = ''ISSUED'',
      cm_credentials = [\<lparr>cc_type = ta_credential_type args,
        cc_payload = JStr (sign_jws D (seed_payload issuer (ta_credential_type args) (ta_holder_pid args) now jti)
          (own_key issuer) (own_key_id issuer)), cc_format = ''jwt''\<rparr>],
      cm_rejection_reason = None\<rparr>"

text \<open>\<open>post(url).bearer_auth(token).json(&message)\<close>.\<close>

definition seed_post :: "string \<Rightarrow> string \<Rightarrow> credential_message \<Rightarrow> http_request" where
  "seed_post target token message = \<lparr>hr_method = ''POST'', hr_url = target @ ''/credentials'',
     hr_headers = [(''authorization'', ''Bearer '' @ token)], hr_body = JsonBody (credential_message_json message)\<rparr>"

definition seed_credential ::
    "('d, 'k) dcp \<Rightarrow> (string \<Rightarrow> (json, string) result) \<Rightarrow> 'w servers \<Rightarrow> tool_args \<Rightarrow> 'k service_identity \<Rightarrow> u64 \<Rightarrow> string
     \<Rightarrow> ('w, unit) tool" where
  "seed_credential D parse net args issuer now jti =
     sio_bind (request_sts_token parse net (ta_target_base_url args) (ta_sts_client_id args) (ta_sts_client_secret args)
        (ta_target_did args) None) (\<lambda>storage_token.
     sio_bind (tool_send net (seed_post (ta_target_base_url args) storage_token (seed_message D args issuer now jti))) (\<lambda>reply.
     sio_return (if is_success (hp_status reply) then Ok () else Err (SeedingFailed (hp_status reply) (reply_text reply)))))"

section \<open>Minting bearer tokens\<close>

definition fetch_nested_token ::
    "('d, 'k) dcp \<Rightarrow> (string \<Rightarrow> (json, string) result) \<Rightarrow> 'w servers \<Rightarrow> 'k mint_state \<Rightarrow> ('w, string) tool" where
  "fetch_nested_token D parse net ms =
     sio_bind (request_sts_token parse net (ms_target_base_url ms) (ms_sts_client_id ms) (ms_sts_client_secret ms)
        (own_did (ms_verifier ms)) (Some (ms_scope ms))) (\<lambda>outer.
     sio_bind (sio_return (map_err UndecodableResponse (decode_jws_unverified D outer))) (\<lambda>(header, payload).
     sio_return (ok_or (get_str payload ''token'') NoNestedToken)))"

definition outer_payload :: "'k mint_state \<Rightarrow> string \<Rightarrow> u64 \<Rightarrow> string \<Rightarrow> json" where
  "outer_payload ms nested_token now jti = json_obj [
     (''iss'', JStr (own_did (ms_verifier ms))), (''sub'', JStr (own_did (ms_verifier ms))), (''aud'', JStr (ms_target_did ms)),
     (''iat'', JNum (PosInt now)), (''nbf'', JNum (PosInt now)), (''exp'', JNum (PosInt (u64_add now 250))),
     (''jti'', JStr jti), (''token'', JStr nested_token)]"

definition mint_outer_envelope :: "('d, 'k) dcp \<Rightarrow> 'k mint_state \<Rightarrow> string \<Rightarrow> u64 \<Rightarrow> string \<Rightarrow> string" where
  "mint_outer_envelope D ms nested_token now jti =
     sign_jws D (outer_payload ms nested_token now jti) (own_key (ms_verifier ms)) (own_key_id (ms_verifier ms))"

definition mint ::
    "('d, 'k) dcp \<Rightarrow> (string \<Rightarrow> (json, string) result) \<Rightarrow> 'w servers \<Rightarrow> 'k mint_state \<Rightarrow> u64 \<Rightarrow> string \<Rightarrow> ('w, string) tool" where
  "mint D parse net ms now jti =
     sio_bind (fetch_nested_token D parse net ms) (\<lambda>nested_token.
     sio_return (Ok (mint_outer_envelope D ms nested_token now jti)))"

text \<open>
  \<open>cores\<close> is \<open>available_parallelism\<close>; thread \<open>i\<close> reads the clock and draws a UUID once for each of its envelopes.
  The batch is small enough to be allocated.
\<close>

definition batch_threads :: "nat option \<Rightarrow> nat \<Rightarrow> nat" where
  "batch_threads cores n = min (unwrap_or cores 1) (max n 1)"

definition thread_count :: "nat \<Rightarrow> nat \<Rightarrow> nat \<Rightarrow> nat" where
  "thread_count threads n i = n div threads + (if i < n mod threads then 1 else 0)"

definition mint_chunk ::
    "('d, 'k) dcp \<Rightarrow> 'k mint_state \<Rightarrow> string \<Rightarrow> (nat \<Rightarrow> u64) \<Rightarrow> (nat \<Rightarrow> string) \<Rightarrow> nat \<Rightarrow> string" where
  "mint_chunk D ms nested_token clock uuid k =
     concat (map (\<lambda>j. mint_outer_envelope D ms nested_token (clock j) (uuid j) @ [CHR 10]) [0..<k])"

definition mint_batch ::
    "('d, 'k) dcp \<Rightarrow> (string \<Rightarrow> (json, string) result) \<Rightarrow> 'w servers \<Rightarrow> 'k mint_state \<Rightarrow> nat option
     \<Rightarrow> (nat \<Rightarrow> nat \<Rightarrow> u64) \<Rightarrow> (nat \<Rightarrow> nat \<Rightarrow> string) \<Rightarrow> nat \<Rightarrow> ('w, string) tool" where
  "mint_batch D parse net ms cores clock uuid n =
     sio_bind (fetch_nested_token D parse net ms) (\<lambda>nested_token.
     let threads = batch_threads cores n in
     sio_return (Ok (concat (map (\<lambda>i. mint_chunk D ms nested_token (clock i) (uuid i) (thread_count threads n i)) [0..<threads]))))"

section \<open>The tool's own server\<close>

datatype tool_endpoint = IssuerDocument | VerifierDocument | Mint | MintBatch | Healthz

definition tool_route :: "string \<Rightarrow> tool_endpoint option" where
  "tool_route path =
     (if path = ''/issuer/did.json'' then Some IssuerDocument
      else if path = ''/verifier/did.json'' then Some VerifierDocument
      else if path = ''/mint'' then Some Mint
      else if path = ''/mint-batch'' then Some MintBatch
      else if path = ''/healthz'' then Some Healthz
      else None)"

definition mint_handler ::
    "('d, 'k) dcp \<Rightarrow> (string \<Rightarrow> (json, string) result) \<Rightarrow> 'w servers \<Rightarrow> 'k mint_state \<Rightarrow> u64 \<Rightarrow> string \<Rightarrow> 'w \<Rightarrow> response \<times> 'w" where
  "mint_handler D parse net ms now jti w =
     (case mint D parse net ms now jti w of
        ((tr, Inr token), w') \<Rightarrow> (resp_json 200 (json_obj [(''token'', JStr token)]), w')
      | ((tr, Inl e), w') \<Rightarrow> (resp_text 500 (''mint failed: '' @ tool_message D e), w'))"

text \<open>The query string is read by the extractor, which answers by itself when it has no count in it.\<close>

definition mint_batch_handler ::
    "('d, 'k) dcp \<Rightarrow> (string \<Rightarrow> (json, string) result) \<Rightarrow> 'w servers \<Rightarrow> 'k mint_state \<Rightarrow> nat option
     \<Rightarrow> (nat \<Rightarrow> nat \<Rightarrow> u64) \<Rightarrow> (nat \<Rightarrow> nat \<Rightarrow> string) \<Rightarrow> (nat, response) result \<Rightarrow> 'w \<Rightarrow> response \<times> 'w" where
  "mint_batch_handler D parse net ms cores clock uuid query w =
     (case query of
        Inl r \<Rightarrow> (r, w)
      | Inr n \<Rightarrow>
          (case mint_batch D parse net ms cores clock uuid n w of
             ((tr, Inr body), w') \<Rightarrow> (with_header ''content-type'' ''text/plain'' (resp_text 200 body), w')
           | ((tr, Inl e), w') \<Rightarrow> (resp_text 500 (''mint-batch failed: '' @ tool_message D e), w')))"

fun tool_serve ::
    "('d, 'k) dcp \<Rightarrow> ('k \<Rightarrow> string \<times> string) \<Rightarrow> (string \<Rightarrow> (json, string) result) \<Rightarrow> 'w servers \<Rightarrow> 'k service_identity
     \<Rightarrow> 'k mint_state \<Rightarrow> nat option \<Rightarrow> (nat \<Rightarrow> nat \<Rightarrow> u64) \<Rightarrow> (nat \<Rightarrow> nat \<Rightarrow> string) \<Rightarrow> (nat, response) result
     \<Rightarrow> tool_endpoint \<Rightarrow> 'w \<Rightarrow> response \<times> 'w" where
  "tool_serve D xy parse net issuer ms cores clock uuid query IssuerDocument w = (resp_json 200 (did_document_json xy issuer []), w)"
| "tool_serve D xy parse net issuer ms cores clock uuid query VerifierDocument w =
     (resp_json 200 (did_document_json xy (ms_verifier ms) []), w)"
| "tool_serve D xy parse net issuer ms cores clock uuid query Mint w = mint_handler D parse net ms (clock 0 0) (uuid 0 0) w"
| "tool_serve D xy parse net issuer ms cores clock uuid query MintBatch w = mint_batch_handler D parse net ms cores clock uuid query w"
| "tool_serve D xy parse net issuer ms cores clock uuid query Healthz w = (resp_text 200 ''ok'', w)"

section \<open>Start\<close>

text \<open>\<open>if let Ok(resp)\<close>: a request whose failure is not an error.\<close>

definition tool_try :: "'w servers \<Rightarrow> http_request \<Rightarrow> ('w, http_reply option) tool" where
  "tool_try net req w = (case net req w of (r, w') \<Rightarrow> (io_contact (hr_url req) (Ok (case r of Inl e \<Rightarrow> None | Inr reply \<Rightarrow> Some reply)), w'))"

fun wait_attempts :: "'w servers \<Rightarrow> string \<Rightarrow> nat list \<Rightarrow> ('w, unit) tool" where
  "wait_attempts net url [] = sio_return (Ok ())"
| "wait_attempts net url (attempt # rest) =
     sio_bind (tool_try net \<lparr>hr_method = ''GET'', hr_url = url, hr_headers = [], hr_body = NoBody\<rparr>) (\<lambda>reply.
     if (case reply of None \<Rightarrow> False | Some r \<Rightarrow> is_success (hp_status r)) then sio_return (Ok ())
     else if attempt = 49 then sio_return (Err (NeverReady url))
     else wait_attempts net url rest)"

definition wait_until_ready :: "'w servers \<Rightarrow> string \<Rightarrow> ('w, unit) tool" where
  "wait_until_ready net url = wait_attempts net url [0..<50]"

text \<open>\<open>main\<close> up to the line \<open>ready:\<close>; from then on its server runs on the state it returns.\<close>

definition tool_main ::
    "('d, 'k) dcp \<Rightarrow> (string \<Rightarrow> 'k \<times> string) \<Rightarrow> (string \<Rightarrow> (json, string) result) \<Rightarrow> 'w servers
     \<Rightarrow> (string \<Rightarrow> (unit, string) result) \<Rightarrow> tool_args \<Rightarrow> u64 \<Rightarrow> string \<Rightarrow> ('w, 'k service_identity \<times> 'k mint_state) tool" where
  "tool_main D keygen parse net listen args now jti =
     (let issuer = identity_new keygen (ta_host args) ''issuer''; verifier = identity_new keygen (ta_host args) ''verifier'' in
      sio_bind (sio_return (map_err CannotBind (listen (ta_bind args)))) (\<lambda>_.
      sio_bind (wait_until_ready net (''http://'' @ ta_bind args @ ''/issuer/did.json'')) (\<lambda>_.
      sio_bind (seed_credential D parse net args issuer now jti) (\<lambda>_.
      sio_return (Ok (issuer, \<lparr>ms_target_base_url = ta_target_base_url args, ms_target_did = ta_target_did args,
        ms_sts_client_id = ta_sts_client_id args, ms_sts_client_secret = ta_sts_client_secret args,
        ms_scope = ta_scope args, ms_verifier = verifier\<rparr>))))))"

section \<open>A batch\<close>

text \<open>Which draws a batch of \<open>n\<close> envelopes makes: thread by thread, each its share.\<close>

definition batch_draws :: "nat \<Rightarrow> nat \<Rightarrow> (nat \<times> nat) list" where
  "batch_draws threads n = concat (map (\<lambda>i. map (Pair i) [0..<thread_count threads n i]) [0..<threads])"

lemma batch_threads_pos: "cores \<noteq> Some 0 \<Longrightarrow> 0 < batch_threads cores n"
  by (cases cores) (auto simp: batch_threads_def unwrap_or_def)

lemma sum_thread_count:
  assumes "0 < threads"
  shows "(\<Sum>i<threads. thread_count threads n i) = n"
proof -
  have "(\<Sum>i<threads. if i < n mod threads then 1 else 0) = card {i. i < threads \<and> i < n mod threads}"
    by (simp add: sum.If_cases Int_def lessThan_def)
  also have "{i. i < threads \<and> i < n mod threads} = {..<n mod threads}"
    using mod_less_divisor [OF assms, of n] by auto
  finally show ?thesis by (simp add: thread_count_def sum.distrib)
qed

lemma batch_draws_each:
  assumes "0 < threads"
  shows "distinct (batch_draws threads n)" "length (batch_draws threads n) = n"
proof -
  have "distinct (concat (map (\<lambda>i. map (Pair i) [0..<thread_count threads n i]) [0..<k]))" for k
    by (induction k) (auto simp: distinct_map inj_on_def)
  then show "distinct (batch_draws threads n)" unfolding batch_draws_def .
  have "length (batch_draws threads n) = (\<Sum>i<threads. thread_count threads n i)"
    by (simp add: batch_draws_def length_concat comp_def sum_list_distinct_conv_sum_set lessThan_atLeast0)
  then show "length (batch_draws threads n) = n" by (simp add: sum_thread_count [OF assms])
qed

lemma mint_batch_chunks:
  "concat (map (\<lambda>i. mint_chunk D ms nested (clock i) (uuid i) (thread_count threads n i)) [0..<threads])
     = concat (map (\<lambda>(i, j). mint_outer_envelope D ms nested (clock i j) (uuid i j) @ [CHR 10]) (batch_draws threads n))"
proof -
  have "concat (map (\<lambda>i. mint_chunk D ms nested (clock i) (uuid i) (thread_count threads n i)) [0..<k])
     = concat (map (\<lambda>(i, j). mint_outer_envelope D ms nested (clock i j) (uuid i j) @ [CHR 10])
         (concat (map (\<lambda>i. map (Pair i) [0..<thread_count threads n i]) [0..<k])))" for k
    by (induction k) (simp_all add: mint_chunk_def comp_def)
  then show ?thesis unfolding batch_draws_def .
qed

lemma tool_payloads_canonical [simp]:
  "canonical_json (outer_payload ms nested now jti)" "canonical_json (seed_payload issuer ty holder_pid now jti)"
  by (simp_all add: outer_payload_def seed_payload_def)

text \<open>Envelopes with different ids are different tokens.\<close>

lemma envelope_decodes:
  assumes "jws_roundtrip D"
  obtains header where "decode_jws_unverified D (mint_outer_envelope D ms nested now jti) = Ok (header, outer_payload ms nested now jti)"
    "get_str header ''kid'' = Some (own_key_id (ms_verifier ms))"
    "verify_jws_signature D (mint_outer_envelope D ms nested now jti) (own_key (ms_verifier ms)) = Ok ()"
  unfolding mint_outer_envelope_def by (rule jws_roundtripE [OF assms tool_payloads_canonical(1)])

lemma outer_payload_claims [simp]:
  "get_str (outer_payload ms nested now jti) ''iss'' = Some (own_did (ms_verifier ms))"
  "get_str (outer_payload ms nested now jti) ''jti'' = Some jti" "get_str (outer_payload ms nested now jti) ''token'' = Some nested"
  "str_claim (outer_payload ms nested now jti) ''iss'' = own_did (ms_verifier ms)"
  "str_claim (outer_payload ms nested now jti) ''sub'' = own_did (ms_verifier ms)"
  "str_claim (outer_payload ms nested now jti) ''aud'' = ms_target_did ms"
  "u64_claim (outer_payload ms nested now jti) ''exp'' = u64_add now 250"
  "u64_after (outer_payload ms nested now jti) ''nbf'' bound \<longleftrightarrow> bound < now"
  "u64_after (outer_payload ms nested now jti) ''iat'' bound \<longleftrightarrow> bound < now"
  by (simp_all add: outer_payload_def str_claim_def u64_claim_def u64_after_def)

lemma envelope_jti:
  assumes "jws_roundtrip D" "mint_outer_envelope D ms nested now jti = mint_outer_envelope D ms nested now' jti'"
  shows "jti = jti'"
proof -
  from envelope_decodes [OF assms(1), of ms nested now jti] obtain h where
    "decode_jws_unverified D (mint_outer_envelope D ms nested now jti) = Ok (h, outer_payload ms nested now jti)" .
  moreover from envelope_decodes [OF assms(1), of ms nested now' jti'] obtain h' where
    "decode_jws_unverified D (mint_outer_envelope D ms nested now' jti') = Ok (h', outer_payload ms nested now' jti')" .
  ultimately have "outer_payload ms nested now jti = outer_payload ms nested now' jti'" using assms(2) by simp
  then have "get_str (outer_payload ms nested now jti) ''jti'' = get_str (outer_payload ms nested now' jti') ''jti''" by simp
  then show ?thesis by simp
qed

text \<open>
  However many cores share the work, a batch of \<open>n\<close> tokens is what one thread would have minted one after
  the other from the same readings and draws: one request to the target, then \<open>n\<close> lines, one envelope of
  the one nested token each. When the drawn ids differ no token comes twice; and a batch fails exactly when
  the nested token cannot be had.
\<close>

theorem mint_batch_correct:
  fixes D :: "('d, 'k) dcp" and net :: "'w servers"
  assumes law: "jws_roundtrip D" and cores: "cores \<noteq> Some 0"
  shows "snd (mint_batch D parse net ms cores clock uuid n w) = snd (fetch_nested_token D parse net ms w)
    \<and> (case snd (fst (fetch_nested_token D parse net ms w)) of
         Inl e \<Rightarrow> snd (fst (mint_batch D parse net ms cores clock uuid n w)) = Err e
       | Inr nested \<Rightarrow> \<exists>ds. distinct ds \<and> length ds = n
           \<and> snd (fst (mint_batch D parse net ms cores clock uuid n w)) = Ok (concat (map (\<lambda>(i, j).
                mint_outer_envelope D ms nested (clock i j) (uuid i j) @ [CHR 10]) ds))
           \<and> (inj (\<lambda>(i, j). uuid i j) \<longrightarrow> distinct (map (\<lambda>(i, j). mint_outer_envelope D ms nested (clock i j) (uuid i j)) ds)))"
proof (cases "snd (fst (fetch_nested_token D parse net ms w))")
  case (Inl e)
  then show ?thesis by (simp add: mint_batch_def sio_bind_state sio_bind_result)
next
  case (Inr nested)
  let ?ds = "batch_draws (batch_threads cores n) n"
  note each = batch_draws_each [OF batch_threads_pos [OF cores], of n n]
  have "distinct (map (\<lambda>(i, j). mint_outer_envelope D ms nested (clock i j) (uuid i j)) ?ds)" if "inj (\<lambda>(i, j). uuid i j)"
    using each(1) by (auto simp: distinct_map inj_on_def dest!: envelope_jti [OF law] injD [OF that, of "(a, b)" "(c, d)" for a b c d, simplified])
  with Inr each show ?thesis
    by (simp add: mint_batch_def sio_bind_state sio_bind_result Let_def mint_batch_chunks) blast
qed


section \<open>Against the hub\<close>

text \<open>
  How a request the tool sends reaches the hub, and how the hub's answer comes back: reqwest, the network,
  hyper and axum. Every request is served at its own time.
\<close>

record wire =
  call_of :: "http_request \<Rightarrow> hub_call"
  reply_of :: "response \<Rightarrow> http_reply"

definition hub_server ::
    "wire \<Rightarrow> ('d, 'k, 'l, 't, 'w) platform \<Rightarrow> 'k app \<Rightarrow> (nat \<Rightarrow> tick) \<Rightarrow> (nat \<times> ('l, 'w) hub_process) servers" where
  "hub_server W P a ticks req t =
     (case t of (n, s) \<Rightarrow>
       (case hub_router P a (ticks n) (call_of W req) s of
          ((tr, None), s') \<Rightarrow> (Err ''connection closed before message completed'', Suc n, s')
        | ((tr, Some r), s') \<Rightarrow> (Ok (reply_of W r), Suc n, s')))"

text \<open>What HTTP guarantees: method, path, form, status and JSON body arrive as they were sent.\<close>

definition carries :: "wire \<Rightarrow> 'x body_codec_scheme \<Rightarrow> (string \<Rightarrow> (json, string) result) \<Rightarrow> string \<Rightarrow> bool" where
  "carries W C parse base \<longleftrightarrow>
     (\<forall>req. hc_method (call_of W req) = hr_method req
        \<and> (hr_url req = base @ ''/sts/token'' \<longrightarrow> hc_path (call_of W req) = [''sts'', ''token''])
        \<and> (hr_url req = base @ ''/credentials'' \<longrightarrow> hc_path (call_of W req) = [''credentials''])
        \<and> (\<forall>client secret aud sc. hr_body req = FormBody (sts_form client secret aud sc) \<longrightarrow>
             sts_form_of C (hc_body (call_of W req)) = Ok \<lparr>sf_grant_type = ''client_credentials'', sf_client_id = client,
               sf_client_secret = secret, sf_audience = aud, sf_bearer_access_scope = sc\<rparr>))
   \<and> (\<forall>r. hp_status (reply_of W r) = r_status r
        \<and> (\<forall>j. r_body r = JsonBody j \<longrightarrow> (\<exists>text. hp_body (reply_of W r) = Ok text \<and> parse text = Ok j)))"

text \<open>What the tool asks the target's token service for.\<close>

definition tool_grant :: "'k app \<Rightarrow> string \<Rightarrow> string \<Rightarrow> string \<Rightarrow> string option \<Rightarrow> sts_token_request" where
  "tool_grant a client secret aud sc = \<lparr>grant_type = ''client_credentials'', client_id = client, client_secret = secret,
     audience = aud, bearer_access_scope = sc, own_service_did = own_did (a_identity a)\<rparr>"

lemma request_from_hub:
  fixes P :: "('d, 'k, 'l, 't, 'w) platform" and s :: "('l, 'w) hub_process" and a :: "'k app" and client secret aud :: string
    and sc :: "string option" and ticks :: "nat \<Rightarrow> tick" and n :: nat
  assumes "carries W (pf_codec P) parse base"
  defines "run \<equiv> request_sts_token parse (hub_server W P a ticks) base client secret aud sc (n, s)"
    and "issued \<equiv> issue_token (pf_dcp P) (a_sts_config a) (a_sts_party a) (tool_grant a client secret aud sc)
      (tk_clock (ticks n) 0) (tk_uuid (ticks n) 0) (tk_uuid (ticks n) 1)"
  shows "fst (fst run) = [base @ ''/sts/token'']" "snd run = (Suc n, s)"
    and "snd (fst run) = Ok t \<longleftrightarrow> (\<exists>r. issued = Ok r \<and> access_token r = t)"
proof -
  let ?req = "\<lparr>hr_method = ''POST'', hr_url = base @ ''/sts/token'', hr_headers = [], hr_body = FormBody (sts_form client secret aud sc)\<rparr>"
  define r where "r = sts_token (pf_dcp P) a \<lparr>sf_grant_type = ''client_credentials'', sf_client_id = client,
      sf_client_secret = secret, sf_audience = aud, sf_bearer_access_scope = sc\<rparr> (tk_clock (ticks n) 0) (tk_uuid (ticks n) 0) (tk_uuid (ticks n) 1)"
  have route: "hub_route (a_config a) [''sts'', ''token''] = Some (''POST'', StsToken)" by (simp add: hub_route_def)
  have call: "hc_method (call_of W ?req) = ''POST''" "hc_path (call_of W ?req) = [''sts'', ''token'']"
    "sts_form_of (pf_codec P) (hc_body (call_of W ?req)) = Ok \<lparr>sf_grant_type = ''client_credentials'', sf_client_id = client,
               sf_client_secret = secret, sf_audience = aud, sf_bearer_access_scope = sc\<rparr>"
    using assms(1) unfolding carries_def by simp_all
  have sent: "tool_send (hub_server W P a ticks) ?req (n, s) = (([base @ ''/sts/token''], Ok (reply_of W r)), Suc n, s)"
    by (simp add: tool_send_def hub_server_def hub_router_def call route extracted_def answered_with_def io_contact_def r_def)
  have status: "hp_status (reply_of W r) = r_status r" using assms(1) unfolding carries_def by blast
  show "fst (fst run) = [base @ ''/sts/token'']" "snd run = (Suc n, s)"
    by (simp_all add: run_def request_sts_token_def sio_bind_def sent sio_return_def sio_lift_def io_pure_def split: sum.splits)
  show "snd (fst run) = Ok t \<longleftrightarrow> (\<exists>r. issued = Ok r \<and> access_token r = t)"
  proof (cases issued)
    case (Inl e)
    then have "r_status r = 400" by (simp add: r_def sts_token_def issued_def tool_grant_def)
    with Inl show ?thesis
      by (simp add: run_def request_sts_token_def sio_bind_result sent status is_success_def)
  next
    case (Inr res)
    then have "r_status r = 200" "r_body r = JsonBody (sts_response_json res)"
      by (simp_all add: r_def sts_token_def issued_def tool_grant_def)
    moreover from this obtain b where "hp_body (reply_of W r) = Ok b" "parse b = Ok (sts_response_json res)"
      using assms(1) unfolding carries_def by blast
    ultimately show ?thesis using Inr
      by (simp add: run_def request_sts_token_def sio_bind_result sent status is_success_def reply_json_def sts_response_json_def)
  qed
qed

lemma trim_did: "trim (own_did (identity_new keygen h segment)) \<noteq> []"
proof -
  obtain rest where d: "own_did (identity_new keygen h segment) = CHR ''d'' # rest"
    by (simp add: identity_new_def Let_def split_beta)
  have len: "utf8_tail_len CHR ''d'' = 0" by (simp add: utf8_tail_len_def byte_def)
  have "\<not> is_whitespace ''d''" by (simp add: is_whitespace_def white_space_def byte_def)
  with d show ?thesis
    by (auto simp: trim_def len dropWhile_append)
qed


section \<open>A minted token works, once\<close>

text \<open>The hub can resolve the verifier's DID and finds its key there.\<close>

definition verifier_known :: "('d, 'k) dcp \<Rightarrow> 'd network \<Rightarrow> 'k app \<Rightarrow> 'k service_identity \<Rightarrow> bool" where
  "verifier_known D N a v \<longleftrightarrow>
     (\<exists>url doc. did_web_to_url D (own_did v) (insecure_http (a_config a)) = Ok url \<and> allowed D (a_outbound a) url
        \<and> snd (resolve_did N (own_did v) (insecure_http (a_config a))) = Ok doc
        \<and> find_verifying_key D doc (own_key_id v) = Ok (own_key v) \<and> own_key_id v \<in> set (capability_invocation D doc))"

text \<open>The hub's readings of the clock are within the windows of the two tokens.\<close>

definition in_time :: "u64 \<Rightarrow> u64 \<Rightarrow> (nat \<Rightarrow> u64) \<Rightarrow> bool" where
  "in_time granted_at minted_at clock \<longleftrightarrow> clock 0 < u64_add minted_at 250 \<and> minted_at \<le> u64_add (clock 1) NBF_LEEWAY_SECS
     \<and> minted_at \<le> u64_add (clock 2) NBF_LEEWAY_SECS \<and> clock 3 < u64_add granted_at TOKEN_TTL_SECS"

lemma envelope_accepted:
  fixes clock :: "nat \<Rightarrow> u64"
  assumes law: "jws_roundtrip D" and target: "ms_target_did ms = own_did (a_identity a)"
    and known: "verifier_known D N a (ms_verifier ms)" and time: "in_time t0 now clock"
  shows "envelope_valid D N (Some (''Bearer '' @ mint_outer_envelope D ms nested now jti)) (own_did (a_identity a))
    (insecure_http (a_config a)) (a_outbound a) (clock 0) (clock 1) (clock 2) (outer_payload ms nested now jti)"
proof -
  from envelope_decodes [OF law, of ms nested now jti] obtain header where
    h: "decode_jws_unverified D (mint_outer_envelope D ms nested now jti) = Ok (header, outer_payload ms nested now jti)"
      "get_str header ''kid'' = Some (own_key_id (ms_verifier ms))"
      "verify_jws_signature D (mint_outer_envelope D ms nested now jti) (own_key (ms_verifier ms)) = Ok ()" .
  from known obtain url doc where d: "did_web_to_url D (own_did (ms_verifier ms)) (insecure_http (a_config a)) = Ok url"
    "allowed D (a_outbound a) url" "snd (resolve_did N (own_did (ms_verifier ms)) (insecure_http (a_config a))) = Ok doc"
    "find_verifying_key D doc (own_key_id (ms_verifier ms)) = Ok (own_key (ms_verifier ms))"
    "own_key_id (ms_verifier ms) \<in> set (capability_invocation D doc)" unfolding verifier_known_def by blast
  show ?thesis
    unfolding envelope_valid_def using h d target time
    by (intro exI conjI) (rule refl | assumption | simp add: in_time_def not_less)+
qed

text \<open>The one check of a second use that fails.\<close>

lemma replayed_query:
  assumes ok: "seen_ok (h_seen s)" and room: "0 < capacity (h_seen s)"
    and first: "snd (fst (authenticate D N a hdr clock s)) = Ok claims" and j: "get_str claims ''jti'' = Some j"
    and same: "\<And>c. envelope_valid D N hdr (own_did (a_identity a)) (insecure_http (a_config a)) (a_outbound a)
        (clock' 0) (clock' 1) (clock' 2) c \<Longrightarrow> c = claims"
    and later: "h_seen s' = h_seen (snd (authenticate D N a hdr clock s))"
  shows "r_status (respond (presentation_query D N S arrange a hdr msg clock' vp s')) = 401"
proof -
  let ?v = "\<lambda>clock. verify_bearer_token D N hdr (own_did (a_identity a)) (insecure_http (a_config a)) (a_outbound a) (clock 0) (clock 1) (clock 2)"
  have "snd (fst (?v clock (h_seen s))) = Ok claims" using first by (auto simp: authenticate_def split: prod.splits)
  then have "seen_insert j (h_seen s) = (True, snd (?v clock (h_seen s)))"
    using j by (auto simp: verify_bearer_token_def split: prod.splits sum.splits option.splits if_splits)
  from seen_insert_remembers [OF ok room this] have "j |\<in>| seen (h_seen s')"
    unfolding later by (simp add: authenticate_def split_beta)
  then have "snd (fst (authenticate D N a hdr clock' s')) \<noteq> Ok c" for c using same j unfolding authenticate_Ok by blast
  then obtain r where r: "snd (fst (authenticate D N a hdr clock' s')) = Inl r"
    by (cases "snd (fst (authenticate D N a hdr clock' s'))") auto
  with refusesD [OF auth_refuses(1) [of "{401}"] r]
  show ?thesis by (simp add: presentation_query_def sio_bind_result respond_def split_beta)
qed

text \<open>A query that passes every stage.\<close>

lemma presentation_query_answers:
  assumes "snd (fst (authenticate D N a hdr clock s)) = Ok claims" "query_shape msg = Ok ()"
    "granted_credential_types D a claims (str_claim claims ''iss'') (clock 3) = Ok types"
  shows "respond (presentation_query D N S arrange a hdr msg clock vp s) = resp_json 200 (presentation_response_json (presentation_response_new
       [build_presentation D a (str_claim claims ''iss'') (presented D S arrange a (h_store s) msg types clock) (clock 5) vp]))"
    and "snd (presentation_query D N S arrange a hdr msg clock vp s) = snd (authenticate D N a hdr clock s)"
  using assms keepsD [OF auth_keeps(1), of D N a hdr clock s]
  by (simp_all add: presentation_query_def sio_bind_result sio_bind_state respond_def Let_def presented_def)

lemma mint_at_hub:
  fixes P :: "('d, 'k, 'l, 't, 'w) platform" and s0 :: "('l, 'w) hub_process"
  assumes law: "jws_roundtrip (pf_dcp P)" and wire: "carries W (pf_codec P) parse (ms_target_base_url ms)"
    and client: "ms_sts_client_id ms = sts_client_id (a_sts_config a)" "ms_sts_client_secret ms = sts_client_secret (a_sts_config a)"
    and verifier: "ms_verifier ms = identity_new keygen host ''verifier''" "own_did (ms_verifier ms) \<noteq> own_did (a_identity a)"
  obtains nested where "mint (pf_dcp P) parse (hub_server W P a ticks) ms now jti (n, s0)
      = (([ms_target_base_url ms @ ''/sts/token''], Ok (mint_outer_envelope (pf_dcp P) ms nested now jti)), Suc n, s0)"
    "\<And>later. later < u64_add (tk_clock (ticks n) 0) TOKEN_TTL_SECS \<Longrightarrow>
       \<exists>p. verify_nested_access_token (pf_dcp P) nested (own_did (ms_verifier ms)) (a_sts_party a) later = Ok p \<and> str_claim p ''scope'' = ms_scope ms"
proof -
  let ?D = "pf_dcp P" and ?v = "ms_verifier ms"
  let ?grant = "tool_grant a (ms_sts_client_id ms) (ms_sts_client_secret ms) (own_did ?v) (Some (ms_scope ms))"
  let ?issued = "issue_token ?D (a_sts_config a) (a_sts_party a) ?grant (tk_clock (ticks n) 0) (tk_uuid (ticks n) 0) (tk_uuid (ticks n) 1)"
  let ?run = "request_sts_token parse (hub_server W P a ticks) (ms_target_base_url ms) (ms_sts_client_id ms) (ms_sts_client_secret ms)
      (own_did ?v) (Some (ms_scope ms)) (n, s0)"
  have "is_ok ?issued" unfolding issue_token_accepts using client trim_did [of keygen host "''verifier''"]
    by (simp add: tool_grant_def verifier(1))
  then obtain res where res: "?issued = Ok res" by (cases ?issued) auto
  have scope: "bearer_access_scope ?grant = Some (ms_scope ms)" and aud: "audience ?grant = own_did ?v"
    and own: "own_service_did ?grant = own_did (a_identity a)" by (simp_all add: tool_grant_def)
  from issue_token_grants [OF law res scope] obtain header payload nested where
    d: "decode_jws_unverified ?D (access_token res) = Ok (header, payload)" "get_str payload ''token'' = Some nested"
    and nested: "\<And>later. later < u64_add (tk_clock (ticks n) 0) TOKEN_TTL_SECS \<Longrightarrow>
       \<exists>p. verify_nested_access_token ?D nested (own_did ?v) (a_sts_party a) later = Ok p \<and> str_claim p ''scope'' = ms_scope ms"
    unfolding aud own if_not_P [OF verifier(2)] by (metis (no_types, lifting))
  have run: "?run = (([ms_target_base_url ms @ ''/sts/token''], Ok (access_token res)), Suc n, s0)"
    by (intro prod_eqI) (simp_all add: request_from_hub [OF wire] res del: One_nat_def)
  show ?thesis
    by (rule that [OF _ nested])
      (simp add: mint_def fetch_nested_token_def sio_bind_def run d sio_return_def sio_lift_def io_pure_def)
qed

lemma minted_query:
  fixes s :: "'l hub_state" and clock :: "nat \<Rightarrow> u64"
  assumes law: "jws_roundtrip D" and target: "ms_target_did ms = own_did (a_identity a)"
    and nested: "\<And>later. later < u64_add granted_at TOKEN_TTL_SECS \<Longrightarrow>
       \<exists>p. verify_nested_access_token D nested (own_did (ms_verifier ms)) (a_sts_party a) later = Ok p \<and> str_claim p ''scope'' = ms_scope ms"
    and known: "verifier_known D N a (ms_verifier ms)" and time: "in_time granted_at now clock" and new: "jti |\<notin>| seen (h_seen s)"
    and shape: "query_shape msg = Ok ()" and hdr: "hdr = Some (''Bearer '' @ mint_outer_envelope D ms nested now jti)"
  shows "respond (presentation_query D N S arrange a hdr msg clock vp s) = resp_json 200 (presentation_response_json (presentation_response_new
        [build_presentation D a (own_did (ms_verifier ms)) (presented D S arrange a (h_store s) msg
           (credential_types (a_scope_matcher a) (split_scope_string (ms_scope ms))) clock) (clock 5) vp]))"
    and "seen_ok (h_seen s) \<Longrightarrow> 0 < capacity (h_seen s) \<Longrightarrow>
      r_status (respond (presentation_query D N S arrange a hdr msg' clock' vp (snd (presentation_query D N S arrange a hdr msg clock vp s)))) = 401"
proof -
  let ?claims = "outer_payload ms nested now jti"
  have au: "snd (fst (authenticate D N a hdr clock s)) = Ok ?claims"
    unfolding authenticate_Ok hdr using envelope_accepted [OF law target known time] new by simp
  from time have "clock 3 < u64_add granted_at TOKEN_TTL_SECS" by (simp add: in_time_def)
  from nested [OF this] have granted: "granted_credential_types D a ?claims (str_claim ?claims ''iss'') (clock 3)
      = Ok (credential_types (a_scope_matcher a) (split_scope_string (ms_scope ms)))"
    by (auto simp: granted_credential_types_def)
  note answers = presentation_query_answers [OF au shape granted, of S arrange vp]
  from answers(1) show "respond (presentation_query D N S arrange a hdr msg clock vp s) = resp_json 200 (presentation_response_json
       (presentation_response_new [build_presentation D a (own_did (ms_verifier ms)) (presented D S arrange a (h_store s) msg
           (credential_types (a_scope_matcher a) (split_scope_string (ms_scope ms))) clock) (clock 5) vp]))"
    unfolding outer_payload_claims(4) .
  have same: "c = ?claims" if "envelope_valid D N hdr aud i pol t1 t2 t3 c" for aud i pol t1 t2 t3 c
  proof -
    from envelope_decodes [OF law, of ms nested now jti] obtain h where
      h: "decode_jws_unverified D (mint_outer_envelope D ms nested now jti) = Ok (h, ?claims)" .
    from that obtain header where "decode_jws_unverified D (mint_outer_envelope D ms nested now jti) = Ok (header, c)"
      unfolding envelope_valid_def hdr by auto
    with h show ?thesis by simp
  qed
  assume room: "seen_ok (h_seen s)" "0 < capacity (h_seen s)"
  show "r_status (respond (presentation_query D N S arrange a hdr msg' clock' vp (snd (presentation_query D N S arrange a hdr msg clock vp s)))) = 401"
    by (rule replayed_query [OF room au outer_payload_claims(2) same]) (assumption | simp only: answers(2))+
qed

text \<open>
  C39. The load-test recipe, end to end. Run against a hub it has the credentials of, \<open>mint\<close> takes one request and
  returns a token with which the hub, in whatever state it has reached, answers a query of the verifier
  with the credentials the granted scope names, as long as the verifier's DID resolves, both tokens are in
  their windows and the id is new. The same token a second time is a 401, which is why the tool mints one
  per request.
\<close>

theorem minted_token_presents:
  fixes P :: "('d, 'k, 'l, 't, 'w) platform" and s0 :: "('l, 'w) hub_process" and s :: "'l hub_state" and clock :: "nat \<Rightarrow> u64"
  assumes law: "jws_roundtrip (pf_dcp P)" and wire: "carries W (pf_codec P) parse (ms_target_base_url ms)"
    and client: "ms_sts_client_id ms = sts_client_id (a_sts_config a)" "ms_sts_client_secret ms = sts_client_secret (a_sts_config a)"
    and verifier: "ms_verifier ms = identity_new keygen host ''verifier''" "own_did (ms_verifier ms) \<noteq> own_did (a_identity a)"
    and target: "ms_target_did ms = own_did (a_identity a)"
  shows "\<exists>token. mint (pf_dcp P) parse (hub_server W P a ticks) ms now jti (n, s0) = (([ms_target_base_url ms @ ''/sts/token''], Ok token), Suc n, s0)
    \<and> (verifier_known (pf_dcp P) (pf_network P) a (ms_verifier ms) \<and> in_time (tk_clock (ticks n) 0) now clock
         \<and> jti |\<notin>| seen (h_seen s) \<and> query_shape msg = Ok ()
       \<longrightarrow> (let query = \<lambda>msg clock. presentation_query (pf_dcp P) (pf_network P) (pf_serde P) (pf_arrange P) a
                  (Some (''Bearer '' @ token)) msg clock vp;
                types = credential_types (a_scope_matcher a) (split_scope_string (ms_scope ms)) in
            respond (query msg clock s) = resp_json 200 (presentation_response_json (presentation_response_new
                [build_presentation (pf_dcp P) a (own_did (ms_verifier ms))
                   (presented (pf_dcp P) (pf_serde P) (pf_arrange P) a (h_store s) msg types clock) (clock 5) vp]))
            \<and> (seen_ok (h_seen s) \<and> 0 < capacity (h_seen s) \<longrightarrow>
                 (\<forall>msg' clock'. r_status (respond (query msg' clock' (snd (query msg clock s)))) = 401))))"
proof -
  from mint_at_hub [OF law wire client verifier, of ticks now jti n s0] obtain nested where
    minted: "mint (pf_dcp P) parse (hub_server W P a ticks) ms now jti (n, s0)
      = (([ms_target_base_url ms @ ''/sts/token''], Ok (mint_outer_envelope (pf_dcp P) ms nested now jti)), Suc n, s0)"
    and nested: "\<And>later. later < u64_add (tk_clock (ticks n) 0) TOKEN_TTL_SECS \<Longrightarrow>
       \<exists>p. verify_nested_access_token (pf_dcp P) nested (own_did (ms_verifier ms)) (a_sts_party a) later = Ok p \<and> str_claim p ''scope'' = ms_scope ms"
    by blast
  note query = minted_query [OF law target nested _ _ _ _ refl]
  show ?thesis
    unfolding Let_def by (intro exI [of _ "mint_outer_envelope (pf_dcp P) ms nested now jti"] conjI minted impI allI; elim conjE)
      (rule query; assumption)+
qed

section \<open>Seeding is refused\<close>

lemma storage_refuses_seed:
  fixes hs :: "'l hub_state"
  assumes law: "jws_roundtrip D" and start: "app_new D keygen compile c = Some a"
  shows "r_status (respond (storage_write D N T S a hdr (seed_message D args issuer now jti) clock i hs)) \<in> {400, 401}"
    and "h_store (snd (storage_write D N T S a hdr (seed_message D args issuer now jti) clock i hs)) = h_store hs"
proof -
  let ?msg = "seed_message D args issuer now jti"
  obtain header where d: "decode_jws_unverified D (sign_jws D (seed_payload issuer (ta_credential_type args) (ta_holder_pid args) now jti)
      (own_key issuer) (own_key_id issuer)) = Ok (header, seed_payload issuer (ta_credential_type args) (ta_holder_pid args) now jti)"
    by (rule jws_roundtripE [OF law tool_payloads_canonical(2)]) (rule that)
  have subject: "credential_subject (seed_payload issuer ty pid now jti) = Some (''did:example:'' @ pid)" for ty pid
    by (simp add: credential_subject_def seed_payload_def)
  have "''did:example:'' @ pid \<noteq> own_did (a_identity a)" for pid
    using start by (auto simp: app_new_def identity_new_def Let_def split_beta split: option.splits)
  then have "check_credential_claims D (cm_credentials ?msg) (own_did (a_identity a)) trusted t \<noteq> Ok u" for trusted t u
    unfolding check_credential_claims_def try_each_Ok [where u = u]
    by (simp add: seed_message_def check_container_Ok d subject)
  then have "snd (fst (storage_checks D N T a hdr ?msg clock hs)) \<noteq> Ok u" for u
    unfolding storage_checks_def sio_bind_Ok by auto
  then obtain r where r: "snd (fst (storage_checks D N T a hdr ?msg clock hs)) = Inl r"
    by (cases "snd (fst (storage_checks D N T a hdr ?msg clock hs))") auto
  with refusesD [OF storage_checks_refuses this] keepsD [OF storage_checks_keeps, of D N T a hdr ?msg clock hs]
  show "r_status (respond (storage_write D N T S a hdr (seed_message D args issuer now jti) clock i hs)) \<in> {400, 401}" "h_store (snd (storage_write D N T S a hdr (seed_message D args issuer now jti) clock i hs)) = h_store hs"
    by (simp_all add: storage_write_def sio_bind_result sio_bind_state respond_def split_beta)
qed

lemma seed_at_hub:
  fixes P :: "('d, 'k, 'l, 't, 'w) platform" and s :: "('l, 'w) hub_process"
  assumes law: "jws_roundtrip (pf_dcp P)" and start: "app_new (pf_dcp P) keygen compile c = Some a" and mode: "cfg_mode c = CredentialService"
    and wire: "carries W (pf_codec P) parse (ta_target_base_url args)"
    and arrives: "\<And>req. hr_body req = JsonBody (credential_message_json (seed_message (pf_dcp P) args issuer now jti)) \<Longrightarrow>
        credential_message_of (pf_codec P) (hc_body (call_of W req)) = Ok (seed_message (pf_dcp P) args issuer now jti)"
  shows "snd (fst (seed_credential (pf_dcp P) parse (hub_server W P a ticks) args issuer now jti (n, s))) \<noteq> Ok ()
    \<and> h_store (hp_state (snd (snd (seed_credential (pf_dcp P) parse (hub_server W P a ticks) args issuer now jti (n, s))))) = h_store (hp_state s)"
proof -
  let ?tok = "request_sts_token parse (hub_server W P a ticks) (ta_target_base_url args) (ta_sts_client_id args) (ta_sts_client_secret args)
        (ta_target_did args) None (n, s)"
  note asked = request_from_hub(2) [OF wire, of a ticks "ta_sts_client_id args" "ta_sts_client_secret args" "ta_target_did args" None n s]
  show ?thesis
  proof (cases "snd (fst ?tok)")
    case (Inl e)
    then show ?thesis by (simp add: seed_credential_def sio_bind_result sio_bind_state asked)
  next
    case (Inr token)
    let ?msg = "seed_message (pf_dcp P) args issuer now jti"
    let ?req = "seed_post (ta_target_base_url args) token ?msg"
    let ?stored = "storage_write (pf_dcp P) (pf_network P) (pf_trust P) (pf_serde P) a (hc_authorization (call_of W ?req)) ?msg
        (tk_clock (ticks (Suc n))) (tk_uuid (ticks (Suc n)) 0) (hp_state s)"
    have route: "hub_route (a_config a) [''credentials''] = Some (''POST'', StorageWrite)"
      using start mode by (auto simp: hub_route_def credential_service_route_def app_new_def split: option.splits)
    have call: "hc_method (call_of W ?req) = ''POST''" "hc_path (call_of W ?req) = [''credentials'']"
      "credential_message_of (pf_codec P) (hc_body (call_of W ?req)) = Ok ?msg" "hp_status (reply_of W r) = r_status r" for r
      using wire arrives [of ?req] unfolding carries_def by (simp_all add: seed_post_def)
    have sent: "tool_send (hub_server W P a ticks) ?req (Suc n, s)
        = (([hr_url ?req], Ok (reply_of W (respond ?stored))), Suc (Suc n), s\<lparr>hp_state := snd ?stored\<rparr>)"
      by (simp add: tool_send_def hub_server_def hub_router_def call route extracted_def on_tables_def io_contact_def split_beta)
    note refused = storage_refuses_seed [OF law start]
    have "r_status (respond ?stored) \<in> {400, 401}" by (rule refused(1))
    then have "\<not> is_success (r_status (respond ?stored))" by (auto simp: is_success_def)
    then show ?thesis
      by (simp add: seed_credential_def sio_bind_result sio_bind_state asked Inr sent call refused(2))
  qed
qed

text \<open>Only the target's answers matter.\<close>

lemma seed_credential_cong:
  assumes "\<And>req path. hr_url req = ta_target_base_url args @ path \<Longrightarrow> net req = net' req"
  shows "seed_credential D parse net args issuer now jti = seed_credential D parse net' args issuer now jti"
proof -
  have send: "tool_send net req = tool_send net' req" if "hr_url req = ta_target_base_url args @ path" for req path
    by (simp add: tool_send_def fun_eq_iff assms [OF that])
  show ?thesis unfolding seed_credential_def request_sts_token_def by (simp add: send seed_post_def)
qed

text \<open>
  C40. The helper never gets to \<open>ready\<close> against a Credential Service as this repository builds it: the credential
  it seeds is about \<open>did:example:<holderPid>\<close>, the Storage API takes only credentials about the service's own
  \<open>did:web\<close>, so whatever client, keys and trusted issuers are configured the write is refused, nothing is
  stored, and \<open>main\<close> ends in an error.
\<close>

theorem seeding_refused:
  fixes P :: "('d, 'k, 'l, 't, 'w) platform" and s :: "('l, 'w) hub_process"
  assumes law: "jws_roundtrip (pf_dcp P)" and start: "app_new (pf_dcp P) keygen compile c = Some a" and mode: "cfg_mode c = CredentialService"
    and wire: "carries W (pf_codec P) parse (ta_target_base_url args)"
    and arrives: "\<And>req. hr_body req = JsonBody (credential_message_json (seed_message (pf_dcp P) args (identity_new tool_keygen (ta_host args) ''issuer'') now jti)) \<Longrightarrow>
        credential_message_of (pf_codec P) (hc_body (call_of W req)) = Ok (seed_message (pf_dcp P) args (identity_new tool_keygen (ta_host args) ''issuer'') now jti)"
    and hub: "\<And>req path. hr_url req = ta_target_base_url args @ path \<Longrightarrow> net req = hub_server W P a ticks req"
  shows "snd (fst (seed_credential (pf_dcp P) parse net args (identity_new tool_keygen (ta_host args) ''issuer'') now jti (n, s))) \<noteq> Ok ()
    \<and> h_store (hp_state (snd (snd (seed_credential (pf_dcp P) parse net args (identity_new tool_keygen (ta_host args) ''issuer'') now jti (n, s))))) = h_store (hp_state s)
    \<and> (\<forall>st. snd (fst (tool_main (pf_dcp P) tool_keygen parse net listen args now jti (n, s))) \<noteq> Ok st)"
proof -
  note at_hub = seed_at_hub [OF law start mode wire arrives]
  have seed: "seed_credential (pf_dcp P) parse net args (identity_new tool_keygen (ta_host args) ''issuer'') now jti
      = seed_credential (pf_dcp P) parse (hub_server W P a ticks) args (identity_new tool_keygen (ta_host args) ''issuer'') now jti"
    by (rule seed_credential_cong) (rule hub)
  have never: "snd (fst (seed_credential (pf_dcp P) parse net args (identity_new tool_keygen (ta_host args) ''issuer'') now jti t)) \<noteq> Ok ()" for t
    using at_hub [where n = "fst t" and s = "snd t" and ticks = ticks] unfolding seed by simp
  have "snd (fst (tool_main (pf_dcp P) tool_keygen parse net listen args now jti (n, s))) \<noteq> Ok st" for st
    using never unfolding tool_main_def Let_def sio_bind_Ok by auto
  with at_hub [where n = n and s = s and ticks = ticks] show ?thesis unfolding seed by blast
qed

section \<open>Witnesses\<close>

text \<open>A hub on 127.0.0.1 and a wire that spells forms and JSON bodies in unary.\<close>

definition tool_dcp :: "(string list, unit) dcp" where
  "tool_dcp = roundtrip_dcp\<lparr>url_parse := (\<lambda>u. Ok (''http'', Some ''127.0.0.1''))\<rparr>"

definition tool_network :: "string list network" where
  "tool_network = \<lparr>resolve_did = (\<lambda>d insecure. ([''http://'' @ d], Ok [d @ ''#k''])), http_get = (\<lambda>_. Err ''refused''),
     http_post = (\<lambda>_ _ _. Err ''refused'')\<rparr>"

definition tool_keys :: "string \<Rightarrow> unit \<times> string" where
  "tool_keys d = ((), d @ ''#k'')"

definition tool_hub :: "unit app" where
  "tool_hub = the (app_new tool_dcp tool_keys (\<lambda>_. Some default_pattern_type) (sample_config CredentialService))"

definition tool_sample_args :: tool_args where
  "tool_sample_args = \<lparr>ta_target_base_url = ''http://hub'', ta_target_did = own_did (a_identity tool_hub), ta_sts_client_id = ''c'',
     ta_sts_client_secret = ''s'', ta_scope = SCOPE_ALIAS @ ''T'', ta_credential_type = ''T'', ta_host = ''127.0.0.1:9000'',
     ta_bind = ''127.0.0.1:9000'', ta_holder_pid = ''h1'', ta_issuer_pid = ''i1''\<rparr>"

definition tool_sample_state :: "unit mint_state" where
  "tool_sample_state = \<lparr>ms_target_base_url = ''http://hub'', ms_target_did = own_did (a_identity tool_hub), ms_sts_client_id = ''c'',
     ms_sts_client_secret = ''s'', ms_scope = SCOPE_ALIAS @ ''T'', ms_verifier = identity_new tool_keys ''127.0.0.1:9000'' ''verifier''\<rparr>"

definition read_form :: "(string \<times> string) list \<Rightarrow> sts_form_body" where
  "read_form fs = \<lparr>sf_grant_type = the (map_of fs ''grant_type''), sf_client_id = the (map_of fs ''client_id''),
     sf_client_secret = the (map_of fs ''client_secret''), sf_audience = the (map_of fs ''audience''),
     sf_bearer_access_scope = map_of fs ''bearer_access_scope''\<rparr>"

definition sample_seed :: credential_message where
  "sample_seed = seed_message tool_dcp tool_sample_args (identity_new tool_keys (ta_host tool_sample_args) ''issuer'') 1010 ''j1''"

definition tool_codec :: body_codec where
  "tool_codec = sample_body_codec\<lparr>sts_form_of := (\<lambda>b. Ok (read_form (from_nat (length b)))), credential_message_of := (\<lambda>_. Ok sample_seed)\<rparr>"

definition tool_wire :: wire where
  "tool_wire = \<lparr>call_of = (\<lambda>req. \<lparr>hc_method = hr_method req,
       hc_path = (if hr_url req = ''http://hub/sts/token'' then [''sts'', ''token'']
         else if hr_url req = ''http://hub/credentials'' then [''credentials''] else []),
       hc_query = [], hc_authorization = map_of (hr_headers req) ''authorization'',
       hc_body = (case hr_body req of FormBody fs \<Rightarrow> replicate (to_nat fs) CHR ''x'' | _ \<Rightarrow> [])\<rparr>),
     reply_of = (\<lambda>r. \<lparr>hp_status = r_status r, hp_headers = [],
       hp_body = Ok (case r_body r of JsonBody j \<Rightarrow> replicate (to_nat j) CHR ''x'' | _ \<Rightarrow> [])\<rparr>)\<rparr>"

definition tool_parse :: "string \<Rightarrow> (json, string) result" where
  "tool_parse t = Ok (from_nat (length t))"

definition tool_platform :: "(string list, unit, nat, int, unit) platform" where
  "tool_platform = \<lparr>pf_dcp = tool_dcp, pf_network = tool_network,
     pf_trust = \<lparr>tl_iat = (\<lambda>l. l), tl_exp = (\<lambda>l. l), tl_types = (\<lambda>l iss. None), tl_check = (\<lambda>l iss t now. (False, None)),
       snapshot_kid = (\<lambda>token. Ok token), verify_snapshot = (\<lambda>token d key now. Err ''expired'')\<rparr>,
     pf_serde = sample_serde, pf_jose = sample_jose, pf_chrono = sample_chrono, pf_codec = tool_codec, pf_arrange = rev,
     pf_catalog_of = (\<lambda>_. Err ''no''), pf_encode = (\<lambda>_. []), pf_servers = sample_servers\<rparr>"

lemma tool_law: "jws_roundtrip tool_dcp"
  using roundtrip_dcp_law by (simp add: jws_roundtrip_def tool_dcp_def)

lemma tool_hub_new: "app_new tool_dcp tool_keys (\<lambda>_. Some default_pattern_type) (sample_config CredentialService) = Some tool_hub"
  by (simp add: tool_hub_def app_new_def)

lemma tool_hub_simps:
  "a_config tool_hub = sample_config CredentialService" "a_sts_config tool_hub = \<lparr>sts_client_id = ''c'', sts_client_secret = ''s''\<rparr>"
  "a_outbound tool_hub = policy_new tool_dcp (outbound_hosts tool_dcp (sample_config CredentialService))"
  "a_identity tool_hub = identity_new tool_keys ''hub.example'' ''credential-service''"
  by (simp_all add: tool_hub_def app_new_def sample_config_def)

lemma tool_platform_simps [simp]:
  "pf_dcp tool_platform = tool_dcp" "pf_network tool_platform = tool_network" "pf_codec tool_platform = tool_codec"
  "pf_serde tool_platform = sample_serde" "pf_arrange tool_platform = rev" "credential_message_of tool_codec b = Ok sample_seed"
  by (simp_all add: tool_platform_def tool_codec_def)

lemma tool_carries: "carries tool_wire tool_codec tool_parse ''http://hub''"
proof -
  have form: "read_form (sts_form client secret aud sc) = \<lparr>sf_grant_type = ''client_credentials'', sf_client_id = client,
               sf_client_secret = secret, sf_audience = aud, sf_bearer_access_scope = sc\<rparr>" for client secret aud sc
    by (cases sc) (simp_all add: read_form_def sts_form_def)
  show ?thesis by (simp add: carries_def tool_wire_def tool_parse_def tool_codec_def form)
qed

lemma tool_verifier_known: "verifier_known tool_dcp tool_network tool_hub (ms_verifier tool_sample_state)"
proof -
  have "to_lowercase to_ascii_lowercase ''127.0.0.1'' \<in> set (allowed_hosts (a_outbound tool_hub))"
    by (simp only: tool_hub_simps policy_new_def outbound_policy.simps remdups_adj_set set_sort_strings set_map)
      (simp add: outbound_hosts_def tool_dcp_def roundtrip_dcp_def)
  then have al: "allowed tool_dcp (a_outbound tool_hub) url" for url
    by (simp add: allowed_def check_url_def tool_dcp_def roundtrip_dcp_def)
  show ?thesis
    unfolding verifier_known_def
    by (intro exI conjI al) (auto simp: tool_dcp_def roundtrip_dcp_def tool_network_def tool_sample_state_def identity_new_def tool_keys_def)
qed

theorem minted_token_presents_witness:
  "\<exists>token. mint tool_dcp tool_parse (hub_server tool_wire tool_platform tool_hub sample_tick) tool_sample_state 1010 ''j1'' (0, sample_start)
        = (([''http://hub/sts/token''], Ok token), 1, sample_start)
    \<and> (let query = presentation_query tool_dcp tool_network sample_serde rev tool_hub (Some (''Bearer '' @ token))
             \<lparr>pq_context = [], pq_type = ''PresentationQueryMessage'', pq_scope = [SCOPE_ALIAS @ ''T''], pq_definition = None\<rparr> (\<lambda>_. 1010) ''vp1''
       in r_status (respond (query (hp_state sample_start))) = 200
        \<and> r_status (respond (query (snd (query (hp_state sample_start))))) = 401)"
proof -
  define msg where "msg = \<lparr>pq_context = [], pq_type = ''PresentationQueryMessage'', pq_scope = [SCOPE_ALIAS @ ''T''], pq_definition = None\<rparr>"
  have shape: "query_shape msg = Ok ()" by (simp add: msg_def query_shape_def)
  have law: "jws_roundtrip (pf_dcp tool_platform)" using tool_law by simp
  have wire: "carries tool_wire (pf_codec tool_platform) tool_parse (ms_target_base_url tool_sample_state)"
    using tool_carries by (simp add: tool_sample_state_def)
  have client: "ms_sts_client_id tool_sample_state = sts_client_id (a_sts_config tool_hub)"
    "ms_sts_client_secret tool_sample_state = sts_client_secret (a_sts_config tool_hub)"
    by (simp_all add: tool_sample_state_def tool_hub_simps)
  have verifier: "ms_verifier tool_sample_state = identity_new tool_keys ''127.0.0.1:9000'' ''verifier''"
    by (simp add: tool_sample_state_def)
  have other: "own_did (ms_verifier tool_sample_state) \<noteq> own_did (a_identity tool_hub)"
    by (simp add: verifier tool_hub_simps identity_new_def tool_keys_def percent_encode_colons_def)
  have target: "ms_target_did tool_sample_state = own_did (a_identity tool_hub)" by (simp add: tool_sample_state_def)
  have time: "in_time (tk_clock (sample_tick 0) 0) 1010 (\<lambda>_. 1010)"
    by (simp add: in_time_def sample_tick_def u64_add_def u64_limit_def NBF_LEEWAY_SECS_def TOKEN_TTL_SECS_def)
  have new: "''j1'' |\<notin>| seen (h_seen (hp_state sample_start))" "seen_ok (h_seen (hp_state sample_start))"
    "0 < capacity (h_seen (hp_state sample_start))"
    by (simp_all add: seen_ok_new) (simp_all add: seen_new_def MAX_SEEN_JTI_def)
  have base: "ms_target_base_url tool_sample_state @ ''/sts/token'' = ''http://hub/sts/token''" by (simp add: tool_sample_state_def)
  from minted_token_presents [OF law wire client verifier other target, where ticks = sample_tick and now = 1010 and jti = "''j1''" and n = 0 and ?s0.0 = sample_start
      and s = "hp_state sample_start" and clock = "\<lambda>_. 1010" and msg = msg and vp = "''vp1''"] tool_verifier_known time new shape
  show ?thesis
    unfolding msg_def [symmetric] base by (auto simp: Let_def)
qed

text \<open>A target that answers every request with one token.\<close>

definition sample_target :: "unit servers" where
  "sample_target req w = (Ok \<lparr>hp_status = 200, hp_headers = [], hp_body = Ok (replicate (to_nat (json_obj [(''access_token'',
     JStr (sign_jws tool_dcp (json_obj [(''token'', JStr ''nested'')]) () ''k''))])) CHR ''x'')\<rparr>, w)"

lemma sample_target_token: "fetch_nested_token tool_dcp tool_parse sample_target tool_sample_state () = (([''http://hub/sts/token''], Ok ''nested''), ())"
proof -
  obtain header where "decode_jws_unverified tool_dcp (sign_jws tool_dcp (json_obj [(''token'', JStr ''nested'')]) () ''k'')
      = Ok (header, json_obj [(''token'', JStr ''nested'')])"
    by (rule jws_roundtripE [OF tool_law, of "json_obj [(''token'', JStr ''nested'')]"]) (simp, rule that)
  then show ?thesis
    by (simp add: fetch_nested_token_def request_sts_token_def sio_bind_def tool_send_def sample_target_def sio_return_def sio_lift_def
        io_pure_def io_contact_def is_success_def reply_json_def tool_parse_def tool_sample_state_def)
qed

theorem mint_batch_correct_witness:
  "\<exists>ds :: (nat \<times> nat) list. length ds = 3
     \<and> snd (fst (mint_batch tool_dcp tool_parse sample_target tool_sample_state (Some 2) (\<lambda>i j. 1010)
           (\<lambda>i j. replicate (to_nat (i, j)) CHR ''x'') 3 ()))
         = Ok (concat (map (\<lambda>(i, j). mint_outer_envelope tool_dcp tool_sample_state ''nested'' 1010 (replicate (to_nat (i, j)) CHR ''x'') @ [CHR 10]) ds))
     \<and> distinct (map (\<lambda>(i, j). mint_outer_envelope tool_dcp tool_sample_state ''nested'' 1010 (replicate (to_nat (i, j)) CHR ''x'')) ds)"
proof -
  let ?uuid = "\<lambda>(i :: nat) (j :: nat). replicate (to_nat (i, j)) CHR ''x''"
  have cores: "Some 2 \<noteq> Some (0 :: nat)" by simp
  have inj: "inj (\<lambda>(i, j). ?uuid i j)" by (auto simp: inj_on_def)
  from mint_batch_correct [OF tool_law cores, of tool_parse sample_target tool_sample_state "\<lambda>i j. 1010" ?uuid 3 "()"]
  obtain ds where "length ds = 3"
    and body: "snd (fst (mint_batch tool_dcp tool_parse sample_target tool_sample_state (Some 2) (\<lambda>i j. 1010) ?uuid 3 ()))
      = Ok (concat (map (\<lambda>(i, j). mint_outer_envelope tool_dcp tool_sample_state ''nested'' 1010 (?uuid i j) @ [CHR 10]) ds))"
    and "distinct (map (\<lambda>(i, j). mint_outer_envelope tool_dcp tool_sample_state ''nested'' 1010 (?uuid i j)) ds)"
    unfolding sample_target_token using inj by auto
  then show ?thesis by blast
qed

theorem seeding_refused_witness:
  "(\<forall>st. snd (fst (tool_main tool_dcp tool_keys tool_parse (hub_server tool_wire tool_platform tool_hub sample_tick) (\<lambda>_. Ok ())
       tool_sample_args 1010 ''j1'' (0, sample_start))) \<noteq> Ok st)
   \<and> h_store (hp_state (snd (snd (seed_credential tool_dcp tool_parse (hub_server tool_wire tool_platform tool_hub sample_tick)
       tool_sample_args (identity_new tool_keys (ta_host tool_sample_args) ''issuer'') 1010 ''j1'' (0, sample_start))))) = store_new"
proof -
  have law: "jws_roundtrip (pf_dcp tool_platform)" using tool_law by simp
  have start: "app_new (pf_dcp tool_platform) tool_keys (\<lambda>_. Some default_pattern_type) (sample_config CredentialService) = Some tool_hub"
    using tool_hub_new by simp
  have mode: "cfg_mode (sample_config CredentialService) = CredentialService" by (simp add: sample_config_def)
  have wire: "carries tool_wire (pf_codec tool_platform) tool_parse (ta_target_base_url tool_sample_args)"
    using tool_carries by (simp add: tool_sample_args_def)
  have arrives: "credential_message_of (pf_codec tool_platform) b
      = Ok (seed_message (pf_dcp tool_platform) tool_sample_args (identity_new tool_keys (ta_host tool_sample_args) ''issuer'') 1010 ''j1'')" for b
    by (simp add: sample_seed_def)
  from seeding_refused [where n = 0 and s = sample_start and listen = "\<lambda>_. Ok ()" and ticks = sample_tick, OF law start mode wire arrives refl]
  show ?thesis by simp
qed

end
